(* ===== verification/Prelude.thy ===== *)
theory Prelude
  imports Complex_Main
    "HOL-Library.Finite_Map"
    "HOL-Library.Char_ord"
    "HOL-Library.List_Lexorder"
    "HOL-Library.Product_Lexorder"
    "HOL-Library.Sublist"
    "HOL-Library.Multiset"
    "HOL-Library.Word"
begin

text \<open>
  Shared vocabulary of the development: Go's \<open>time.Time\<close> and \<open>time.Duration\<close>, Go maps as finite
  maps with zero-value lookup, byte strings, stable sorting, and the generic lemmas on them that
  the component theories use.

  \<^item> A \<open>time.Time\<close> is an integer count of nanoseconds since Go's zero time (1 January of year 1),
    so \<open>IsZero\<close> is equality with 0; only the wall-clock reading is modelled. \<open>Before\<close> and
    \<open>After\<close> are written \<open><\<close> and \<open>>\<close>. \<open>Time.Sub\<close> saturates at the bounds of a 64-bit
    duration, as in the standard library.
  \<^item> A Go map is an \<open>fmap\<close>; a nil map and an empty map read alike. \<open>fmget d m k\<close> is the
    one-result lookup \<open>m[k]\<close>, which yields the zero value \<open>d\<close> for a missing key. Where the code
    ranges over a map, whose order Go leaves open, the model uses the key order.
  \<^item> A Go string or byte slice is a list of 8-bit characters; \<open><\<close> on strings is bytewise.
  \<^item> A \<open>float64\<close> is a real number; rounding, infinities and NaN are not modelled.
\<close>

named_theorems fm_simps \<open>lookup laws of the finite-map operations used by the components\<close>

subsection \<open>Time\<close>

type_synonym gotime = int
type_synonym duration = int
type_synonym uint64 = "64 word"

definition max_duration :: duration where
  "max_duration = 2 ^ 63 - 1"

definition min_duration :: duration where
  "min_duration = - (2 ^ 63)"

definition time_sub :: "gotime \<Rightarrow> gotime \<Rightarrow> duration" where
  "time_sub a b = max min_duration (min max_duration (a - b))"

definition second :: duration where
  "second = 1000000000"

definition minute :: duration where
  "minute = 60 * second"

definition hour :: duration where
  "hour = 60 * minute"

definition seconds_of :: "duration \<Rightarrow> real" where
  "seconds_of d = real_of_int d / 1000000000"

lemma time_sub_less_iff:
  "d \<le> max_duration \<Longrightarrow> min_duration < d \<Longrightarrow> time_sub a b < d \<longleftrightarrow> a - b < d"
  by (auto simp: time_sub_def min_def max_def)

lemma time_sub_gt_iff:
  "d < max_duration \<Longrightarrow> min_duration \<le> d \<Longrightarrow> d < time_sub a b \<longleftrightarrow> d < a - b"
  by (auto simp: time_sub_def min_def max_def min_duration_def max_duration_def)

lemma time_sub_gt_imp: "d < time_sub a b \<Longrightarrow> min_duration \<le> d \<Longrightarrow> d < a - b"
  by (auto simp: time_sub_def min_def max_def split: if_splits)

lemma time_sub_mono: "a \<le> a' \<Longrightarrow> time_sub a b \<le> time_sub a' b"
  by (auto simp: time_sub_def)

lemma time_sub_antimono: "b \<le> b' \<Longrightarrow> time_sub a b' \<le> time_sub a b"
  by (auto simp: time_sub_def)

lemma time_sub_self [simp]: "time_sub a a = 0"
  by (simp add: time_sub_def min_duration_def max_duration_def)

lemma time_sub_nonneg: "b \<le> a \<Longrightarrow> 0 \<le> time_sub a b"
  by (simp add: time_sub_def min_duration_def max_duration_def)

lemma time_sub_pos_iff: "0 < time_sub a b \<longleftrightarrow> b < a"
  by (auto simp: time_sub_def min_duration_def max_duration_def)

lemma time_sub_exact:
  "min_duration \<le> a - b \<Longrightarrow> a - b \<le> max_duration \<Longrightarrow> time_sub a b = a - b"
  by (simp add: time_sub_def)

lemma seconds_of_mono: "a \<le> b \<Longrightarrow> seconds_of a \<le> seconds_of b"
  by (simp add: seconds_of_def divide_right_mono)

lemma seconds_of_pos: "0 < d \<Longrightarrow> 0 < seconds_of d"
  by (simp add: seconds_of_def)

lemma seconds_of_nonneg: "0 \<le> d \<Longrightarrow> 0 \<le> seconds_of d"
  by (simp add: seconds_of_def)

subsection \<open>Go maps\<close>

definition fmget :: "'v \<Rightarrow> ('k, 'v) fmap \<Rightarrow> 'k \<Rightarrow> 'v" where
  "fmget d m k = (case fmlookup m k of None \<Rightarrow> d | Some v \<Rightarrow> v)"

text \<open>Deleting, while ranging over a map, the entries for which the test fails.\<close>

definition fmkeep :: "('k \<Rightarrow> 'v \<Rightarrow> bool) \<Rightarrow> ('k, 'v) fmap \<Rightarrow> ('k, 'v) fmap" where
  "fmkeep P m = fmfilter (\<lambda>k. case fmlookup m k of None \<Rightarrow> False | Some v \<Rightarrow> P k v) m"

definition fmkeys :: "('k::linorder, 'v) fmap \<Rightarrow> 'k list" where
  "fmkeys m = sorted_list_of_fset (fmdom m)"

lemma fmget_empty [simp]: "fmget d fmempty k = d"
  by (simp add: fmget_def)

lemma fmget_upd [simp]: "fmget d (fmupd a v m) k = (if a = k then v else fmget d m k)"
  by (simp add: fmget_def)

lemma fmget_Some [simp]: "fmlookup m k = Some v \<Longrightarrow> fmget d m k = v"
  by (simp add: fmget_def)

lemma fmget_None [simp]: "fmlookup m k = None \<Longrightarrow> fmget d m k = d"
  by (simp add: fmget_def)

lemma fmlookup_keep [simp, fm_simps]:
  "fmlookup (fmkeep P m) k =
     (case fmlookup m k of None \<Rightarrow> None | Some v \<Rightarrow> if P k v then Some v else None)"
  by (simp add: fmkeep_def split: option.splits)

lemma fmlookup_keep_Some:
  "fmlookup (fmkeep P m) k = Some v \<longleftrightarrow> fmlookup m k = Some v \<and> P k v"
  by (auto split: option.splits if_splits)

lemma fmkeep_empty [simp]: "fmkeep P fmempty = fmempty"
  by (simp add: fmkeep_def)

lemma fmkeep_all: "(\<And>k v. fmlookup m k = Some v \<Longrightarrow> P k v) \<Longrightarrow> fmkeep P m = m"
  by (rule fmap_ext) (auto split: option.splits)

lemma fmkeep_upd:
  "fmkeep P (fmupd a v m) = (if P a v then fmupd a v (fmkeep P m) else fmdrop a (fmkeep P m))"
  by (rule fmap_ext) (auto split: option.splits)

lemma set_fmkeys [simp]: "set (fmkeys m) = fmdom' m"
  by (simp add: fmkeys_def fmdom'_alt_def)

lemma fmkeys_mem: "k \<in> set (fmkeys m) \<longleftrightarrow> fmlookup m k \<noteq> None"
  by (auto simp: fmlookup_dom'_iff)

lemma distinct_fmkeys [simp]: "distinct (fmkeys m)"
  by (simp add: fmkeys_def sorted_list_of_fset.rep_eq)

lemma sorted_fmkeys [simp]: "sorted (fmkeys m)"
  by (simp add: fmkeys_def sorted_list_of_fset.rep_eq)

lemma fmkeys_empty [simp]: "fmkeys fmempty = []"
  by (simp add: fmkeys_def sorted_list_of_fset.rep_eq)

lemma fmkeys_upd: "fmkeys (fmupd k v m) = insort k (remove1 k (fmkeys m))"
proof -
  have fin: "finite (fmdom' m)"
    by simp
  have "fmkeys (fmupd k v m) = sorted_list_of_set (insert k (fmdom' m))"
    by (simp add: fmkeys_def sorted_list_of_fset.rep_eq fmdom'_alt_def)
  also have "\<dots> = insort k (sorted_list_of_set (fmdom' m - {k}))"
    using fin by (rule sorted_list_of_set.sorted_key_list_of_set_insert_remove)
  also have "sorted_list_of_set (fmdom' m - {k}) = remove1 k (sorted_list_of_set (fmdom' m))"
    using fin by (rule sorted_list_of_set.sorted_key_list_of_set_remove)
  finally show ?thesis
    by (simp add: fmkeys_def sorted_list_of_fset.rep_eq fmdom'_alt_def)
qed

subsection \<open>Strings\<close>

text \<open>
  \<open>strings.ToLower\<close>, \<open>strings.TrimSpace\<close>, \<open>strings.Contains\<close>, \<open>strings.HasPrefix\<close> and
  \<open>strings.Index\<close>. The first two are modelled on their ASCII range, which is what the strings
  they are applied to are made of; bytes above 127 are left as they are.
\<close>

definition lower_char :: "char \<Rightarrow> char" where
  "lower_char c =
     (let n = (of_char c :: nat) in if 65 \<le> n \<and> n \<le> 90 then char_of (n + 32) else c)"

definition ToLower :: "string \<Rightarrow> string" where
  "ToLower s = map lower_char s"

definition is_space :: "char \<Rightarrow> bool" where
  "is_space c \<longleftrightarrow> (let n = (of_char c :: nat) in n = 32 \<or> 9 \<le> n \<and> n \<le> 13)"

definition TrimSpace :: "string \<Rightarrow> string" where
  "TrimSpace s = rev (dropWhile is_space (rev (dropWhile is_space s)))"

definition Contains :: "string \<Rightarrow> string \<Rightarrow> bool" where
  "Contains s sub \<longleftrightarrow> sublist sub s"

definition HasPrefix :: "string \<Rightarrow> string \<Rightarrow> bool" where
  "HasPrefix s pre \<longleftrightarrow> prefix pre s"

fun Index :: "string \<Rightarrow> string \<Rightarrow> nat option" where
  "Index [] sub = (if sub = [] then Some 0 else None)"
| "Index (c # s) sub =
     (if prefix sub (c # s) then Some 0 else map_option Suc (Index s sub))"

lemma Index_SomeD: "Index s sub = Some i \<Longrightarrow> i \<le> length s \<and> prefix sub (drop i s)"
  by (induction s arbitrary: i) (auto split: if_splits)

lemma Index_least: "Index s sub = Some i \<Longrightarrow> j < i \<Longrightarrow> \<not> prefix sub (drop j s)"
proof (induction s arbitrary: i j)
  case (Cons c s)
  then show ?case by (cases j) (auto split: if_splits)
qed (auto split: if_splits)

lemma Index_None: "Index s sub = None \<Longrightarrow> \<not> prefix sub (drop j s)"
proof (induction s arbitrary: j)
  case (Cons c s)
  then show ?case by (cases j) (auto split: if_splits)
qed (auto split: if_splits)

text \<open>\<open>strings.Split\<close> on a one-byte separator.\<close>

fun split_on :: "char \<Rightarrow> string \<Rightarrow> string list" where
  "split_on c [] = [[]]"
| "split_on c (x # xs) =
     (if x = c then [] # split_on c xs
      else case split_on c xs of
             [] \<Rightarrow> [[x]]
           | w # ws \<Rightarrow> (x # w) # ws)"

subsection \<open>Lists\<close>

lemma find_SomeD: "find P xs = Some x \<Longrightarrow> x \<in> set xs \<and> P x"
  by (induction xs) (auto split: if_splits)

lemma find_NoneD: "find P xs = None \<Longrightarrow> x \<in> set xs \<Longrightarrow> \<not> P x"
  by (induction xs) (auto split: if_splits)

text \<open>
  A loop over keys whose body changes, of everything \<open>get\<close> observes, only what belongs to the key at
  hand. Ranges over Go maps have distinct keys; otherwise the body must be idempotent.
\<close>

lemma foldl_pointwise:
  assumes step: "\<And>s n k. get (f s n) k = (if k = n then g n (get s k) else get s k)"
    and once: "distinct ks \<or> (\<forall>k v. g k (g k v) = g k v)"
  shows "get (foldl f s ks) k = (if k \<in> set ks then g k (get s k) else get s k)"
  using once by (induction ks arbitrary: s) (auto simp: step)

lemma foldl_invariant: "P s \<Longrightarrow> (\<And>s x. x \<in> set xs \<Longrightarrow> P s \<Longrightarrow> P (f s x)) \<Longrightarrow> P (foldl f s xs)"
  by (induction xs arbitrary: s) auto

lemma foldl_preserves: "(\<And>s x. h (f s x) = h s) \<Longrightarrow> h (foldl f s xs) = h s"
  by (induction xs arbitrary: s) auto

end
