(* ===== verification/Quota_Snapshot.thy ===== *)
theory Quota_Snapshot
  imports Prelude
begin

text \<open>
  The quota value types of \<open>internal/provider/provider.go\<close> and the pure judgements over one
  snapshot: the pace score (\<open>Surplus\<close>), the billing-period start (\<open>UsageWindow\<close>), the burn-rate
  prediction (\<open>EstimateExhaustionEta\<close> of \<open>quota_eta.go\<close>), and the runtime's reading of a snapshot
  as exhausted or as proof of available budget (\<open>manager_schedule.go\<close>, \<open>manager_quota.go\<close>).
  A snapshot pointer is an option; a fraction is a real number.
\<close>

subsection \<open>Data\<close>

datatype BillingClass = BillingUnknown | BillingPlan | BillingPayG

record QuotaDetail =
  qd_Label :: string
  qd_Used :: real

record QuotaWindow =
  qw_Label :: string
  qw_Kind :: string
  qw_Used :: real
  qw_Total :: real
  qw_RemainingPct :: real
  qw_ResetsAt :: gotime
  qw_Details :: "QuotaDetail list"
  qw_DetailLabel :: string
  qw_Ultimate :: bool
  qw_Short :: bool
  qw_Duration :: duration

record QuotaSnapshot =
  qs_Billing :: BillingClass
  qs_RemainingPct :: real
  qs_Account :: string
  qs_Plan :: string
  qs_Level :: string
  qs_Windows :: "QuotaWindow list"
  qs_Notes :: "string list"
  qs_AsOf :: gotime
  qs_Err :: string
  qs_ExhaustionEta :: gotime
  qs_UsageFrom :: gotime

subsection \<open>The pace score\<close>

text \<open>
  The scan of \<open>Surplus\<close> keeps the last window marked \<open>Ultimate\<close> and collects the \<open>Short\<close> ones
  among the others.
\<close>

fun surplus_scan ::
  "QuotaWindow list \<Rightarrow> QuotaWindow option \<Rightarrow> QuotaWindow list \<Rightarrow> QuotaWindow option \<times> QuotaWindow list" where
  "surplus_scan [] ult shorts = (ult, shorts)"
| "surplus_scan (w # ws) ult shorts =
     (if qw_Ultimate w then surplus_scan ws (Some w) shorts
      else if qw_Short w then surplus_scan ws ult (shorts @ [w])
      else surplus_scan ws ult shorts)"

fun burn_shorts :: "QuotaWindow \<Rightarrow> real \<Rightarrow> QuotaWindow list \<Rightarrow> real \<Rightarrow> real" where
  "burn_shorts ult peakMult [] remaining = remaining"
| "burn_shorts ult peakMult (sh # shs) remaining =
     burn_shorts ult peakMult shs
       (if 0 \<le> qw_RemainingPct sh \<and> 0 < qw_Total sh
        then remaining - qw_RemainingPct sh * (qw_Total sh / qw_Total ult) * (peakMult - 1)
        else remaining)"

definition fLeft :: "QuotaWindow \<Rightarrow> gotime \<Rightarrow> real" where
  "fLeft ult now =
     (let f = seconds_of (time_sub (qw_ResetsAt ult) now) / seconds_of (qw_Duration ult)
      in if f < 0 then 0 else if 1 < f then 1 else f)"

definition Surplus :: "QuotaSnapshot \<Rightarrow> gotime \<Rightarrow> real \<Rightarrow> real" where
  "Surplus s now peakMult =
     (if qs_Billing s \<noteq> BillingPlan \<or> qs_RemainingPct s < 0 then 0
      else
        (let (ult, shorts) = surplus_scan (qs_Windows s) None []
         in case ult of
              None \<Rightarrow> 0
            | Some u \<Rightarrow>
                if qw_RemainingPct u < 0 \<or> qw_Duration u \<le> 0 \<or> qw_ResetsAt u = 0 then 0
                else
                  (let remaining = qw_RemainingPct u;
                       remaining = (if 1 < peakMult \<and> 0 < qw_Total u
                                    then burn_shorts u peakMult shorts remaining else remaining)
                   in remaining - fLeft u now)))"

text \<open>
  \<open>remainingRatio\<close>: the fraction every provider parser normalises with. The guards against NaN
  and infinities have no counterpart on real numbers.
\<close>

definition remainingRatio :: "real \<Rightarrow> real \<Rightarrow> real" where
  "remainingRatio remaining limit =
     (if limit \<le> 0 then -1
      else let rem = remaining / limit in if rem < 0 then 0 else rem)"

definition ultimateRemaining :: "QuotaWindow list \<Rightarrow> real" where
  "ultimateRemaining ws = (case find qw_Ultimate ws of None \<Rightarrow> -1 | Some w \<Rightarrow> qw_RemainingPct w)"

definition ultimateWindow :: "QuotaSnapshot \<Rightarrow> QuotaWindow option" where
  "ultimateWindow s = find qw_Ultimate (qs_Windows s)"

definition UsageWindow :: "QuotaSnapshot option \<Rightarrow> gotime \<Rightarrow> gotime option" where
  "UsageWindow s now =
     (case s of
        None \<Rightarrow> None
      | Some q \<Rightarrow>
          if qs_Billing q \<noteq> BillingPlan \<or> qs_Err q \<noteq> [] then None
          else case find qw_Ultimate (qs_Windows q) of
                 None \<Rightarrow> None
               | Some u \<Rightarrow>
                   if qw_ResetsAt u = 0 \<or> qw_Duration u \<le> 0 then None
                   else let from = qw_ResetsAt u + - qw_Duration u
                        in if \<not> from < now then None else Some from)"

subsection \<open>Burn-rate prediction\<close>

text \<open>The result 0 is Go's zero time: no prediction.\<close>

definition EstimateExhaustionEta ::
  "QuotaSnapshot option \<Rightarrow> QuotaSnapshot option \<Rightarrow> duration \<Rightarrow> gotime" where
  "EstimateExhaustionEta prev cur maxGap =
     (case (prev, cur) of
        (Some p, Some c) \<Rightarrow>
          if qs_Err p \<noteq> [] \<or> qs_Err c \<noteq> [] then 0
          else if qs_AsOf p = 0 \<or> qs_AsOf c = 0 then 0
          else
            (let dt = time_sub (qs_AsOf c) (qs_AsOf p)
             in if dt \<le> 0 \<or> (0 < maxGap \<and> maxGap < dt) then 0
                else case (ultimateWindow p, ultimateWindow c) of
                       (Some pw, Some cw) \<Rightarrow>
                         if qw_Total pw \<le> 0 \<or> qw_Total cw \<le> 0 \<or> qw_RemainingPct cw < 0 then 0
                         else
                           (let rate = (qw_Used cw - qw_Used pw) / seconds_of dt
                            in if rate \<le> 0 then 0
                               else
                                 (let remaining = qw_Total cw - qw_Used cw
                                  in if remaining \<le> 0 then 0
                                     else qs_AsOf c + \<lfloor>remaining / rate * real_of_int second\<rfloor>))
                     | _ \<Rightarrow> 0)
      | _ \<Rightarrow> 0)"

subsection \<open>Exhausted, or proved available\<close>

definition QuotaExhaustedUntil :: "QuotaSnapshot option \<Rightarrow> gotime \<Rightarrow> duration \<Rightarrow> gotime" where
  "QuotaExhaustedUntil snapshot now maxAge =
     (case snapshot of
        None \<Rightarrow> 0
      | Some s \<Rightarrow>
          if qs_Billing s \<noteq> BillingPlan \<or> qs_Err s \<noteq> [] then 0
          else case find (\<lambda>w. qw_Ultimate w \<and> qw_RemainingPct w = 0) (qs_Windows s) of
                 None \<Rightarrow> 0
               | Some w \<Rightarrow>
                   if maxAge < time_sub now (qs_AsOf s) then 0
                   else
                     (let until = qs_AsOf s + maxAge;
                          until = (if now < qw_ResetsAt w \<and> qw_ResetsAt w < until
                                   then qw_ResetsAt w else until)
                      in if until < now then now else until))"

definition quotaExhausted :: "QuotaSnapshot option \<Rightarrow> gotime \<Rightarrow> duration \<Rightarrow> bool" where
  "quotaExhausted snapshot now maxAge \<longleftrightarrow> QuotaExhaustedUntil snapshot now maxAge \<noteq> 0"

definition quotaProvesBudgetAvailable :: "QuotaSnapshot option \<Rightarrow> gotime \<Rightarrow> duration \<Rightarrow> bool" where
  "quotaProvesBudgetAvailable snapshot now maxAge =
     (case snapshot of
        None \<Rightarrow> False
      | Some s \<Rightarrow>
          if qs_Err s \<noteq> [] \<or> qs_Billing s \<noteq> BillingPlan then False
          else if 0 < maxAge \<and> maxAge < time_sub now (qs_AsOf s) then False
          else if qs_Windows s = [] then False
          else list_all (\<lambda>w. \<not> qw_RemainingPct w \<le> 0) (qs_Windows s))"

definition quotaSyncFailedKeepsExisting ::
  "QuotaSnapshot option \<Rightarrow> QuotaSnapshot option \<Rightarrow> bool" where
  "quotaSyncFailedKeepsExisting existing incoming =
     (case incoming of
        None \<Rightarrow> False
      | Some i \<Rightarrow> qs_Err i \<noteq> [] \<and> existing \<noteq> None)"

subsection \<open>The pace score: bounds and monotonicity\<close>

lemma fLeft_bounds: "0 \<le> fLeft u now \<and> fLeft u now \<le> 1"
  by (simp add: fLeft_def Let_def)

lemma fLeft_antimono:
  assumes "now \<le> now'" and "0 < qw_Duration u"
  shows "fLeft u now' \<le> fLeft u now"
proof -
  have "seconds_of (time_sub (qw_ResetsAt u) now') / seconds_of (qw_Duration u)
      \<le> seconds_of (time_sub (qw_ResetsAt u) now) / seconds_of (qw_Duration u)"
    using assms
    by (intro divide_right_mono seconds_of_mono time_sub_antimono seconds_of_nonneg) auto
  then show ?thesis
    by (simp add: fLeft_def Let_def)
qed

lemma burn_shorts_le:
  assumes "0 < qw_Total ult" and "1 \<le> peakMult"
  shows "burn_shorts ult peakMult shs r \<le> r"
  using assms
proof (induction ult peakMult shs r rule: burn_shorts.induct)
  case (1 ult peakMult remaining)
  then show ?case by simp
next
  case (2 ult peakMult sh shs remaining)
  let ?r = "if 0 \<le> qw_RemainingPct sh \<and> 0 < qw_Total sh
        then remaining - qw_RemainingPct sh * (qw_Total sh / qw_Total ult) * (peakMult - 1)
        else remaining"
  have "?r \<le> remaining"
    using "2.prems" by (simp add: mult_nonneg_nonneg)
  with "2.IH" "2.prems" show ?case by fastforce
qed

text \<open>How the two scalar arguments enter the score, once the windows are scanned.\<close>

lemma Surplus_cases:
  obtains (neutral) "\<And>now peak. Surplus s now peak = 0"
  | (measured) u shorts where
      "surplus_scan (qs_Windows s) None [] = (Some u, shorts)" "0 \<le> qw_RemainingPct u"
      "0 < qw_Duration u" "qw_ResetsAt u \<noteq> 0" "qs_Billing s = BillingPlan"
      "\<And>now peak. Surplus s now peak =
         (if 1 < peak \<and> 0 < qw_Total u then burn_shorts u peak shorts (qw_RemainingPct u)
          else qw_RemainingPct u) - fLeft u now"
proof (cases "qs_Billing s \<noteq> BillingPlan \<or> qs_RemainingPct s < 0")
  case True
  then show ?thesis by (intro neutral) (simp add: Surplus_def)
next
  case plan: False
  obtain ult shorts where scan: "surplus_scan (qs_Windows s) None [] = (ult, shorts)"
    by (cases "surplus_scan (qs_Windows s) None []")
  show ?thesis
  proof (cases ult)
    case None
    with scan show ?thesis by (intro neutral) (simp add: Surplus_def)
  next
    case (Some u)
    show ?thesis
    proof (cases "qw_RemainingPct u < 0 \<or> qw_Duration u \<le> 0 \<or> qw_ResetsAt u = 0")
      case True
      with scan Some show ?thesis by (intro neutral) (simp add: Surplus_def)
    next
      case False
      with plan scan Some show ?thesis
        by (intro measured [of u shorts]) (simp_all add: Surplus_def Let_def not_less not_le)
    qed
  qed
qed

lemma surplus_scan_Some_mem:
  "surplus_scan ws ult shorts = (Some u, shorts') \<Longrightarrow> ult = Some u \<or> u \<in> set ws \<and> qw_Ultimate u"
  by (induction ws ult shorts rule: surplus_scan.induct) (auto split: if_splits)

subsection \<open>Exhaustion windows\<close>

lemma quota_proof_not_exhausted:
  "quotaProvesBudgetAvailable s now maxAge \<Longrightarrow> \<not> quotaExhausted s now maxAge"
  by (fastforce simp: quotaProvesBudgetAvailable_def quotaExhausted_def QuotaExhaustedUntil_def
      list_all_iff dest: find_SomeD split: option.splits if_splits)

lemma QuotaExhaustedUntil_ge_now:
  "QuotaExhaustedUntil s now maxAge \<noteq> 0 \<Longrightarrow> now \<le> QuotaExhaustedUntil s now maxAge"
  by (auto simp: QuotaExhaustedUntil_def Let_def split: option.splits if_splits)

lemma quotaExhausted_persists:
  assumes ex: "QuotaExhaustedUntil s now maxAge \<noteq> 0"
    and t: "now \<le> t" "t < QuotaExhaustedUntil s now maxAge"
    and pos: "0 < now" and age: "0 \<le> maxAge"
  shows "quotaExhausted s t maxAge"
proof -
  from ex obtain q w where q: "s = Some q" "qs_Billing q = BillingPlan" "qs_Err q = []"
    and w: "find (\<lambda>w. qw_Ultimate w \<and> qw_RemainingPct w = 0) (qs_Windows q) = Some w"
    and fresh: "\<not> maxAge < time_sub now (qs_AsOf q)"
    by (auto simp: QuotaExhaustedUntil_def split: option.splits if_splits)
  have "t < qs_AsOf q + maxAge"
    using t q w fresh by (auto simp: QuotaExhaustedUntil_def Let_def split: if_splits)
  then have "\<not> maxAge < time_sub t (qs_AsOf q)"
    using age by (auto dest!: time_sub_gt_imp simp: min_duration_def)
  with q w pos t show ?thesis
    by (auto simp: quotaExhausted_def QuotaExhaustedUntil_def Let_def)
qed

end
