(* ===== verification/Manager_State.thy ===== *)
theory Manager_State
  imports Quota_Snapshot
begin

text \<open>
  The routing state of \<open>internal/runtime\<close>: the value types of \<open>manager_types.go\<close>, the
  \<open>Manager\<close> struct of \<open>manager.go\<close> as one record, the generation gate, and the operations that
  replace the whole state at a configuration reload.

  Every exported method of the Go \<open>Manager\<close> runs inside one critical section of \<open>m.mu\<close>, so a
  method is a function from \<open>Manager\<close> to \<open>Manager\<close> (with its result), a clock reading is an
  argument, and any concurrent execution is some sequence of these functions. \<open>ensureLocked\<close> only
  turns nil maps into empty ones, which the finite maps of the model do not tell apart. Go's
  \<open>int\<close> counters are integers; the \<open>uint64\<close> generation and rotation counters are 64-bit words.
\<close>

subsection \<open>Value types\<close>

datatype RateLimitKind = Transient | Quota | Daily

fun RateLimitKind_String :: "RateLimitKind \<Rightarrow> string" where
  "RateLimitKind_String Quota = ''quota''"
| "RateLimitKind_String Daily = ''daily''"
| "RateLimitKind_String Transient = ''transient''"

definition ParseRateLimitKind :: "string \<Rightarrow> RateLimitKind" where
  "ParseRateLimitKind s =
     (let t = ToLower (TrimSpace s)
      in if t = ''quota'' then Quota else if t = ''daily'' then Daily else Transient)"

record Sticky =
  st_Provider :: string
  st_Since :: gotime

definition noSticky :: Sticky where
  "noSticky = \<lparr> st_Provider = [], st_Since = 0 \<rparr>"

definition stickySep :: string where
  "stickySep = [CHR 0x1F]"

definition StickyKey :: "string \<Rightarrow> string \<Rightarrow> string" where
  "StickyKey sessionKey exposed = (if sessionKey = [] then exposed else sessionKey @ stickySep @ exposed)"

record Pin =
  pin_Provider :: string
  pin_ExpiresAt :: gotime

definition Pin_Active :: "Pin \<Rightarrow> gotime \<Rightarrow> bool" where
  "Pin_Active p now \<longleftrightarrow> pin_ExpiresAt p = 0 \<or> now < pin_ExpiresAt p"

record Latch =
  la_Target :: string
  la_Since :: gotime
  la_BadRuns :: int

definition noLatch :: Latch where
  "noLatch = \<lparr> la_Target = [], la_Since = 0, la_BadRuns = 0 \<rparr>"

datatype latchKey = LatchKey (lk_SessionKey: string) (lk_Route: string)

record LatchOutcome =
  lo_SessionKey :: string
  lo_Route :: string
  lo_Now :: gotime
  lo_Dwell :: duration
  lo_Consecutive :: int
  lo_Target :: string
  lo_BadSignals :: int
  lo_Good :: bool

datatype repeatTurnKey = RepeatTurnKey (rt_SessionKey: string) (rt_Route: string)

record repeatTurnEntry =
  re_TurnKey :: string
  re_At :: gotime

record repeatTurnWindow =
  rw_Entries :: "repeatTurnEntry list"

definition maxRepeatTurnWindowEntries :: nat where
  "maxRepeatTurnWindowEntries = 64"

datatype ModelKey = ModelKey (mk_Provider: string) (mk_Model: string)

text \<open>Keys are ordered by provider, then model, so that maps keyed by them have a key order.\<close>

instantiation ModelKey :: linorder
begin

definition less_eq_ModelKey :: "ModelKey \<Rightarrow> ModelKey \<Rightarrow> bool" where
  "less_eq_ModelKey a b \<longleftrightarrow> (mk_Provider a, mk_Model a) \<le> (mk_Provider b, mk_Model b)"

definition less_ModelKey :: "ModelKey \<Rightarrow> ModelKey \<Rightarrow> bool" where
  "less_ModelKey a b \<longleftrightarrow> (mk_Provider a, mk_Model a) < (mk_Provider b, mk_Model b)"

instance
  by standard
    (auto simp: less_eq_ModelKey_def less_ModelKey_def ModelKey.expand order.strict_iff_order
      simp del: less_eq_prod_simp less_prod_simp)

end

record providerHealth =
  ph_consecutiveFailures :: int
  ph_streakStartedAt :: gotime
  ph_circuitOpenUntil :: gotime
  ph_rateLimitedUntil :: gotime
  ph_rateLimitKind :: RateLimitKind
  ph_halfOpenInFlight :: bool
  ph_frozen :: bool

text \<open>The zero value \<open>&providerHealth{}\<close>, created lazily by the recording methods.\<close>

definition newHealth :: providerHealth where
  "newHealth =
     \<lparr> ph_consecutiveFailures = 0, ph_streakStartedAt = 0, ph_circuitOpenUntil = 0,
       ph_rateLimitedUntil = 0, ph_rateLimitKind = Transient, ph_halfOpenInFlight = False,
       ph_frozen = False \<rparr>"

text \<open>A scheduling target: the configuration's view of one (provider, model) of a route.\<close>

record Target =
  tg_Provider :: string
  tg_Parent :: string
  tg_Model :: string
  tg_Priority :: int
  tg_PeakMultiplier :: real
  tg_Billing :: BillingClass

record modelLock =
  ml_failures :: int
  ml_lockedUntil :: gotime

record providerQuality =
  pq_errRate :: real
  pq_errAt :: gotime
  pq_ttftNorm :: real
  pq_ttftAt :: gotime

definition noQuality :: providerQuality where
  "noQuality = \<lparr> pq_errRate = 0, pq_errAt = 0, pq_ttftNorm = 0, pq_ttftAt = 0 \<rparr>"

subsection \<open>The Manager\<close>

text \<open>
  A set-valued Go map \<open>map[K]bool\<close>, into which only \<open>true\<close> is ever stored, is a finite set.
  Stored quota pointers may be nil, hence the option in \<open>m_quotas\<close>.
\<close>

record Manager =
  m_generation :: uint64
  m_health :: "(string, providerHealth) fmap"
  m_sticky :: "(string, Sticky) fmap"
  m_latch :: "(latchKey, Latch) fmap"
  m_repeatTurns :: "(repeatTurnKey, repeatTurnWindow) fmap"
  m_pins :: "(string, Pin) fmap"
  m_modelLocks :: "(ModelKey, modelLock) fmap"
  m_paramBlock :: "(ModelKey, string fset) fmap"
  m_disabledModels :: "ModelKey fset"
  m_spread :: "(string, uint64) fmap"
  m_rr :: "(string, uint64) fmap"
  m_quotas :: "(string, QuotaSnapshot option) fmap"
  m_quality :: "(string, providerQuality) fmap"

definition newManager :: Manager where
  "newManager =
     \<lparr> m_generation = 0, m_health = fmempty, m_sticky = fmempty, m_latch = fmempty,
       m_repeatTurns = fmempty, m_pins = fmempty, m_modelLocks = fmempty, m_paramBlock = fmempty,
       m_disabledModels = {||}, m_spread = fmempty, m_rr = fmempty, m_quotas = fmempty,
       m_quality = fmempty \<rparr>"

text \<open>\<open>m.quotas[name]\<close>: nil for an absent key and for a stored nil pointer alike.\<close>

abbreviation quota_of :: "Manager \<Rightarrow> string \<Rightarrow> QuotaSnapshot option" where
  "quota_of m name \<equiv> fmget None (m_quotas m) name"

definition generationMatches :: "Manager \<Rightarrow> uint64 \<Rightarrow> bool" where
  "generationMatches m generation \<longleftrightarrow> generation = 0 \<or> generation = m_generation m"

definition GenerationArg :: "uint64 list \<Rightarrow> uint64" where
  "GenerationArg generations = (case generations of [] \<Rightarrow> 0 | g # _ \<Rightarrow> g)"

definition ReplaceGeneration :: "uint64 \<Rightarrow> string fset \<Rightarrow> Manager \<Rightarrow> Manager" where
  "ReplaceGeneration generation liveQuotaKeys m =
     m \<lparr> m_generation := generation, m_health := fmempty, m_sticky := fmempty, m_latch := fmempty,
         m_repeatTurns := fmempty, m_modelLocks := fmempty, m_paramBlock := fmempty,
         m_spread := fmempty, m_rr := fmempty,
         m_quotas := fmkeep (\<lambda>name _. name |\<in>| liveQuotaKeys) (m_quotas m),
         m_quality := fmempty \<rparr>"

text \<open>
  \<open>RenameQuotaKeys\<close> ranges over the map of renames in an order Go leaves open: the list is that
  order.
\<close>

definition rename_quota_key ::
  "(string, QuotaSnapshot option) fmap \<Rightarrow> string \<times> string \<Rightarrow> (string, QuotaSnapshot option) fmap" where
  "rename_quota_key quotas ft =
     (case fmlookup quotas (fst ft) of
        None \<Rightarrow> quotas
      | Some entry \<Rightarrow>
          (let quotas' = fmdrop (fst ft) quotas
           in if fmlookup quotas' (snd ft) = None then fmupd (snd ft) entry quotas' else quotas'))"

definition RenameQuotaKeys :: "(string \<times> string) list \<Rightarrow> Manager \<Rightarrow> Manager" where
  "RenameQuotaKeys renames m = m \<lparr> m_quotas := foldl rename_quota_key (m_quotas m) renames \<rparr>"

subsection \<open>Keys\<close>

text \<open>Session keys are printable ASCII, so the separator splits a sticky key in one way.\<close>

definition printable :: "string \<Rightarrow> bool" where
  "printable s \<longleftrightarrow> list_all (\<lambda>c. 32 \<le> (of_char c :: nat) \<and> (of_char c :: nat) < 127) s"

lemma printable_no_sep: "printable s \<Longrightarrow> CHR 0x1F \<notin> set s"
  by (auto simp: printable_def list_all_iff)

lemma append_sep_eq:
  assumes "x \<notin> set as" and "x \<notin> set bs"
  shows "as @ x # cs = bs @ x # ds \<longleftrightarrow> as = bs \<and> cs = ds"
  using assms
proof (induction as arbitrary: bs)
  case Nil
  then show ?case by (cases bs) auto
next
  case (Cons a as)
  then show ?case by (cases bs) auto
qed

lemma StickyKey_inj:
  assumes "printable s" "printable s'" "printable r" "printable r'"
  shows "StickyKey s r = StickyKey s' r' \<longleftrightarrow> s = s' \<and> r = r'"
proof -
  have sep: "CHR 0x1F \<notin> set s" "CHR 0x1F \<notin> set s'" "CHR 0x1F \<notin> set r" "CHR 0x1F \<notin> set r'"
    using assms by (simp_all add: printable_no_sep)
  then have "r \<noteq> s' @ CHR 0x1F # r'" "s @ CHR 0x1F # r \<noteq> r'"
    by auto
  with sep show ?thesis
    by (auto simp: StickyKey_def stickySep_def append_sep_eq)
qed

lemma lookup_rename_quota_key:
  "fmlookup (rename_quota_key q (from, to)) k =
     (case fmlookup q from of
        None \<Rightarrow> fmlookup q k
      | Some entry \<Rightarrow>
          if k = to then (if to \<noteq> from \<and> fmlookup q to \<noteq> None then fmlookup q to else Some entry)
          else if k = from then None else fmlookup q k)"
  by (auto simp: rename_quota_key_def Let_def split: option.splits)

end
