(* ===== verification/Manager_Quality.thy ===== *)
theory Manager_Quality
  imports Manager_State
begin

text \<open>
  Per-provider quality (\<open>manager_quality.go\<close>, \<open>QualityStatus.penalty\<close> of
  \<open>manager_schedule.go\<close>): exponentially weighted averages of the error rate and of the time to
  the first token, decayed with a half-life of two minutes, and the penalty they put on a
  provider's score. \<open>math.Pow(0.5, x)\<close> is \<open>(1/2) powr x\<close>. The copy-on-write publication of the
  quality map is the plain replacement of the \<open>m_quality\<close> component; the projection a reader
  takes before it holds the mutex is kept together with the map it came from, as in the code.
\<close>

subsection \<open>Definitions\<close>

definition qualityHalfLife :: duration where
  "qualityHalfLife = 2 * minute"

definition ttftReference :: duration where
  "ttftReference = 10 * second"

definition ttftReference_ms :: int where
  "ttftReference_ms = ttftReference div 1000000"

definition ewma :: "real \<Rightarrow> real \<Rightarrow> duration \<Rightarrow> real" where
  "ewma prev sample dt =
     (let dt = (if dt < 0 then 0 else dt);
          alpha = 1 - (1 / 2) powr (seconds_of dt / seconds_of qualityHalfLife)
      in prev * (1 - alpha) + sample * alpha)"

definition decayed :: "providerQuality \<Rightarrow> gotime \<Rightarrow> real \<times> real" where
  "decayed q now =
     (ewma (pq_errRate q) 0 (time_sub now (pq_errAt q)),
      ewma (pq_ttftNorm q) 0 (time_sub now (pq_ttftAt q)))"

definition recordQuality :: "string \<Rightarrow> real \<Rightarrow> gotime \<Rightarrow> Manager \<Rightarrow> Manager" where
  "recordQuality name sample now m =
     (let q = fmget noQuality (m_quality m) name;
          rate = (if pq_errAt q = 0 then sample
                  else ewma (pq_errRate q) sample (time_sub now (pq_errAt q)));
          q' = q \<lparr> pq_errRate := rate, pq_errAt := now \<rparr>
      in m \<lparr> m_quality := fmupd name q' (m_quality m) \<rparr>)"

definition RecordAttemptQuality :: "string \<Rightarrow> duration \<Rightarrow> gotime \<Rightarrow> uint64 \<Rightarrow> Manager \<Rightarrow> Manager" where
  "RecordAttemptQuality name ttft now generation m =
     (if ttft \<le> 0 then m
      else if \<not> generationMatches m generation then m
      else
        (let q = fmget noQuality (m_quality m) name;
             sample = seconds_of ttft / seconds_of ttftReference;
             sample = (if 1 < sample then 1 else sample);
             norm = (if pq_ttftAt q = 0 then sample
                     else ewma (pq_ttftNorm q) sample (time_sub now (pq_ttftAt q)));
             q' = q \<lparr> pq_ttftNorm := norm, pq_ttftAt := now \<rparr>
         in m \<lparr> m_quality := fmupd name q' (m_quality m) \<rparr>))"

record QualityStatus =
  qy_ErrorRate :: real
  qy_TTFTMilliseconds :: int

definition noQualityStatus :: QualityStatus where
  "noQualityStatus = \<lparr> qy_ErrorRate = 0, qy_TTFTMilliseconds = 0 \<rparr>"

text \<open>Go's conversion \<open>int64(x)\<close> truncates toward zero.\<close>

definition trunc :: "real \<Rightarrow> int" where
  "trunc x = (if x < 0 then \<lceil>x\<rceil> else \<lfloor>x\<rfloor>)"

definition qualityStatus_at :: "gotime \<Rightarrow> providerQuality \<Rightarrow> QualityStatus" where
  "qualityStatus_at now q =
     (let (errRate, ttftNorm) = decayed q now
      in \<lparr> qy_ErrorRate = errRate,
           qy_TTFTMilliseconds = trunc (ttftNorm * real_of_int ttftReference_ms) \<rparr>)"

definition projectQuality ::
  "(string, providerQuality) fmap \<Rightarrow> gotime \<Rightarrow> (string, QualityStatus) fmap" where
  "projectQuality state now = fmmap (qualityStatus_at now) state"

record qualityProjection =
  qp_source :: "(string, providerQuality) fmap"
  qp_status :: "(string, QualityStatus) fmap"

definition projectQualitySnapshot :: "Manager \<Rightarrow> gotime \<Rightarrow> qualityProjection" where
  "projectQualitySnapshot m now =
     \<lparr> qp_source = m_quality m, qp_status = projectQuality (m_quality m) now \<rparr>"

definition reconcileQualityProjection ::
  "qualityProjection \<Rightarrow> gotime \<Rightarrow> Manager \<Rightarrow> (string, QualityStatus) fmap" where
  "reconcileQualityProjection projected now m =
     (if m_quality m = qp_source projected then qp_status projected
      else projectQuality (m_quality m) now)"

definition penalty :: "QualityStatus \<Rightarrow> real \<Rightarrow> real \<Rightarrow> real" where
  "penalty q errWeight ttftWeight =
     (let ttftNorm = real_of_int (qy_TTFTMilliseconds q) / real_of_int ttftReference_ms;
          ttftNorm = (if 1 < ttftNorm then 1 else ttftNorm);
          p = errWeight * qy_ErrorRate q + ttftWeight * ttftNorm
      in if p < 1 / 1000000 then 0 else p)"

subsection \<open>The weighted average\<close>

definition decay :: "duration \<Rightarrow> real" where
  "decay dt = (1 / 2) powr (seconds_of (max 0 dt) / seconds_of qualityHalfLife)"

lemma half_life_pos: "0 < seconds_of qualityHalfLife"
  by (simp add: qualityHalfLife_def minute_def second_def seconds_of_def)

lemma ewma_alt: "ewma prev sample dt = prev * decay dt + sample * (1 - decay dt)"
  by (simp add: ewma_def decay_def Let_def max_def)

lemma decay_pos: "0 < decay dt"
  by (simp add: decay_def)

lemma decay_le_1: "decay dt \<le> 1"
  using half_life_pos
  by (auto simp: decay_def seconds_of_def intro!: powr_le1)

lemma decay_0 [simp]: "dt \<le> 0 \<Longrightarrow> decay dt = 1"
  by (simp add: decay_def seconds_of_def max_def)

lemma decay_antimono: "a \<le> b \<Longrightarrow> decay b \<le> decay a"
  using half_life_pos unfolding decay_def
  by (intro powr_mono') (auto intro!: divide_right_mono seconds_of_mono)

lemma decay_add:
  assumes "0 \<le> a" "0 \<le> b"
  shows "decay (a + b) = decay a * decay b"
  using assms by (simp add: decay_def seconds_of_def add_divide_distrib powr_add)

lemma ewma_between:
  assumes "lo \<le> prev" "prev \<le> hi" "lo \<le> sample" "sample \<le> hi"
  shows "lo \<le> ewma prev sample dt \<and> ewma prev sample dt \<le> hi"
proof -
  let ?d = "decay dt"
  have d: "0 \<le> ?d" "0 \<le> 1 - ?d"
    using decay_pos [of dt] decay_le_1 [of dt] by simp_all
  have "lo * ?d + lo * (1 - ?d) \<le> prev * ?d + sample * (1 - ?d)"
    using assms d by (intro add_mono mult_right_mono) auto
  moreover have "prev * ?d + sample * (1 - ?d) \<le> hi * ?d + hi * (1 - ?d)"
    using assms d by (intro add_mono mult_right_mono) auto
  ultimately show ?thesis
    by (simp add: ewma_alt algebra_simps)
qed

lemma ewma_zero_sample: "ewma prev 0 dt = prev * decay dt"
  by (simp add: ewma_alt)

subsection \<open>Invariant: both signals stay in the unit interval\<close>

definition quality_ok :: "providerQuality \<Rightarrow> bool" where
  "quality_ok q \<longleftrightarrow> 0 \<le> pq_errRate q \<and> pq_errRate q \<le> 1 \<and> 0 \<le> pq_ttftNorm q \<and> pq_ttftNorm q \<le> 1"

definition quality_map_ok :: "Manager \<Rightarrow> bool" where
  "quality_map_ok m \<longleftrightarrow> fmpred (\<lambda>_. quality_ok) (m_quality m)"

lemma quality_ok_noQuality [simp]: "quality_ok noQuality"
  by (simp add: quality_ok_def noQuality_def)

lemma quality_ok_get: "quality_map_ok m \<Longrightarrow> quality_ok (fmget noQuality (m_quality m) name)"
  by (auto simp: quality_map_ok_def fmget_def split: option.splits dest: fmpredD)

lemma recordQuality_ok:
  assumes "quality_map_ok m" "0 \<le> sample" "sample \<le> 1"
  shows "quality_map_ok (recordQuality name sample now m)"
proof -
  let ?q = "fmget noQuality (m_quality m) name"
  have "quality_ok ?q"
    using assms(1) by (rule quality_ok_get)
  then have "quality_ok (?q \<lparr> pq_errRate := (if pq_errAt ?q = 0 then sample
        else ewma (pq_errRate ?q) sample (time_sub now (pq_errAt ?q))), pq_errAt := now \<rparr>)"
    using assms(2,3) ewma_between [of 0 _ 1 sample] by (simp add: quality_ok_def)
  with assms(1) show ?thesis
    by (auto simp: recordQuality_def quality_map_ok_def Let_def)
qed

lemma RecordAttemptQuality_ok:
  assumes "quality_map_ok m"
  shows "quality_map_ok (RecordAttemptQuality name ttft now g m)"
proof (cases "ttft \<le> 0 \<or> \<not> generationMatches m g")
  case True
  with assms show ?thesis by (auto simp: RecordAttemptQuality_def)
next
  case False
  let ?q = "fmget noQuality (m_quality m) name"
  let ?s = "min 1 (seconds_of ttft / seconds_of ttftReference)"
  have s: "0 \<le> ?s" "?s \<le> 1"
    using False by (auto simp: seconds_of_def ttftReference_def second_def)
  have "quality_ok ?q"
    using assms by (rule quality_ok_get)
  then have "quality_ok (?q \<lparr> pq_ttftNorm := (if pq_ttftAt ?q = 0 then ?s
        else ewma (pq_ttftNorm ?q) ?s (time_sub now (pq_ttftAt ?q))), pq_ttftAt := now \<rparr>)"
    using s ewma_between [of 0 _ 1 ?s] by (simp add: quality_ok_def)
  moreover have "(if 1 < seconds_of ttft / seconds_of ttftReference then 1
      else seconds_of ttft / seconds_of ttftReference) = ?s"
    by (simp add: min_def)
  ultimately show ?thesis
    using False assms unfolding RecordAttemptQuality_def quality_map_ok_def
    by (auto simp: Let_def split: if_splits)
qed

subsection \<open>Projection\<close>

lemma lookup_projectQuality:
  "fmlookup (projectQuality state now) k = map_option (qualityStatus_at now) (fmlookup state k)"
  by (simp add: projectQuality_def)

lemma reconcile_any_source:
  "reconcileQualityProjection (projectQualitySnapshot m\<^sub>0 now) now m = projectQuality (m_quality m) now"
  by (simp add: reconcileQualityProjection_def projectQualitySnapshot_def)

lemma ttftReference_ms_val [simp]: "ttftReference_ms = 10000"
  by (simp add: ttftReference_ms_def ttftReference_def second_def)

lemma qualityStatus_at_bounds:
  assumes "quality_ok q"
  shows "0 \<le> qy_ErrorRate (qualityStatus_at now q)" "qy_ErrorRate (qualityStatus_at now q) \<le> 1"
    "0 \<le> qy_TTFTMilliseconds (qualityStatus_at now q)"
    "qy_TTFTMilliseconds (qualityStatus_at now q) \<le> 10000"
  using assms ewma_between [of 0 "pq_errRate q" 1 0 "time_sub now (pq_errAt q)"]
    ewma_between [of 0 "pq_ttftNorm q" 1 0 "time_sub now (pq_ttftAt q)"]
  by (auto simp: quality_ok_def qualityStatus_at_def decayed_def trunc_def floor_le_iff)

lemma penalty_bounds:
  assumes "0 \<le> qy_ErrorRate q" "qy_ErrorRate q \<le> 1" "0 \<le> qy_TTFTMilliseconds q"
    and "0 \<le> we" "0 \<le> wt"
  shows "0 \<le> penalty q we wt \<and> penalty q we wt \<le> we + wt"
proof -
  have "we * qy_ErrorRate q \<le> we * 1" "0 \<le> we * qy_ErrorRate q"
    using assms by (auto intro: mult_left_le)
  moreover have "wt * min 1 (real_of_int (qy_TTFTMilliseconds q) / 10000) \<le> wt * 1"
    "0 \<le> wt * min 1 (real_of_int (qy_TTFTMilliseconds q) / 10000)"
    using assms by (auto intro: mult_left_le)
  ultimately show ?thesis
    using assms by (auto simp: penalty_def Let_def min_def split: if_splits)
qed

lemma penalty_noQualityStatus [simp]: "penalty noQualityStatus we wt = 0"
  by (simp add: penalty_def noQualityStatus_def)

end
