(* ===== verification/Manager_Health.thy ===== *)
theory Manager_Health
  imports Manager_Quality
begin

text \<open>
  Provider health (\<open>manager_health.go\<close>): the failure-streak circuit with its single half-open
  probe, rate-limit deadlines, the operator freeze, model locks, and the two reads the retry loop
  uses to decide whether waiting makes sense (\<open>CooldownState\<close>, \<open>HasRecoveredUntried\<close>).
\<close>

subsection \<open>Definitions\<close>

definition available :: "providerHealth \<Rightarrow> gotime \<Rightarrow> bool" where
  "available h now =
     (if ph_frozen h then False
      else if now < ph_rateLimitedUntil h then False
      else if ph_circuitOpenUntil h \<noteq> 0 \<and> now < ph_circuitOpenUntil h then False
      else if ph_circuitOpenUntil h \<noteq> 0 \<and> \<not> now < ph_circuitOpenUntil h \<and> ph_halfOpenInFlight h
        then False
      else True)"

text \<open>\<open>state == nil || state.available(now)\<close>\<close>

definition provider_available :: "Manager \<Rightarrow> string \<Rightarrow> gotime \<Rightarrow> bool" where
  "provider_available m name now =
     (case fmlookup (m_health m) name of None \<Rightarrow> True | Some h \<Rightarrow> available h now)"

text \<open>
  \<open>match\<close> of \<open>ResetHealth\<close>: the provider itself, or a pooled account whose parent it is; the empty
  name matches everything. \<open>parentOf\<close> is a Go map read with the zero value \<open>""\<close>.
\<close>

definition reset_match :: "string \<Rightarrow> (string, string) fmap \<Rightarrow> string \<Rightarrow> bool" where
  "reset_match name parentOf p \<longleftrightarrow> name = [] \<or> p = name \<or> fmget [] parentOf p = name"

definition ResetHealth ::
  "string \<Rightarrow> (string, string) fmap \<Rightarrow> Manager \<Rightarrow> (string list \<times> nat) \<times> Manager" where
  "ResetHealth name parentOf m =
     (let hit = reset_match name parentOf;
          cleared = filter hit (fmkeys (m_health m));
          locks = length (filter (\<lambda>k. hit (mk_Provider k)) (fmkeys (m_modelLocks m)))
      in ((cleared, locks),
          m \<lparr> m_health := fmkeep (\<lambda>p _. \<not> hit p) (m_health m),
              m_quality := fmkeep (\<lambda>p _. \<not> hit p) (m_quality m),
              m_modelLocks := fmkeep (\<lambda>k _. \<not> hit (mk_Provider k)) (m_modelLocks m) \<rparr>))"

definition freeze_match :: "string \<Rightarrow> (string, string) fmap \<Rightarrow> string \<Rightarrow> bool" where
  "freeze_match name parentOf p \<longleftrightarrow> p = name \<or> fmget [] parentOf p = name"

definition health_of :: "Manager \<Rightarrow> string \<Rightarrow> providerHealth" where
  "health_of m name = fmget newHealth (m_health m) name"

definition set_health :: "string \<Rightarrow> providerHealth \<Rightarrow> Manager \<Rightarrow> Manager" where
  "set_health name h m = m \<lparr> m_health := fmupd name h (m_health m) \<rparr>"

definition FreezeHealth ::
  "string \<Rightarrow> (string, string) fmap \<Rightarrow> string list \<Rightarrow> Manager \<Rightarrow> string list \<times> Manager" where
  "FreezeHealth name parentOf known m =
     (if name = [] then ([], m)
      else
        (let frozen = filter (freeze_match name parentOf) known
         in (sort frozen,
             foldl (\<lambda>m p. set_health p ((health_of m p) \<lparr> ph_frozen := True \<rparr>) m) m frozen)))"

definition modelLocked :: "Manager \<Rightarrow> string \<Rightarrow> string \<Rightarrow> gotime \<Rightarrow> bool" where
  "modelLocked m providerName model now =
     (case fmlookup (m_modelLocks m) (ModelKey providerName model) of
        None \<Rightarrow> False
      | Some entry \<Rightarrow> now < ml_lockedUntil entry)"

definition TargetHealthy :: "Manager \<Rightarrow> string \<Rightarrow> string \<Rightarrow> gotime \<Rightarrow> bool" where
  "TargetHealthy m providerName model now \<longleftrightarrow>
     provider_available m providerName now \<and> \<not> modelLocked m providerName model now"

definition AccountHealthy :: "Manager \<Rightarrow> string \<Rightarrow> gotime \<Rightarrow> bool" where
  "AccountHealthy m name now \<longleftrightarrow> provider_available m name now"

definition AccountFrozen :: "Manager \<Rightarrow> string \<Rightarrow> bool" where
  "AccountFrozen m name =
     (case fmlookup (m_health m) name of None \<Rightarrow> False | Some h \<Rightarrow> ph_frozen h)"

definition TakeHalfOpenSlot :: "string \<Rightarrow> gotime \<Rightarrow> uint64 \<Rightarrow> Manager \<Rightarrow> bool \<times> Manager" where
  "TakeHalfOpenSlot name now generation m =
     (if \<not> generationMatches m generation then (True, m)
      else case fmlookup (m_health m) name of
             None \<Rightarrow> (True, m)
           | Some state \<Rightarrow>
               if now < ph_rateLimitedUntil state then (False, m)
               else if ph_circuitOpenUntil state = 0 then (True, m)
               else if now < ph_circuitOpenUntil state then (False, m)
               else if ph_halfOpenInFlight state then (False, m)
               else (True, set_health name (state \<lparr> ph_halfOpenInFlight := True \<rparr>) m))"

definition ReleaseHalfOpenSlot :: "string \<Rightarrow> uint64 \<Rightarrow> Manager \<Rightarrow> Manager" where
  "ReleaseHalfOpenSlot name generation m =
     (if \<not> generationMatches m generation then m
      else case fmlookup (m_health m) name of
             None \<Rightarrow> m
           | Some state \<Rightarrow> set_health name (state \<lparr> ph_halfOpenInFlight := False \<rparr>) m)"

definition RecordSuccess :: "string \<Rightarrow> string \<Rightarrow> gotime \<Rightarrow> uint64 \<Rightarrow> Manager \<Rightarrow> Manager" where
  "RecordSuccess name model now generation m =
     (if \<not> generationMatches m generation then m
      else
        (let m1 = (case fmlookup (m_health m) name of
                     None \<Rightarrow> m
                   | Some state \<Rightarrow>
                       set_health name
                         (state \<lparr> ph_consecutiveFailures := 0, ph_streakStartedAt := 0,
                                  ph_circuitOpenUntil := 0, ph_halfOpenInFlight := False \<rparr>) m);
             m2 = m1 \<lparr> m_modelLocks := fmdrop (ModelKey name model) (m_modelLocks m1) \<rparr>
         in recordQuality name 0 now m2))"

definition RecordFailure ::
  "string \<Rightarrow> int \<Rightarrow> duration \<Rightarrow> duration \<Rightarrow> gotime \<Rightarrow> uint64 \<Rightarrow> Manager \<Rightarrow> Manager" where
  "RecordFailure name threshold cooldown persist now generation m =
     (if \<not> generationMatches m generation then m
      else
        (let state = health_of m name;
             state = state \<lparr> ph_consecutiveFailures := ph_consecutiveFailures state + 1 \<rparr>;
             state = (if ph_consecutiveFailures state = 1
                      then state \<lparr> ph_streakStartedAt := now \<rparr> else state);
             state = state \<lparr> ph_halfOpenInFlight := False \<rparr>;
             state = (if threshold \<le> ph_consecutiveFailures state \<and>
                         persist \<le> time_sub now (ph_streakStartedAt state)
                      then state \<lparr> ph_circuitOpenUntil := now + cooldown \<rparr> else state)
         in recordQuality name 1 now (set_health name state m)))"

definition RecordModelFailure ::
  "string \<Rightarrow> string \<Rightarrow> duration \<Rightarrow> gotime \<Rightarrow> uint64 \<Rightarrow> Manager \<Rightarrow> Manager" where
  "RecordModelFailure providerName model lockout now generation m =
     (if \<not> generationMatches m generation then m
      else
        (let key = ModelKey providerName model;
             entry = fmget \<lparr> ml_failures = 0, ml_lockedUntil = 0 \<rparr> (m_modelLocks m) key;
             entry = \<lparr> ml_failures = ml_failures entry + 1, ml_lockedUntil = now + lockout \<rparr>
         in m \<lparr> m_modelLocks := fmupd key entry (m_modelLocks m) \<rparr>))"

definition RecordRateLimit ::
  "string \<Rightarrow> gotime \<Rightarrow> RateLimitKind \<Rightarrow> uint64 \<Rightarrow> Manager \<Rightarrow> bool \<times> Manager" where
  "RecordRateLimit name until kind generation m =
     (if \<not> generationMatches m generation then (False, m)
      else
        (let state = (health_of m name) \<lparr> ph_halfOpenInFlight := False \<rparr>;
             state = (if ph_rateLimitedUntil state < until
                      then state \<lparr> ph_rateLimitedUntil := until, ph_rateLimitKind := kind \<rparr>
                      else state)
         in (True, set_health name state m)))"

text \<open>
  \<open>target_up\<close> is the negation of the down test of the first loop of \<open>CooldownState\<close>; one round of
  the second loop yields whether the target is down for a rate-limit reason alone and when it
  recovers.
\<close>

definition target_up :: "Manager \<Rightarrow> gotime \<Rightarrow> duration \<Rightarrow> Target \<Rightarrow> bool" where
  "target_up m now quotaMaxAge t \<longleftrightarrow>
     QuotaExhaustedUntil (quota_of m (tg_Provider t)) now quotaMaxAge = 0 \<and>
     provider_available m (tg_Provider t) now"

definition target_recovery :: "Manager \<Rightarrow> gotime \<Rightarrow> duration \<Rightarrow> Target \<Rightarrow> bool \<times> gotime" where
  "target_recovery m now quotaMaxAge t =
     (let state = fmlookup (m_health m) (tg_Provider t);
          rateLimitUntil = (case state of
                              None \<Rightarrow> 0
                            | Some h \<Rightarrow> if now < ph_rateLimitedUntil h then ph_rateLimitedUntil h else 0);
          quotaUntil = QuotaExhaustedUntil (quota_of m (tg_Provider t)) now quotaMaxAge;
          rateLimitUntil = (if rateLimitUntil < quotaUntil then quotaUntil else rateLimitUntil);
          rateLimited = (rateLimitUntil \<noteq> 0);
          circuitUntil = (case state of None \<Rightarrow> 0 | Some h \<Rightarrow> ph_circuitOpenUntil h);
          circuitOpen = (circuitUntil \<noteq> 0 \<and> now < circuitUntil);
          until = (if rateLimited \<and> circuitOpen then
                     (if rateLimitUntil < circuitUntil then circuitUntil else rateLimitUntil)
                   else if rateLimited then rateLimitUntil
                   else if circuitOpen then circuitUntil
                   else now)
      in (rateLimited \<and> \<not> circuitOpen, if until < now then now else until))"

definition cooldown_round ::
  "Manager \<Rightarrow> gotime \<Rightarrow> duration \<Rightarrow> bool \<times> gotime \<Rightarrow> Target \<Rightarrow> bool \<times> gotime" where
  "cooldown_round m now quotaMaxAge acc t =
     (let (rl, until) = target_recovery m now quotaMaxAge t
      in (fst acc \<and> rl, if snd acc = 0 \<or> until < snd acc then until else snd acc))"

definition CooldownState ::
  "Manager \<Rightarrow> Target list \<Rightarrow> gotime \<Rightarrow> duration \<Rightarrow> bool \<times> bool \<times> gotime" where
  "CooldownState m targets now quotaMaxAge =
     (if targets = [] then (False, False, 0)
      else if list_ex (target_up m now quotaMaxAge) targets then (False, False, 0)
      else
        (let (allRateLimited, earliest) = foldl (cooldown_round m now quotaMaxAge) (True, 0) targets
         in (True, allRateLimited, earliest)))"

definition HasRecoveredUntried ::
  "Manager \<Rightarrow> Target list \<Rightarrow> string fset \<Rightarrow> gotime \<Rightarrow> duration \<Rightarrow> bool" where
  "HasRecoveredUntried m targets tried now quotaMaxAge =
     list_ex (\<lambda>t. target_up m now quotaMaxAge t \<and> tg_Provider t |\<notin>| tried) targets"

end
