(* ===== verification/Manager_Routing.thy ===== *)
theory Manager_Routing
  imports Manager_Health
begin

text \<open>
  The remaining routing state of the Manager: the operator's disabled models
  (\<open>manager_disabled.go\<close>), session stickiness, escalation latches, the repeat-turn window, pins,
  pool rotation and learned parameter blocks (\<open>manager_routing_state.go\<close>), and the quota cache
  (\<open>manager_quota.go\<close>). A deep copy of a value (\<open>cloneQuota\<close>, the detached result maps) is the
  value itself.
\<close>

subsection \<open>Disabled models\<close>

definition SetModelDisabled :: "string \<Rightarrow> string \<Rightarrow> bool \<Rightarrow> Manager \<Rightarrow> Manager" where
  "SetModelDisabled provider model disabled m =
     (if provider = [] \<or> model = [] then m
      else if disabled
      then m \<lparr> m_disabledModels := finsert (ModelKey provider model) (m_disabledModels m) \<rparr>
      else m \<lparr> m_disabledModels := m_disabledModels m |-| {|ModelKey provider model|} \<rparr>)"

definition RestoreDisabledModels :: "(string, string list) fmap \<Rightarrow> Manager \<Rightarrow> Manager" where
  "RestoreDisabledModels entries m =
     foldl
       (\<lambda>m provider.
          foldl
            (\<lambda>m model.
               if provider = [] \<or> model = [] then m
               else m \<lparr> m_disabledModels := finsert (ModelKey provider model) (m_disabledModels m) \<rparr>)
            m (fmget [] entries provider))
       m (fmkeys entries)"

definition ModelDisabled :: "Manager \<Rightarrow> string \<Rightarrow> string \<Rightarrow> bool" where
  "ModelDisabled m provider model \<longleftrightarrow> ModelKey provider model |\<in>| m_disabledModels m"

definition TargetDisabled :: "Manager \<Rightarrow> Target \<Rightarrow> bool" where
  "TargetDisabled m t =
     (if ModelKey (tg_Provider t) (tg_Model t) |\<in>| m_disabledModels m then True
      else tg_Parent t \<noteq> [] \<and> ModelKey (tg_Parent t) (tg_Model t) |\<in>| m_disabledModels m)"

definition DisabledModels :: "Manager \<Rightarrow> (string, string list) fmap" where
  "DisabledModels m =
     fmmap sort
       (foldl (\<lambda>out k. fmupd (mk_Provider k) (fmget [] out (mk_Provider k) @ [mk_Model k]) out)
          fmempty (sorted_list_of_fset (m_disabledModels m)))"

type_synonym disabledModelSet = "(string, string fset) fmap"

definition cloneDisabledModels :: "ModelKey fset \<Rightarrow> disabledModelSet" where
  "cloneDisabledModels disabled =
     foldl
       (\<lambda>out k. fmupd (mk_Provider k) (finsert (mk_Model k) (fmget {||} out (mk_Provider k))) out)
       fmempty (sorted_list_of_fset disabled)"

definition targetDisabled :: "disabledModelSet \<Rightarrow> Target \<Rightarrow> bool" where
  "targetDisabled s t =
     (if tg_Model t |\<in>| fmget {||} s (tg_Provider t) then True
      else tg_Parent t \<noteq> [] \<and> tg_Model t |\<in>| fmget {||} s (tg_Parent t))"

subsection \<open>Stickiness and latches\<close>

definition SetSticky :: "string \<Rightarrow> Sticky \<Rightarrow> uint64 \<Rightarrow> Manager \<Rightarrow> bool \<times> Manager" where
  "SetSticky key sticky generation m =
     (if \<not> generationMatches m generation then (False, m)
      else (True, m \<lparr> m_sticky := fmupd key sticky (m_sticky m) \<rparr>))"

definition LatchValue :: "Manager \<Rightarrow> string \<Rightarrow> string \<Rightarrow> Latch option" where
  "LatchValue m sessionKey route = fmlookup (m_latch m) (LatchKey sessionKey route)"

definition RecordLatchOutcome :: "LatchOutcome \<Rightarrow> uint64 \<Rightarrow> Manager \<Rightarrow> bool \<times> Manager" where
  "RecordLatchOutcome i generation m =
     (if lo_SessionKey i = [] \<or> lo_Route i = [] then (False, m)
      else if \<not> generationMatches m generation then (False, m)
      else
        (let key = LatchKey (lo_SessionKey i) (lo_Route i);
             found = fmlookup (m_latch m) key;
             expired = (case found of
                          None \<Rightarrow> False
                        | Some l \<Rightarrow> lo_Dwell i < time_sub (lo_Now i) (la_Since l));
             latches = (if expired then fmdrop key (m_latch m) else m_latch m);
             has = (found \<noteq> None \<and> \<not> expired);
             latch = (if has then the found else noLatch);
             latches = fmkeep (\<lambda>k l. \<not> (lk_Route k = lo_Route i \<and>
                                       lo_Dwell i < time_sub (lo_Now i) (la_Since l))) latches
         in if lo_BadSignals i \<le> 0
            then (True,
                  m \<lparr> m_latch := (if lo_Good i \<and> has
                                 then fmupd key (latch \<lparr> la_BadRuns := 0 \<rparr>) latches
                                 else latches) \<rparr>)
            else
              (let badRuns = la_BadRuns latch + lo_BadSignals i;
                   since = (if has then la_Since latch else lo_Now i);
                   value = (if lo_Consecutive i \<le> badRuns
                            then \<lparr> la_Target = lo_Target i, la_Since = lo_Now i, la_BadRuns = 0 \<rparr>
                            else \<lparr> la_Target = la_Target latch, la_Since = since,
                                   la_BadRuns = badRuns \<rparr>)
               in (True, m \<lparr> m_latch := fmupd key value latches \<rparr>))))"

subsection \<open>The repeat-turn window\<close>

definition keep_recent :: "gotime \<Rightarrow> repeatTurnWindow \<Rightarrow> repeatTurnWindow" where
  "keep_recent cutoff w = w \<lparr> rw_Entries := filter (\<lambda>e. \<not> re_At e < cutoff) (rw_Entries w) \<rparr>"

definition sweep_turns ::
  "string \<Rightarrow> gotime \<Rightarrow> (repeatTurnKey, repeatTurnWindow) fmap \<Rightarrow> (repeatTurnKey, repeatTurnWindow) fmap" where
  "sweep_turns route cutoff turns =
     fmkeep (\<lambda>k w. rt_Route k = route \<longrightarrow> rw_Entries w \<noteq> [])
       (fmmap_keys (\<lambda>k w. if rt_Route k = route then keep_recent cutoff w else w) turns)"

definition CheckRepeatTurn ::
  "string \<Rightarrow> string \<Rightarrow> string \<Rightarrow> gotime \<Rightarrow> duration \<Rightarrow> uint64 \<Rightarrow> Manager \<Rightarrow> bool \<times> Manager" where
  "CheckRepeatTurn sessionKey route turnKey now window generation m =
     (if sessionKey = [] \<or> route = [] \<or> turnKey = [] then (False, m)
      else if \<not> generationMatches m generation then (False, m)
      else
        (let window = (if window \<le> 0 then 30 * minute else window);
             cutoff = now + - window;
             turns = sweep_turns route cutoff (m_repeatTurns m);
             key = RepeatTurnKey sessionKey route;
             w = fmget \<lparr> rw_Entries = [] \<rparr> turns key;
             duplicate = list_ex (\<lambda>e. re_TurnKey e = turnKey) (rw_Entries w);
             entries = rw_Entries w @ [\<lparr> re_TurnKey = turnKey, re_At = now \<rparr>];
             entries = (if maxRepeatTurnWindowEntries < length entries
                        then drop (length entries - maxRepeatTurnWindowEntries) entries else entries)
         in (duplicate, m \<lparr> m_repeatTurns := fmupd key \<lparr> rw_Entries = entries \<rparr> turns \<rparr>)))"

subsection \<open>Pins, rotation, parameter blocks\<close>

definition SetPin :: "string \<Rightarrow> Pin \<Rightarrow> Manager \<Rightarrow> Manager" where
  "SetPin route pin m = m \<lparr> m_pins := fmupd route pin (m_pins m) \<rparr>"

definition ClearPin :: "string \<Rightarrow> Manager \<Rightarrow> bool \<times> Manager" where
  "ClearPin route m =
     (fmlookup (m_pins m) route \<noteq> None, m \<lparr> m_pins := fmdrop route (m_pins m) \<rparr>)"

definition Pins :: "Manager \<Rightarrow> gotime \<Rightarrow> (string, Pin) fmap" where
  "Pins m now = fmkeep (\<lambda>_ pin. Pin_Active pin now) (m_pins m)"

definition PinForces :: "Manager \<Rightarrow> string \<Rightarrow> Target list \<Rightarrow> gotime \<Rightarrow> bool" where
  "PinForces m exposed targets now =
     (case fmlookup (m_pins m) exposed of
        None \<Rightarrow> False
      | Some pin \<Rightarrow>
          if \<not> Pin_Active pin now then False
          else list_ex (\<lambda>t. tg_Provider t = pin_Provider pin \<or> tg_Parent t = pin_Provider pin) targets)"

definition ResolverSpreadStart :: "string \<Rightarrow> nat \<Rightarrow> uint64 \<Rightarrow> Manager \<Rightarrow> nat \<times> Manager" where
  "ResolverSpreadStart parent n generation m =
     (if n = 0 then (0, m)
      else if \<not> generationMatches m generation then (0, m)
      else
        (let c = fmget 0 (m_spread m) parent
         in (unat c mod n, m \<lparr> m_spread := fmupd parent (c + 1) (m_spread m) \<rparr>)))"

definition LearnParamBlock :: "string \<Rightarrow> string \<Rightarrow> string \<Rightarrow> uint64 \<Rightarrow> Manager \<Rightarrow> bool \<times> Manager" where
  "LearnParamBlock providerName model param generation m =
     (if \<not> generationMatches m generation then (False, m)
      else
        (let key = ModelKey providerName model;
             blocked = fmget {||} (m_paramBlock m) key
         in (param |\<notin>| blocked,
             m \<lparr> m_paramBlock := fmupd key (finsert param blocked) (m_paramBlock m) \<rparr>)))"

definition ParamBlock :: "Manager \<Rightarrow> string \<Rightarrow> string \<Rightarrow> string list" where
  "ParamBlock m providerName model =
     sorted_list_of_fset (fmget {||} (m_paramBlock m) (ModelKey providerName model))"

definition ParamBlocked :: "Manager \<Rightarrow> string \<Rightarrow> string \<Rightarrow> string \<Rightarrow> bool" where
  "ParamBlocked m providerName model param \<longleftrightarrow>
     param |\<in>| fmget {||} (m_paramBlock m) (ModelKey providerName model)"

subsection \<open>The quota cache\<close>

definition recover_one ::
  "gotime \<Rightarrow> duration \<Rightarrow> string list \<times> Manager \<Rightarrow> string \<Rightarrow> string list \<times> Manager" where
  "recover_one now maxAge acc name =
     (let (cleared, m) = acc
      in if \<not> quotaProvesBudgetAvailable (quota_of m name) now maxAge then acc
         else case fmlookup (m_health m) name of
                None \<Rightarrow> acc
              | Some state \<Rightarrow>
                  if \<not> now < ph_rateLimitedUntil state then acc
                  else (cleared @ [name],
                        set_health name
                          (state \<lparr> ph_rateLimitedUntil := 0, ph_rateLimitKind := Transient \<rparr>) m))"

definition QuotaRecoveredClearCooldown ::
  "string list \<Rightarrow> gotime \<Rightarrow> duration \<Rightarrow> uint64 \<Rightarrow> Manager \<Rightarrow> string list \<times> Manager" where
  "QuotaRecoveredClearCooldown names now maxAge generation m =
     (if \<not> generationMatches m generation then ([], m)
      else (let (cleared, m') = foldl (recover_one now maxAge) ([], m) names in (sort cleared, m')))"

definition merge_one ::
  "(string, QuotaSnapshot option) fmap \<Rightarrow> (string, QuotaSnapshot option) fmap \<Rightarrow> string \<Rightarrow>
    (string, QuotaSnapshot option) fmap" where
  "merge_one snapshots quotas name =
     (let snapshot = fmget None snapshots name
      in if quotaSyncFailedKeepsExisting (fmget None quotas name) snapshot then quotas
         else fmupd name snapshot quotas)"

definition MergeQuotas ::
  "(string, QuotaSnapshot option) fmap \<Rightarrow> uint64 \<Rightarrow> Manager \<Rightarrow> bool \<times> Manager" where
  "MergeQuotas snapshots generation m =
     (if \<not> generationMatches m generation then (False, m)
      else (True, m \<lparr> m_quotas := foldl (merge_one snapshots) (m_quotas m) (fmkeys snapshots) \<rparr>))"

datatype QuotaCommitResult = QuotaCommitRejected | QuotaCommitKept | QuotaCommitApplied

definition CommitQuota ::
  "string \<Rightarrow> QuotaSnapshot option \<Rightarrow> uint64 \<Rightarrow> Manager \<Rightarrow> QuotaCommitResult \<times> Manager" where
  "CommitQuota name snapshot generation m =
     (if \<not> generationMatches m generation then (QuotaCommitRejected, m)
      else if quotaSyncFailedKeepsExisting (quota_of m name) snapshot then (QuotaCommitKept, m)
      else (QuotaCommitApplied, m \<lparr> m_quotas := fmupd name snapshot (m_quotas m) \<rparr>))"

definition SetQuota :: "string \<Rightarrow> QuotaSnapshot option \<Rightarrow> uint64 \<Rightarrow> Manager \<Rightarrow> bool \<times> Manager" where
  "SetQuota name snapshot generation m =
     (let (r, m') = CommitQuota name snapshot generation m in (r \<noteq> QuotaCommitRejected, m'))"

definition ClearQuotas :: "uint64 \<Rightarrow> Manager \<Rightarrow> bool \<times> Manager" where
  "ClearQuotas generation m =
     (if \<not> generationMatches m generation then (False, m) else (True, m \<lparr> m_quotas := fmempty \<rparr>))"

end
