(* ===== verification/Manager_Persist.thy ===== *)
theory Manager_Persist
  imports Manager_Routing
begin

text \<open>
  What survives a restart (\<open>manager_persist.go\<close>): the snapshot of quotas, route-keyed stickiness,
  health, model locks and parameter blocks, and its restoration. Maps nested in a persisted entry
  are finite maps; a nil nested map is the empty one.
\<close>

record PersistedHealth =
  pr_RateLimitedUntil :: gotime
  pr_RateLimitKind :: string
  pr_CircuitOpenUntil :: gotime
  pr_Frozen :: bool
  pr_ModelLocks :: "(string, gotime) fmap"
  pr_ParamBlock :: "(string, string list) fmap"

definition noPersisted :: PersistedHealth where
  "noPersisted =
     \<lparr> pr_RateLimitedUntil = 0, pr_RateLimitKind = [], pr_CircuitOpenUntil = 0, pr_Frozen = False,
       pr_ModelLocks = fmempty, pr_ParamBlock = fmempty \<rparr>"

record PersistSnapshot =
  sn_Generation :: uint64
  sn_Quotas :: "(string, QuotaSnapshot option) fmap"
  sn_Sticky :: "(string, Sticky) fmap"
  sn_Health :: "(string, PersistedHealth) fmap"

subsection \<open>Snapshot\<close>

definition hasModelState ::
  "string \<Rightarrow> (ModelKey, modelLock) fmap \<Rightarrow> (ModelKey, string fset) fmap \<Rightarrow> bool" where
  "hasModelState providerName locks params \<longleftrightarrow>
     list_ex (\<lambda>k. mk_Provider k = providerName) (fmkeys locks) \<or>
     list_ex (\<lambda>k. mk_Provider k = providerName \<and> fmget {||} params k \<noteq> {||}) (fmkeys params)"

definition persist_base :: "Manager \<Rightarrow> gotime \<Rightarrow> string \<Rightarrow> PersistedHealth" where
  "persist_base m now name =
     (case fmlookup (m_health m) name of
        None \<Rightarrow> noPersisted
      | Some h \<Rightarrow>
          noPersisted
            \<lparr> pr_RateLimitedUntil := ph_rateLimitedUntil h,
              pr_CircuitOpenUntil := ph_circuitOpenUntil h,
              pr_Frozen := ph_frozen h,
              pr_RateLimitKind := (if now < ph_rateLimitedUntil h
                                   then RateLimitKind_String (ph_rateLimitKind h) else []) \<rparr>)"

definition persist_names :: "Manager \<Rightarrow> string list" where
  "persist_names m =
     sorted_list_of_fset
       (fmdom (m_health m) |\<union>| mk_Provider |`| fmdom (m_modelLocks m)
        |\<union>| mk_Provider |`| fmdom (m_paramBlock m))"

definition persist_step_base ::
  "Manager \<Rightarrow> gotime \<Rightarrow> (string, PersistedHealth) fmap \<Rightarrow> string \<Rightarrow> (string, PersistedHealth) fmap" where
  "persist_step_base m now out name =
     (let p = persist_base m now name
      in if pr_RateLimitedUntil p = 0 \<and> pr_CircuitOpenUntil p = 0 \<and> \<not> pr_Frozen p
            \<and> \<not> hasModelState name (m_modelLocks m) (m_paramBlock m)
         then out else fmupd name p out)"

definition persist_step_lock ::
  "Manager \<Rightarrow> (string, PersistedHealth) fmap \<Rightarrow> ModelKey \<Rightarrow> (string, PersistedHealth) fmap" where
  "persist_step_lock m out k =
     (let p = fmget noPersisted out (mk_Provider k);
          e = fmget \<lparr> ml_failures = 0, ml_lockedUntil = 0 \<rparr> (m_modelLocks m) k
      in fmupd (mk_Provider k)
           (p \<lparr> pr_ModelLocks := fmupd (mk_Model k) (ml_lockedUntil e) (pr_ModelLocks p) \<rparr>) out)"

definition persist_step_param ::
  "Manager \<Rightarrow> (string, PersistedHealth) fmap \<Rightarrow> ModelKey \<Rightarrow> (string, PersistedHealth) fmap" where
  "persist_step_param m out k =
     (let values = fmget {||} (m_paramBlock m) k
      in if values = {||} then out
         else
           (let p = fmget noPersisted out (mk_Provider k)
            in fmupd (mk_Provider k)
                 (p \<lparr> pr_ParamBlock := fmupd (mk_Model k) (sorted_list_of_fset values) (pr_ParamBlock p) \<rparr>)
                 out))"

definition snapshotHealth :: "Manager \<Rightarrow> gotime \<Rightarrow> (string, PersistedHealth) fmap" where
  "snapshotHealth m now =
     (let out = foldl (persist_step_base m now) fmempty (persist_names m);
          out = foldl (persist_step_lock m) out (fmkeys (m_modelLocks m))
      in foldl (persist_step_param m) out (fmkeys (m_paramBlock m)))"

definition SnapshotForPersist :: "string fset \<Rightarrow> gotime \<Rightarrow> Manager \<Rightarrow> PersistSnapshot" where
  "SnapshotForPersist routeKeys now m =
     \<lparr> sn_Generation = m_generation m, sn_Quotas = m_quotas m,
       sn_Sticky = fmkeep (\<lambda>key _. key |\<in>| routeKeys) (m_sticky m),
       sn_Health = snapshotHealth m now \<rparr>"

subsection \<open>Restore\<close>

definition RestoreSticky :: "(string, Sticky) fmap \<Rightarrow> Manager \<Rightarrow> Manager" where
  "RestoreSticky sticky m = m \<lparr> m_sticky := m_sticky m ++\<^sub>f sticky \<rparr>"

definition restore_health_entry :: "gotime \<Rightarrow> int \<Rightarrow> string \<Rightarrow> PersistedHealth \<Rightarrow> Manager \<Rightarrow> Manager" where
  "restore_health_entry now threshold name p m =
     (let rateLimited = now < pr_RateLimitedUntil p;
          circuitOpen = now < pr_CircuitOpenUntil p
      in if rateLimited \<or> circuitOpen \<or> pr_Frozen p
         then
           (let state = health_of m name;
                state = (if rateLimited
                         then state \<lparr> ph_rateLimitedUntil := pr_RateLimitedUntil p,
                                      ph_rateLimitKind := ParseRateLimitKind (pr_RateLimitKind p) \<rparr>
                         else state);
                state = (if circuitOpen
                         then state \<lparr> ph_circuitOpenUntil := pr_CircuitOpenUntil p,
                                      ph_consecutiveFailures := threshold \<rparr>
                         else state);
                state = (if pr_Frozen p then state \<lparr> ph_frozen := True \<rparr> else state)
            in set_health name state m)
         else m)"

definition restore_locks :: "gotime \<Rightarrow> string \<Rightarrow> PersistedHealth \<Rightarrow> Manager \<Rightarrow> Manager" where
  "restore_locks now name p m =
     foldl
       (\<lambda>m model.
          let until = fmget 0 (pr_ModelLocks p) model
          in if now < until
             then m \<lparr> m_modelLocks := fmupd (ModelKey name model)
                        \<lparr> ml_failures = 1, ml_lockedUntil = until \<rparr> (m_modelLocks m) \<rparr>
             else m)
       m (fmkeys (pr_ModelLocks p))"

definition restore_params :: "string \<Rightarrow> PersistedHealth \<Rightarrow> Manager \<Rightarrow> Manager" where
  "restore_params name p m =
     foldl
       (\<lambda>m model.
          let key = ModelKey name model;
              blocked = fmget {||} (m_paramBlock m) key;
              blocked = foldl (\<lambda>b param. finsert param b) blocked (fmget [] (pr_ParamBlock p) model)
          in m \<lparr> m_paramBlock := fmupd key blocked (m_paramBlock m) \<rparr>)
       m (fmkeys (pr_ParamBlock p))"

definition RestoreHealth ::
  "(string, PersistedHealth) fmap \<Rightarrow> gotime \<Rightarrow> int \<Rightarrow> Manager \<Rightarrow> Manager" where
  "RestoreHealth health now threshold m =
     foldl
       (\<lambda>m name.
          let p = fmget noPersisted health name
          in restore_params name p (restore_locks now name p (restore_health_entry now threshold name p m)))
       m (fmkeys health)"

end
