(* ===== verification/Health_Props.thy ===== *)
theory Health_Props
  imports Manager_Routing
begin

text \<open>
  Provider health: when the circuit opens and for how long, what the cooldown read promises to the
  retry loop, and how measured budget lifts a predicted cooldown.
\<close>

subsection \<open>Frame facts\<close>

lemma recordQuality_sel [simp]:
  "m_health (recordQuality n x t m) = m_health m"
  "m_generation (recordQuality n x t m) = m_generation m"
  "m_quotas (recordQuality n x t m) = m_quotas m"
  "m_modelLocks (recordQuality n x t m) = m_modelLocks m"
  "m_pins (recordQuality n x t m) = m_pins m"
  "m_disabledModels (recordQuality n x t m) = m_disabledModels m"
  "m_paramBlock (recordQuality n x t m) = m_paramBlock m"
  by (simp_all add: recordQuality_def Let_def)

lemma set_health_sel [simp]:
  "fmlookup (m_health (set_health n h m)) k = (if n = k then Some h else fmlookup (m_health m) k)"
  "m_generation (set_health n h m) = m_generation m"
  "m_quotas (set_health n h m) = m_quotas m"
  "m_modelLocks (set_health n h m) = m_modelLocks m"
  "m_pins (set_health n h m) = m_pins m"
  "m_disabledModels (set_health n h m) = m_disabledModels m"
  "m_paramBlock (set_health n h m) = m_paramBlock m"
  "m_quality (set_health n h m) = m_quality m"
  by (simp_all add: set_health_def)

lemma health_of_set_health [simp]:
  "health_of (set_health n h m) k = (if n = k then h else health_of m k)"
  by (simp add: health_of_def fmget_def set_health_def)

lemma health_of_recordQuality [simp]: "health_of (recordQuality n x t m) k = health_of m k"
  by (simp add: health_of_def)

lemma generationMatches_set_health [simp]:
  "generationMatches (set_health n h m) g = generationMatches m g"
  "generationMatches (recordQuality n x t m) g = generationMatches m g"
  by (simp_all add: generationMatches_def)

lemma available_newHealth: "0 \<le> now \<Longrightarrow> available newHealth now"
  by (simp add: available_def newHealth_def)

lemma provider_available_health_of:
  "0 \<le> now \<Longrightarrow> provider_available m name now = available (health_of m name) now"
  by (simp add: provider_available_def health_of_def fmget_def available_newHealth split: option.splits)

subsection \<open>The circuit\<close>

text \<open>The streak of failures of one provider, recorded at the given times.\<close>

definition record_failures ::
  "string \<Rightarrow> int \<Rightarrow> duration \<Rightarrow> duration \<Rightarrow> uint64 \<Rightarrow> gotime list \<Rightarrow> Manager \<Rightarrow> Manager" where
  "record_failures name threshold cooldown persist g ts m =
     foldl (\<lambda>m t. RecordFailure name threshold cooldown persist t g m) m ts"

text \<open>The failures of a streak that open (or re-open) the circuit: far enough in count and in time.\<close>

definition opening_failures :: "int \<Rightarrow> duration \<Rightarrow> gotime list \<Rightarrow> gotime list" where
  "opening_failures threshold persist ts =
     map (\<lambda>i. ts ! i)
       (filter (\<lambda>i. threshold \<le> int (Suc i) \<and> persist \<le> time_sub (ts ! i) (hd ts)) [0..<length ts])"

lemma RecordFailure_generation [simp]:
  "m_generation (RecordFailure n th c p t g m) = m_generation m"
  by (simp add: RecordFailure_def Let_def)

lemma record_failures_snoc:
  "record_failures n th c p g (ts @ [t]) m = RecordFailure n th c p t g (record_failures n th c p g ts m)"
  by (simp add: record_failures_def)

lemma record_failures_generation [simp]:
  "m_generation (record_failures n th c p g ts m) = m_generation m"
  by (induction ts rule: rev_induct) (simp_all add: record_failures_snoc, simp add: record_failures_def)

lemma opening_failures_snoc:
  "opening_failures th p (ts @ [t]) =
     opening_failures th p ts @
     (if th \<le> int (Suc (length ts)) \<and> p \<le> time_sub t (hd (ts @ [t])) then [t] else [])"
proof -
  have "map (\<lambda>i. (ts @ [t]) ! i) (filter (\<lambda>i. th \<le> int (Suc i) \<and> p \<le> time_sub ((ts @ [t]) ! i) (hd (ts @ [t])))
        [0..<length ts]) = opening_failures th p ts"
    unfolding opening_failures_def
    by (intro map_cong filter_cong) (auto simp: nth_append hd_append)
  then show ?thesis
    by (simp add: opening_failures_def)
qed

lemma record_failures_state:
  assumes "generationMatches m g" and "health_of m name = newHealth"
  shows "health_of (record_failures name th c p g ts m) name =
    newHealth \<lparr> ph_consecutiveFailures := int (length ts),
      ph_streakStartedAt := (if ts = [] then 0 else hd ts),
      ph_circuitOpenUntil := (if opening_failures th p ts = [] then 0 else last (opening_failures th p ts) + c) \<rparr>"
proof (induction ts rule: rev_induct)
  case Nil
  with assms show ?case
    by (simp add: record_failures_def opening_failures_def newHealth_def)
next
  case (snoc t ts)
  have g: "generationMatches (record_failures name th c p g ts m) g"
    using assms(1) by (simp add: generationMatches_def)
  show ?case
    unfolding record_failures_snoc opening_failures_snoc
    using g snoc.IH by (simp add: RecordFailure_def Let_def newHealth_def)
qed

text \<open>
  C6. The circuit opens for a persistent failure streak and only for one: after failures at the
  given times on a provider with a clean record, the streak count and start are those of the list,
  and the circuit deadline is the cooldown after the last failure that both reached the threshold
  and came at least the persist window after the first one; without such a failure the circuit stays
  closed, however many failures came in one burst.
\<close>

theorem circuit_opens_on_persistent_streak:
  assumes "generationMatches m g" and "fmlookup (m_health m) name = None" and "ts \<noteq> []"
  shows "ph_consecutiveFailures (health_of (record_failures name th c p g ts m) name) = int (length ts) \<and>
    ph_streakStartedAt (health_of (record_failures name th c p g ts m) name) = hd ts \<and>
    ph_circuitOpenUntil (health_of (record_failures name th c p g ts m) name) =
      (if opening_failures th p ts = [] then 0 else last (opening_failures th p ts) + c)"
proof -
  have "health_of m name = newHealth"
    using assms(2) by (simp add: health_of_def)
  from record_failures_state [OF assms(1) this, of th c p ts] assms(3) show ?thesis
    by simp
qed

theorem circuit_opens_on_persistent_streak_witness:
  "ph_circuitOpenUntil (health_of (record_failures ''a'' 2 100 50 0 [1000, 1010, 1060] newManager) ''a'') = 1160"
  using circuit_opens_on_persistent_streak [of newManager 0 "''a''" "[1000, 1010, 1060]" 2 100 50]
  by (simp add: newManager_def generationMatches_def opening_failures_def time_sub_def
      max_duration_def min_duration_def upt_rec)

text \<open>
  While the circuit is open no request is admitted, and when it lapses exactly one probe is:
  before the deadline the provider is unavailable and refuses a slot; from the deadline on (no rate
  limit pending) the first taker gets the slot, after which the provider is unavailable and every
  further taker is refused until the probe is settled.
\<close>

theorem half_open_single_probe:
  assumes "generationMatches m g" and "fmlookup (m_health m) name = Some h"
    and "ph_circuitOpenUntil h \<noteq> 0" and "\<not> ph_halfOpenInFlight h"
    and "ph_rateLimitedUntil h \<le> t" and "t \<le> t'"
  shows "(t < ph_circuitOpenUntil h \<longrightarrow>
       \<not> provider_available m name t \<and> TakeHalfOpenSlot name t g m = (False, m)) \<and>
    (ph_circuitOpenUntil h \<le> t \<longrightarrow>
       fst (TakeHalfOpenSlot name t g m) \<and>
       \<not> provider_available (snd (TakeHalfOpenSlot name t g m)) name t' \<and>
       TakeHalfOpenSlot name t' g (snd (TakeHalfOpenSlot name t g m)) =
         (False, snd (TakeHalfOpenSlot name t g m)))"
  using assms
  by (auto simp: TakeHalfOpenSlot_def provider_available_def available_def)

theorem half_open_single_probe_witness:
  "fst (TakeHalfOpenSlot ''a'' 200 0 (set_health ''a'' (newHealth \<lparr> ph_circuitOpenUntil := 100 \<rparr>) newManager))"
  using half_open_single_probe [of "set_health ''a'' (newHealth \<lparr> ph_circuitOpenUntil := 100 \<rparr>) newManager"
      0 "''a''" "newHealth \<lparr> ph_circuitOpenUntil := 100 \<rparr>" 200 200]
  by (simp add: newHealth_def generationMatches_def)

subsection \<open>The cooldown read\<close>

lemma target_recovery_ge_now: "now \<le> snd (target_recovery m now maxAge t)"
  by (simp add: target_recovery_def Let_def)

text \<open>Until its recovery time a down target stays down, if nothing is recorded in between.\<close>

lemma target_down_until:
  assumes "0 < now" "0 \<le> maxAge" "now \<le> t'" "t' < snd (target_recovery m now maxAge t)"
  shows "\<not> target_up m t' maxAge t"
proof -
  let ?q = "quota_of m (tg_Provider t)"
  have quota: "QuotaExhaustedUntil ?q t' maxAge \<noteq> 0"
    if "QuotaExhaustedUntil ?q now maxAge \<noteq> 0" "t' < QuotaExhaustedUntil ?q now maxAge"
    using quotaExhausted_persists [of ?q now maxAge t'] that assms by (simp add: quotaExhausted_def)
  show ?thesis
  proof (cases "fmlookup (m_health m) (tg_Provider t)")
    case None
    with assms quota show ?thesis
      by (auto simp: target_recovery_def target_up_def Let_def split: if_splits)
  next
    case (Some h)
    with assms quota show ?thesis
      by (auto simp: target_recovery_def target_up_def provider_available_def available_def Let_def
          split: if_splits)
  qed
qed

lemma cooldown_fold:
  assumes "0 < now"
  shows "snd acc = 0 \<or> now \<le> snd acc \<Longrightarrow>
    foldl (cooldown_round m now maxAge) acc ts =
      (fst acc \<and> (\<forall>t \<in> set ts. fst (target_recovery m now maxAge t)),
       if ts = [] then snd acc
       else if snd acc = 0 then Min ((\<lambda>t. snd (target_recovery m now maxAge t)) ` set ts)
       else min (snd acc) (Min ((\<lambda>t. snd (target_recovery m now maxAge t)) ` set ts)))"
proof (induction ts arbitrary: acc)
  case (Cons t ts)
  let ?u = "snd (target_recovery m now maxAge t)"
  let ?acc = "cooldown_round m now maxAge acc t"
  have u: "now \<le> ?u" by (rule target_recovery_ge_now)
  have acc: "fst ?acc = (fst acc \<and> fst (target_recovery m now maxAge t))"
    "snd ?acc = (if snd acc = 0 then ?u else min (snd acc) ?u)"
    by (auto simp: cooldown_round_def split_beta Let_def)
  have "snd ?acc \<noteq> 0" "now \<le> snd ?acc"
    using Cons.prems u assms by (auto simp: acc)
  with Cons.IH [of ?acc] show ?case
    by (cases "ts = []") (auto simp: acc min.assoc)
qed simp

lemma CooldownState_eq:
  assumes "0 < now"
  shows "CooldownState m ts now maxAge =
    (if ts = [] \<or> (\<exists>t \<in> set ts. target_up m now maxAge t) then (False, False, 0)
     else (True, \<forall>t \<in> set ts. fst (target_recovery m now maxAge t),
           Min ((\<lambda>t. snd (target_recovery m now maxAge t)) ` set ts)))"
  using cooldown_fold [OF assms, of "(True, 0)"]
  by (auto simp: CooldownState_def list_ex_iff)

text \<open>
  C26. The cooldown read is sound: it reports "all down" exactly when the route has targets and none
  of them is schedulable now; the recovery time it then reports is not in the past, and at no time
  before it does any target become schedulable on the present state (so a client told to wait until
  then does not wait past a recovery, and a retry before then is futile).
\<close>

theorem CooldownState_sound:
  assumes "0 < now" and "0 \<le> maxAge" and "CooldownState m targets now maxAge = (allDown, allRL, earliest)"
  shows "(allDown \<longleftrightarrow> targets \<noteq> [] \<and> \<not> list_ex (target_up m now maxAge) targets) \<and>
    (allDown \<longrightarrow> now \<le> earliest \<and>
       (\<forall>t'. now \<le> t' \<and> t' < earliest \<longrightarrow> \<not> list_ex (target_up m t' maxAge) targets))"
proof -
  have "\<not> target_up m t' maxAge t"
    if "t \<in> set targets" "now \<le> t'" "t' < Min ((\<lambda>t. snd (target_recovery m now maxAge t)) ` set targets)"
    for t t'
  proof -
    have "Min ((\<lambda>t. snd (target_recovery m now maxAge t)) ` set targets) \<le> snd (target_recovery m now maxAge t)"
      using that(1) by simp
    with that assms(1,2) show ?thesis
      by (intro target_down_until [of now]; linarith)
  qed
  moreover have "now \<le> Min ((\<lambda>t. snd (target_recovery m now maxAge t)) ` set targets)" if "targets \<noteq> []"
    using that by (auto simp: target_recovery_ge_now)
  ultimately show ?thesis
    using assms(3) by (auto simp: CooldownState_eq [OF assms(1)] list_ex_iff split: if_splits)
qed

definition ex_limited :: Manager where
  "ex_limited = set_health ''a'' (newHealth \<lparr> ph_rateLimitedUntil := 2000 \<rparr>) newManager"

definition ex_route :: "Target list" where
  "ex_route = [\<lparr> tg_Provider = ''a'', tg_Parent = [], tg_Model = ''m'', tg_Priority = 0,
                 tg_PeakMultiplier = 1, tg_Billing = BillingUnknown \<rparr>]"

theorem CooldownState_sound_witness:
  "CooldownState ex_limited ex_route 1000 500 = (True, True, 2000) \<and>
   \<not> list_ex (target_up ex_limited 1999 500) ex_route"
proof -
  have "CooldownState ex_limited ex_route 1000 500 = (True, True, 2000)"
    by (simp add: CooldownState_def ex_limited_def ex_route_def target_up_def provider_available_def
        available_def newHealth_def newManager_def cooldown_round_def target_recovery_def
        QuotaExhaustedUntil_def)
  with CooldownState_sound [OF _ _ this] show ?thesis by simp
qed

text \<open>
  Waiting and rescheduling exclude each other: when the cooldown read says that every target is
  down, no target counts as recovered-but-untried, so the retry loop never spins on a route that has
  nothing to offer; and when it says the opposite for a non-empty route, some target is up.
\<close>

theorem cooldown_excludes_recovered:
  assumes "fst (CooldownState m targets now maxAge)"
  shows "\<not> HasRecoveredUntried m targets tried now maxAge"
  using assms
  by (auto simp: CooldownState_def HasRecoveredUntried_def list_ex_iff split: if_splits)

theorem cooldown_excludes_recovered_witness:
  "\<not> HasRecoveredUntried ex_limited ex_route {||} 1000 500"
  by (rule cooldown_excludes_recovered)
    (simp add: CooldownState_def ex_limited_def ex_route_def target_up_def provider_available_def
      available_def newHealth_def newManager_def QuotaExhaustedUntil_def split_beta)

subsection \<open>Measured budget lifts a predicted cooldown\<close>

lemma recover_one_health:
  "fmlookup (m_health (snd (recover_one now maxAge acc name))) k =
     (if k = name \<and> quotaProvesBudgetAvailable (quota_of (snd acc) name) now maxAge
      then map_option (\<lambda>h. if now < ph_rateLimitedUntil h
                           then h \<lparr> ph_rateLimitedUntil := 0, ph_rateLimitKind := Transient \<rparr> else h)
             (fmlookup (m_health (snd acc)) name)
      else fmlookup (m_health (snd acc)) k)"
  "m_quotas (snd (recover_one now maxAge acc name)) = m_quotas (snd acc)"
  by (auto simp: recover_one_def split_beta Let_def split: option.splits)

lemma recover_fold_health:
  assumes "0 \<le> now"
  shows "fmlookup (m_health (snd (foldl (recover_one now maxAge) acc names))) k =
     (if k \<in> set names \<and> quotaProvesBudgetAvailable (quota_of (snd acc) k) now maxAge
      then map_option (\<lambda>h. if now < ph_rateLimitedUntil h
                           then h \<lparr> ph_rateLimitedUntil := 0, ph_rateLimitKind := Transient \<rparr> else h)
             (fmlookup (m_health (snd acc)) k)
      else fmlookup (m_health (snd acc)) k)"
proof (induction names arbitrary: acc)
  case (Cons n ns)
  show ?case
    unfolding foldl_Cons Cons.IH recover_one_health using assms
    by (auto simp: option.map_comp comp_def intro!: map_option_cong)
qed simp

text \<open>
  A quota measurement lifts rate limits and nothing else: for the polled providers whose fresh
  snapshot proves budget in every window, a pending rate limit is cleared; the operator freeze, the
  circuit, the failure streak and a probe in flight are untouched, as is every other provider.
\<close>

theorem QuotaRecovered_only_rate_limit:
  assumes "0 \<le> now" and "generationMatches m g" and "fmlookup (m_health m) k = Some h"
  shows "\<exists>h'. fmlookup (m_health (snd (QuotaRecoveredClearCooldown names now maxAge g m))) k = Some h' \<and>
    ph_frozen h' = ph_frozen h \<and> ph_circuitOpenUntil h' = ph_circuitOpenUntil h \<and>
    ph_consecutiveFailures h' = ph_consecutiveFailures h \<and>
    ph_streakStartedAt h' = ph_streakStartedAt h \<and> ph_halfOpenInFlight h' = ph_halfOpenInFlight h \<and>
    ph_rateLimitedUntil h' =
      (if k \<in> set names \<and> quotaProvesBudgetAvailable (quota_of m k) now maxAge \<and> now < ph_rateLimitedUntil h
       then 0 else ph_rateLimitedUntil h)"
  using assms
  by (auto simp: QuotaRecoveredClearCooldown_def split_beta recover_fold_health)

theorem QuotaRecovered_only_rate_limit_witness:
  "\<exists>h'. fmlookup (m_health (snd (QuotaRecoveredClearCooldown [''a''] 1000 500 0 ex_limited))) ''a'' = Some h' \<and>
     ph_rateLimitedUntil h' = 2000"
  using QuotaRecovered_only_rate_limit [of 1000 ex_limited 0 "''a''"
      "newHealth \<lparr> ph_rateLimitedUntil := 2000 \<rparr>" "[''a'']" 500]
  by (auto simp: ex_limited_def newManager_def generationMatches_def quotaProvesBudgetAvailable_def set_health_def)

end
