(* ===== verification/Persist_Props.thy ===== *)
theory Persist_Props
  imports Manager_Persist Health_Props
begin

text \<open>
  Restart: restoring a persisted snapshot into a fresh Manager gives back the cooldowns, freezes,
  model locks and parameter blocks that were in force when the snapshot was taken.
\<close>

subsection \<open>Restoring, entry by entry\<close>

definition restored :: "gotime \<Rightarrow> int \<Rightarrow> PersistedHealth \<Rightarrow> providerHealth option \<Rightarrow> providerHealth option" where
  "restored now threshold p ho =
     (if now < pr_RateLimitedUntil p \<or> now < pr_CircuitOpenUntil p \<or> pr_Frozen p
      then
        (let state = (case ho of None \<Rightarrow> newHealth | Some h \<Rightarrow> h);
             state = (if now < pr_RateLimitedUntil p
                      then state \<lparr> ph_rateLimitedUntil := pr_RateLimitedUntil p,
                                   ph_rateLimitKind := ParseRateLimitKind (pr_RateLimitKind p) \<rparr>
                      else state);
             state = (if now < pr_CircuitOpenUntil p
                      then state \<lparr> ph_circuitOpenUntil := pr_CircuitOpenUntil p,
                                   ph_consecutiveFailures := threshold \<rparr>
                      else state)
         in Some (if pr_Frozen p then state \<lparr> ph_frozen := True \<rparr> else state))
      else ho)"

lemma restore_locks_sel [simp]:
  "m_health (restore_locks now n p m) = m_health m"
  "m_paramBlock (restore_locks now n p m) = m_paramBlock m"
  unfolding restore_locks_def by (rule foldl_preserves, simp add: Let_def)+

lemma restore_params_sel [simp]:
  "m_health (restore_params n p m) = m_health m"
  "m_modelLocks (restore_params n p m) = m_modelLocks m"
  unfolding restore_params_def by (rule foldl_preserves, simp add: Let_def)+

lemma restore_health_entry_sel [simp]:
  "m_paramBlock (restore_health_entry now th n p m) = m_paramBlock m"
  "m_modelLocks (restore_health_entry now th n p m) = m_modelLocks m"
  by (simp_all add: restore_health_entry_def Let_def)

lemma lookup_restore_health_entry:
  "fmlookup (m_health (restore_health_entry now th n p m)) k =
     (if k = n then restored now th p (fmlookup (m_health m) k) else fmlookup (m_health m) k)"
  by (auto simp: restore_health_entry_def restored_def health_of_def fmget_def Let_def)

lemma lookup_restore_locks:
  "fmlookup (m_modelLocks (restore_locks now n p m)) (ModelKey k mo) =
     (case fmlookup (pr_ModelLocks p) mo of
        None \<Rightarrow> fmlookup (m_modelLocks m) (ModelKey k mo)
      | Some until \<Rightarrow>
          if k = n \<and> now < until then Some \<lparr> ml_failures = 1, ml_lockedUntil = until \<rparr>
          else fmlookup (m_modelLocks m) (ModelKey k mo))"
proof -
  let ?f = "\<lambda>m model. let until = fmget 0 (pr_ModelLocks p) model
      in if now < until then m \<lparr> m_modelLocks := fmupd (ModelKey n model)
           \<lparr> ml_failures = 1, ml_lockedUntil = until \<rparr> (m_modelLocks m) \<rparr> else m"
  let ?g = "\<lambda>model v. if k = n \<and> now < fmget 0 (pr_ModelLocks p) model
      then Some \<lparr> ml_failures = 1, ml_lockedUntil = fmget 0 (pr_ModelLocks p) model \<rparr> else v"
  have "fmlookup (m_modelLocks (foldl ?f m (fmkeys (pr_ModelLocks p)))) (ModelKey k mo) =
      (if mo \<in> set (fmkeys (pr_ModelLocks p)) then ?g mo (fmlookup (m_modelLocks m) (ModelKey k mo))
       else fmlookup (m_modelLocks m) (ModelKey k mo))"
    by (rule foldl_pointwise [where get = "\<lambda>m mo. fmlookup (m_modelLocks m) (ModelKey k mo)" and g = ?g])
      (auto simp: Let_def)
  then show ?thesis
    by (auto simp: restore_locks_def fmlookup_dom'_iff split: option.splits)
qed

lemma lookup_restore_params:
  "fmget {||} (m_paramBlock (restore_params n p m)) (ModelKey k mo) =
     (if k = n then fmget {||} (m_paramBlock m) (ModelKey k mo) |\<union>| fset_of_list (fmget [] (pr_ParamBlock p) mo)
      else fmget {||} (m_paramBlock m) (ModelKey k mo))"
proof -
  have ins: "foldl (\<lambda>b x. finsert x b) b xs = b |\<union>| fset_of_list xs" for b and xs :: "string list"
    by (induction xs arbitrary: b) auto
  let ?g = "\<lambda>model v. if k = n then v |\<union>| fset_of_list (fmget [] (pr_ParamBlock p) model) else v"
  have "fmget {||} (m_paramBlock (restore_params n p m)) (ModelKey k mo) =
      (if mo \<in> set (fmkeys (pr_ParamBlock p)) then ?g mo (fmget {||} (m_paramBlock m) (ModelKey k mo))
       else fmget {||} (m_paramBlock m) (ModelKey k mo))"
    unfolding restore_params_def
    by (rule foldl_pointwise [where get = "\<lambda>m mo. fmget {||} (m_paramBlock m) (ModelKey k mo)" and g = ?g])
      (auto simp: Let_def ins)
  then show ?thesis
    by (auto simp: fmlookup_dom'_iff fmget_def split: option.splits)
qed

lemma restored_noPersisted [simp]: "0 \<le> now \<Longrightarrow> restored now th noPersisted ho = ho"
  by (simp add: restored_def noPersisted_def)

lemma persisted_absent: "k \<notin> set (fmkeys health) \<Longrightarrow> fmget noPersisted health k = noPersisted"
  by (simp add: fmlookup_dom'_iff)

lemma RestoreHealth_health:
  assumes "0 \<le> now"
  shows "fmlookup (m_health (RestoreHealth health now th m)) k =
      restored now th (fmget noPersisted health k) (fmlookup (m_health m) k)"
proof -
  have "fmlookup (m_health (RestoreHealth health now th m)) k =
      (if k \<in> set (fmkeys health) then restored now th (fmget noPersisted health k) (fmlookup (m_health m) k)
       else fmlookup (m_health m) k)"
    unfolding RestoreHealth_def
    by (rule foldl_pointwise [where get = "\<lambda>m k. fmlookup (m_health m) k"])
      (auto simp: Let_def lookup_restore_health_entry)
  then show ?thesis
    using persisted_absent [of k health] assms by auto
qed

lemma RestoreHealth_locks:
  "fmlookup (m_modelLocks (RestoreHealth health now th m)) (ModelKey k mo) =
     (case fmlookup (pr_ModelLocks (fmget noPersisted health k)) mo of
        None \<Rightarrow> fmlookup (m_modelLocks m) (ModelKey k mo)
      | Some until \<Rightarrow>
          if now < until then Some \<lparr> ml_failures = 1, ml_lockedUntil = until \<rparr>
          else fmlookup (m_modelLocks m) (ModelKey k mo))"
proof -
  let ?g = "\<lambda>k v. case fmlookup (pr_ModelLocks (fmget noPersisted health k)) mo of
      None \<Rightarrow> v
    | Some until \<Rightarrow> if now < until then Some \<lparr> ml_failures = 1, ml_lockedUntil = until \<rparr> else v"
  have "fmlookup (m_modelLocks (RestoreHealth health now th m)) (ModelKey k mo) =
      (if k \<in> set (fmkeys health) then ?g k (fmlookup (m_modelLocks m) (ModelKey k mo))
       else fmlookup (m_modelLocks m) (ModelKey k mo))"
    unfolding RestoreHealth_def
    by (rule foldl_pointwise [where get = "\<lambda>m k. fmlookup (m_modelLocks m) (ModelKey k mo)" and g = ?g])
      (auto simp: Let_def lookup_restore_locks split: option.splits)
  then show ?thesis
    using persisted_absent [of k health] by (auto simp: noPersisted_def)
qed

lemma RestoreHealth_params:
  "fmget {||} (m_paramBlock (RestoreHealth health now th m)) (ModelKey k mo) =
     fmget {||} (m_paramBlock m) (ModelKey k mo) |\<union>|
       fset_of_list (fmget [] (pr_ParamBlock (fmget noPersisted health k)) mo)"
proof -
  let ?g = "\<lambda>k v. v |\<union>| fset_of_list (fmget [] (pr_ParamBlock (fmget noPersisted health k)) mo)"
  have "fmget {||} (m_paramBlock (RestoreHealth health now th m)) (ModelKey k mo) =
      (if k \<in> set (fmkeys health) then ?g k (fmget {||} (m_paramBlock m) (ModelKey k mo))
       else fmget {||} (m_paramBlock m) (ModelKey k mo))"
    unfolding RestoreHealth_def
    by (rule foldl_pointwise [where get = "\<lambda>m k. fmget {||} (m_paramBlock m) (ModelKey k mo)" and g = ?g])
      (auto simp: Let_def lookup_restore_params)
  then show ?thesis
    using persisted_absent [of k health] by (auto simp: noPersisted_def)
qed

subsection \<open>What the snapshot holds\<close>

text \<open>The part of an entry that the health map determines, without the two nested maps.\<close>

definition entry_base :: "PersistedHealth \<Rightarrow> gotime \<times> string \<times> gotime \<times> bool" where
  "entry_base p = (pr_RateLimitedUntil p, pr_RateLimitKind p, pr_CircuitOpenUntil p, pr_Frozen p)"

lemma persist_step_lock_sel:
  "entry_base (fmget noPersisted (persist_step_lock m out k) n) = entry_base (fmget noPersisted out n)"
  "pr_ParamBlock (fmget noPersisted (persist_step_lock m out k) n) = pr_ParamBlock (fmget noPersisted out n)"
  by (auto simp: persist_step_lock_def Let_def entry_base_def)

lemma persist_step_param_sel:
  "entry_base (fmget noPersisted (persist_step_param m out k) n) = entry_base (fmget noPersisted out n)"
  "pr_ModelLocks (fmget noPersisted (persist_step_param m out k) n) = pr_ModelLocks (fmget noPersisted out n)"
  by (auto simp: persist_step_param_def Let_def entry_base_def)

lemma persist_base_skip:
  assumes "0 \<le> now"
    and "pr_RateLimitedUntil (persist_base m now n) = 0 \<and> pr_CircuitOpenUntil (persist_base m now n) = 0 \<and>
      \<not> pr_Frozen (persist_base m now n) \<or> fmlookup (m_health m) n = None"
  shows "persist_base m now n = noPersisted"
  using assms by (auto simp: persist_base_def noPersisted_def split: option.splits)

lemma persist_base_nested [simp]:
  "pr_ModelLocks (persist_base m now n) = fmempty" "pr_ParamBlock (persist_base m now n) = fmempty"
  by (simp_all add: persist_base_def noPersisted_def split: option.splits)

lemma persist_base_fold:
  assumes "0 \<le> now"
  shows "fmget noPersisted (foldl (persist_step_base m now) fmempty (persist_names m)) n = persist_base m now n"
proof -
  let ?skip = "\<lambda>n. pr_RateLimitedUntil (persist_base m now n) = 0 \<and> pr_CircuitOpenUntil (persist_base m now n) = 0
      \<and> \<not> pr_Frozen (persist_base m now n) \<and> \<not> hasModelState n (m_modelLocks m) (m_paramBlock m)"
  have "fmlookup (foldl (persist_step_base m now) fmempty (persist_names m)) n =
      (if n \<in> set (persist_names m) then if ?skip n then fmlookup fmempty n else Some (persist_base m now n)
       else fmlookup fmempty n)"
    by (rule foldl_pointwise [where get = fmlookup and
          g = "\<lambda>n v. if ?skip n then v else Some (persist_base m now n)"])
      (auto simp: persist_step_base_def Let_def)
  moreover have "persist_base m now n = noPersisted" if "n \<notin> set (persist_names m)"
  proof (rule persist_base_skip [OF assms], rule disjI2)
    show "fmlookup (m_health m) n = None"
      using that by (auto simp: persist_names_def fmlookup_dom_iff)
  qed
  ultimately show ?thesis
    using persist_base_skip [OF assms, of m n] by (auto simp: fmget_def)
qed

lemma snapshot_base:
  assumes "0 \<le> now"
  shows "entry_base (fmget noPersisted (snapshotHealth m now) n) = entry_base (persist_base m now n)"
proof -
  have "entry_base (fmget noPersisted (foldl (persist_step_param m) out ks) n) = entry_base (fmget noPersisted out n)"
    for out ks by (rule foldl_preserves) (rule persist_step_param_sel)
  moreover have "entry_base (fmget noPersisted (foldl (persist_step_lock m) out ks) n) = entry_base (fmget noPersisted out n)"
    for out ks by (rule foldl_preserves) (rule persist_step_lock_sel)
  ultimately show ?thesis
    by (simp add: snapshotHealth_def Let_def persist_base_fold [OF assms])
qed

lemma snapshot_locks:
  assumes "0 \<le> now"
  shows "fmlookup (pr_ModelLocks (fmget noPersisted (snapshotHealth m now) n)) mo =
    map_option ml_lockedUntil (fmlookup (m_modelLocks m) (ModelKey n mo))"
proof -
  let ?get = "\<lambda>out k. fmlookup (pr_ModelLocks (fmget noPersisted out (mk_Provider k))) (mk_Model k)"
  let ?g = "\<lambda>k _. Some (ml_lockedUntil (fmget \<lparr> ml_failures = 0, ml_lockedUntil = 0 \<rparr> (m_modelLocks m) k))"
  have lock: "?get (foldl (persist_step_lock m) out ks) k = (if k \<in> set ks then ?g k (?get out k) else ?get out k)"
    for out ks k
    by (rule foldl_pointwise [where get = ?get and g = ?g])
      (auto simp: persist_step_lock_def Let_def ModelKey.expand)
  have "pr_ModelLocks (fmget noPersisted (foldl (persist_step_param m) out ks) n) =
      pr_ModelLocks (fmget noPersisted out n)" for out ks
    by (rule foldl_preserves) (rule persist_step_param_sel)
  then have "fmlookup (pr_ModelLocks (fmget noPersisted (snapshotHealth m now) n)) mo =
      (if fmlookup (m_modelLocks m) (ModelKey n mo) \<noteq> None then ?g (ModelKey n mo) None
       else fmlookup (pr_ModelLocks (persist_base m now n)) mo)"
    using lock [of "foldl (persist_step_base m now) fmempty (persist_names m)" "fmkeys (m_modelLocks m)"
        "ModelKey n mo"]
    by (simp add: snapshotHealth_def Let_def persist_base_fold [OF assms] fmlookup_dom'_iff)
  then show ?thesis
    by (auto simp: persist_base_nested)
qed

lemma persist_step_param_get:
  "fmget [] (pr_ParamBlock (fmget noPersisted (persist_step_param m out n) (mk_Provider k))) (mk_Model k) =
     (if k = n
      then if fmget {||} (m_paramBlock m) n = {||}
           then fmget [] (pr_ParamBlock (fmget noPersisted out (mk_Provider k))) (mk_Model k)
           else sorted_list_of_fset (fmget {||} (m_paramBlock m) n)
      else fmget [] (pr_ParamBlock (fmget noPersisted out (mk_Provider k))) (mk_Model k))"
  by (cases k; cases n) (simp add: persist_step_param_def Let_def)

lemma snapshot_params:
  assumes "0 \<le> now"
  shows "fset_of_list (fmget [] (pr_ParamBlock (fmget noPersisted (snapshotHealth m now) n)) mo) =
    fmget {||} (m_paramBlock m) (ModelKey n mo)"
proof -
  let ?get = "\<lambda>out k. fmget [] (pr_ParamBlock (fmget noPersisted out (mk_Provider k))) (mk_Model k)"
  let ?g = "\<lambda>k v. if fmget {||} (m_paramBlock m) k = {||} then v else sorted_list_of_fset (fmget {||} (m_paramBlock m) k)"
  have par: "?get (foldl (persist_step_param m) out ks) k = (if k \<in> set ks then ?g k (?get out k) else ?get out k)"
    for out ks k
    by (rule foldl_pointwise [where get = ?get and g = ?g]) (rule persist_step_param_get, simp)
  have keep: "pr_ParamBlock (fmget noPersisted (foldl (persist_step_lock m) out ks) n) =
      pr_ParamBlock (fmget noPersisted out n)" for out ks
    by (rule foldl_preserves) (rule persist_step_lock_sel)
  let ?out = "foldl (persist_step_lock m) (foldl (persist_step_base m now) fmempty (persist_names m))
      (fmkeys (m_modelLocks m))"
  have out: "fmget [] (pr_ParamBlock (fmget noPersisted ?out n)) mo = []"
    by (simp add: keep persist_base_fold [OF assms])
  have snap: "snapshotHealth m now = foldl (persist_step_param m) ?out (fmkeys (m_paramBlock m))"
    by (simp add: snapshotHealth_def Let_def)
  have "fmget [] (pr_ParamBlock (fmget noPersisted (snapshotHealth m now) n)) mo =
      sorted_list_of_fset (fmget {||} (m_paramBlock m) (ModelKey n mo))"
    using par [of ?out "fmkeys (m_paramBlock m)" "ModelKey n mo"] out unfolding snap
    by (cases "fmlookup (m_paramBlock m) (ModelKey n mo)")
      (simp_all add: fmlookup_dom'_iff sorted_list_of_fset.rep_eq)
  then show ?thesis
    by (simp add: fset_of_list.rep_eq sorted_list_of_fset.rep_eq flip: fset_inject)
qed

subsection \<open>The round trip\<close>

lemma ParseRateLimitKind_String: "ParseRateLimitKind (RateLimitKind_String k) = k"
  by (cases k) (simp_all add: ParseRateLimitKind_def ToLower_def TrimSpace_def is_space_def lower_char_def Let_def)

definition restart :: "string fset \<Rightarrow> gotime \<Rightarrow> int \<Rightarrow> Manager \<Rightarrow> Manager" where
  "restart routeKeys now threshold m =
     RestoreHealth (sn_Health (SnapshotForPersist routeKeys now m)) now threshold newManager"

lemma restored_entry_base:
  "entry_base p = entry_base q \<Longrightarrow> restored now th p ho = restored now th q ho"
  by (simp only: restored_def entry_base_def prod.inject)

lemma restart_health:
  assumes "0 \<le> now"
  shows "fmlookup (m_health (restart rk now th m)) n = restored now th (persist_base m now n) None"
proof -
  have "fmlookup (m_health (restart rk now th m)) n =
      restored now th (fmget noPersisted (snapshotHealth m now) n) None"
    by (simp add: restart_def SnapshotForPersist_def RestoreHealth_health [OF assms] newManager_def)
  also have "\<dots> = restored now th (persist_base m now n) None"
    by (rule restored_entry_base, rule snapshot_base [OF assms])
  finally show ?thesis .
qed

text \<open>
  C17. A restart keeps what was in force: at every time from the snapshot on, a provider is available
  in the restored Manager exactly when it was before, apart from a probe in flight, which the restart
  ends; model locks, learned parameter blocks and the kind of a pending rate limit are the same.
\<close>

theorem persist_roundtrip:
  assumes "0 \<le> now" and "now \<le> t"
  shows "(provider_available (restart rk now th m) n t \<longleftrightarrow>
       available ((health_of m n) \<lparr> ph_halfOpenInFlight := False \<rparr>) t) \<and>
    (modelLocked (restart rk now th m) n mo t \<longleftrightarrow> modelLocked m n mo t) \<and>
    (ParamBlocked (restart rk now th m) n mo x \<longleftrightarrow> ParamBlocked m n mo x) \<and>
    (t < ph_rateLimitedUntil (health_of m n) \<longrightarrow>
       ph_rateLimitKind (health_of (restart rk now th m) n) = ph_rateLimitKind (health_of m n))"
proof (intro conjI)
  note h = restart_health [OF assms(1), of rk th m n]
  show "provider_available (restart rk now th m) n t \<longleftrightarrow>
      available ((health_of m n) \<lparr> ph_halfOpenInFlight := False \<rparr>) t"
    using assms h
    by (cases "fmlookup (m_health m) n")
      (auto simp: provider_available_def restored_def persist_base_def noPersisted_def available_def
        health_of_def newHealth_def Let_def split: if_splits)
  show "t < ph_rateLimitedUntil (health_of m n) \<longrightarrow>
      ph_rateLimitKind (health_of (restart rk now th m) n) = ph_rateLimitKind (health_of m n)"
    using assms h
    by (cases "fmlookup (m_health m) n")
      (auto simp: restored_def persist_base_def noPersisted_def health_of_def newHealth_def Let_def
        ParseRateLimitKind_String)
  show "modelLocked (restart rk now th m) n mo t \<longleftrightarrow> modelLocked m n mo t"
    using assms
    by (cases "fmlookup (m_modelLocks m) (ModelKey n mo)")
      (auto simp: modelLocked_def restart_def SnapshotForPersist_def RestoreHealth_locks
        snapshot_locks [OF assms(1)] newManager_def)
  show "ParamBlocked (restart rk now th m) n mo x \<longleftrightarrow> ParamBlocked m n mo x"
    by (simp add: ParamBlocked_def restart_def SnapshotForPersist_def RestoreHealth_params
        snapshot_params [OF assms(1)] newManager_def)
qed

theorem persist_roundtrip_witness:
  "provider_available (restart {||} 1000 3 ex_limited) ''a'' 1500 \<longleftrightarrow>
     available ((health_of ex_limited ''a'') \<lparr> ph_halfOpenInFlight := False \<rparr>) 1500"
  using persist_roundtrip [of 1000 1500 "{||}" 3 ex_limited "''a''"] by simp

text \<open>
  A restored circuit is still armed: after the restart of a provider whose circuit was open,
  its next hard failure re-opens the circuit at once, without a new streak having to build up (the
  restored count is the threshold and the restored streak has no start, which the saturating time
  difference reads as older than any persist window).
\<close>

theorem restored_circuit_rearms:
  assumes "0 \<le> now" and "now < ph_circuitOpenUntil (health_of m n)" and "0 < th"
    and "persist \<le> max_duration" and "max_duration \<le> t"
    and "generationMatches (restart rk now th m) g"
  shows "ph_circuitOpenUntil (health_of (RecordFailure n th cooldown persist t g (restart rk now th m)) n)
      = t + cooldown"
proof -
  obtain h where "fmlookup (m_health m) n = Some h"
    using assms(1,2) by (cases "fmlookup (m_health m) n") (auto simp: health_of_def newHealth_def)
  then have "ph_consecutiveFailures (health_of (restart rk now th m) n) = th"
    "ph_streakStartedAt (health_of (restart rk now th m) n) = 0"
    using assms(1,2) restart_health [OF assms(1), of rk th m n]
    by (auto simp: health_of_def restored_def persist_base_def noPersisted_def newHealth_def Let_def)
  moreover have "persist \<le> time_sub t 0"
    using assms(4,5) by (simp add: time_sub_def)
  ultimately show ?thesis
    using assms(3,6) by (simp add: RecordFailure_def Let_def)
qed

theorem restored_circuit_rearms_witness:
  "ph_circuitOpenUntil (health_of (RecordFailure ''a'' 3 100 60 max_duration 0
     (restart {||} 1000 3 (set_health ''a'' (newHealth \<lparr> ph_circuitOpenUntil := 2000 \<rparr>) newManager))) ''a'')
   = max_duration + 100"
  by (rule restored_circuit_rearms) (simp_all add: max_duration_def generationMatches_def)

end
