(* ===== verification/Manager_Schedule.thy ===== *)
theory Manager_Schedule
  imports Manager_Persist
begin

text \<open>
  The scheduling core of \<open>manager_schedule.go\<close>: the projection of a target's quota into a tier and
  a score, the quota-ranked order with session stickiness, the load-balancing rotation, the
  committed decision on the live Manager (\<open>DecideOrder\<close>), and the preview of the same decision from
  a detached dashboard snapshot (\<open>Dashboard\<close>, \<open>PreviewOrder\<close>).

  The scheduling state that Go passes as a struct of maps and closures is a record of maps and
  predicates. The maps the core mutates in place when it commits (\<open>sticky\<close>, \<open>spread\<close>, \<open>rr\<close>) are
  returned as an updated record.
\<close>

subsection \<open>Inputs and results\<close>

record ScheduleInput =
  si_Exposed :: string
  si_SessionKey :: string
  si_Targets :: "Target list"
  si_RouteKeys :: "string fset"
  si_Dwell :: duration
  si_SwitchMargin :: real
  si_Now :: gotime
  si_QuotaMaxAge :: duration
  si_Strategy :: string
  si_QualityErrWeight :: real
  si_QualityTTFTWeight :: real
  si_Commit :: bool
  si_Generation :: uint64
  si_IgnorePins :: bool
  si_IgnoreSticky :: bool

record ScheduleFacts =
  sf_Billing :: BillingClass
  sf_Surplus :: real
  sf_QualityPenalty :: real

datatype ScheduleSource =
  NoSource | ScheduleSourceQuota | ScheduleSourceSticky | ScheduleSourcePin
  | ScheduleSourceLoadBalance | ScheduleSourceForce

record ScheduleResult =
  sr_Order :: "nat list"
  sr_StickyProvider :: string
  sr_Facts :: "ScheduleFacts list"
  sr_Source :: ScheduleSource

record scheduleCandidate =
  sc_target :: Target
  sc_index :: nat
  sc_tier :: int
  sc_score :: real

record scheduleState =
  ss_quotas :: "(string, QuotaSnapshot option) fmap"
  ss_quality :: "(string, QualityStatus) fmap"
  ss_sticky :: "(string, Sticky) fmap"
  ss_pins :: "(string, Pin) fmap"
  ss_spread :: "(string, uint64) fmap"
  ss_rr :: "(string, uint64) fmap"
  ss_targetAvailable :: "Target \<Rightarrow> gotime \<Rightarrow> bool"
  ss_disabled :: "Target \<Rightarrow> bool"

definition RouteStrategyLoadBalance :: string where
  "RouteStrategyLoadBalance = ''load_balance''"

subsection \<open>Tier and score\<close>

definition targetScheduleFacts ::
  "Target \<Rightarrow> QuotaSnapshot option \<Rightarrow> gotime \<Rightarrow> duration \<Rightarrow> ScheduleFacts" where
  "targetScheduleFacts target snapshot now maxAge =
     (let billing = (case snapshot of
                       None \<Rightarrow> BillingUnknown
                     | Some s \<Rightarrow>
                         if qs_Billing s = BillingUnknown \<or> qs_Err s \<noteq> [] \<or>
                            maxAge < time_sub now (qs_AsOf s)
                         then BillingUnknown else qs_Billing s);
          peak = tg_PeakMultiplier target;
          peak = (if peak < 1 then 1 else peak);
          surplus = (case snapshot of None \<Rightarrow> 0 | Some s \<Rightarrow> Surplus s now peak)
      in \<lparr> sf_Billing = billing, sf_Surplus = surplus, sf_QualityPenalty = 0 \<rparr>)"

definition effectiveBilling :: "BillingClass \<Rightarrow> BillingClass \<Rightarrow> BillingClass" where
  "effectiveBilling measured declared = (if measured \<noteq> BillingUnknown then measured else declared)"

fun schedulingTier :: "BillingClass \<Rightarrow> int" where
  "schedulingTier BillingPlan = 0"
| "schedulingTier BillingPayG = 2"
| "schedulingTier BillingUnknown = 1"

definition target_facts :: "ScheduleInput \<Rightarrow> scheduleState \<Rightarrow> Target \<Rightarrow> ScheduleFacts" where
  "target_facts input state t =
     (targetScheduleFacts t (fmget None (ss_quotas state) (tg_Provider t)) (si_Now input)
        (si_QuotaMaxAge input))
     \<lparr> sf_QualityPenalty :=
         penalty (fmget noQualityStatus (ss_quality state) (tg_Provider t))
           (si_QualityErrWeight input) (si_QualityTTFTWeight input) \<rparr>"

definition candidate_of :: "ScheduleInput \<Rightarrow> scheduleState \<Rightarrow> nat \<Rightarrow> Target \<Rightarrow> scheduleCandidate" where
  "candidate_of input state i t =
     (let f = target_facts input state t
      in \<lparr> sc_target = t, sc_index = i,
           sc_tier = schedulingTier (effectiveBilling (sf_Billing f) (tg_Billing t)),
           sc_score = sf_Surplus f - sf_QualityPenalty f \<rparr>)"

subsection \<open>Candidates: disabled, pinned, available\<close>

definition all_candidates :: "ScheduleInput \<Rightarrow> scheduleState \<Rightarrow> scheduleCandidate list" where
  "all_candidates input state =
     map (\<lambda>(i, t). candidate_of input state i t) (enumerate 0 (si_Targets input))"

definition enabled_candidates :: "ScheduleInput \<Rightarrow> scheduleState \<Rightarrow> scheduleCandidate list" where
  "enabled_candidates input state =
     filter (\<lambda>c. \<not> ss_disabled state (sc_target c)) (all_candidates input state)"

definition pin_matches :: "Pin \<Rightarrow> Target \<Rightarrow> bool" where
  "pin_matches pin t \<longleftrightarrow> tg_Provider t = pin_Provider pin \<or> tg_Parent t = pin_Provider pin"

text \<open>Pin narrowing: the remaining candidates, and whether a pin is in effect.\<close>

definition pin_narrow ::
  "ScheduleInput \<Rightarrow> scheduleState \<Rightarrow> scheduleCandidate list \<Rightarrow> scheduleCandidate list \<times> bool" where
  "pin_narrow input state candidates =
     (case fmlookup (ss_pins state) (si_Exposed input) of
        None \<Rightarrow> (candidates, False)
      | Some pin \<Rightarrow>
          if Pin_Active pin (si_Now input)
          then (let matches = filter (\<lambda>c. pin_matches pin (sc_target c)) candidates
                in if matches \<noteq> [] then (matches, True) else (candidates, False))
          else (candidates, False))"

definition available_candidates ::
  "ScheduleInput \<Rightarrow> scheduleState \<Rightarrow> scheduleCandidate list \<times> bool" where
  "available_candidates input state =
     (let (candidates, pinned) = pin_narrow input state (enabled_candidates input state)
      in (filter (\<lambda>c. pinned \<or> ss_targetAvailable state (sc_target c) (si_Now input)) candidates, pinned))"

subsection \<open>The quota ranking\<close>

text \<open>The comparison of \<open>sort.SliceStable\<close>, as a key: tier, then priority, then score descending.\<close>

definition rank_key :: "scheduleCandidate \<Rightarrow> int \<times> int \<times> real" where
  "rank_key c = (sc_tier c, tg_Priority (sc_target c), - sc_score c)"

definition poolBandByID :: "scheduleCandidate list \<Rightarrow> string \<Rightarrow> int \<Rightarrow> int \<Rightarrow> scheduleCandidate list" where
  "poolBandByID candidates parent tier priority =
     sort_key (\<lambda>c. tg_Provider (sc_target c))
       (filter (\<lambda>c. tg_Parent (sc_target c) = parent \<and> sc_tier c = tier \<and>
                    tg_Priority (sc_target c) = priority) candidates)"

text \<open>The index of the first candidate on the parked provider (Go's \<open>-1\<close> is \<open>None\<close>).\<close>

fun index_of_provider :: "string \<Rightarrow> scheduleCandidate list \<Rightarrow> nat option" where
  "index_of_provider p [] = None"
| "index_of_provider p (c # cs) =
     (if tg_Provider (sc_target c) = p then Some 0 else map_option Suc (index_of_provider p cs))"

definition keep_sticky :: "ScheduleInput \<Rightarrow> Sticky \<Rightarrow> scheduleCandidate list \<Rightarrow> nat option" where
  "keep_sticky input current ranked =
     (if st_Provider current = [] then None
      else case index_of_provider (st_Provider current) ranked of
             None \<Rightarrow> None
           | Some i \<Rightarrow>
               if time_sub (si_Now input) (st_Since current) < si_Dwell input then Some i
               else
                 (let best = ranked ! 0; cur = ranked ! i
                  in if tg_Provider (sc_target best) = st_Provider current then Some i
                     else if sc_tier best < sc_tier cur then None
                     else if tg_Priority (sc_target best) < tg_Priority (sc_target cur) then None
                     else if si_SwitchMargin input \<le> sc_score best - sc_score cur then None
                     else Some i))"

definition evict_sticky :: "ScheduleInput \<Rightarrow> (string, Sticky) fmap \<Rightarrow> (string, Sticky) fmap" where
  "evict_sticky input sticky =
     fmkeep (\<lambda>key value. key |\<in>| si_RouteKeys input \<or>
               \<not> si_Dwell input < time_sub (si_Now input) (st_Since value)) sticky"

definition decideOrderLoadBalance ::
  "ScheduleInput \<Rightarrow> scheduleState \<Rightarrow> scheduleCandidate list \<Rightarrow> ScheduleFacts list \<Rightarrow> bool \<Rightarrow> bool \<Rightarrow>
    ScheduleResult \<times> scheduleState" where
  "decideOrderLoadBalance input state avail facts commit pinned =
     (if avail = []
      then (\<lparr> sr_Order = [], sr_StickyProvider = [], sr_Facts = facts, sr_Source = NoSource \<rparr>, state)
      else
        (let exposed = si_Exposed input;
             parked = (if si_SessionKey input \<noteq> [] \<and> \<not> si_IgnoreSticky input
                       then (case fmlookup (ss_sticky state) (StickyKey (si_SessionKey input) exposed) of
                               None \<Rightarrow> None
                             | Some current \<Rightarrow>
                                 if st_Provider current \<noteq> []
                                 then map_option (\<lambda>i. (i, st_Provider current))
                                        (index_of_provider (st_Provider current) avail)
                                 else None)
                       else None);
             counter = fmget 0 (ss_rr state) exposed;
             (head, stickyProvider, source, state') =
               (case parked of
                  Some (i, p) \<Rightarrow> (i, p, ScheduleSourceSticky, state)
                | None \<Rightarrow>
                    (let head = unat counter mod length avail
                     in (head,
                         if si_SessionKey input \<noteq> [] then tg_Provider (sc_target (avail ! head)) else [],
                         ScheduleSourceLoadBalance,
                         if commit then state \<lparr> ss_rr := fmupd exposed (counter + 1) (ss_rr state) \<rparr>
                         else state)));
             stickyProvider = (if si_IgnoreSticky input then [] else stickyProvider);
             source = (if pinned then ScheduleSourcePin else source);
             ordered = drop head avail @ take head avail
         in (\<lparr> sr_Order = map sc_index ordered, sr_StickyProvider = stickyProvider,
               sr_Facts = facts, sr_Source = source \<rparr>, state')))"

text \<open>
  The ranked branch picks the head of the chain: the kept sticky target, or the best one, rotated
  within its pool band. The result is the head (none when nothing is available), the sticky
  provider to park, the source, and the state with an advanced pool counter.
\<close>

definition pick_head ::
  "ScheduleInput \<Rightarrow> scheduleState \<Rightarrow> scheduleCandidate list \<Rightarrow> bool \<Rightarrow>
    scheduleCandidate option \<times> string \<times> ScheduleSource \<times> scheduleState" where
  "pick_head input state ranked commit =
     (let stickyKey = StickyKey (si_SessionKey input) (si_Exposed input);
          current = (if si_IgnoreSticky input then noSticky
                     else fmget noSticky (ss_sticky state) stickyKey)
      in case keep_sticky input current ranked of
           Some i \<Rightarrow>
             (Some (ranked ! i),
              if stickyKey \<noteq> si_Exposed input then st_Provider current else [],
              ScheduleSourceSticky, state)
         | None \<Rightarrow>
             (case ranked of
                [] \<Rightarrow> (None, [], NoSource, state)
              | best # _ \<Rightarrow>
                  (let parent = tg_Parent (sc_target best)
                   in if parent \<noteq> []
                      then
                        (let band = poolBandByID ranked parent (sc_tier best) (tg_Priority (sc_target best));
                             counter = fmget 0 (ss_spread state) parent;
                             pick = band ! (unat counter mod length band)
                         in (Some pick, tg_Provider (sc_target pick), ScheduleSourceQuota,
                             if commit
                             then state \<lparr> ss_spread := fmupd parent (counter + 1) (ss_spread state) \<rparr>
                             else state))
                      else (Some best, tg_Provider (sc_target best), ScheduleSourceQuota, state))))"

definition decideOrder :: "ScheduleInput \<Rightarrow> scheduleState \<Rightarrow> bool \<Rightarrow> ScheduleResult \<times> scheduleState" where
  "decideOrder input state0 commit =
     (let state = (if commit then state0 \<lparr> ss_sticky := evict_sticky input (ss_sticky state0) \<rparr> else state0);
          facts = map (target_facts input state) (si_Targets input);
          (avail, pinned) = available_candidates input state
      in if si_Strategy input = RouteStrategyLoadBalance
         then decideOrderLoadBalance input state avail facts commit pinned
         else
           (let ranked = sort_key rank_key avail;
                (head, stickyProvider, source, state') = pick_head input state ranked commit;
                source = (if pinned \<and> source \<noteq> NoSource then ScheduleSourcePin else source);
                stickyProvider = (if si_IgnoreSticky input then [] else stickyProvider);
                ordered = (case head of
                             None \<Rightarrow> ranked
                           | Some h \<Rightarrow> h # filter (\<lambda>c. tg_Provider (sc_target c) \<noteq> tg_Provider (sc_target h)) ranked)
            in (\<lparr> sr_Order = map sc_index ordered, sr_StickyProvider = stickyProvider,
                  sr_Facts = facts, sr_Source = source \<rparr>, state')))"

subsection \<open>The live decision\<close>

definition live_state :: "ScheduleInput \<Rightarrow> (string, QualityStatus) fmap \<Rightarrow> Manager \<Rightarrow> scheduleState" where
  "live_state input quality m =
     \<lparr> ss_quotas = m_quotas m, ss_quality = quality, ss_sticky = m_sticky m, ss_pins = m_pins m,
       ss_spread = m_spread m, ss_rr = m_rr m,
       ss_targetAvailable =
         (\<lambda>t now. provider_available m (tg_Provider t) now \<and>
            \<not> modelLocked m (tg_Provider t) (tg_Model t) now \<and>
            \<not> quotaExhausted (quota_of m (tg_Provider t)) now (si_QuotaMaxAge input)),
       ss_disabled = TargetDisabled m \<rparr>"

text \<open>
  \<open>DecideOrder_locked\<close> is the critical section, given the quality projection taken before the
  mutex was acquired; \<open>DecideOrder\<close> projects from the state it locks.
\<close>

definition DecideOrder_locked ::
  "qualityProjection \<Rightarrow> ScheduleInput \<Rightarrow> Manager \<Rightarrow> ScheduleResult \<times> Manager" where
  "DecideOrder_locked projected input m =
     (let quality = reconcileQualityProjection projected (si_Now input) m;
          commit = (si_Commit input \<and> generationMatches m (si_Generation input));
          (result, state) = decideOrder input (live_state input quality m) commit
      in (result,
          m \<lparr> m_sticky := ss_sticky state, m_spread := ss_spread state, m_rr := ss_rr state \<rparr>))"

definition DecideOrder :: "ScheduleInput \<Rightarrow> Manager \<Rightarrow> ScheduleResult \<times> Manager" where
  "DecideOrder input m = DecideOrder_locked (projectQualitySnapshot m (si_Now input)) input m"

subsection \<open>The dashboard and the preview\<close>

record ProviderStatus =
  ps_ConsecutiveFailures :: int
  ps_CircuitState :: string
  ps_Available :: bool
  ps_CircuitOpenUntil :: gotime
  ps_RateLimitedUntil :: gotime
  ps_RateLimitKind :: RateLimitKind
  ps_HalfOpenInFlight :: bool
  ps_Frozen :: bool

record ModelLockStatus =
  ms_Provider :: string
  ms_Model :: string
  ms_Failures :: int
  ms_LockedUntil :: gotime

record DashboardSnapshot =
  ds_Generation :: uint64
  ds_Providers :: "(string, ProviderStatus) fmap"
  ds_ModelLocks :: "(string, ModelLockStatus list) fmap"
  ds_Sticky :: "(string, Sticky) fmap"
  ds_Pins :: "(string, Pin) fmap"
  ds_Quotas :: "(string, QuotaSnapshot option) fmap"
  ds_Quality :: "(string, QualityStatus) fmap"
  ds_capturedAt :: gotime
  ds_spread :: "(string, uint64) fmap"
  ds_rr :: "(string, uint64) fmap"
  ds_disabled :: disabledModelSet

definition providerStatus_at :: "gotime \<Rightarrow> providerHealth \<Rightarrow> ProviderStatus" where
  "providerStatus_at now h =
     \<lparr> ps_ConsecutiveFailures = ph_consecutiveFailures h,
       ps_CircuitState = (if now < ph_circuitOpenUntil h then ''open''
                          else if ph_halfOpenInFlight h then ''half_open'' else ''closed''),
       ps_Available = available h now,
       ps_CircuitOpenUntil = ph_circuitOpenUntil h,
       ps_RateLimitedUntil = ph_rateLimitedUntil h,
       ps_RateLimitKind = ph_rateLimitKind h,
       ps_HalfOpenInFlight = ph_halfOpenInFlight h,
       ps_Frozen = ph_frozen h \<rparr>"

definition dashboard_lock ::
  "Manager \<Rightarrow> gotime \<Rightarrow> (string, ModelLockStatus list) fmap \<Rightarrow> ModelKey \<Rightarrow> (string, ModelLockStatus list) fmap" where
  "dashboard_lock m now out k =
     (let e = fmget \<lparr> ml_failures = 0, ml_lockedUntil = 0 \<rparr> (m_modelLocks m) k
      in if \<not> now < ml_lockedUntil e then out
         else fmupd (mk_Provider k)
                (fmget [] out (mk_Provider k) @
                   [\<lparr> ms_Provider = mk_Provider k, ms_Model = mk_Model k,
                      ms_Failures = ml_failures e, ms_LockedUntil = ml_lockedUntil e \<rparr>]) out)"

definition Dashboard :: "gotime \<Rightarrow> Manager \<Rightarrow> DashboardSnapshot" where
  "Dashboard now m =
     \<lparr> ds_Generation = m_generation m,
       ds_Providers = fmmap (providerStatus_at now) (m_health m),
       ds_ModelLocks = fmmap (sort_key ms_Model)
                         (foldl (dashboard_lock m now) fmempty (fmkeys (m_modelLocks m))),
       ds_Sticky = m_sticky m,
       ds_Pins = fmkeep (\<lambda>_ pin. Pin_Active pin now) (m_pins m),
       ds_Quotas = m_quotas m,
       ds_Quality = reconcileQualityProjection (projectQualitySnapshot m now) now m,
       ds_capturedAt = now,
       ds_spread = m_spread m,
       ds_rr = m_rr m,
       ds_disabled = cloneDisabledModels (m_disabledModels m) \<rparr>"

definition preview_available :: "DashboardSnapshot \<Rightarrow> duration \<Rightarrow> Target \<Rightarrow> gotime \<Rightarrow> bool" where
  "preview_available s maxAge t now =
     (if (case fmlookup (ds_Providers s) (tg_Provider t) of
            None \<Rightarrow> False | Some status \<Rightarrow> \<not> ps_Available status) then False
      else if list_ex (\<lambda>lock. ms_Model lock = tg_Model t \<and> now < ms_LockedUntil lock)
                (fmget [] (ds_ModelLocks s) (tg_Provider t)) then False
      else \<not> quotaExhausted (fmget None (ds_Quotas s) (tg_Provider t)) now maxAge)"

definition PreviewOrder :: "DashboardSnapshot \<Rightarrow> ScheduleInput \<Rightarrow> ScheduleResult" where
  "PreviewOrder s input0 =
     (let input = input0 \<lparr> si_Commit := False, si_Generation := ds_Generation s \<rparr>;
          input = (if ds_capturedAt s \<noteq> 0 then input \<lparr> si_Now := ds_capturedAt s \<rparr> else input);
          state = \<lparr> ss_quotas = ds_Quotas s, ss_quality = ds_Quality s, ss_sticky = ds_Sticky s,
                    ss_pins = (if si_IgnorePins input then fmempty else ds_Pins s),
                    ss_spread = ds_spread s, ss_rr = ds_rr s,
                    ss_targetAvailable = preview_available s (si_QuotaMaxAge input),
                    ss_disabled = targetDisabled (ds_disabled s) \<rparr>
      in fst (decideOrder input state False))"

definition RouteFullyDisabled :: "DashboardSnapshot \<Rightarrow> Target list \<Rightarrow> bool" where
  "RouteFullyDisabled s targets \<longleftrightarrow> targets \<noteq> [] \<and> list_all (targetDisabled (ds_disabled s)) targets"

definition CountRouteSessionSticky :: "(string, Sticky) fmap \<Rightarrow> string \<Rightarrow> gotime \<Rightarrow> duration \<Rightarrow> nat" where
  "CountRouteSessionSticky sticky exposed now dwell =
     length (filter
       (\<lambda>key.
          let entry = fmget noSticky sticky key
          in if st_Provider entry = [] then False
             else case Index key stickySep of
                    None \<Rightarrow> False
                  | Some i \<Rightarrow>
                      if drop (i + length stickySep) key \<noteq> exposed then False
                      else time_sub now (st_Since entry) < dwell)
       (fmkeys sticky))"

end
