(* ===== verification/Schedule_Order.thy ===== *)
theory Schedule_Order
  imports Manager_Schedule
begin

text \<open>
  What an ordering decision returns: every index is in range and occurs once, only eligible targets
  are listed, every eligible provider is listed, and the chain is in rank order behind its head.
  The lemmas on the parts of \<open>decideOrder\<close> come first; the properties are stated on \<open>decideOrder\<close>
  and on the live \<open>DecideOrder\<close>.
\<close>

subsection \<open>Candidates\<close>

lemma candidate_of_sel [simp]:
  "sc_target (candidate_of input state i t) = t"
  "sc_index (candidate_of input state i t) = i"
  by (simp_all add: candidate_of_def Let_def)

lemma all_candidates_map:
  "all_candidates input state =
     map (\<lambda>i. candidate_of input state i (si_Targets input ! i)) [0..<length (si_Targets input)]"
  by (rule nth_equalityI) (simp_all add: all_candidates_def nth_enumerate_eq)

lemma map_index_all_candidates [simp]:
  "map sc_index (all_candidates input state) = [0..<length (si_Targets input)]"
  by (simp add: all_candidates_map comp_def)

lemma all_candidates_mem:
  "c \<in> set (all_candidates input state) \<longleftrightarrow>
     (\<exists>i < length (si_Targets input). c = candidate_of input state i (si_Targets input ! i))"
  by (auto simp: all_candidates_map)

lemma all_candidates_target:
  "c \<in> set (all_candidates input state) \<Longrightarrow>
     sc_index c < length (si_Targets input) \<and> sc_target c = si_Targets input ! sc_index c"
  by (auto simp: all_candidates_mem)

text \<open>A pin is in effect when it is active and one of the enabled targets matches it.\<close>

definition pin_in_effect :: "ScheduleInput \<Rightarrow> scheduleState \<Rightarrow> bool" where
  "pin_in_effect input state \<longleftrightarrow>
     (\<exists>pin. fmlookup (ss_pins state) (si_Exposed input) = Some pin \<and> Pin_Active pin (si_Now input) \<and>
        (\<exists>t \<in> set (si_Targets input). \<not> ss_disabled state t \<and> pin_matches pin t))"

text \<open>A target a decision may list: enabled, and on the pin, or available when no pin is in effect.\<close>

definition eligible :: "ScheduleInput \<Rightarrow> scheduleState \<Rightarrow> Target \<Rightarrow> bool" where
  "eligible input state t \<longleftrightarrow>
     \<not> ss_disabled state t \<and>
     (if pin_in_effect input state
      then pin_matches (the (fmlookup (ss_pins state) (si_Exposed input))) t
      else ss_targetAvailable state t (si_Now input))"

lemma enabled_candidates_targets:
  "sc_target ` set (enabled_candidates input state) = {t \<in> set (si_Targets input). \<not> ss_disabled state t}"
proof -
  have "map sc_target (all_candidates input state) = si_Targets input"
    by (rule nth_equalityI) (simp_all add: all_candidates_map)
  then have "sc_target ` set (all_candidates input state) = set (si_Targets input)"
    by (metis set_map)
  then show ?thesis
    by (auto simp: enabled_candidates_def)
qed

lemma available_candidates_eq:
  "available_candidates input state =
     (filter (\<lambda>c. eligible input state (sc_target c)) (all_candidates input state),
      pin_in_effect input state)"
proof -
  have ex: "filter (\<lambda>c. pin_matches pin (sc_target c)) (enabled_candidates input state) \<noteq> [] \<longleftrightarrow>
      (\<exists>t \<in> set (si_Targets input). \<not> ss_disabled state t \<and> pin_matches pin t)" for pin
    using enabled_candidates_targets [of input state]
    by (auto simp: filter_empty_conv image_iff) (metis (mono_tags, lifting) mem_Collect_eq image_iff)+
  show ?thesis
  proof (cases "pin_in_effect input state")
    case True
    then obtain pin where pin: "fmlookup (ss_pins state) (si_Exposed input) = Some pin"
      "Pin_Active pin (si_Now input)"
      "\<exists>t \<in> set (si_Targets input). \<not> ss_disabled state t \<and> pin_matches pin t"
      by (auto simp: pin_in_effect_def)
    then have "filter (\<lambda>c. pin_matches pin (sc_target c)) (enabled_candidates input state) \<noteq> []"
      using ex by blast
    with pin True show ?thesis
      by (simp add: available_candidates_def pin_narrow_def Let_def eligible_def [abs_def]
          enabled_candidates_def conj_commute)
  next
    case False
    then have "pin_narrow input state (enabled_candidates input state) =
        (enabled_candidates input state, False)"
      using ex by (auto simp: pin_narrow_def pin_in_effect_def Let_def split: option.splits)
    with False show ?thesis
      by (simp add: available_candidates_def eligible_def [abs_def] enabled_candidates_def conj_commute)
  qed
qed

abbreviation avail_of :: "ScheduleInput \<Rightarrow> scheduleState \<Rightarrow> scheduleCandidate list" where
  "avail_of input state \<equiv> fst (available_candidates input state)"

lemma avail_of_mem:
  "c \<in> set (avail_of input state) \<longleftrightarrow>
     c \<in> set (all_candidates input state) \<and> eligible input state (sc_target c)"
  by (auto simp: available_candidates_eq)

lemma distinct_index_avail: "distinct (map sc_index (avail_of input state))"
  by (simp add: available_candidates_eq distinct_map_filter)

subsection \<open>The head of the chain\<close>

lemma index_of_provider_Some:
  "index_of_provider p cs = Some i \<Longrightarrow> i < length cs \<and> tg_Provider (sc_target (cs ! i)) = p"
  by (induction cs arbitrary: i) (auto split: if_splits)

lemma index_of_provider_None:
  "index_of_provider p cs = None \<longleftrightarrow> p \<notin> (\<lambda>c. tg_Provider (sc_target c)) ` set cs"
  by (induction cs) auto

lemma keep_sticky_Some:
  "keep_sticky input cur ranked = Some i \<Longrightarrow>
     i < length ranked \<and> tg_Provider (sc_target (ranked ! i)) = st_Provider cur \<and> st_Provider cur \<noteq> []"
  by (auto simp: keep_sticky_def Let_def split: if_splits option.splits dest: index_of_provider_Some)

lemma set_poolBand:
  "set (poolBandByID cs parent tier prio) =
     {c \<in> set cs. tg_Parent (sc_target c) = parent \<and> sc_tier c = tier \<and> tg_Priority (sc_target c) = prio}"
  by (auto simp: poolBandByID_def)

lemma nth_mod_mem: "xs \<noteq> [] \<Longrightarrow> xs ! (n mod length xs) \<in> set xs"
  by (simp add: nth_mem)

lemma pick_head_cases:
  assumes "pick_head input state ranked commit = (h, sp, src, state')"
  obtains (empty) "ranked = []" "h = None" "src = NoSource" "sp = []" "state' = state"
  | (sticky) i cur where "cur = (if si_IgnoreSticky input then noSticky else
        fmget noSticky (ss_sticky state) (StickyKey (si_SessionKey input) (si_Exposed input)))"
      "keep_sticky input cur ranked = Some i" "h = Some (ranked ! i)" "src = ScheduleSourceSticky"
      "state' = state"
  | (best) c where "ranked \<noteq> []" "h = Some c" "c \<in> set ranked" "src = ScheduleSourceQuota"
      "sc_tier c = sc_tier (hd ranked)" "tg_Priority (sc_target c) = tg_Priority (sc_target (hd ranked))"
      "tg_Parent (sc_target c) = tg_Parent (sc_target (hd ranked))" "sp = tg_Provider (sc_target c)"
proof -
  let ?cur = "if si_IgnoreSticky input then noSticky else
        fmget noSticky (ss_sticky state) (StickyKey (si_SessionKey input) (si_Exposed input))"
  show thesis
  proof (cases "keep_sticky input ?cur ranked")
    case (Some i)
    with assms show thesis by (intro sticky [of ?cur i]) (auto simp: pick_head_def Let_def)
  next
    case None
    show thesis
    proof (cases ranked)
      case Nil
      with None assms show thesis by (intro empty) (auto simp: pick_head_def Let_def)
    next
      case (Cons b cs)
      let ?band = "poolBandByID ranked (tg_Parent (sc_target b)) (sc_tier b) (tg_Priority (sc_target b))"
      have "b \<in> set ?band" using Cons by (simp add: set_poolBand)
      then have "?band ! (unat (fmget 0 (ss_spread state) (tg_Parent (sc_target b))) mod length ?band) \<in> set ?band"
        by (intro nth_mod_mem) auto
      with None Cons assms show thesis
        by (intro best [of "the h"])
          (auto simp: pick_head_def Let_def set_poolBand split: if_splits)
    qed
  qed
qed

lemma pick_head_mem:
  assumes "pick_head input state ranked commit = (h, sp, src, state')"
  shows "(h = None \<longleftrightarrow> ranked = []) \<and> (\<forall>c. h = Some c \<longrightarrow> c \<in> set ranked)"
  using assms
  by (cases rule: pick_head_cases) (auto dest: keep_sticky_Some)

subsection \<open>The chain\<close>

text \<open>The state a decision works on: a committing call has evicted the idle sticky entries.\<close>

definition swept :: "ScheduleInput \<Rightarrow> scheduleState \<Rightarrow> bool \<Rightarrow> scheduleState" where
  "swept input state commit =
     (if commit then state \<lparr> ss_sticky := evict_sticky input (ss_sticky state) \<rparr> else state)"

lemma swept_sel [simp]:
  "ss_quotas (swept input state commit) = ss_quotas state"
  "ss_quality (swept input state commit) = ss_quality state"
  "ss_pins (swept input state commit) = ss_pins state"
  "ss_spread (swept input state commit) = ss_spread state"
  "ss_rr (swept input state commit) = ss_rr state"
  "ss_targetAvailable (swept input state commit) = ss_targetAvailable state"
  "ss_disabled (swept input state commit) = ss_disabled state"
  by (simp_all add: swept_def)

lemma candidate_of_swept [simp]:
  "candidate_of input (swept input state commit) = candidate_of input state"
  "target_facts input (swept input state commit) = target_facts input state"
  by (simp_all add: fun_eq_iff candidate_of_def target_facts_def Let_def)

lemma available_candidates_swept [simp]:
  "all_candidates input (swept input state commit) = all_candidates input state"
  "eligible input (swept input state commit) = eligible input state"
  "pin_in_effect input (swept input state commit) = pin_in_effect input state"
  "available_candidates input (swept input state commit) = available_candidates input state"
  by (simp_all add: all_candidates_def eligible_def [abs_def] pin_in_effect_def available_candidates_eq)

text \<open>The candidates in the order the chain lists them, for both strategies.\<close>

definition lb_head :: "ScheduleInput \<Rightarrow> scheduleState \<Rightarrow> scheduleCandidate list \<Rightarrow> nat" where
  "lb_head input state avail =
     (let parked = (if si_SessionKey input \<noteq> [] \<and> \<not> si_IgnoreSticky input
                    then index_of_provider
                      (st_Provider (fmget noSticky (ss_sticky state)
                         (StickyKey (si_SessionKey input) (si_Exposed input)))) avail
                    else None);
          named = (st_Provider (fmget noSticky (ss_sticky state)
                         (StickyKey (si_SessionKey input) (si_Exposed input))) \<noteq> [])
      in case parked of
           Some i \<Rightarrow> if named then i else unat (fmget 0 (ss_rr state) (si_Exposed input)) mod length avail
         | None \<Rightarrow> unat (fmget 0 (ss_rr state) (si_Exposed input)) mod length avail)"

definition chain_of :: "ScheduleInput \<Rightarrow> scheduleState \<Rightarrow> bool \<Rightarrow> scheduleCandidate list" where
  "chain_of input state commit =
     (let avail = avail_of input state; state = swept input state commit;
          ranked = sort_key rank_key avail
      in if si_Strategy input = RouteStrategyLoadBalance
         then rotate (lb_head input state avail) avail
         else case fst (pick_head input state ranked commit) of
                None \<Rightarrow> ranked
              | Some h \<Rightarrow> h # filter (\<lambda>c. tg_Provider (sc_target c) \<noteq> tg_Provider (sc_target h)) ranked)"

lemma lb_head_less: "avail \<noteq> [] \<Longrightarrow> lb_head input state avail < length avail"
  by (auto simp: lb_head_def Let_def split: option.splits dest: index_of_provider_Some)

lemma lb_order:
  "sr_Order (fst (decideOrderLoadBalance input state avail facts commit pinned)) =
     map sc_index (rotate (lb_head input state avail) avail)"
proof (cases "avail = []")
  case True
  then show ?thesis by (simp add: decideOrderLoadBalance_def)
next
  case False
  then have "lb_head input state avail mod length avail = lb_head input state avail"
    using lb_head_less by simp
  with False show ?thesis
    by (auto simp: decideOrderLoadBalance_def rotate_drop_take Let_def lb_head_def fmget_def noSticky_def
        split: option.splits if_splits)
qed

lemma decideOrder_chain:
  "sr_Order (fst (decideOrder input state commit)) = map sc_index (chain_of input state commit)"
proof -
  obtain h sp src state' where
    ph: "pick_head input (swept input state commit) (sort_key rank_key (avail_of input state)) commit
      = (h, sp, src, state')"
    by (metis prod_cases4)
  obtain avail pinned where ac: "available_candidates input state = (avail, pinned)"
    by fastforce
  have "available_candidates input (swept input state commit) = (avail, pinned)"
    using ac by simp
  with ph ac show ?thesis
    by (auto simp: decideOrder_def chain_of_def Let_def lb_order swept_def
        split: option.splits if_splits)
qed

lemma chain_of_mem_avail: "set (chain_of input state commit) \<subseteq> set (avail_of input state)"
proof -
  let ?ranked = "sort_key rank_key (avail_of input state)"
  obtain h sp src state' where
    ph: "pick_head input (swept input state commit) ?ranked commit = (h, sp, src, state')"
    by (metis prod_cases4)
  from pick_head_mem [OF ph] show ?thesis
    by (auto simp: chain_of_def Let_def ph split: option.splits)
qed

lemma sort_key_Nil_iff [simp]: "sort_key f xs = [] \<longleftrightarrow> xs = []"
  by (metis length_0_conv length_sort)

lemma sort_key_hd_le:
  assumes "x \<in> set xs"
  shows "f (hd (sort_key f xs)) \<le> f x"
proof (cases "sort_key f xs")
  case Nil
  with assms show ?thesis by simp
next
  case (Cons y ys)
  then have "x \<in> set (y # ys)"
    using assms by (metis set_sort)
  moreover have "sorted (map f (y # ys))"
    using sorted_sort_key [of f xs] Cons by simp
  ultimately show ?thesis
    using Cons by auto
qed

lemma distinct_map_head_filter:
  assumes "distinct (map f xs)" and "c \<in> set xs" and "\<not> P c"
  shows "distinct (map f (c # filter P xs))"
proof -
  have "inj_on f (set xs)" and "distinct xs"
    using assms(1) by (simp_all add: distinct_map)
  moreover have "set (c # filter P xs) \<subseteq> set xs"
    using assms(2) by auto
  ultimately have "inj_on f (set (c # filter P xs))"
    by (rule_tac inj_on_subset)
  with \<open>distinct xs\<close> assms(3) show ?thesis
    by (simp add: distinct_map)
qed

lemma distinct_chain: "distinct (map sc_index (chain_of input state commit))"
proof (cases "si_Strategy input = RouteStrategyLoadBalance")
  case True
  then have "map sc_index (chain_of input state commit) =
      rotate (lb_head input (swept input state commit) (avail_of input state))
        (map sc_index (avail_of input state))"
    by (simp add: chain_of_def rotate_map Let_def)
  then show ?thesis
    using distinct_index_avail by simp
next
  case False
  let ?ranked = "sort_key rank_key (avail_of input state)"
  obtain h sp src state' where
    ph: "pick_head input (swept input state commit) ?ranked commit = (h, sp, src, state')"
    by (metis prod_cases4)
  have dr: "distinct (map sc_index ?ranked)"
    using distinct_index_avail [of input state] by (simp add: distinct_map)
  show ?thesis
  proof (cases h)
    case None
    with False dr show ?thesis by (simp add: chain_of_def ph Let_def)
  next
    case (Some c)
    with pick_head_mem [OF ph] have "c \<in> set ?ranked" by blast
    from distinct_map_head_filter [OF dr this] Some False show ?thesis
      by (simp add: chain_of_def ph Let_def)
  qed
qed

lemma chain_of_Nil: "chain_of input state commit = [] \<longleftrightarrow> avail_of input state = []"
proof -
  obtain h sp src state' where
    ph: "pick_head input (swept input state commit) (sort_key rank_key (avail_of input state)) commit
      = (h, sp, src, state')"
    by (metis prod_cases4)
  from pick_head_mem [OF ph] show ?thesis
    by (auto simp: chain_of_def Let_def ph split: option.splits)
qed

lemma chain_of_providers:
  "(\<lambda>c. tg_Provider (sc_target c)) ` set (chain_of input state commit) =
   (\<lambda>c. tg_Provider (sc_target c)) ` set (avail_of input state)"
proof -
  let ?ranked = "sort_key rank_key (avail_of input state)"
  obtain h sp src state' where
    ph: "pick_head input (swept input state commit) ?ranked commit = (h, sp, src, state')"
    by (metis prod_cases4)
  show ?thesis
    using pick_head_mem [OF ph]
    by (auto simp: chain_of_def Let_def ph split: option.splits)
qed

end
