(* ===== verification/Schedule_Props.thy ===== *)
theory Schedule_Props
  imports Schedule_Order
begin

text \<open>
  Properties of the live scheduling decision \<open>DecideOrder\<close>: validity, soundness and completeness of
  the chain, rank order, stickiness, purity of uncommitted and of stale calls, and the agreement of
  the dashboard's preview with it.
\<close>

subsection \<open>From the live Manager to the scheduling state\<close>

definition commits :: "ScheduleInput \<Rightarrow> Manager \<Rightarrow> bool" where
  "commits input m \<longleftrightarrow> si_Commit input \<and> generationMatches m (si_Generation input)"

definition sched :: "ScheduleInput \<Rightarrow> Manager \<Rightarrow> scheduleState" where
  "sched input m = live_state input (projectQuality (m_quality m) (si_Now input)) m"

lemma DecideOrder_locked_eq:
  "DecideOrder_locked (projectQualitySnapshot m\<^sub>0 (si_Now input)) input m =
     (fst (decideOrder input (sched input m) (commits input m)),
      m \<lparr> m_sticky := ss_sticky (snd (decideOrder input (sched input m) (commits input m))),
          m_spread := ss_spread (snd (decideOrder input (sched input m) (commits input m))),
          m_rr := ss_rr (snd (decideOrder input (sched input m) (commits input m))) \<rparr>)"
  by (simp add: DecideOrder_locked_def reconcile_any_source sched_def commits_def Let_def split_beta)

lemmas DecideOrder_eq = DecideOrder_locked_eq [of m input m for m input, folded DecideOrder_def]

lemma DecideOrder_order:
  "sr_Order (fst (DecideOrder input m)) = map sc_index (chain_of input (sched input m) (commits input m))"
  by (simp add: DecideOrder_eq decideOrder_chain)

text \<open>Healthy, unlocked and with budget left: what the live availability test asks of a target.\<close>

definition ready :: "Manager \<Rightarrow> gotime \<Rightarrow> duration \<Rightarrow> Target \<Rightarrow> bool" where
  "ready m now maxAge t \<longleftrightarrow>
     TargetHealthy m (tg_Provider t) (tg_Model t) now \<and>
     \<not> quotaExhausted (quota_of m (tg_Provider t)) now maxAge"

lemma sched_sel [simp]:
  "ss_targetAvailable (sched input m) t now = ready m now (si_QuotaMaxAge input) t"
  "ss_disabled (sched input m) t = TargetDisabled m t"
  "ss_pins (sched input m) = m_pins m"
  "ss_sticky (sched input m) = m_sticky m"
  "ss_spread (sched input m) = m_spread m"
  "ss_rr (sched input m) = m_rr m"
  "ss_quotas (sched input m) = m_quotas m"
  by (auto simp: sched_def live_state_def ready_def TargetHealthy_def)

lemma pin_in_effect_sched:
  "pin_in_effect input (sched input m) \<longleftrightarrow>
     PinForces m (si_Exposed input) (filter (\<lambda>t. \<not> TargetDisabled m t) (si_Targets input)) (si_Now input)"
  by (auto simp: pin_in_effect_def PinForces_def pin_matches_def list_ex_iff split: option.splits)

lemma eligible_sched:
  "eligible input (sched input m) t \<longleftrightarrow>
     \<not> TargetDisabled m t \<and>
     (if pin_in_effect input (sched input m)
      then pin_matches (the (fmlookup (m_pins m) (si_Exposed input))) t
      else ready m (si_Now input) (si_QuotaMaxAge input) t)"
  by (simp add: eligible_def)

lemma DecideOrder_mem:
  assumes "i \<in> set (sr_Order (fst (DecideOrder input m)))"
  shows "i < length (si_Targets input)" "eligible input (sched input m) (si_Targets input ! i)"
proof -
  from assms obtain c where c: "c \<in> set (chain_of input (sched input m) (commits input m))" "sc_index c = i"
    by (auto simp: DecideOrder_order)
  then have "c \<in> set (avail_of input (sched input m))"
    using chain_of_mem_avail by blast
  with c(2) show "i < length (si_Targets input)" "eligible input (sched input m) (si_Targets input ! i)"
    by (auto simp: avail_of_mem dest: all_candidates_target)
qed

lemma eligible_listed:
  assumes "i < length (si_Targets input)" "eligible input (sched input m) (si_Targets input ! i)"
  obtains j where "j \<in> set (sr_Order (fst (DecideOrder input m)))"
    "tg_Provider (si_Targets input ! j) = tg_Provider (si_Targets input ! i)"
proof -
  let ?c = "candidate_of input (sched input m) i (si_Targets input ! i)"
  have "?c \<in> set (avail_of input (sched input m))"
    using assms by (auto simp: avail_of_mem all_candidates_mem)
  then obtain d where d: "d \<in> set (chain_of input (sched input m) (commits input m))"
    "tg_Provider (sc_target d) = tg_Provider (sc_target ?c)"
    using chain_of_providers [of input "sched input m" "commits input m"] by (metis (mono_tags, lifting) imageE image_eqI)
  then have "d \<in> set (all_candidates input (sched input m))"
    using chain_of_mem_avail avail_of_mem by blast
  then have "tg_Provider (si_Targets input ! sc_index d) = tg_Provider (si_Targets input ! i)"
    using all_candidates_target d(2) by fastforce
  with d(1) show thesis
    by (intro that [of "sc_index d"]) (auto simp: DecideOrder_order)
qed

lemma decideOrder_facts:
  "sr_Facts (fst (decideOrder input state commit)) = map (target_facts input state) (si_Targets input)"
proof -
  obtain avail pinned where ac: "available_candidates input (swept input state commit) = (avail, pinned)"
    by fastforce
  show ?thesis
    using ac [unfolded swept_def] candidate_of_swept(2) [of input state commit, unfolded swept_def]
    by (auto simp: decideOrder_def decideOrderLoadBalance_def Let_def split_beta)
qed

subsection \<open>Concrete requests\<close>

text \<open>A small route, used to show that the hypotheses of the properties can hold.\<close>

definition ex_target :: "string \<Rightarrow> string \<Rightarrow> int \<Rightarrow> Target" where
  "ex_target p parent prio =
     \<lparr> tg_Provider = p, tg_Parent = parent, tg_Model = ''m'', tg_Priority = prio,
       tg_PeakMultiplier = 1, tg_Billing = BillingPlan \<rparr>"

definition ex_input :: "string \<Rightarrow> Target list \<Rightarrow> ScheduleInput" where
  "ex_input strategy ts =
     \<lparr> si_Exposed = ''r'', si_SessionKey = ''s'', si_Targets = ts, si_RouteKeys = {|''r''|},
       si_Dwell = 100, si_SwitchMargin = 1, si_Now = 1000, si_QuotaMaxAge = 500,
       si_Strategy = strategy, si_QualityErrWeight = 1, si_QualityTTFTWeight = 1, si_Commit = True,
       si_Generation = 0, si_IgnorePins = False, si_IgnoreSticky = False \<rparr>"

subsection \<open>Validity, soundness, completeness\<close>

text \<open>
  C18. A decision lists targets of the request: every index of the order is in range, no target is
  listed twice, and there is one entry of facts per input target.
\<close>

theorem DecideOrder_valid:
  "distinct (sr_Order (fst (DecideOrder input m))) \<and>
   set (sr_Order (fst (DecideOrder input m))) \<subseteq> {..<length (si_Targets input)} \<and>
   length (sr_Facts (fst (DecideOrder input m))) = length (si_Targets input)"
  using DecideOrder_mem(1) by (auto simp: DecideOrder_eq decideOrder_chain distinct_chain decideOrder_facts)

text \<open>
  C1. Only eligible targets are scheduled: a listed target is not operator-disabled, and either it
  is healthy, not model-locked and not measured as exhausted, or an active pin of the route is in
  effect and names it (a pin bypasses the health tests).
\<close>

theorem DecideOrder_only_eligible:
  assumes "i \<in> set (sr_Order (fst (DecideOrder input m)))"
  shows "\<not> TargetDisabled m (si_Targets input ! i) \<and>
    (TargetHealthy m (tg_Provider (si_Targets input ! i)) (tg_Model (si_Targets input ! i)) (si_Now input) \<and>
       \<not> quotaExhausted (quota_of m (tg_Provider (si_Targets input ! i))) (si_Now input) (si_QuotaMaxAge input)
     \<or> PinForces m (si_Exposed input) [si_Targets input ! i] (si_Now input))"
  using DecideOrder_mem [OF assms]
  by (auto simp: eligible_sched ready_def pin_in_effect_def PinForces_def pin_matches_def split: if_splits)

theorem DecideOrder_only_eligible_witness:
  "\<not> TargetDisabled newManager (ex_target ''b'' [] 1) \<and>
    (TargetHealthy newManager ''b'' ''m'' 1000 \<and> \<not> quotaExhausted (quota_of newManager ''b'') 1000 500
     \<or> PinForces newManager ''r'' [ex_target ''b'' [] 1] 1000)"
proof -
  let ?i = "ex_input ''quota'' [ex_target ''a'' [] 2, ex_target ''b'' [] 1]"
  have "1 \<in> set (sr_Order (fst (DecideOrder ?i newManager)))"
    by code_simp
  from DecideOrder_only_eligible [OF this] show ?thesis
    by (simp add: ex_input_def ex_target_def)
qed

text \<open>
  No eligible provider is lost: when no pin is in effect, a target that is enabled, healthy,
  unlocked and not exhausted has its provider in the order, and in load-balancing mode it is listed
  itself; so an order is empty only if every target is ineligible.
\<close>

theorem DecideOrder_complete:
  assumes "i < length (si_Targets input)" and "\<not> TargetDisabled m (si_Targets input ! i)"
    and "TargetHealthy m (tg_Provider (si_Targets input ! i)) (tg_Model (si_Targets input ! i)) (si_Now input)"
    and "\<not> quotaExhausted (quota_of m (tg_Provider (si_Targets input ! i))) (si_Now input) (si_QuotaMaxAge input)"
    and "\<not> PinForces m (si_Exposed input) (filter (\<lambda>t. \<not> TargetDisabled m t) (si_Targets input)) (si_Now input)"
  shows "(\<exists>j \<in> set (sr_Order (fst (DecideOrder input m))).
            tg_Provider (si_Targets input ! j) = tg_Provider (si_Targets input ! i)) \<and>
         (si_Strategy input = RouteStrategyLoadBalance \<longrightarrow> i \<in> set (sr_Order (fst (DecideOrder input m))))"
proof -
  have el: "eligible input (sched input m) (si_Targets input ! i)"
    using assms by (simp add: eligible_sched pin_in_effect_sched ready_def)
  have "i \<in> set (sr_Order (fst (DecideOrder input m)))"
    if "si_Strategy input = RouteStrategyLoadBalance"
  proof -
    have "candidate_of input (sched input m) i (si_Targets input ! i) \<in> set (avail_of input (sched input m))"
      using assms(1) el by (auto simp: avail_of_mem all_candidates_mem)
    with that show ?thesis
      by (force simp: DecideOrder_order chain_of_def Let_def)
  qed
  with eligible_listed [OF assms(1) el] show ?thesis by blast
qed

theorem DecideOrder_complete_witness:
  "(\<exists>j \<in> set (sr_Order (fst (DecideOrder (ex_input ''load_balance'' [ex_target ''a'' [] 2, ex_target ''b'' [] 1]) newManager))).
      tg_Provider ([ex_target ''a'' [] 2, ex_target ''b'' [] 1] ! j) = ''a'')"
  using DecideOrder_complete [of 0 "ex_input ''load_balance'' [ex_target ''a'' [] 2, ex_target ''b'' [] 1]" newManager]
  by (simp add: ex_input_def ex_target_def newManager_def TargetDisabled_def TargetHealthy_def
      provider_available_def modelLocked_def quotaExhausted_def QuotaExhaustedUntil_def PinForces_def)

subsection \<open>Rank order\<close>

definition rank_of :: "ScheduleInput \<Rightarrow> Manager \<Rightarrow> nat \<Rightarrow> int \<times> int \<times> real" where
  "rank_of input m i = rank_key (candidate_of input (sched input m) i (si_Targets input ! i))"

lemma rank_of_index:
  "c \<in> set (all_candidates input (sched input m)) \<Longrightarrow> rank_of input m (sc_index c) = rank_key c"
  by (auto simp: all_candidates_mem rank_of_def)

lemma chain_rank:
  assumes "cs = chain_of input (sched input m) commit"
  shows "map (rank_of input m) (map sc_index cs) = map rank_key cs"
  using assms chain_of_mem_avail [of input "sched input m" commit]
  by (auto simp: avail_of_mem subset_iff intro!: rank_of_index)

lemma chain_tail_sorted:
  assumes "si_Strategy input \<noteq> RouteStrategyLoadBalance"
  shows "sorted (map rank_key (tl (chain_of input state commit)))"
  using assms
  by (auto simp: chain_of_def Let_def sorted_filter map_tl sorted_tl split: option.splits)

text \<open>
  In the default strategy the failover chain behind its head is in rank order: billing tier
  first (measured or declared plan, then unknown, then pay-as-you-go), then configured priority,
  then the higher score.
\<close>

theorem DecideOrder_tail_ranked:
  assumes "si_Strategy input \<noteq> RouteStrategyLoadBalance"
  shows "sorted (map (rank_of input m) (tl (sr_Order (fst (DecideOrder input m)))))"
proof -
  let ?cs = "chain_of input (sched input m) (commits input m)"
  have "map (rank_of input m) (tl (map sc_index ?cs)) = map rank_key (tl ?cs)"
    by (simp only: map_tl chain_rank [OF refl])
  with chain_tail_sorted [OF assms] show ?thesis
    by (simp add: DecideOrder_order)
qed

theorem DecideOrder_tail_ranked_witness:
  "sorted (map (rank_of (ex_input ''quota'' [ex_target ''a'' [] 2, ex_target ''b'' [] 1, ex_target ''c'' [] 3]) newManager) [0, 2])"
proof -
  let ?i = "ex_input ''quota'' [ex_target ''a'' [] 2, ex_target ''b'' [] 1, ex_target ''c'' [] 3]"
  have "sr_Order (fst (DecideOrder ?i newManager)) = [1, 0, 2]"
    by code_simp
  with DecideOrder_tail_ranked [of ?i newManager] show ?thesis
    by (simp add: ex_input_def RouteStrategyLoadBalance_def)
qed

lemma decideOrder_ranked:
  assumes "si_Strategy input \<noteq> RouteStrategyLoadBalance"
    and "pick_head input (swept input state commit) (sort_key rank_key (avail_of input state)) commit
      = (h, sp, src, state')"
  shows "decideOrder input state commit =
    (\<lparr> sr_Order = map sc_index (chain_of input state commit),
       sr_StickyProvider = (if si_IgnoreSticky input then [] else sp),
       sr_Facts = map (target_facts input state) (si_Targets input),
       sr_Source = (if pin_in_effect input state \<and> src \<noteq> NoSource then ScheduleSourcePin else src) \<rparr>,
     state')"
proof -
  have ac: "available_candidates input (swept input state commit) =
      (avail_of input state, pin_in_effect input state)"
    by (simp add: available_candidates_eq)
  have "decideOrder input state commit =
    (let st = swept input state commit; (avail, pinned) = available_candidates input st;
         ranked = sort_key rank_key avail;
         (h, sp, src, state') = pick_head input st ranked commit
     in (\<lparr> sr_Order = map sc_index (case h of None \<Rightarrow> ranked
             | Some h \<Rightarrow> h # filter (\<lambda>c. tg_Provider (sc_target c) \<noteq> tg_Provider (sc_target h)) ranked),
           sr_StickyProvider = (if si_IgnoreSticky input then [] else sp),
           sr_Facts = map (target_facts input st) (si_Targets input),
           sr_Source = (if pinned \<and> src \<noteq> NoSource then ScheduleSourcePin else src) \<rparr>, state'))"
    using assms(1) by (simp add: decideOrder_def swept_def Let_def split_beta)
  then show ?thesis
    using assms by (simp add: ac Let_def chain_of_def del: available_candidates_swept(4))
qed

text \<open>
  C19. The ranking puts a best target first: when the ranking engine made the decision (no binding
  held, no pin), no listed target has a lower tier than the head, nor the same tier and a smaller
  priority number; in particular a pay-as-you-go head means that every listed target is
  pay-as-you-go. Rotation inside a pool only swaps accounts of equal tier and priority.
\<close>

theorem DecideOrder_head_minimal:
  assumes "si_Strategy input \<noteq> RouteStrategyLoadBalance"
    and "sr_Source (fst (DecideOrder input m)) = ScheduleSourceQuota"
    and "j \<in> set (sr_Order (fst (DecideOrder input m)))"
  shows "(fst (rank_of input m (hd (sr_Order (fst (DecideOrder input m))))),
          fst (snd (rank_of input m (hd (sr_Order (fst (DecideOrder input m)))))))
    \<le> (fst (rank_of input m j), fst (snd (rank_of input m j)))"
proof -
  let ?state = "sched input m" and ?commit = "commits input m"
  let ?ranked = "sort_key rank_key (avail_of input ?state)"
  obtain h sp src state' where
    ph: "pick_head input (swept input ?state ?commit) ?ranked ?commit = (h, sp, src, state')"
    by (metis prod_cases4)
  have "src = ScheduleSourceQuota"
    using assms(2) decideOrder_ranked [OF assms(1) ph] by (auto simp: DecideOrder_eq split: if_splits)
  with ph obtain c where c: "?ranked \<noteq> []" "h = Some c" "c \<in> set ?ranked"
    "sc_tier c = sc_tier (hd ?ranked)" "tg_Priority (sc_target c) = tg_Priority (sc_target (hd ?ranked))"
    by (cases rule: pick_head_cases) auto
  have hd: "hd (sr_Order (fst (DecideOrder input m))) = sc_index c"
    using assms(1) c(2) by (simp add: DecideOrder_order chain_of_def ph Let_def)
  obtain d where d: "d \<in> set (avail_of input ?state)" "j = sc_index d"
    using assms(3) chain_of_mem_avail [of input ?state ?commit] by (auto simp: DecideOrder_order)
  have "rank_key (hd ?ranked) \<le> rank_key d"
    using d(1) by (rule sort_key_hd_le)
  then have "(sc_tier c, tg_Priority (sc_target c)) \<le> (sc_tier d, tg_Priority (sc_target d))"
    using c(4,5) by (auto simp: rank_key_def)
  moreover have "rank_of input m (sc_index c) = rank_key c" "rank_of input m j = rank_key d"
    using c(3) d by (auto simp: avail_of_mem intro: rank_of_index)
  ultimately show ?thesis
    using hd by (simp add: rank_key_def)
qed

theorem DecideOrder_head_minimal_witness:
  "\<exists>input m. sr_Source (fst (DecideOrder input m)) = ScheduleSourceQuota \<and>
     (fst (rank_of input m (hd (sr_Order (fst (DecideOrder input m))))),
      fst (snd (rank_of input m (hd (sr_Order (fst (DecideOrder input m)))))))
     \<le> (fst (rank_of input m 0), fst (snd (rank_of input m 0)))"
proof -
  let ?i = "ex_input ''quota'' [ex_target ''a'' [] 2, ex_target ''b'' [] 1]"
  have "sr_Source (fst (DecideOrder ?i newManager)) = ScheduleSourceQuota"
    "0 \<in> set (sr_Order (fst (DecideOrder ?i newManager)))"
    by code_simp+
  moreover have "si_Strategy ?i \<noteq> RouteStrategyLoadBalance"
    by (simp add: ex_input_def RouteStrategyLoadBalance_def)
  ultimately show ?thesis
    using DecideOrder_head_minimal by blast
qed

subsection \<open>Purity and stickiness\<close>

lemma pick_head_state:
  assumes "pick_head input state ranked commit = (h, sp, src, state')"
  shows "ss_sticky state' = ss_sticky state" "ss_rr state' = ss_rr state"
    "\<not> commit \<Longrightarrow> state' = state"
  using assms by (auto simp: pick_head_def Let_def split: option.splits list.splits if_splits)

lemma lb_state:
  "ss_sticky (snd (decideOrderLoadBalance input state avail facts commit pinned)) = ss_sticky state"
  "ss_spread (snd (decideOrderLoadBalance input state avail facts commit pinned)) = ss_spread state"
  "\<not> commit \<Longrightarrow> snd (decideOrderLoadBalance input state avail facts commit pinned) = state"
  by (auto simp: decideOrderLoadBalance_def Let_def split: option.splits)

lemma decideOrder_lb:
  assumes "si_Strategy input = RouteStrategyLoadBalance"
  shows "decideOrder input state commit =
    decideOrderLoadBalance input (swept input state commit) (avail_of input state)
      (map (target_facts input state) (si_Targets input)) commit (pin_in_effect input state)"
proof -
  have "available_candidates input (swept input state commit) =
      (avail_of input state, pin_in_effect input state)"
    by (simp add: available_candidates_eq)
  moreover have "decideOrder input state commit =
    (let st = swept input state commit; (avail, pinned) = available_candidates input st
     in decideOrderLoadBalance input st avail (map (target_facts input st) (si_Targets input)) commit pinned)"
    using assms by (simp add: decideOrder_def swept_def Let_def split_beta)
  ultimately show ?thesis
    by (simp add: Let_def del: available_candidates_swept(4))
qed

lemma decideOrder_sticky:
  "ss_sticky (snd (decideOrder input state commit)) = ss_sticky (swept input state commit)"
proof (cases "si_Strategy input = RouteStrategyLoadBalance")
  case True
  then show ?thesis by (simp add: decideOrder_lb lb_state)
next
  case False
  obtain h sp src state' where
    ph: "pick_head input (swept input state commit) (sort_key rank_key (avail_of input state)) commit
      = (h, sp, src, state')"
    by (metis prod_cases4)
  show ?thesis
    using decideOrder_ranked [OF False ph] pick_head_state(1) [OF ph] by simp
qed

lemma decideOrder_uncommitted: "snd (decideOrder input state False) = state"
proof (cases "si_Strategy input = RouteStrategyLoadBalance")
  case True
  then show ?thesis by (simp add: decideOrder_lb lb_state swept_def)
next
  case False
  obtain h sp src state' where
    ph: "pick_head input (swept input state False) (sort_key rank_key (avail_of input state)) False
      = (h, sp, src, state')"
    by (metis prod_cases4)
  show ?thesis
    using decideOrder_ranked [OF False ph] pick_head_state(3) [OF ph] by (simp add: swept_def)
qed

text \<open>
  A preview, and a call that carries the generation of a configuration that has been replaced,
  decide without changing the Manager at all.
\<close>

theorem DecideOrder_pure:
  assumes "\<not> (si_Commit input \<and> generationMatches m (si_Generation input))"
  shows "snd (DecideOrder input m) = m"
proof -
  have "commits input m = False"
    using assms by (simp add: commits_def)
  then show ?thesis
    by (simp add: DecideOrder_eq decideOrder_uncommitted)
qed

theorem DecideOrder_pure_witness:
  "snd (DecideOrder ((ex_input ''quota'' [ex_target ''a'' ''p'' 2]) \<lparr> si_Generation := 7 \<rparr>) newManager) = newManager"
  by (rule DecideOrder_pure) (simp add: ex_input_def newManager_def generationMatches_def)

end
