(* ===== verification/Manager_Steps.thy ===== *)
theory Manager_Steps
  imports Persist_Props Schedule_Props
begin

text \<open>
  The Manager as a state machine. Every state-changing method is one label of \<open>mop\<close>, executed
  atomically (one critical section), so a concurrent execution of the proxy is a list of labels. The
  reachable states, an invariant of all of them, and what holds across arbitrary interleavings:
  requests of a replaced configuration are inert, an operator freeze and a rate limit hold, and a
  half-open circuit admits one probe at a time.
\<close>

subsection \<open>Operations as labels\<close>

datatype mop =
    OpReplaceGeneration uint64 "string fset"
  | OpRenameQuotaKeys "(string \<times> string) list"
  | OpResetHealth string "(string, string) fmap"
  | OpFreezeHealth string "(string, string) fmap" "string list"
  | OpTakeHalfOpenSlot string gotime uint64
  | OpReleaseHalfOpenSlot string uint64
  | OpRecordSuccess string string gotime uint64
  | OpRecordFailure string int duration duration gotime uint64
  | OpRecordModelFailure string string duration gotime uint64
  | OpRecordRateLimit string gotime RateLimitKind uint64
  | OpRecordAttemptQuality string duration gotime uint64
  | OpSetModelDisabled string string bool
  | OpRestoreDisabledModels "(string, string list) fmap"
  | OpSetSticky string Sticky uint64
  | OpRecordLatchOutcome LatchOutcome uint64
  | OpCheckRepeatTurn string string string gotime duration uint64
  | OpSetPin string Pin
  | OpClearPin string
  | OpResolverSpreadStart string nat uint64
  | OpLearnParamBlock string string string uint64
  | OpQuotaRecovered "string list" gotime duration uint64
  | OpMergeQuotas "(string, QuotaSnapshot option) fmap" uint64
  | OpCommitQuota string "QuotaSnapshot option" uint64
  | OpClearQuotas uint64
  | OpRestoreSticky "(string, Sticky) fmap"
  | OpRestoreHealth "(string, PersistedHealth) fmap" gotime int
  | OpDecideOrder ScheduleInput

fun mexec :: "mop \<Rightarrow> Manager \<Rightarrow> Manager" where
  "mexec (OpReplaceGeneration g live) m = ReplaceGeneration g live m"
| "mexec (OpRenameQuotaKeys rs) m = RenameQuotaKeys rs m"
| "mexec (OpResetHealth n par) m = snd (ResetHealth n par m)"
| "mexec (OpFreezeHealth n par known) m = snd (FreezeHealth n par known m)"
| "mexec (OpTakeHalfOpenSlot n t g) m = snd (TakeHalfOpenSlot n t g m)"
| "mexec (OpReleaseHalfOpenSlot n g) m = ReleaseHalfOpenSlot n g m"
| "mexec (OpRecordSuccess n mo t g) m = RecordSuccess n mo t g m"
| "mexec (OpRecordFailure n th c p t g) m = RecordFailure n th c p t g m"
| "mexec (OpRecordModelFailure n mo l t g) m = RecordModelFailure n mo l t g m"
| "mexec (OpRecordRateLimit n u k g) m = snd (RecordRateLimit n u k g m)"
| "mexec (OpRecordAttemptQuality n d t g) m = RecordAttemptQuality n d t g m"
| "mexec (OpSetModelDisabled p mo d) m = SetModelDisabled p mo d m"
| "mexec (OpRestoreDisabledModels es) m = RestoreDisabledModels es m"
| "mexec (OpSetSticky k s g) m = snd (SetSticky k s g m)"
| "mexec (OpRecordLatchOutcome i g) m = snd (RecordLatchOutcome i g m)"
| "mexec (OpCheckRepeatTurn s r k t w g) m = snd (CheckRepeatTurn s r k t w g m)"
| "mexec (OpSetPin r p) m = SetPin r p m"
| "mexec (OpClearPin r) m = snd (ClearPin r m)"
| "mexec (OpResolverSpreadStart p n g) m = snd (ResolverSpreadStart p n g m)"
| "mexec (OpLearnParamBlock p mo x g) m = snd (LearnParamBlock p mo x g m)"
| "mexec (OpQuotaRecovered ns t a g) m = snd (QuotaRecoveredClearCooldown ns t a g m)"
| "mexec (OpMergeQuotas qs g) m = snd (MergeQuotas qs g m)"
| "mexec (OpCommitQuota n q g) m = snd (CommitQuota n q g m)"
| "mexec (OpClearQuotas g) m = snd (ClearQuotas g m)"
| "mexec (OpRestoreSticky s) m = RestoreSticky s m"
| "mexec (OpRestoreHealth h t th) m = RestoreHealth h t th m"
| "mexec (OpDecideOrder i) m = snd (DecideOrder i m)"

text \<open>The generation a request-scoped operation was issued under; 0 means "whatever is current".\<close>

fun op_generation :: "mop \<Rightarrow> uint64 option" where
  "op_generation (OpTakeHalfOpenSlot n t g) = Some g"
| "op_generation (OpReleaseHalfOpenSlot n g) = Some g"
| "op_generation (OpRecordSuccess n mo t g) = Some g"
| "op_generation (OpRecordFailure n th c p t g) = Some g"
| "op_generation (OpRecordModelFailure n mo l t g) = Some g"
| "op_generation (OpRecordRateLimit n u k g) = Some g"
| "op_generation (OpRecordAttemptQuality n d t g) = Some g"
| "op_generation (OpSetSticky k s g) = Some g"
| "op_generation (OpRecordLatchOutcome i g) = Some g"
| "op_generation (OpCheckRepeatTurn s r k t w g) = Some g"
| "op_generation (OpResolverSpreadStart p n g) = Some g"
| "op_generation (OpLearnParamBlock p mo x g) = Some g"
| "op_generation (OpQuotaRecovered ns t a g) = Some g"
| "op_generation (OpMergeQuotas qs g) = Some g"
| "op_generation (OpCommitQuota n q g) = Some g"
| "op_generation (OpClearQuotas g) = Some g"
| "op_generation (OpDecideOrder i) = Some (si_Generation i)"
| "op_generation _ = None"

definition mrun :: "mop list \<Rightarrow> Manager \<Rightarrow> Manager" where
  "mrun ops m = foldl (\<lambda>m op. mexec op m) m ops"

lemma mrun_simps [simp]:
  "mrun [] m = m"
  "mrun (op # ops) m = mrun ops (mexec op m)"
  by (simp_all add: mrun_def)

subsection \<open>Generation-gated operations\<close>

text \<open>
  The contract the request path relies on after a reload: an operation issued under a generation that
  is not the current one changes nothing. Whatever a state machine with such operations is, a whole
  backlog of stale operations changes nothing, and can be dropped from any schedule.
\<close>

locale generation_gate =
  fixes exec :: "'op \<Rightarrow> 's \<Rightarrow> 's" and issued :: "'op \<Rightarrow> 'g option" and stale :: "'g \<Rightarrow> 's \<Rightarrow> bool"
  assumes gate: "issued op = Some g \<Longrightarrow> stale g s \<Longrightarrow> exec op s = s"
begin

lemma stale_backlog:
  assumes "list_all (\<lambda>op. \<exists>g. issued op = Some g \<and> stale g s) ops"
  shows "foldl (\<lambda>s op. exec op s) s ops = s"
  using assms by (induction ops) (auto simp: gate)

lemma stale_dropped:
  assumes "issued op = Some g" and "stale g (foldl (\<lambda>s op. exec op s) s before)"
  shows "foldl (\<lambda>s op. exec op s) s (before @ op # after) = foldl (\<lambda>s op. exec op s) s (before @ after)"
  using assms by (simp add: gate)

end

definition stale_generation :: "uint64 \<Rightarrow> Manager \<Rightarrow> bool" where
  "stale_generation g m \<longleftrightarrow> \<not> generationMatches m g"

lemma DecideOrder_stale: "\<not> generationMatches m (si_Generation i) \<Longrightarrow> snd (DecideOrder i m) = m"
  by (simp add: DecideOrder_eq commits_def decideOrder_uncommitted)

lemmas gated_defs =
  TakeHalfOpenSlot_def ReleaseHalfOpenSlot_def RecordSuccess_def RecordFailure_def
  RecordModelFailure_def RecordRateLimit_def RecordAttemptQuality_def SetSticky_def
  RecordLatchOutcome_def CheckRepeatTurn_def ResolverSpreadStart_def LearnParamBlock_def
  QuotaRecoveredClearCooldown_def MergeQuotas_def CommitQuota_def ClearQuotas_def

interpretation mgr: generation_gate mexec op_generation stale_generation
proof
  fix op g m assume "op_generation op = Some g" "stale_generation g m"
  then show "mexec op m = m"
    by (cases op) (simp_all add: stale_generation_def gated_defs DecideOrder_stale)
qed

text \<open>
  C23. Requests in flight across a reload cannot touch the new configuration's state: once the
  generation has been replaced, any number of recording, scheduling, quota and binding operations
  issued under other (non-zero) generations, in any order, leave the Manager exactly as it is.
\<close>

theorem stale_requests_inert:
  assumes "list_all (\<lambda>op. \<exists>g. op_generation op = Some g \<and> g \<noteq> 0 \<and> g \<noteq> g') ops"
  shows "mrun ops (ReplaceGeneration g' live m) = ReplaceGeneration g' live m"
  unfolding mrun_def
proof (rule mgr.stale_backlog)
  show "list_all (\<lambda>op. \<exists>g. op_generation op = Some g \<and> stale_generation g (ReplaceGeneration g' live m)) ops"
    using assms
    by (auto simp: list_all_iff stale_generation_def generationMatches_def ReplaceGeneration_def)
qed

theorem stale_requests_inert_witness:
  "mrun [OpRecordFailure ''a'' 1 60 0 100 7, OpSetSticky ''r'' \<lparr> st_Provider = ''a'', st_Since = 1 \<rparr> 7]
     (ReplaceGeneration 8 {||} newManager) = ReplaceGeneration 8 {||} newManager"
  by (rule stale_requests_inert) simp

subsection \<open>Health across interleavings\<close>

text \<open>The operations that leave the health map alone.\<close>

fun touches_health :: "mop \<Rightarrow> bool" where
  "touches_health (OpReplaceGeneration g live) = True"
| "touches_health (OpResetHealth n par) = True"
| "touches_health (OpFreezeHealth n par known) = True"
| "touches_health (OpTakeHalfOpenSlot n t g) = True"
| "touches_health (OpReleaseHalfOpenSlot n g) = True"
| "touches_health (OpRecordSuccess n mo t g) = True"
| "touches_health (OpRecordFailure n th c p t g) = True"
| "touches_health (OpRecordRateLimit n u k g) = True"
| "touches_health (OpQuotaRecovered ns t a g) = True"
| "touches_health (OpRestoreHealth h t th) = True"
| "touches_health _ = False"

lemma RestoreDisabledModels_health [simp]: "m_health (RestoreDisabledModels es m) = m_health m"
  unfolding RestoreDisabledModels_def
  by (rule foldl_preserves, rule foldl_preserves) simp

lemma DecideOrder_health [simp]: "m_health (snd (DecideOrder i m)) = m_health m"
  by (simp add: DecideOrder_eq)

lemma mexec_health_frame: "\<not> touches_health op \<Longrightarrow> m_health (mexec op m) = m_health m"
  by (cases op)
    (auto simp: RenameQuotaKeys_def RecordModelFailure_def RecordAttemptQuality_def SetModelDisabled_def
      SetSticky_def RecordLatchOutcome_def CheckRepeatTurn_def SetPin_def ClearPin_def
      ResolverSpreadStart_def LearnParamBlock_def MergeQuotas_def CommitQuota_def ClearQuotas_def
      RestoreSticky_def Let_def)

lemma FreezeHealth_health:
  "fmlookup (m_health (snd (FreezeHealth n par known m))) k =
     (if n \<noteq> [] \<and> k \<in> set known \<and> freeze_match n par k then Some ((health_of m k) \<lparr> ph_frozen := True \<rparr>)
      else fmlookup (m_health m) k)"
proof -
  let ?f = "\<lambda>m p. set_health p ((health_of m p) \<lparr> ph_frozen := True \<rparr>) m"
  let ?g = "\<lambda>(k::string) v. Some ((case v of None \<Rightarrow> newHealth | Some h \<Rightarrow> h) \<lparr> ph_frozen := True \<rparr>)"
  have "fmlookup (m_health (foldl ?f m ks)) k =
      (if k \<in> set ks then ?g k (fmlookup (m_health m) k) else fmlookup (m_health m) k)" for ks
    by (rule foldl_pointwise [where get = "\<lambda>m k. fmlookup (m_health m) k" and g = ?g])
      (auto simp: health_of_def fmget_def)
  then show ?thesis
    by (auto simp: FreezeHealth_def health_of_def fmget_def Let_def)
qed

lemma ResetHealth_health:
  "fmlookup (m_health (snd (ResetHealth n par m))) k =
     (if reset_match n par k then None else fmlookup (m_health m) k)"
  by (simp add: ResetHealth_def Let_def split: option.splits)

text \<open>How one operation may change the record of a provider, if it neither replaces the state nor resets it.\<close>

fun releases :: "string \<Rightarrow> mop \<Rightarrow> bool" where
  "releases n (OpReplaceGeneration g live) = True"
| "releases n (OpResetHealth name par) = reset_match name par n"
| "releases n (OpQuotaRecovered ns t a g) = (t < 0)"
| "releases n (OpRestoreHealth h t th) = (t < 0)"
| "releases n _ = False"

lemma frozen_kept_by_recovery:
  assumes "0 \<le> t"
  shows "AccountFrozen (snd (QuotaRecoveredClearCooldown ns t a g m)) n = AccountFrozen m n"
  using assms
  by (auto simp: AccountFrozen_def QuotaRecoveredClearCooldown_def split_beta recover_fold_health
      split: option.splits)

lemma restored_frozen:
  "ho = Some h \<Longrightarrow> ph_frozen h \<Longrightarrow> \<exists>h'. restored now th p ho = Some h' \<and> ph_frozen h'"
  by (auto simp: restored_def Let_def)

lemma mexec_frozen:
  assumes "AccountFrozen m n" and "\<not> releases n op"
  shows "AccountFrozen (mexec op m) n"
proof (cases "touches_health op")
  case False
  then show ?thesis
    using assms(1) mexec_health_frame [of op m] by (simp add: AccountFrozen_def)
next
  case True
  obtain h where h: "fmlookup (m_health m) n = Some h" "ph_frozen h"
    using assms(1) by (auto simp: AccountFrozen_def split: option.splits)
  show ?thesis
  proof (cases op)
    case (OpRestoreHealth hs t th)
    with h assms(2) restored_frozen [OF h, of t th "fmget noPersisted hs n"] show ?thesis
      by (auto simp: AccountFrozen_def RestoreHealth_health)
  next
    case (OpQuotaRecovered ns t a g)
    with assms show ?thesis by (simp add: frozen_kept_by_recovery)
  qed (use True h assms(2) in \<open>auto simp: AccountFrozen_def FreezeHealth_health ResetHealth_health health_of_def
      TakeHalfOpenSlot_def ReleaseHalfOpenSlot_def RecordSuccess_def RecordFailure_def RecordRateLimit_def
      Let_def split: option.splits\<close>)
qed

text \<open>
  C24. An operator freeze holds: whatever is recorded, polled, restored or scheduled afterwards, in
  any interleaving, a frozen provider stays frozen and unavailable until a health reset that names it
  (or its pool, or everything) or a configuration reload.
\<close>

theorem freeze_holds:
  assumes "AccountFrozen m n" and "list_all (\<lambda>op. \<not> releases n op) ops"
  shows "AccountFrozen (mrun ops m) n \<and> \<not> provider_available (mrun ops m) n t"
proof -
  have "AccountFrozen (mrun ops m) n"
    using assms by (induction ops arbitrary: m) (auto intro: mexec_frozen)
  then show ?thesis
    by (auto simp: AccountFrozen_def provider_available_def available_def split: option.splits)
qed

theorem freeze_holds_witness:
  "AccountFrozen (mrun [OpRecordSuccess ''a'' ''m'' 5 0, OpRecordRateLimit ''a'' 9 Daily 0]
     (set_health ''a'' (newHealth \<lparr> ph_frozen := True \<rparr>) newManager)) ''a''"
  using freeze_holds [of "set_health ''a'' (newHealth \<lparr> ph_frozen := True \<rparr>) newManager" "''a''"
      "[OpRecordSuccess ''a'' ''m'' 5 0, OpRecordRateLimit ''a'' 9 Daily 0]"]
  by (simp add: AccountFrozen_def)

subsection \<open>One probe at a time\<close>

definition probing :: "Manager \<Rightarrow> string \<Rightarrow> bool" where
  "probing m n \<longleftrightarrow>
     (case fmlookup (m_health m) n of
        None \<Rightarrow> False
      | Some h \<Rightarrow> ph_circuitOpenUntil h \<noteq> 0 \<and> ph_halfOpenInFlight h)"

text \<open>The operations that settle a provider's probe, or discard its record.\<close>

fun settles :: "string \<Rightarrow> mop \<Rightarrow> bool" where
  "settles n (OpReplaceGeneration g live) = True"
| "settles n (OpResetHealth name par) = reset_match name par n"
| "settles n (OpReleaseHalfOpenSlot name g) = (name = n)"
| "settles n (OpRecordSuccess name mo t g) = (name = n)"
| "settles n (OpRecordFailure name th c p t g) = (name = n)"
| "settles n (OpRecordRateLimit name u k g) = (name = n)"
| "settles n (OpQuotaRecovered ns t a g) = (t < 0)"
| "settles n (OpRestoreHealth h t th) = (t < 0)"
| "settles n _ = False"

lemma probing_kept_by_recovery:
  "0 \<le> t \<Longrightarrow> probing (snd (QuotaRecoveredClearCooldown ns t a g m)) n = probing m n"
  by (auto simp: probing_def QuotaRecoveredClearCooldown_def split_beta recover_fold_health
      split: option.splits)

lemma restored_probing:
  "ph_circuitOpenUntil h \<noteq> 0 \<Longrightarrow> ph_halfOpenInFlight h \<Longrightarrow> 0 \<le> now \<Longrightarrow>
   \<exists>h'. restored now th p (Some h) = Some h' \<and> ph_circuitOpenUntil h' \<noteq> 0 \<and> ph_halfOpenInFlight h'"
  by (auto simp: restored_def Let_def)

lemma mexec_probing:
  assumes "probing m n" and "\<not> settles n op"
  shows "probing (mexec op m) n"
proof (cases "touches_health op")
  case False
  then show ?thesis
    using assms(1) mexec_health_frame [of op m] by (simp add: probing_def)
next
  case True
  obtain h where h: "fmlookup (m_health m) n = Some h" "ph_circuitOpenUntil h \<noteq> 0" "ph_halfOpenInFlight h"
    using assms(1) by (auto simp: probing_def split: option.splits)
  show ?thesis
  proof (cases op)
    case (OpRestoreHealth hs t th)
    with h assms(2) restored_probing [OF h(2,3), of t th "fmget noPersisted hs n"] show ?thesis
      by (auto simp: probing_def RestoreHealth_health)
  next
    case (OpQuotaRecovered ns t a g)
    with assms show ?thesis by (simp add: probing_kept_by_recovery)
  qed (use True h assms(2) in \<open>auto simp: probing_def FreezeHealth_health ResetHealth_health health_of_def
      TakeHalfOpenSlot_def ReleaseHalfOpenSlot_def RecordSuccess_def RecordFailure_def RecordRateLimit_def
      Let_def split: option.splits\<close>)
qed

text \<open>An operation of the current configuration: one that carries a generation carries the Manager's.\<close>

definition op_current :: "Manager \<Rightarrow> mop \<Rightarrow> bool" where
  "op_current m op \<longleftrightarrow> (case op_generation op of None \<Rightarrow> True | Some g \<Rightarrow> generationMatches m g)"

lemma mexec_probing_current: "probing m n \<Longrightarrow> \<not> (settles n op \<and> op_current m op) \<Longrightarrow> probing (mexec op m) n"
  using mexec_probing [of m n op] mgr.gate [of op _ m]
  by (auto simp: op_current_def stale_generation_def split: option.splits)

lemma mrun_probing:
  "probing m n \<Longrightarrow> \<forall>i<length ops. \<not> (settles n (ops ! i) \<and> op_current (mrun (take i ops) m) (ops ! i)) \<Longrightarrow> probing (mrun ops m) n"
proof (induction ops arbitrary: m)
  case (Cons op ops)
  have "\<not> (settles n op \<and> op_current m op)" using Cons.prems(2) by (metis length_greater_0_conv list.distinct(1) mrun_simps(1) nth_Cons_0 take0)
  then have "probing (mexec op m) n" using Cons.prems(1) by (rule mexec_probing_current [rotated])
  moreover have "\<not> (settles n (ops ! i) \<and> op_current (mrun (take i ops) (mexec op m)) (ops ! i))" if "i < length ops" for i
    using Cons.prems(2) [rule_format, of "Suc i"] that by simp
  ultimately show ?case using Cons.IH by simp
qed simp

text \<open>
  C4. The half-open probe is exclusive: after a request has taken the slot of a provider with a lapsed
  circuit, whatever operations of requests, pollers and operators follow, in any order and of any
  configuration, a second current request gets the slot, or the provider becomes schedulable, only if
  among them is one of the current configuration that settled the probe: a release or an outcome
  recorded for this very provider, or a reset, restore or reload of its record. The code does not tie
  that operation to the request that holds the slot.
\<close>

theorem half_open_exclusive:
  assumes "generationMatches m g" and "ph_circuitOpenUntil (health_of m n) \<noteq> 0"
    and "TakeHalfOpenSlot n t g m = (True, m')" and "generationMatches (mrun ops m') g'"
    and "fst (TakeHalfOpenSlot n t' g' (mrun ops m')) \<or> provider_available (mrun ops m') n t'"
  shows "\<exists>i<length ops. settles n (ops ! i) \<and> op_current (mrun (take i ops) m') (ops ! i)"
proof (rule ccontr)
  assume "\<not> (\<exists>i<length ops. settles n (ops ! i) \<and> op_current (mrun (take i ops) m') (ops ! i))"
  moreover have "probing m' n"
    using assms(1-3)
    by (auto simp: TakeHalfOpenSlot_def probing_def health_of_def newHealth_def split: option.splits if_splits)
  ultimately have "probing (mrun ops m') n" using mrun_probing by blast
  with assms(4,5) show False
    by (auto simp: TakeHalfOpenSlot_def probing_def provider_available_def available_def split: option.splits if_splits)
qed

theorem half_open_exclusive_witness:
  "\<exists>i<2. settles ''a'' ([OpRecordSuccess ''b'' ''m'' 5 0, OpReleaseHalfOpenSlot ''a'' 0] ! i)"
proof -
  let ?m = "set_health ''a'' (newHealth \<lparr> ph_circuitOpenUntil := 100 \<rparr>) newManager"
  let ?ops = "[OpRecordSuccess ''b'' ''m'' 5 0, OpReleaseHalfOpenSlot ''a'' 0]"
  have take: "TakeHalfOpenSlot ''a'' 200 0 ?m = (True, snd (TakeHalfOpenSlot ''a'' 200 0 ?m))"
    by (simp add: TakeHalfOpenSlot_def generationMatches_def newHealth_def)
  have again: "fst (TakeHalfOpenSlot ''a'' 300 0 (mrun ?ops (snd (TakeHalfOpenSlot ''a'' 200 0 ?m))))"
    by code_simp
  show ?thesis
    using half_open_exclusive [OF _ _ take, of ?ops 0 300] again
    by (auto simp: generationMatches_def newHealth_def numeral_2_eq_2)
qed

text \<open>Operations that may bring a rate-limit deadline forward.\<close>

fun lifts :: "string \<Rightarrow> mop \<Rightarrow> bool" where
  "lifts n (OpReplaceGeneration g live) = True"
| "lifts n (OpResetHealth name par) = reset_match name par n"
| "lifts n (OpQuotaRecovered ns t a g) = (n \<in> set ns \<or> t < 0)"
| "lifts n (OpRestoreHealth h t th) = True"
| "lifts n _ = False"

lemma mexec_rate_limit:
  assumes "\<not> lifts n op"
  shows "ph_rateLimitedUntil (health_of m n) \<le> ph_rateLimitedUntil (health_of (mexec op m) n)"
proof (cases "touches_health op")
  case False
  then show ?thesis
    using mexec_health_frame [of op m] by (simp add: health_of_def)
next
  case True
  show ?thesis
  proof (cases op)
    case (OpQuotaRecovered ns t a g)
    with assms show ?thesis
      by (simp add: health_of_def fmget_def QuotaRecoveredClearCooldown_def split_beta recover_fold_health)
  qed (use True assms in \<open>auto simp: health_of_def fmget_def FreezeHealth_health ResetHealth_health
      TakeHalfOpenSlot_def ReleaseHalfOpenSlot_def RecordSuccess_def RecordFailure_def RecordRateLimit_def
      Let_def newHealth_def split: option.splits\<close>)
qed

text \<open>
  A rate limit is only ever extended by requests: in any interleaving without an operator reset,
  a reload, a restore or a quota poll of the provider, its rate-limit deadline never moves to an
  earlier time, whatever shorter limits, successes or failures are recorded; so after a limit
  until some time was recorded the provider is unavailable at every earlier time.
\<close>

theorem rate_limit_holds:
  assumes "generationMatches m g" and "list_all (\<lambda>op. \<not> lifts n op) ops"
    and "m' = snd (RecordRateLimit n u kind g m)" and "t < u"
  shows "u \<le> ph_rateLimitedUntil (health_of (mrun ops m') n) \<and> \<not> available (health_of (mrun ops m') n) t"
proof -
  have "ph_rateLimitedUntil (health_of m' n) \<le> ph_rateLimitedUntil (health_of (mrun ops m') n)"
    using assms(2) by (induction ops arbitrary: m') (auto intro: order_trans mexec_rate_limit)
  moreover have "u \<le> ph_rateLimitedUntil (health_of m' n)"
    using assms(1,3) by (auto simp: RecordRateLimit_def Let_def)
  ultimately show ?thesis
    using assms(4) by (auto simp: available_def)
qed

theorem rate_limit_holds_witness:
  "\<not> available (health_of (mrun [OpRecordSuccess ''a'' ''m'' 5 0, OpRecordRateLimit ''a'' 50 Transient 0]
     (snd (RecordRateLimit ''a'' 100 Daily 0 newManager))) ''a'') 99"
  using rate_limit_holds [of newManager 0 "''a''"
      "[OpRecordSuccess ''a'' ''m'' 5 0, OpRecordRateLimit ''a'' 50 Transient 0]" _ 100 Daily 99]
  by (simp add: generationMatches_def)

end
