(* ===== verification/Manager_Invariant.thy ===== *)
theory Manager_Invariant
  imports Manager_Steps
begin

text \<open>
  The reachable states of the Manager, from the empty one by any sequence of its operations, and what
  holds in all of them: quality signals stay in the unit interval, repeat-turn windows are bounded,
  escalation streaks are never negative, a probe is in flight only behind an opened circuit, and no
  empty name is ever disabled.
\<close>

text \<open>Clock readings handed to the Manager are not before Go's zero time.\<close>

fun op_ok :: "mop \<Rightarrow> bool" where
  "op_ok (OpQuotaRecovered ns t a g) = (0 \<le> t)"
| "op_ok (OpRestoreHealth h t th) = (0 \<le> t)"
| "op_ok _ = True"

inductive mreach :: "Manager \<Rightarrow> bool" where
  init: "mreach newManager"
| step: "mreach m \<Longrightarrow> op_ok op \<Longrightarrow> mreach (mexec op m)"

inductive_cases mreach_E: "mreach m"

subsection \<open>The parts of the invariant\<close>

definition windows_ok :: "Manager \<Rightarrow> bool" where
  "windows_ok m \<longleftrightarrow>
     fmpred (\<lambda>_ w. rw_Entries w \<noteq> [] \<and> length (rw_Entries w) \<le> maxRepeatTurnWindowEntries) (m_repeatTurns m)"

definition latches_ok :: "Manager \<Rightarrow> bool" where
  "latches_ok m \<longleftrightarrow> fmpred (\<lambda>_ l. 0 \<le> la_BadRuns l) (m_latch m)"

definition probes_ok :: "Manager \<Rightarrow> bool" where
  "probes_ok m \<longleftrightarrow> fmpred (\<lambda>_ h. ph_halfOpenInFlight h \<longrightarrow> ph_circuitOpenUntil h \<noteq> 0) (m_health m)"

definition disabled_ok :: "Manager \<Rightarrow> bool" where
  "disabled_ok m \<longleftrightarrow> fBall (m_disabledModels m) (\<lambda>k. mk_Provider k \<noteq> [] \<and> mk_Model k \<noteq> [])"

definition manager_ok :: "Manager \<Rightarrow> bool" where
  "manager_ok m \<longleftrightarrow> quality_map_ok m \<and> windows_ok m \<and> latches_ok m \<and> probes_ok m \<and> disabled_ok m"

lemma fmpred_keep: "fmpred P m \<Longrightarrow> fmpred P (fmkeep Q m)"
  by (auto simp: fmpred_iff split: option.splits if_splits)

lemma fmpred_fmdrop: "fmpred P m \<Longrightarrow> fmpred P (fmdrop k m)"
  by auto

subsection \<open>Quality\<close>

lemma quality_of_eq: "m_quality m' = m_quality m \<Longrightarrow> quality_map_ok m' = quality_map_ok m"
  by (simp add: quality_map_ok_def)

lemma RestoreDisabledModels_frame [simp]:
  "m_quality (RestoreDisabledModels es m) = m_quality m"
  "m_repeatTurns (RestoreDisabledModels es m) = m_repeatTurns m"
  "m_latch (RestoreDisabledModels es m) = m_latch m"
  unfolding RestoreDisabledModels_def
  by (rule foldl_preserves, rule foldl_preserves, simp)+

lemma FreezeHealth_frame [simp]:
  "m_quality (snd (FreezeHealth n par known m)) = m_quality m"
  "m_repeatTurns (snd (FreezeHealth n par known m)) = m_repeatTurns m"
  "m_latch (snd (FreezeHealth n par known m)) = m_latch m"
  "m_disabledModels (snd (FreezeHealth n par known m)) = m_disabledModels m"
  unfolding FreezeHealth_def Let_def
  by (auto intro!: foldl_preserves simp: set_health_def)

lemma recover_fold_frame:
  "m_quality (snd (foldl (recover_one t a) acc ns)) = m_quality (snd acc)"
  "m_repeatTurns (snd (foldl (recover_one t a) acc ns)) = m_repeatTurns (snd acc)"
  "m_latch (snd (foldl (recover_one t a) acc ns)) = m_latch (snd acc)"
  "m_disabledModels (snd (foldl (recover_one t a) acc ns)) = m_disabledModels (snd acc)"
  by (rule foldl_preserves, simp add: recover_one_def split_beta Let_def set_health_def split: option.splits)+

lemma restore_parts_frame [simp]:
  "m_quality (restore_locks t n p m) = m_quality m" "m_quality (restore_params n p m) = m_quality m"
  "m_repeatTurns (restore_locks t n p m) = m_repeatTurns m" "m_repeatTurns (restore_params n p m) = m_repeatTurns m"
  "m_latch (restore_locks t n p m) = m_latch m" "m_latch (restore_params n p m) = m_latch m"
  "m_disabledModels (restore_locks t n p m) = m_disabledModels m"
  "m_disabledModels (restore_params n p m) = m_disabledModels m"
  unfolding restore_locks_def restore_params_def
  by (rule foldl_preserves, simp add: Let_def)+

lemma RestoreHealth_frame [simp]:
  "m_quality (RestoreHealth h t th m) = m_quality m"
  "m_repeatTurns (RestoreHealth h t th m) = m_repeatTurns m"
  "m_latch (RestoreHealth h t th m) = m_latch m"
  "m_disabledModels (RestoreHealth h t th m) = m_disabledModels m"
  unfolding RestoreHealth_def
  by (rule foldl_preserves, simp add: Let_def restore_health_entry_def set_health_def)+

lemma DecideOrder_frames [simp]:
  "m_quality (snd (DecideOrder i m)) = m_quality m"
  "m_repeatTurns (snd (DecideOrder i m)) = m_repeatTurns m"
  "m_latch (snd (DecideOrder i m)) = m_latch m"
  "m_disabledModels (snd (DecideOrder i m)) = m_disabledModels m"
  by (simp_all add: DecideOrder_eq)

lemmas step_defs =
  ReplaceGeneration_def RenameQuotaKeys_def ResetHealth_def TakeHalfOpenSlot_def ReleaseHalfOpenSlot_def
  RecordSuccess_def RecordFailure_def RecordModelFailure_def RecordRateLimit_def RecordAttemptQuality_def
  SetModelDisabled_def SetSticky_def RecordLatchOutcome_def CheckRepeatTurn_def SetPin_def ClearPin_def
  ResolverSpreadStart_def LearnParamBlock_def QuotaRecoveredClearCooldown_def MergeQuotas_def
  CommitQuota_def ClearQuotas_def RestoreSticky_def set_health_def recordQuality_def

fun touches_quality :: "mop \<Rightarrow> bool" where
  "touches_quality (OpReplaceGeneration g live) = True"
| "touches_quality (OpResetHealth n par) = True"
| "touches_quality (OpRecordSuccess n mo t g) = True"
| "touches_quality (OpRecordFailure n th c p t g) = True"
| "touches_quality (OpRecordAttemptQuality n d t g) = True"
| "touches_quality _ = False"

lemma mexec_quality_frame: "\<not> touches_quality op \<Longrightarrow> m_quality (mexec op m) = m_quality m"
  by (cases op) (auto simp: step_defs Let_def split_beta recover_fold_frame split: option.splits)

lemma mexec_quality_ok: "quality_map_ok m \<Longrightarrow> quality_map_ok (mexec op m)"
proof (cases "touches_quality op")
  case False
  then show "quality_map_ok m \<Longrightarrow> ?thesis"
    by (simp add: quality_of_eq [OF mexec_quality_frame])
next
  case True
  assume ok: "quality_map_ok m"
  have other: "quality_map_ok m'" if "m_quality m' = m_quality m" for m' :: Manager
    using ok quality_of_eq [OF that] by simp
  show ?thesis
  proof (cases op)
    case (OpRecordSuccess n mo t g)
    have "quality_map_ok (recordQuality n 0 t m')" if "m_quality m' = m_quality m" for m' :: Manager
      by (rule recordQuality_ok) (simp_all add: other that)
    with OpRecordSuccess ok show ?thesis
      by (auto simp: RecordSuccess_def Let_def split: option.splits)
  next
    case (OpRecordFailure n th c p t g)
    have "quality_map_ok (recordQuality n 1 t m')" if "m_quality m' = m_quality m" for m' :: Manager
      by (rule recordQuality_ok) (simp_all add: other that)
    with OpRecordFailure ok show ?thesis
      by (auto simp: RecordFailure_def Let_def)
  next
    case (OpRecordAttemptQuality n d t g)
    with ok show ?thesis by (simp add: RecordAttemptQuality_ok)
  qed (use ok True in \<open>auto simp: ReplaceGeneration_def ResetHealth_def Let_def
        quality_map_ok_def intro: fmpred_keep\<close>)
qed

subsection \<open>Windows and latches\<close>

fun touches_turns :: "mop \<Rightarrow> bool" where
  "touches_turns (OpReplaceGeneration g live) = True"
| "touches_turns (OpCheckRepeatTurn s r k t w g) = True"
| "touches_turns _ = False"

lemma mexec_turns_frame: "\<not> touches_turns op \<Longrightarrow> m_repeatTurns (mexec op m) = m_repeatTurns m"
  by (cases op) (auto simp: step_defs Let_def split_beta recover_fold_frame split: option.splits)

lemma sweep_turns_ok:
  assumes "fmpred (\<lambda>_ w. rw_Entries w \<noteq> [] \<and> length (rw_Entries w) \<le> n) turns"
  shows "fmpred (\<lambda>_ w. rw_Entries w \<noteq> [] \<and> length (rw_Entries w) \<le> n) (sweep_turns route cutoff turns)"
  using assms
  by (auto simp: fmpred_iff sweep_turns_def keep_recent_def split: option.splits if_splits
      intro: le_trans [OF length_filter_le])

lemma mexec_windows_ok: "windows_ok m \<Longrightarrow> windows_ok (mexec op m)"
proof (cases "touches_turns op")
  case False
  then show "windows_ok m \<Longrightarrow> ?thesis"
    using mexec_turns_frame [of op m] by (simp add: windows_ok_def)
next
  case True
  assume ok: "windows_ok m"
  show ?thesis
  proof (cases op)
    case (OpCheckRepeatTurn s r k t w g)
    show ?thesis
    proof (cases "s = [] \<or> r = [] \<or> k = [] \<or> \<not> generationMatches m g")
      case True
      with ok OpCheckRepeatTurn show ?thesis by (auto simp: CheckRepeatTurn_def)
    next
      case False
      have "fmpred (\<lambda>_ w. rw_Entries w \<noteq> [] \<and> length (rw_Entries w) \<le> maxRepeatTurnWindowEntries)
          (sweep_turns r cutoff (m_repeatTurns m))" for cutoff
        using ok by (intro sweep_turns_ok) (simp add: windows_ok_def)
      with False OpCheckRepeatTurn show ?thesis
        by (auto simp: CheckRepeatTurn_def Let_def windows_ok_def maxRepeatTurnWindowEntries_def)
    qed
  qed (use True in \<open>auto simp: ReplaceGeneration_def windows_ok_def\<close>)
qed

fun touches_latch :: "mop \<Rightarrow> bool" where
  "touches_latch (OpReplaceGeneration g live) = True"
| "touches_latch (OpRecordLatchOutcome i g) = True"
| "touches_latch _ = False"

lemma mexec_latch_frame: "\<not> touches_latch op \<Longrightarrow> m_latch (mexec op m) = m_latch m"
  by (cases op) (auto simp: step_defs Let_def split_beta recover_fold_frame split: option.splits)

lemma RecordLatchOutcome_ok:
  assumes "latches_ok m"
  shows "latches_ok (snd (RecordLatchOutcome i g m))"
proof -
  have kept: "fmpred (\<lambda>_ l. 0 \<le> la_BadRuns l) (fmkeep Q (m_latch m))"
    "fmpred (\<lambda>_ l. 0 \<le> la_BadRuns l) (fmkeep Q (fmdrop k (m_latch m)))" for Q k
    using assms by (auto simp: latches_ok_def intro!: fmpred_keep)
  have runs: "0 \<le> la_BadRuns l" if "fmlookup (m_latch m) k = Some l" for k l
    using assms that by (auto simp: latches_ok_def dest: fmpredD)
  show ?thesis
    using assms kept runs [of "LatchKey (lo_SessionKey i) (lo_Route i)"]
    by (auto simp: RecordLatchOutcome_def latches_ok_def Let_def noLatch_def split: option.splits
        intro!: fmpred_upd)
qed

lemma mexec_latches_ok: "latches_ok m \<Longrightarrow> latches_ok (mexec op m)"
proof (cases "touches_latch op")
  case False
  then show "latches_ok m \<Longrightarrow> ?thesis"
    using mexec_latch_frame [of op m] by (simp add: latches_ok_def)
next
  case True
  then show "latches_ok m \<Longrightarrow> ?thesis"
    by (cases op) (auto simp: RecordLatchOutcome_ok, auto simp: latches_ok_def ReplaceGeneration_def)
qed

subsection \<open>Probes and disabled models\<close>

lemma probes_lookup:
  "probes_ok m \<longleftrightarrow>
     (\<forall>n h. fmlookup (m_health m) n = Some h \<longrightarrow> ph_halfOpenInFlight h \<longrightarrow> ph_circuitOpenUntil h \<noteq> 0)"
  by (auto simp: probes_ok_def fmpred_iff)

lemma probes_health_of: "probes_ok m \<Longrightarrow> ph_halfOpenInFlight (health_of m n) \<Longrightarrow> ph_circuitOpenUntil (health_of m n) \<noteq> 0"
  by (auto simp: probes_lookup health_of_def fmget_def newHealth_def split: option.splits)

lemma mexec_probes_ok:
  assumes "probes_ok m" and "op_ok op"
  shows "probes_ok (mexec op m)"
proof (cases "touches_health op")
  case False
  with assms(1) show ?thesis
    using mexec_health_frame [of op m] by (simp add: probes_ok_def)
next
  case True
  note ok = assms(1) [unfolded probes_lookup, rule_format] and ho = probes_health_of [OF assms(1)]
  show ?thesis
  proof (cases op)
    case (OpRestoreHealth hs t th)
    have "ph_circuitOpenUntil h' \<noteq> 0"
      if "restored t th p ho' = Some h'" "ph_halfOpenInFlight h'" "ho' = fmlookup (m_health m) n" for p ho' h' n
      using that ok [of n] assms(2) OpRestoreHealth
      by (auto simp: restored_def Let_def newHealth_def split: if_splits option.splits)
    with OpRestoreHealth assms(2) show ?thesis
      by (auto simp: probes_lookup RestoreHealth_health)
  next
    case (OpQuotaRecovered ns t a g)
    with assms(2) ok show ?thesis
      by (auto simp: probes_lookup QuotaRecoveredClearCooldown_def split_beta recover_fold_health)
  qed (use True ok ho in \<open>auto simp: probes_lookup FreezeHealth_health ResetHealth_health ReplaceGeneration_def
      TakeHalfOpenSlot_def ReleaseHalfOpenSlot_def RecordSuccess_def RecordFailure_def RecordRateLimit_def
      Let_def split: option.splits if_splits\<close>)
qed

lemma RestoreDisabledModels_ok:
  assumes "disabled_ok m"
  shows "disabled_ok (RestoreDisabledModels es m)"
  unfolding RestoreDisabledModels_def
proof (rule foldl_invariant [where P = disabled_ok, OF assms])
  fix m :: Manager and p assume ok: "disabled_ok m"
  show "disabled_ok (foldl (\<lambda>m mo. if p = [] \<or> mo = [] then m
      else m \<lparr> m_disabledModels := finsert (ModelKey p mo) (m_disabledModels m) \<rparr>) m (fmget [] es p))"
    by (rule foldl_invariant [where P = disabled_ok, OF ok]) (auto simp: disabled_ok_def)
qed

fun touches_disabled :: "mop \<Rightarrow> bool" where
  "touches_disabled (OpSetModelDisabled p mo d) = True"
| "touches_disabled (OpRestoreDisabledModels es) = True"
| "touches_disabled _ = False"

lemma mexec_disabled_frame: "\<not> touches_disabled op \<Longrightarrow> m_disabledModels (mexec op m) = m_disabledModels m"
  by (cases op) (auto simp: step_defs Let_def split_beta recover_fold_frame split: option.splits)

lemma mexec_disabled_ok: "disabled_ok m \<Longrightarrow> disabled_ok (mexec op m)"
proof (cases "touches_disabled op")
  case False
  then show "disabled_ok m \<Longrightarrow> ?thesis"
    using mexec_disabled_frame [of op m] by (simp add: disabled_ok_def)
next
  case True
  then show "disabled_ok m \<Longrightarrow> ?thesis"
    by (cases op) (simp_all add: RestoreDisabledModels_ok, auto simp: SetModelDisabled_def disabled_ok_def)
qed

text \<open>
  C25. Every reachable state of the Manager is well formed: whatever operations run, with whatever
  arguments and in whatever order, the error rates and normalised latencies stay between 0 and 1,
  each repeat-turn window holds between one and 64 entries, escalation streaks are not negative, a
  half-open probe is in flight only at a provider whose circuit has opened, and no pair with an empty
  provider or model is disabled.
\<close>

theorem reachable_manager_ok:
  assumes "mreach m"
  shows "manager_ok m"
  using assms
proof induction
  case init
  show ?case
    by (simp add: manager_ok_def quality_map_ok_def windows_ok_def latches_ok_def probes_ok_def
        disabled_ok_def newManager_def)
next
  case (step m op)
  then show ?case
    by (simp add: manager_ok_def mexec_quality_ok mexec_windows_ok mexec_latches_ok mexec_probes_ok
        mexec_disabled_ok)
qed

theorem reachable_manager_ok_witness:
  "manager_ok (mexec (OpRecordFailure ''a'' 3 60 0 100 0) (mexec (OpSetModelDisabled ''a'' ''m'' True) newManager))"
  by (rule reachable_manager_ok) (intro mreach.intros; simp)

end
