(* ===== verification/Wirecap.thy ===== *)
theory Wirecap
  imports Prelude
begin

text \<open>
  Wire capabilities (\<open>internal/runtime/wirecap\<close>): the classification of a probe's answer into a
  three-valued verdict, the choice of the upstream protocol from the verdicts, and the two verdict
  stores with their fingerprint guard. A nil receiver, which every store method tolerates, is not
  modelled; the lock makes each method one step on the store record. Phrase matching works on bytes;
  the case folding of \<open>strings.ToLower\<close> and of the case-insensitive pattern is the ASCII one.
\<close>

subsection \<open>Verdicts\<close>

datatype Verdict = Unknown | Yes | No

fun Verdict_String :: "Verdict \<Rightarrow> string" where
  "Verdict_String Yes = ''yes''"
| "Verdict_String No = ''no''"
| "Verdict_String Unknown = ''unknown''"

definition ParseVerdict :: "string \<Rightarrow> Verdict" where
  "ParseVerdict value = (if value = ''yes'' then Yes else if value = ''no'' then No else Unknown)"

fun LegFresh :: "Verdict \<Rightarrow> gotime \<Rightarrow> gotime \<Rightarrow> duration \<Rightarrow> bool" where
  "LegFresh Yes probedAt now negativeTTL = True"
| "LegFresh No probedAt now negativeTTL = (time_sub now probedAt < negativeTTL)"
| "LegFresh Unknown probedAt now negativeTTL = False"

text \<open>The error argument is whether the probe failed before a status was received.\<close>

definition ClassifyStatus :: "int \<Rightarrow> bool \<Rightarrow> Verdict" where
  "ClassifyStatus status err =
     (if err then Unknown
      else if status = 404 then No
      else if 200 \<le> status \<and> status < 500 then Yes
      else Unknown)"

definition planNotOpen :: string where
  "planNotOpen =
     [CHR 0xE5, CHR 0xBD, CHR 0x93, CHR 0xE5, CHR 0x89, CHR 0x8D, CHR 0xE8, CHR 0xAE, CHR 0xA2,
      CHR 0xE9, CHR 0x98, CHR 0x85, CHR 0xE5, CHR 0xA5, CHR 0x97, CHR 0xE9, CHR 0xA4, CHR 0x90,
      CHR 0xE6, CHR 0x9A, CHR 0x82, CHR 0xE6, CHR 0x9C, CHR 0xAA, CHR 0xE5, CHR 0xBC, CHR 0x80,
      CHR 0xE6, CHR 0x94, CHR 0xBE]"

definition modelRejectionPhrases :: "string list" where
  "modelRejectionPhrases =
     [''model not found'', ''does not exist'', ''unsupported model'', ''invalid model'',
      ''model is not supported'', ''model not supported'', ''not supported by this endpoint'',
      ''modelprotocolunsupported'', ''does not support this protocol'', ''unknown model'',
      ''no such model'', ''not supported with this model'', planNotOpen]"

definition planPermissionPhrases :: "string list" where
  "planPermissionPhrases = [planNotOpen]"

text \<open>
  The pattern \<open>not supported for [a-z0-9][a-z0-9._*-]* in /\<close>: the repeated class contains no space,
  so the longest run of it is the only one that can be followed by the blank of \<open>in /\<close>.
\<close>

definition re_alnum :: "char \<Rightarrow> bool" where
  "re_alnum c \<longleftrightarrow> (let n = (of_char c :: nat) in 48 \<le> n \<and> n \<le> 57 \<or> 97 \<le> n \<and> n \<le> 122)"

definition re_name :: "char \<Rightarrow> bool" where
  "re_name c \<longleftrightarrow> re_alnum c \<or> c = CHR ''.'' \<or> c = CHR ''_'' \<or> c = CHR ''*'' \<or> c = CHR ''-''"

definition rejection_here :: "string \<Rightarrow> bool" where
  "rejection_here s \<longleftrightarrow>
     prefix ''not supported for '' s \<and>
     (case drop 18 s of
        [] \<Rightarrow> False
      | c # rest \<Rightarrow> re_alnum c \<and> prefix '' in /'' (dropWhile re_name rest))"

definition modelRejectionRE :: "string \<Rightarrow> bool" where
  "modelRejectionRE s \<longleftrightarrow> list_ex rejection_here (suffixes s)"

definition modelRejectionWordings :: "string \<Rightarrow> bool" where
  "modelRejectionWordings body \<longleftrightarrow>
     (let lower = ToLower body
      in list_ex (Contains lower) modelRejectionPhrases \<or> modelRejectionRE lower)"

definition ClassifyProviderStatus :: "int \<Rightarrow> bool \<Rightarrow> string \<Rightarrow> Verdict" where
  "ClassifyProviderStatus status err body =
     (if err then Unknown
      else if status = 400 \<and> modelRejectionWordings body then No
      else ClassifyStatus status err)"

definition ClassifyModelStatus :: "bool \<Rightarrow> int \<Rightarrow> bool \<Rightarrow> string \<Rightarrow> Verdict" where
  "ClassifyModelStatus probed status err body =
     (if \<not> probed then No
      else if err then Unknown
      else if status = 404 then No
      else if status = 429 then
        (if list_ex (Contains (ToLower body)) planPermissionPhrases then No else Unknown)
      else if status = 401 \<or> status = 403 then Unknown
      else if status = 400 then (if modelRejectionWordings body then No else Yes)
      else if 200 \<le> status \<and> status < 300 then Yes
      else if 400 < status \<and> status < 500 then Yes
      else Unknown)"

subsection \<open>Choosing the protocol\<close>

record Capabilities =
  wc_BaseURL :: string
  wc_Chat :: Verdict
  wc_Responses :: Verdict
  wc_ProbedAt :: gotime
  wc_ProbeVersion :: int

record ModelProtocols =
  mp_Chat :: Verdict
  mp_Anthropic :: Verdict
  mp_Responses :: Verdict

definition Concluded :: "ModelProtocols \<Rightarrow> bool" where
  "Concluded mp \<longleftrightarrow> mp_Chat mp \<noteq> Unknown \<and> mp_Anthropic mp \<noteq> Unknown \<and> mp_Responses mp \<noteq> Unknown"

definition Resolve :: "string \<Rightarrow> bool \<Rightarrow> Capabilities \<Rightarrow> bool \<Rightarrow> string \<times> bool" where
  "Resolve clientProtocol hasAnthropicBase capabilities ok =
     (if clientProtocol = ''anthropic'' then
        (if hasAnthropicBase then (''anthropic'', False)
         else if ok \<and> wc_Responses capabilities = Yes then (''responses'', True)
         else if ok \<and> wc_Responses capabilities = No then (''openai'', False)
         else (clientProtocol, False))
      else if clientProtocol = ''responses'' then
        (if ok \<and> wc_Responses capabilities = No then (''openai'', False) else (clientProtocol, False))
      else (clientProtocol, False))"

definition ResolveModel ::
  "string \<Rightarrow> bool \<Rightarrow> ModelProtocols \<Rightarrow> bool \<Rightarrow> Capabilities \<Rightarrow> bool \<Rightarrow> string \<times> bool" where
  "ResolveModel clientProtocol hasAnthropicBase modelCaps mok capabilities cok =
     (let fallthrough = Resolve clientProtocol hasAnthropicBase capabilities cok
      in if \<not> mok then fallthrough
         else if clientProtocol = ''anthropic'' then
           (if hasAnthropicBase \<and> mp_Anthropic modelCaps = Yes then (''anthropic'', False)
            else if mp_Responses modelCaps = Yes then (''responses'', True)
            else if mp_Anthropic modelCaps = No then
              (if cok \<and> wc_Responses capabilities = Yes \<and> mp_Responses modelCaps \<noteq> No
               then (''responses'', True) else (''openai'', False))
            else if Concluded modelCaps then (''openai'', False)
            else fallthrough)
         else if clientProtocol = ''responses'' then
           (case mp_Responses modelCaps of
              Yes \<Rightarrow> (''responses'', False)
            | No \<Rightarrow>
                if mp_Chat modelCaps = Yes then (''openai'', False)
                else if mp_Anthropic modelCaps = Yes then (''anthropic'', False)
                else if mp_Chat modelCaps = Unknown then (''openai'', False)
                else if mp_Anthropic modelCaps = Unknown then (''anthropic'', False)
                else (''openai'', False)
            | Unknown \<Rightarrow> fallthrough)
         else
           (if mp_Chat modelCaps = No \<and> mp_Responses modelCaps = Yes then (''responses'', True)
            else if mp_Chat modelCaps = No \<and> mp_Anthropic modelCaps = Yes then (''anthropic'', False)
            else if mp_Chat modelCaps = No \<and> mp_Responses modelCaps = Unknown then (''responses'', True)
            else if mp_Chat modelCaps = No \<and> mp_Anthropic modelCaps = Unknown then (''anthropic'', False)
            else (clientProtocol, False)))"

subsection \<open>The provider-level store\<close>

definition ProbeVersion :: int where
  "ProbeVersion = 2"

type_synonym Store = "(string, Capabilities) fmap"

definition noCapabilities :: Capabilities where
  "noCapabilities =
     \<lparr> wc_BaseURL = [], wc_Chat = Unknown, wc_Responses = Unknown, wc_ProbedAt = 0, wc_ProbeVersion = 0 \<rparr>"

definition Store_Put :: "string \<Rightarrow> Capabilities \<Rightarrow> Store \<Rightarrow> Store" where
  "Store_Put parent capabilities store = fmupd parent capabilities store"

definition Store_MarkResponsesUnsupported :: "string \<Rightarrow> gotime \<Rightarrow> Store \<Rightarrow> Store" where
  "Store_MarkResponsesUnsupported parent now store =
     fmupd parent ((fmget noCapabilities store parent) \<lparr> wc_Responses := No, wc_ProbedAt := now \<rparr>) store"

definition RestoreMatching :: "(string, Capabilities) fmap \<Rightarrow> (string, string) fmap \<Rightarrow> Store \<Rightarrow> Store" where
  "RestoreMatching loaded baseURLs store =
     fmkeep (\<lambda>parent c. fmlookup baseURLs parent = Some (wc_BaseURL c) \<and> wc_ProbeVersion c = ProbeVersion) loaded"

subsection \<open>The model-level store\<close>

record ProviderModelCaps =
  pc_Fingerprint :: string
  pc_ProbedAt :: gotime
  pc_Models :: "(string, ModelProtocols) fmap"

definition noProviderModelCaps :: ProviderModelCaps where
  "noProviderModelCaps = \<lparr> pc_Fingerprint = [], pc_ProbedAt = 0, pc_Models = fmempty \<rparr>"

record ModelStore =
  store_caps :: "(string, ProviderModelCaps) fmap"
  store_expected :: "(string, string) fmap"

definition MergeOnUnknown :: "ModelProtocols \<Rightarrow> ModelProtocols \<Rightarrow> ModelProtocols" where
  "MergeOnUnknown old next =
     \<lparr> mp_Chat = (if mp_Chat next = Unknown then mp_Chat old else mp_Chat next),
       mp_Anthropic = (if mp_Anthropic next = Unknown then mp_Anthropic old else mp_Anthropic next),
       mp_Responses = (if mp_Responses next = Unknown then mp_Responses old else mp_Responses next) \<rparr>"

definition Get :: "string \<Rightarrow> string \<Rightarrow> ModelStore \<Rightarrow> ModelProtocols option" where
  "Get parent model store =
     (case fmlookup (store_caps store) parent of
        None \<Rightarrow> None
      | Some entry \<Rightarrow> fmlookup (pc_Models entry) model)"

text \<open>The stale-generation guard shared by the writers.\<close>

definition superseded :: "string \<Rightarrow> string \<Rightarrow> ModelStore \<Rightarrow> bool" where
  "superseded parent fingerprint store =
     (case fmlookup (store_expected store) parent of None \<Rightarrow> False | Some want \<Rightarrow> want \<noteq> fingerprint)"

definition Put ::
  "string \<Rightarrow> string \<Rightarrow> string \<Rightarrow> ModelProtocols \<Rightarrow> gotime \<Rightarrow> ModelStore \<Rightarrow> ModelStore" where
  "Put parent fingerprint model mp now store =
     (if superseded parent fingerprint store then store
      else
        (let entry = fmget noProviderModelCaps (store_caps store) parent;
             mp = (if pc_Fingerprint entry = fingerprint
                   then (case fmlookup (pc_Models entry) model of
                           None \<Rightarrow> mp
                         | Some prev \<Rightarrow> MergeOnUnknown prev mp)
                   else mp);
             entry = \<lparr> pc_Fingerprint = fingerprint, pc_ProbedAt = now,
                       pc_Models = fmupd model mp (pc_Models entry) \<rparr>
         in store \<lparr> store_caps := fmupd parent entry (store_caps store) \<rparr>))"

definition PruneModels :: "string \<Rightarrow> string fset \<Rightarrow> ModelStore \<Rightarrow> bool \<times> ModelStore" where
  "PruneModels parent keep store =
     (case fmlookup (store_caps store) parent of
        None \<Rightarrow> (False, store)
      | Some entry \<Rightarrow>
          (list_ex (\<lambda>model. model |\<notin>| keep) (fmkeys (pc_Models entry)),
           store \<lparr> store_caps := fmupd parent
             (entry \<lparr> pc_Models := fmkeep (\<lambda>model _. model |\<in>| keep) (pc_Models entry) \<rparr>) (store_caps store) \<rparr>))"

definition ReplaceProviderModels ::
  "string \<Rightarrow> string \<Rightarrow> (string, ModelProtocols) fmap \<Rightarrow> gotime \<Rightarrow> ModelStore \<Rightarrow> ModelStore" where
  "ReplaceProviderModels parent fingerprint models now store =
     (if superseded parent fingerprint store then store
      else
        (let prev = (case fmlookup (store_caps store) parent of
                       None \<Rightarrow> fmempty
                     | Some old \<Rightarrow> if pc_Fingerprint old = fingerprint then pc_Models old else fmempty);
             copied = fmmap_keys (\<lambda>model mp. case fmlookup prev model of
                                               None \<Rightarrow> mp
                                             | Some p \<Rightarrow> MergeOnUnknown p mp) models
         in store \<lparr> store_caps := fmupd parent
              \<lparr> pc_Fingerprint = fingerprint, pc_ProbedAt = now, pc_Models = copied \<rparr> (store_caps store) \<rparr>))"

definition MarkResponsesUnsupported ::
  "string \<Rightarrow> string \<Rightarrow> string \<Rightarrow> gotime \<Rightarrow> ModelStore \<Rightarrow> ModelStore" where
  "MarkResponsesUnsupported parent model fingerprint now store =
     (case fmlookup (store_caps store) parent of
        None \<Rightarrow> store
      | Some entry \<Rightarrow>
          if fingerprint = [] \<or> pc_Fingerprint entry \<noteq> fingerprint then store
          else case fmlookup (pc_Models entry) model of
                 None \<Rightarrow> store
               | Some mp \<Rightarrow>
                   store \<lparr> store_caps := fmupd parent
                     (entry \<lparr> pc_Models := fmupd model (mp \<lparr> mp_Responses := No \<rparr>) (pc_Models entry),
                              pc_ProbedAt := now \<rparr>) (store_caps store) \<rparr>)"

definition Restore ::
  "(string, ProviderModelCaps) fmap \<Rightarrow> (string, string) fmap \<Rightarrow> ModelStore \<Rightarrow> ModelStore" where
  "Restore loaded fingerprints store =
     \<lparr> store_caps = fmkeep (\<lambda>parent entry. fmlookup fingerprints parent = Some (pc_Fingerprint entry)) loaded,
       store_expected = fingerprints \<rparr>"

end
