(* ===== verification/Wirecap_Props.thy ===== *)
theory Wirecap_Props
  imports Wirecap
begin

text \<open>
  What the protocol choice and the verdict stores promise: a leg probed as dead is not chosen while
  another may live, the choice agrees with the verdict of the client's own leg, and the store serves
  verdicts of the current configuration only and never forgets a conclusion it still may use.
\<close>

subsection \<open>The protocol choice\<close>

fun leg :: "ModelProtocols \<Rightarrow> string \<Rightarrow> Verdict" where
  "leg mp p = (if p = ''openai'' then mp_Chat mp else if p = ''anthropic'' then mp_Anthropic mp
               else if p = ''responses'' then mp_Responses mp else Unknown)"

text \<open>
  C30. A dead leg is the last resort: for a chat client, and for a responses client whose model's
  responses leg has been probed, the protocol chosen with a model verdict at hand is one whose leg
  was probed as dead only if all three legs were. For an Anthropic client the Anthropic leg is never
  chosen once it was probed as dead, whatever the provider declares.
\<close>

theorem ResolveModel_avoids_dead_leg:
  assumes "chosen = fst (ResolveModel client base mp True caps cok)"
  shows "(client = ''openai'' \<or> client = ''responses'' \<and> mp_Responses mp \<noteq> Unknown \<longrightarrow>
       leg mp chosen = No \<longrightarrow> mp_Chat mp = No \<and> mp_Anthropic mp = No \<and> mp_Responses mp = No) \<and>
    (client = ''anthropic'' \<and> mp_Anthropic mp = No \<longrightarrow> chosen \<noteq> ''anthropic'')"
  unfolding assms
  by (cases "mp_Chat mp"; cases "mp_Anthropic mp"; cases "mp_Responses mp")
    (auto simp: ResolveModel_def Let_def split: if_splits)

theorem ResolveModel_avoids_dead_leg_witness:
  "fst (ResolveModel ''anthropic'' True \<lparr> mp_Chat = Unknown, mp_Anthropic = No, mp_Responses = No \<rparr> True
     noCapabilities False) \<noteq> ''anthropic''"
  using ResolveModel_avoids_dead_leg [OF refl, where client = "''anthropic''" and base = True and
      mp = "\<lparr> mp_Chat = Unknown, mp_Anthropic = No, mp_Responses = No \<rparr>" and caps = noCapabilities and cok = False]
  by simp

text \<open>
  For an Anthropic client the fallback is chat even when chat was probed as dead and the responses leg
  is still unconcluded, unlike for the other two clients.
\<close>

lemma anthropic_client_rides_dead_chat:
  "fst (ResolveModel ''anthropic'' base \<lparr> mp_Chat = No, mp_Anthropic = No, mp_Responses = Unknown \<rparr> True caps False)
     = ''openai''"
  by (simp add: ResolveModel_def)

subsection \<open>The store as a state machine\<close>

datatype wop =
    WPut string string string ModelProtocols gotime
  | WPrune string "string fset"
  | WReplace string string "(string, ModelProtocols) fmap" gotime
  | WMark string string string gotime
  | WRestore "(string, ProviderModelCaps) fmap" "(string, string) fmap"

fun wexec :: "wop \<Rightarrow> ModelStore \<Rightarrow> ModelStore" where
  "wexec (WPut p fp mo mp t) s = Put p fp mo mp t s"
| "wexec (WPrune p keep) s = snd (PruneModels p keep s)"
| "wexec (WReplace p fp ms t) s = ReplaceProviderModels p fp ms t s"
| "wexec (WMark p mo fp t) s = MarkResponsesUnsupported p mo fp t s"
| "wexec (WRestore l fps) s = Restore l fps s"

definition wrun :: "wop list \<Rightarrow> ModelStore \<Rightarrow> ModelStore" where
  "wrun ops s = foldl (\<lambda>s op. wexec op s) s ops"

lemma wrun_simps [simp]: "wrun [] s = s" "wrun (op # ops) s = wrun ops (wexec op s)"
  by (simp_all add: wrun_def)

definition emptyStore :: ModelStore where
  "emptyStore = \<lparr> store_caps = fmempty, store_expected = fmempty \<rparr>"

text \<open>Every stored entry of a configured provider carries the configuration's fingerprint.\<close>

definition armed :: "ModelStore \<Rightarrow> bool" where
  "armed s \<longleftrightarrow>
     (\<forall>p fp e. fmlookup (store_expected s) p = Some fp \<longrightarrow> fmlookup (store_caps s) p = Some e \<longrightarrow>
        pc_Fingerprint e = fp)"

lemmas store_defs = Put_def PruneModels_def ReplaceProviderModels_def MarkResponsesUnsupported_def Restore_def
  superseded_def Let_def

lemma wexec_armed: "armed s \<Longrightarrow> armed (wexec op s)"
  by (cases op) (auto simp: armed_def store_defs split: option.splits if_splits)

lemma wrun_armed: "armed s \<Longrightarrow> armed (wrun ops s)"
  by (induction ops arbitrary: s) (auto intro: wexec_armed)

text \<open>
  Where a verdict comes from. The operations are listed newest first; a restore replaces the whole store,
  so nothing before it counts.
\<close>

definition records :: "string \<Rightarrow> string \<Rightarrow> string \<Rightarrow> string \<Rightarrow> Verdict \<Rightarrow> wop \<Rightarrow> bool" where
  "records p fp mo l v op \<longleftrightarrow>
     (case op of
        WPut p' fp' mo' mp t \<Rightarrow> p' = p \<and> fp' = fp \<and> mo' = mo \<and> leg mp l = v
      | WReplace p' fp' ms t \<Rightarrow> p' = p \<and> fp' = fp \<and> (\<exists>mp. fmlookup ms mo = Some mp \<and> leg mp l = v)
      | WMark p' mo' fp' t \<Rightarrow> p' = p \<and> fp' = fp \<and> mo' = mo \<and> l = ''responses'' \<and> v = No
      | WPrune p' keep \<Rightarrow> False
      | WRestore loaded fps \<Rightarrow>
          (\<exists>e mp. fmlookup loaded p = Some e \<and> pc_Fingerprint e = fp \<and> fmlookup (pc_Models e) mo = Some mp \<and> leg mp l = v))"

definition is_restore :: "wop \<Rightarrow> bool" where
  "is_restore op \<longleftrightarrow> (case op of WRestore _ _ \<Rightarrow> True | _ \<Rightarrow> False)"

fun recorded :: "string \<Rightarrow> string \<Rightarrow> string \<Rightarrow> string \<Rightarrow> Verdict \<Rightarrow> wop list \<Rightarrow> bool" where
  "recorded p fp mo l v [] = False"
| "recorded p fp mo l v (op # older) = (records p fp mo l v op \<or> \<not> is_restore op \<and> recorded p fp mo l v older)"

text \<open>A write that relabels: of a provider without an expected fingerprint, under another than its entry's.\<close>

definition relabels :: "string \<Rightarrow> ModelStore \<Rightarrow> wop \<Rightarrow> bool" where
  "relabels p s op \<longleftrightarrow>
     (case op of
        WPut p' fp mo mp t \<Rightarrow>
          p' = p \<and> fmlookup (store_expected s) p = None \<and>
          (\<exists>e. fmlookup (store_caps s) p = Some e \<and> pc_Fingerprint e \<noteq> fp)
      | _ \<Rightarrow> False)"

fun unrelabelled :: "string \<Rightarrow> wop list \<Rightarrow> bool" where
  "unrelabelled p [] = True"
| "unrelabelled p (op # older) =
     (is_restore op \<or> unrelabelled p older \<and> \<not> relabels p (wrun (rev older) emptyStore) op)"

lemma wrun_snoc [simp]: "wrun (ops @ [op]) s = wexec op (wrun ops s)"
  by (simp add: wrun_def)

lemma leg_Merge: "leg (MergeOnUnknown a b) l = (if leg b l = Unknown then leg a l else leg b l)"
  by (simp add: MergeOnUnknown_def)

lemma leg_mark: "leg (mp\<lparr> mp_Responses := No \<rparr>) l = (if l = ''responses'' then No else leg mp l)"
  by simp

declare leg.simps [simp del]

text \<open>Every known leg was recorded under the fingerprint of its entry.\<close>

definition sourced :: "string \<Rightarrow> wop list \<Rightarrow> ModelStore \<Rightarrow> bool" where
  "sourced p ops s \<longleftrightarrow>
     (\<forall>e mo mp l. fmlookup (store_caps s) p = Some e \<longrightarrow> fmlookup (pc_Models e) mo = Some mp \<longrightarrow> leg mp l \<noteq> Unknown \<longrightarrow>
        recorded p (pc_Fingerprint e) mo l (leg mp l) ops)"

lemma sourcedD:
  "sourced p ops s \<Longrightarrow> fmlookup (store_caps s) p = Some e \<Longrightarrow> fmlookup (pc_Models e) mo = Some mp \<Longrightarrow> leg mp l \<noteq> Unknown \<Longrightarrow>
   recorded p (pc_Fingerprint e) mo l (leg mp l) ops"
  by (simp add: sourced_def)

lemma put_sourced:
  assumes "sourced p ops s" "armed s" "\<not> relabels p s (WPut p' fp mo mp t)"
  shows "sourced p (WPut p' fp mo mp t # ops) (Put p' fp mo mp t s)"
proof (cases "p' = p \<and> \<not> superseded p fp s")
  case False
  then have "fmlookup (store_caps (Put p' fp mo mp t s)) p = fmlookup (store_caps s) p" by (auto simp: Put_def Let_def)
  then show ?thesis using assms(1) by (simp add: sourced_def is_restore_def)
next
  case True
  show ?thesis
  proof (cases "fmlookup (store_caps s) p")
    case None
    then show ?thesis using True by (auto simp: sourced_def Put_def Let_def noProviderModelCaps_def records_def split: if_splits)
  next
    case (Some e)
    have fp: "pc_Fingerprint e = fp"
      using True Some assms(2,3) by (auto simp: armed_def superseded_def relabels_def split: option.splits)
    have old: "recorded p fp mo' l (leg q l) ops" if "fmlookup (pc_Models e) mo' = Some q" "leg q l \<noteq> Unknown" for mo' q l
      using sourcedD [OF assms(1) Some that] fp by simp
    have new: "records p fp mo l (leg mp l) (WPut p fp mo mp t)" for l by (simp add: records_def)
    show ?thesis
      using True Some fp old new
      by (auto simp: sourced_def Put_def Let_def is_restore_def leg_Merge split: option.splits if_splits)
  qed
qed

lemma replace_sourced:
  assumes "sourced p ops s"
  shows "sourced p (WReplace p' fp ms t # ops) (ReplaceProviderModels p' fp ms t s)"
proof (cases "p' = p \<and> \<not> superseded p fp s")
  case False
  then have "fmlookup (store_caps (ReplaceProviderModels p' fp ms t s)) p = fmlookup (store_caps s) p"
    by (auto simp: ReplaceProviderModels_def Let_def)
  then show ?thesis using assms by (simp add: sourced_def is_restore_def)
next
  case True
  have new: "records p fp mo l (leg mp l) (WReplace p fp ms t)" if "fmlookup ms mo = Some mp" for mo mp l
    using that by (auto simp: records_def)
  have old: "recorded p fp mo l (leg q l) ops"
    if "fmlookup (store_caps s) p = Some e" "pc_Fingerprint e = fp" "fmlookup (pc_Models e) mo = Some q" "leg q l \<noteq> Unknown" for e mo q l
    using sourcedD [OF assms that(1,3,4)] that(2) by simp
  show ?thesis
    using True old new
    by (auto simp: sourced_def ReplaceProviderModels_def Let_def is_restore_def leg_Merge split: option.splits if_splits)
qed

lemma mark_sourced:
  assumes "sourced p ops s"
  shows "sourced p (WMark p' mo fp t # ops) (MarkResponsesUnsupported p' mo fp t s)"
proof -
  have new: "records p fp mo ''responses'' No (WMark p mo fp t)" by (simp add: records_def)
  show ?thesis
    using new sourcedD [OF assms]
    by (auto simp: sourced_def MarkResponsesUnsupported_def is_restore_def leg_mark split: option.splits if_splits)
qed

lemma prune_sourced:
  assumes "sourced p ops s"
  shows "sourced p (WPrune p' keep # ops) (snd (PruneModels p' keep s))"
  using sourcedD [OF assms]
  by (auto simp: sourced_def PruneModels_def is_restore_def split: option.splits if_splits)

lemma restore_sourced: "sourced p (WRestore loaded fps # ops) (Restore loaded fps s)"
  by (auto simp: sourced_def Restore_def records_def split: option.splits if_splits)

lemma wrun_sourced: "unrelabelled p ops \<Longrightarrow> sourced p ops (wrun (rev ops) emptyStore)"
proof (induction ops)
  case Nil
  then show ?case by (simp add: sourced_def emptyStore_def)
next
  case (Cons op ops)
  show ?case
  proof (cases "is_restore op")
    case True
    then show ?thesis by (cases op) (simp_all add: is_restore_def restore_sourced)
  next
    case False
    then have IH: "sourced p ops (wrun (rev ops) emptyStore)" "\<not> relabels p (wrun (rev ops) emptyStore) op"
      using Cons by simp_all
    have armed: "armed (wrun (rev ops) emptyStore)" by (rule wrun_armed) (simp add: armed_def emptyStore_def)
    show ?thesis
    proof (cases op)
      case (WPut p' fp mo mp t)
      then show ?thesis using put_sourced [OF IH(1) armed] IH(2) by simp
    qed (use False IH(1) in \<open>simp_all add: is_restore_def replace_sourced mark_sourced prune_sourced\<close>)
  qed
qed

lemma wexec_expected: "\<not> is_restore op \<Longrightarrow> store_expected (wexec op s) = store_expected s"
  by (cases op) (auto simp: is_restore_def store_defs split: option.splits)

lemma expected_unrelabelled: "fmlookup (store_expected (wrun (rev ops) emptyStore)) p \<noteq> None \<Longrightarrow> unrelabelled p ops"
proof (induction ops)
  case (Cons op ops)
  then show ?case using wexec_expected [of op] by (cases "is_restore op") (auto simp: relabels_def split: wop.splits)
qed simp

text \<open>
  C8. Verdicts of a superseded configuration are never served: after any sequence of probe writes,
  refreshes, prunings, runtime corrections and restores, in any order, every known leg the store serves
  for a provider of the restored configuration was recorded, since the last restore or in the restored
  entry, for this provider and model under exactly the fingerprint the configuration expects. The same
  holds, with the fingerprint of its entry, for a provider without an expected fingerprint, unless a
  probe write relabelled its entry.
\<close>

theorem stored_verdicts_current:
  assumes "s = wrun ops emptyStore" and "fmlookup (store_caps s) p = Some entry"
    and "fmlookup (pc_Models entry) mo = Some mp" and "leg mp l \<noteq> Unknown"
    and "fmlookup (store_expected s) p \<noteq> None \<or> unrelabelled p (rev ops)"
  shows "recorded p (pc_Fingerprint entry) mo l (leg mp l) (rev ops) \<and>
    (\<forall>fp. fmlookup (store_expected s) p = Some fp \<longrightarrow> pc_Fingerprint entry = fp)"
proof
  have "unrelabelled p (rev ops)" using assms(1,5) expected_unrelabelled [of "rev ops" p] by auto
  then have "sourced p (rev ops) s" using wrun_sourced [of p "rev ops"] assms(1) by simp
  then show "recorded p (pc_Fingerprint entry) mo l (leg mp l) (rev ops)" using assms(2-4) by (rule sourcedD)
  have "armed s" unfolding assms(1) by (rule wrun_armed) (simp add: armed_def emptyStore_def)
  then show "\<forall>fp. fmlookup (store_expected s) p = Some fp \<longrightarrow> pc_Fingerprint entry = fp"
    using assms(2) by (auto simp: armed_def)
qed

theorem stored_verdicts_current_witness:
  "recorded ''p'' ''new'' ''m'' ''openai'' Yes
     [WPut ''p'' ''old'' ''m'' \<lparr> mp_Chat = No, mp_Anthropic = No, mp_Responses = No \<rparr> 1,
      WPut ''p'' ''new'' ''m'' \<lparr> mp_Chat = Yes, mp_Anthropic = No, mp_Responses = No \<rparr> 2,
      WRestore fmempty (fmupd ''p'' ''new'' fmempty)]"
proof -
  let ?ops = "[WRestore fmempty (fmupd ''p'' ''new'' fmempty),
      WPut ''p'' ''new'' ''m'' \<lparr> mp_Chat = Yes, mp_Anthropic = No, mp_Responses = No \<rparr> 2,
      WPut ''p'' ''old'' ''m'' \<lparr> mp_Chat = No, mp_Anthropic = No, mp_Responses = No \<rparr> 1]"
  let ?mp = "\<lparr> mp_Chat = Yes, mp_Anthropic = No, mp_Responses = No \<rparr>"
  let ?e = "\<lparr> pc_Fingerprint = ''new'', pc_ProbedAt = 2, pc_Models = fmupd ''m'' ?mp fmempty \<rparr>"
  have "fmlookup (store_caps (wrun ?ops emptyStore)) ''p'' = Some ?e" "fmlookup (pc_Models ?e) ''m'' = Some ?mp"
    "leg ?mp ''openai'' = Yes" "fmlookup (store_expected (wrun ?ops emptyStore)) ''p'' \<noteq> None"
    by (simp_all add: store_defs emptyStore_def noProviderModelCaps_def leg.simps)
  then show ?thesis
    using stored_verdicts_current [OF refl, of ?ops "''p''" ?e "''m''" ?mp "''openai''"] by simp
qed

text \<open>Operations that keep a model of a provider listed.\<close>

fun lists_model :: "string \<Rightarrow> string \<Rightarrow> wop \<Rightarrow> bool" where
  "lists_model p mo (WPut p' fp mo' mp t) = True"
| "lists_model p mo (WPrune p' keep) = (p' = p \<longrightarrow> mo |\<in>| keep)"
| "lists_model p mo (WReplace p' fp ms t) = (p' = p \<longrightarrow> fmlookup ms mo \<noteq> None)"
| "lists_model p mo (WMark p' mo' fp t) = True"
| "lists_model p mo (WRestore l fps) = False"

definition keeps_conclusions :: "ModelProtocols \<Rightarrow> ModelProtocols \<Rightarrow> bool" where
  "keeps_conclusions mp mp' \<longleftrightarrow>
     (mp_Chat mp \<noteq> Unknown \<longrightarrow> mp_Chat mp' \<noteq> Unknown) \<and>
     (mp_Anthropic mp \<noteq> Unknown \<longrightarrow> mp_Anthropic mp' \<noteq> Unknown) \<and>
     (mp_Responses mp \<noteq> Unknown \<longrightarrow> mp_Responses mp' \<noteq> Unknown)"

lemma keeps_conclusions_trans:
  "keeps_conclusions a b \<Longrightarrow> keeps_conclusions b c \<Longrightarrow> keeps_conclusions a c"
  by (auto simp: keeps_conclusions_def)

lemma keeps_conclusions_MergeOnUnknown [simp]: "keeps_conclusions a (MergeOnUnknown a b)"
  by (simp add: keeps_conclusions_def MergeOnUnknown_def)

lemma wexec_keeps:
  assumes "armed s" "fmlookup (store_expected s) p = Some fp" "Get p mo s = Some mp" "lists_model p mo op"
  shows "fmlookup (store_expected (wexec op s)) p = Some fp \<and>
    (\<exists>mp'. Get p mo (wexec op s) = Some mp' \<and> keeps_conclusions mp mp')"
proof -
  obtain e where e: "fmlookup (store_caps s) p = Some e" "fmlookup (pc_Models e) mo = Some mp"
    using assms(3) by (auto simp: Get_def split: option.splits)
  have fp: "pc_Fingerprint e = fp"
    using assms(1,2) e by (auto simp: armed_def)
  have refl: "keeps_conclusions mp mp" "keeps_conclusions mp (mp \<lparr> mp_Responses := No \<rparr>)"
    by (simp_all add: keeps_conclusions_def)
  show ?thesis
    using assms(2,4) e fp refl
    by (cases op) (auto simp: store_defs Get_def split: option.splits)
qed

text \<open>
  A conclusion is not forgotten: for a configured provider, as long as a model stays listed, no
  sequence of probe writes, refreshes, prunings and corrections turns a concluded leg of its matrix
  back into an unknown one; a rate-limited probe pass (unknown legs) and a slow pass of an older
  configuration cannot take information away.
\<close>

theorem conclusions_kept:
  assumes "armed s" and "fmlookup (store_expected s) p = Some fp" and "Get p mo s = Some mp"
    and "list_all (lists_model p mo) ops"
  shows "\<exists>mp'. Get p mo (wrun ops s) = Some mp' \<and> keeps_conclusions mp mp'"
  using assms
proof (induction ops arbitrary: s mp)
  case Nil
  then show ?case by (auto simp: keeps_conclusions_def)
next
  case (Cons op ops)
  then obtain mp' where mp': "Get p mo (wexec op s) = Some mp'" "keeps_conclusions mp mp'"
    "fmlookup (store_expected (wexec op s)) p = Some fp"
    using wexec_keeps [of s p fp mo mp op] by auto
  then obtain mp'' where "Get p mo (wrun ops (wexec op s)) = Some mp''" "keeps_conclusions mp' mp''"
    using Cons.IH [of "wexec op s" mp'] Cons.prems wexec_armed [of s op] by auto
  with mp'(2) show ?case
    by (auto intro: keeps_conclusions_trans)
qed

theorem conclusions_kept_witness:
  "\<exists>mp'. Get ''p'' ''m'' (wrun [WPut ''p'' ''f'' ''m'' \<lparr> mp_Chat = Unknown, mp_Anthropic = Unknown, mp_Responses = Unknown \<rparr> 9]
      \<lparr> store_caps = fmupd ''p'' \<lparr> pc_Fingerprint = ''f'', pc_ProbedAt = 1,
          pc_Models = fmupd ''m'' \<lparr> mp_Chat = Yes, mp_Anthropic = No, mp_Responses = No \<rparr> fmempty \<rparr> fmempty,
        store_expected = fmupd ''p'' ''f'' fmempty \<rparr>) = Some mp' \<and>
     keeps_conclusions \<lparr> mp_Chat = Yes, mp_Anthropic = No, mp_Responses = No \<rparr> mp'"
  by (rule conclusions_kept) (simp_all add: armed_def Get_def)

text \<open>
  Without an expected fingerprint a write under a new fingerprint keeps the other models' verdicts and
  labels them with it, although a fingerprint is meant to invalidate the whole entry.
\<close>

lemma unarmed_put_relabels:
  assumes "fmlookup (store_expected s) p = None" and "fmlookup (store_caps s) p = Some e"
    and "fmlookup (pc_Models e) other = Some mp" and "other \<noteq> mo" and "pc_Fingerprint e \<noteq> fp"
  shows "Get p other (Put p fp mo mp' t s) = Some mp \<and>
    pc_Fingerprint (the (fmlookup (store_caps (Put p fp mo mp' t s)) p)) = fp"
  using assms by (simp add: Put_def superseded_def Get_def Let_def)

subsection \<open>Restoring\<close>

text \<open>
  A restart keeps exactly the verdicts that still apply: restoring a snapshot of the store under
  new fingerprints serves, for every model, the stored verdict when its provider is configured with
  the fingerprint the verdict was recorded under, and nothing otherwise.
\<close>

theorem Restore_serves_matching:
  "Get p mo (Restore (store_caps s) fps s') =
     (case fmlookup (store_caps s) p of
        None \<Rightarrow> None
      | Some e \<Rightarrow> if fmlookup fps p = Some (pc_Fingerprint e) then Get p mo s else None)"
  by (auto simp: Get_def Restore_def split: option.splits)

declare leg.simps [simp]

end
