(* ===== verification/Request_Profile.thy ===== *)
theory Request_Profile
  imports Prelude
begin

unbundle bit_operations_syntax

text \<open>
  The request profile (\<open>internal/routing/request.go\<close>): what routing reads off the raw body of a
  client request without parsing it, namely the image, tools and assistant-turn markers, the prompt
  size estimate and the message-role counts. A body is a list of bytes.
\<close>

definition any_marker :: "string list \<Rightarrow> string \<Rightarrow> bool" where
  "any_marker markers body \<longleftrightarrow> list_ex (Contains body) markers"

definition assistantMarkers :: "string list" where
  "assistantMarkers = [''\"role\":\"assistant\"'', ''\"role\": \"assistant\"'']"

definition imageMarkers :: "string list" where
  "imageMarkers =
     [''\"type\":\"image\"'', ''\"type\": \"image\"'', ''\"type\":\"image_url\"'', ''\"type\": \"image_url\"'',
      ''\"type\":\"input_image\"'', ''\"type\": \"input_image\"'', ''\"source\":{\"type\":\"base64\"'']"

definition requestFollowUp :: "string \<Rightarrow> bool" where
  "requestFollowUp body = any_marker assistantMarkers body"

definition requestHasImage :: "string \<Rightarrow> bool" where
  "requestHasImage body = any_marker imageMarkers body"

definition RequestHasTools :: "string \<Rightarrow> bool" where
  "RequestHasTools body \<longleftrightarrow> Contains body ''\"tools\":['' \<or> Contains body ''\"tools\": [''"

subsection \<open>Prompt size\<close>

abbreviation byte :: "char \<Rightarrow> int" where
  "byte c \<equiv> of_char c"

text \<open>\<open>decodeRune\<close> at the head of a non-empty suffix of the body: the code point and its size.\<close>

fun decodeRune :: "string \<Rightarrow> int \<times> nat" where
  "decodeRune [] = (0, 1)"
| "decodeRune (c # rest) =
     (let first = byte c in
      if first AND 0x80 = 0 then (first, 1)
      else if first AND 0xE0 = 0xC0 \<and> 1 \<le> length rest then
        (push_bit 6 (first AND 0x1F) OR (byte (rest ! 0) AND 0x3F), 2)
      else if first AND 0xF0 = 0xE0 \<and> 2 \<le> length rest then
        (push_bit 12 (first AND 0x0F) OR push_bit 6 (byte (rest ! 0) AND 0x3F) OR (byte (rest ! 1) AND 0x3F), 3)
      else if first AND 0xF8 = 0xF0 \<and> 3 \<le> length rest then
        (push_bit 18 (first AND 0x07) OR push_bit 12 (byte (rest ! 0) AND 0x3F) OR
           push_bit 6 (byte (rest ! 1) AND 0x3F) OR (byte (rest ! 2) AND 0x3F), 4)
      else (first, 1))"

definition isCJK :: "int \<Rightarrow> bool" where
  "isCJK value \<longleftrightarrow>
     0x4E00 \<le> value \<and> value \<le> 0x9FFF \<or> 0x3040 \<le> value \<and> value \<le> 0x30FF \<or> 0xAC00 \<le> value \<and> value \<le> 0xD7AF"

definition isBase64Char :: "char \<Rightarrow> bool" where
  "isBase64Char c \<longleftrightarrow>
     CHR ''A'' \<le> c \<and> c \<le> CHR ''Z'' \<or> CHR ''a'' \<le> c \<and> c \<le> CHR ''z'' \<or> CHR ''0'' \<le> c \<and> c \<le> CHR ''9'' \<or>
     c = CHR ''+'' \<or> c = CHR ''/'' \<or> c = CHR ''=''"

text \<open>The scan stops after 120 bytes; 100 of them make a run.\<close>

definition isBase64Run :: "string \<Rightarrow> bool" where
  "isBase64Run s \<longleftrightarrow> 100 \<le> length (takeWhile isBase64Char (take 120 s))"

lemma decodeRune_size: "1 \<le> snd (decodeRune s)" "s \<noteq> [] \<Longrightarrow> snd (decodeRune s) \<le> length s"
  by (cases s; auto simp: Let_def)+

lemma isBase64Run_hd: "isBase64Run s \<Longrightarrow> s \<noteq> [] \<and> isBase64Char (hd s)"
  by (cases s) (auto simp: isBase64Run_def split: if_splits)

lemma base64_run_shrinks: "isBase64Run s \<Longrightarrow> length (dropWhile isBase64Char s) < length s"
  using isBase64Run_hd [of s] by (cases s) (auto simp: le_imp_less_Suc length_dropWhile_le)

lemma decodeRune_pos: "(d, n) = decodeRune s \<Longrightarrow> 0 < n"
  using decodeRune_size(1) [of s] by (metis One_nat_def Suc_le_lessD snd_conv)

text \<open>
  One pass over the body, in the two counters of the code: CJK code points and other bytes. It ends
  because a base64 run is not empty and a code point has at least one byte.
\<close>

function estimate_scan :: "string \<Rightarrow> int \<Rightarrow> int \<Rightarrow> int \<times> int" where
  "estimate_scan s cjkRunes otherBytes =
     (if s = [] then (cjkRunes, otherBytes)
      else if isBase64Run s then estimate_scan (dropWhile isBase64Char s) cjkRunes otherBytes
      else
        (let (decoded, size) = decodeRune s
         in if isCJK decoded then estimate_scan (drop size s) (cjkRunes + 1) otherBytes
            else estimate_scan (drop size s) cjkRunes (otherBytes + int size)))"
  by pat_completeness auto
termination
  by (relation "measure (\<lambda>(s, _, _). length s)") (auto simp: base64_run_shrinks decodeRune_pos)

declare estimate_scan.simps [simp del]

definition EstimateInputTokens :: "string \<Rightarrow> int" where
  "EstimateInputTokens body =
     (if body = [] then 0
      else let (cjkRunes, otherBytes) = estimate_scan body 0 0 in cjkRunes + otherBytes div 4)"

subsection \<open>Profile and role counts\<close>

record Profile =
  pf_HasImage :: bool
  pf_HasTools :: bool
  pf_EstimatedTokens :: int
  pf_FollowUp :: bool

definition ProfileRequest :: "string \<Rightarrow> Profile" where
  "ProfileRequest body =
     \<lparr> pf_HasImage = requestHasImage body, pf_HasTools = RequestHasTools body,
       pf_EstimatedTokens = EstimateInputTokens body, pf_FollowUp = requestFollowUp body \<rparr>"

record RoleCounts =
  rc_System :: int
  rc_User :: int
  rc_Assistant :: int
  rc_Tool :: int

datatype RoleBucket = SystemBucket | UserBucket | AssistantBucket | ToolBucket

fun add_role :: "RoleBucket \<Rightarrow> int \<Rightarrow> RoleCounts \<Rightarrow> RoleCounts" where
  "add_role SystemBucket n r = r \<lparr> rc_System := rc_System r + n \<rparr>"
| "add_role UserBucket n r = r \<lparr> rc_User := rc_User r + n \<rparr>"
| "add_role AssistantBucket n r = r \<lparr> rc_Assistant := rc_Assistant r + n \<rparr>"
| "add_role ToolBucket n r = r \<lparr> rc_Tool := rc_Tool r + n \<rparr>"

definition role_pair :: "string \<Rightarrow> RoleBucket \<Rightarrow> (string \<times> RoleBucket) list" where
  "role_pair role b = [(''\"role\":\"'' @ role @ ''\"'', b), (''\"role\": \"'' @ role @ ''\"'', b)]"

definition countRolesMarkers :: "(string \<times> RoleBucket) list" where
  "countRolesMarkers =
     role_pair ''system'' SystemBucket @ role_pair ''developer'' SystemBucket @
     [(''\"system\":\"'', SystemBucket), (''\"system\": ['', SystemBucket)] @
     role_pair ''user'' UserBucket @ role_pair ''assistant'' AssistantBucket @
     role_pair ''tool'' ToolBucket @ role_pair ''function'' ToolBucket @
     [(''\"type\":\"tool_result\"'', ToolBucket), (''\"type\": \"tool_result\"'', ToolBucket)]"

text \<open>\<open>bytes.Count\<close> for a non-empty separator: non-overlapping occurrences from the left.\<close>

function bytes_Count :: "string \<Rightarrow> string \<Rightarrow> int" where
  "bytes_Count s sep =
     (if s = [] \<or> sep = [] then 0
      else if prefix sep s then 1 + bytes_Count (drop (length sep) s) sep
      else bytes_Count (tl s) sep)"
  by pat_completeness auto
termination
  by (relation "measure (\<lambda>(s, _). length s)") auto

declare bytes_Count.simps [simp del]

definition CountRoles :: "string \<Rightarrow> RoleCounts" where
  "CountRoles body =
     foldl (\<lambda>counts (marker, b). let n = bytes_Count body marker in if 0 < n then add_role b n counts else counts)
       \<lparr> rc_System = 0, rc_User = 0, rc_Assistant = 0, rc_Tool = 0 \<rparr> countRolesMarkers"

end
