(* ===== verification/Profile_Props.thy ===== *)
theory Profile_Props
  imports Request_Profile
begin

text \<open>
  Properties of the request profile: bounds of the prompt size estimate, that embedded base64
  payloads do not count, and the meaning of the follow-up flag in terms of the role counts.
\<close>

subsection \<open>Code points\<close>

lemma byte_bounds: "0 \<le> byte c" "byte c < 256"
  by (simp_all add: of_char_def horner_sum_simps of_bool_def)

lemma and_lt: "0 \<le> (y :: int) \<Longrightarrow> y < n \<Longrightarrow> 0 \<le> x AND y \<and> x AND y < n"
  by (meson AND_upper2 and_nonnegative_int_iff order.strict_trans1)

lemma two_byte_rune: "push_bit 6 ((x :: int) AND 0x1F) OR (y AND 0x3F) < 0x800"
proof -
  have "push_bit 6 (x AND 0x1F) < 2 ^ 11" "0 \<le> push_bit 6 (x AND 0x1F)"
    using and_lt [of "0x1F" "0x20" x] by (simp_all add: push_bit_eq_mult)
  moreover have "y AND 0x3F < 2 ^ 11"
    using and_lt [of "0x3F" "0x40" y] by simp
  ultimately show ?thesis
    using OR_upper [of "push_bit 6 (x AND 0x1F)" 11 "y AND 0x3F"] by simp
qed

lemma cjk_size: "isCJK (fst (decodeRune s)) \<Longrightarrow> 3 \<le> snd (decodeRune s)"
proof (cases s)
  case (Cons c rest)
  assume cjk: "isCJK (fst (decodeRune s))"
  have "\<not> isCJK (byte c)"
    using byte_bounds [of c] by (simp add: isCJK_def)
  moreover have "\<not> isCJK (push_bit 6 (byte c AND 0x1F) OR (byte d AND 0x3F))" for d
    using two_byte_rune [of "byte c" "byte d"] by (simp add: isCJK_def)
  ultimately show ?thesis
    using cjk Cons by (auto simp: Let_def split: if_splits)
qed (simp add: isCJK_def)

subsection \<open>The scan\<close>

lemma estimate_scan_bounds:
  "estimate_scan s c b = (c', b') \<Longrightarrow> c \<le> c' \<and> b \<le> b' \<and> 3 * (c' - c) + (b' - b) \<le> int (length s)"
proof (induction s c b arbitrary: c' b' rule: estimate_scan.induct)
  case (1 s c b)
  obtain d n where dec: "decodeRune s = (d, n)"
    by fastforce
  consider "s = []" | "s \<noteq> []" "isBase64Run s" | "s \<noteq> []" "\<not> isBase64Run s"
    by blast
  then show ?case
  proof cases
    case 2
    then have "estimate_scan (dropWhile isBase64Char s) c b = (c', b')"
      using "1.prems" by (simp add: estimate_scan.simps [of s])
    from "1.IH"(1) [OF 2 this] show ?thesis
      using length_dropWhile_le [of isBase64Char s] by auto
  next
    case 3
    have n: "n \<le> length s" "isCJK d \<Longrightarrow> 3 \<le> n"
      using decodeRune_size(2) [OF 3(1)] cjk_size [of s] dec by simp_all
    show ?thesis
    proof (cases "isCJK d")
      case True
      then have "estimate_scan (drop n s) (c + 1) b = (c', b')"
        using "1.prems" 3 dec by (simp add: estimate_scan.simps [of s])
      from "1.IH"(2) [OF 3 dec [symmetric] refl True this] show ?thesis
        using n True by (auto simp: of_nat_diff)
    next
      case False
      then have "estimate_scan (drop n s) c (b + int n) = (c', b')"
        using "1.prems" 3 dec by (simp add: estimate_scan.simps [of s])
      from "1.IH"(3) [OF 3 dec [symmetric] refl False this] show ?thesis
        using n by (auto simp: of_nat_diff)
    qed
  qed (use "1.prems" in \<open>simp add: estimate_scan.simps\<close>)
qed

lemma isBase64Run_iff: "isBase64Run s \<longleftrightarrow> 100 \<le> length (takeWhile isBase64Char s)"
proof -
  have "length (takeWhile P (take n s)) = min n (length (takeWhile P s))" for P and n :: nat
    by (induction s arbitrary: n) (auto simp: take_Cons split: nat.splits)
  then show ?thesis
    by (simp add: isBase64Run_def)
qed

text \<open>Plain text: ASCII bytes, no run of 100 base64 characters.\<close>

definition plain_text :: "string \<Rightarrow> bool" where
  "plain_text s \<longleftrightarrow>
     list_all (\<lambda>c. byte c < 128) s \<and>
     list_all (\<lambda>t. length (takeWhile isBase64Char t) < 100) (suffixes s)"

lemma plain_text_Cons: "plain_text (c # s) \<longleftrightarrow> byte c < 128 \<and> length (takeWhile isBase64Char (c # s)) < 100 \<and> plain_text s"
  by (auto simp: plain_text_def)

lemma ascii_and: "byte c < 128 \<Longrightarrow> byte c AND 0x80 = 0"
proof -
  assume "byte c < 128"
  then have "take_bit 7 (byte c) = byte c"
    using byte_bounds [of c] by (simp add: take_bit_int_eq_self_iff)
  then have "\<not> bit (byte c) 7"
    by (metis bit_take_bit_iff less_irrefl)
  moreover have "byte c AND 0x80 = (if bit (byte c) 7 then 0x80 else 0)"
    using and_exp_eq_0_iff_not_bit [of "byte c" 7] calculation by simp
  ultimately show ?thesis by simp
qed

lemma takeWhile_stops:
  assumes "ys = [] \<or> \<not> P (hd ys) \<or> xs \<noteq> [] \<and> \<not> P (last xs)"
  shows "takeWhile P (xs @ ys) = takeWhile P xs"
  using assms by (induction xs) (cases ys; auto split: if_splits)+

lemma scan_plain:
  assumes "plain_text pre" and "rest = [] \<or> \<not> isBase64Char (hd rest) \<or> pre = [] \<or> \<not> isBase64Char (last pre)"
  shows "estimate_scan (pre @ rest) c b = estimate_scan rest c (b + int (length pre))"
  using assms
proof (induction pre arbitrary: b)
  case (Cons x pre)
  have stop: "takeWhile isBase64Char ((x # pre) @ rest) = takeWhile isBase64Char (x # pre)"
    using Cons.prems(2) by (intro takeWhile_stops) auto
  then have run: "\<not> isBase64Run (x # pre @ rest)"
    using Cons.prems(1) by (simp add: isBase64Run_iff plain_text_Cons)
  have "decodeRune (x # pre @ rest) = (byte x, 1)"
    using Cons.prems(1) by (simp add: plain_text_Cons ascii_and)
  moreover have "\<not> isCJK (byte x)"
    using Cons.prems(1) by (simp add: plain_text_Cons isCJK_def)
  ultimately have "estimate_scan (x # pre @ rest) c b = estimate_scan (pre @ rest) c (b + 1)"
    using run by (simp add: estimate_scan.simps [of "x # pre @ rest"])
  also have "\<dots> = estimate_scan rest c (b + 1 + int (length pre))"
    using Cons.prems by (intro Cons.IH) (auto simp: plain_text_Cons split: if_splits)
  finally show ?case by (simp add: add.assoc)
qed simp

lemma scan_run:
  assumes "100 \<le> length run" "list_all isBase64Char run" "post = [] \<or> \<not> isBase64Char (hd post)"
  shows "estimate_scan (run @ post) c b = estimate_scan post c b"
proof -
  have "takeWhile isBase64Char (run @ post) = run" "dropWhile isBase64Char (run @ post) = post"
    using assms(2,3) by (cases post; auto simp: list_all_iff takeWhile_append dropWhile_append)+
  moreover have "run \<noteq> []"
    using assms(1) by auto
  ultimately show ?thesis
    using assms(1) by (simp add: estimate_scan.simps [of "run @ post"] isBase64Run_iff)
qed

subsection \<open>Estimates\<close>

text \<open>
  The prompt size estimate is bounded by the body: it is never negative and at most a third of
  the number of bytes, whatever the bytes are (truncated or malformed UTF-8 included), so the context
  window check works on a value no larger than the request.
\<close>

theorem EstimateInputTokens_bounds:
  "0 \<le> EstimateInputTokens body \<and> 3 * EstimateInputTokens body \<le> int (length body)"
proof (cases "body = []")
  case False
  obtain c b where scan: "estimate_scan body 0 0 = (c, b)"
    by fastforce
  have "0 \<le> c" "0 \<le> b" "3 * c + b \<le> int (length body)"
    using estimate_scan_bounds [OF scan] by auto
  then show ?thesis
    using scan False by (auto simp: EstimateInputTokens_def)
qed (simp add: EstimateInputTokens_def)

text \<open>
  Embedded base64 payloads do not count towards the prompt size: in a body of plain ASCII text
  around one run of at least 100 base64 characters (an inline image or file, delimited by other
  bytes), the estimate is a quarter of the bytes of the surrounding text, whatever the size of the
  payload.
\<close>

theorem EstimateInputTokens_ignores_payload:
  assumes "plain_text pre" and "pre \<noteq> []" and "\<not> isBase64Char (last pre)"
    and "100 \<le> length payload" and "list_all isBase64Char payload"
    and "plain_text post" and "post \<noteq> []" and "\<not> isBase64Char (hd post)"
  shows "EstimateInputTokens (pre @ payload @ post) = int (length pre + length post) div 4"
proof -
  have "estimate_scan (pre @ payload @ post) 0 0 = estimate_scan post 0 (int (length pre))"
    using assms by (simp add: scan_plain scan_run)
  also have "\<dots> = (0, int (length pre) + int (length post))"
    using scan_plain [of post "[]" 0 "int (length pre)"] assms by (simp add: estimate_scan.simps)
  finally show ?thesis
    using assms by (simp add: EstimateInputTokens_def)
qed

theorem EstimateInputTokens_ignores_payload_witness:
  "EstimateInputTokens (''{\"url\":\"'' @ replicate 5000 (CHR ''A'') @ ''\"}'') = 2"
proof -
  have "plain_text ''{\"url\":\"''" "plain_text ''\"}''"
    by code_simp+
  then show ?thesis
    using EstimateInputTokens_ignores_payload [of "''{\"url\":\"''" "replicate 5000 (CHR ''A'')" "''\"}''"]
    by (simp add: isBase64Char_def list_all_iff less_eq_char_def)
qed

end
