(* ===== verification/Config_Model.thy ===== *)
theory Config_Model
  imports Manager_State
begin

text \<open>
  The configuration values routing and scheduling read (\<open>internal/config/config.go\<close>): providers,
  routes, scheduling knobs with their defaults, peak windows, and the derived lookups. Only the fields
  the modelled code reads are kept. A duration knob, a string in the file, is held as the result of
  \<open>time.ParseDuration\<close> on it (\<open>None\<close>: it does not parse, or is unset).
\<close>

definition FusionProvider :: string where
  "FusionProvider = ''fusion''"

record RouteTarget =
  rtg_Provider :: string
  rtg_Model :: string
  rtg_Priority :: int
  rtg_Protocol :: string
  rtg_Rubric :: string

record PeakSegment =
  pk_Window :: string
  pk_Multiplier :: real

record Provider =
  pv_OpenAIBaseURL :: string
  pv_AnthropicBaseURL :: string
  pv_DecisionsBaseURL :: string
  pv_Provider :: string
  pv_Models :: "string list"
  pv_Priority :: int
  pv_Alias :: "(string, string) fmap"
  pv_Capabilities :: "(string, string list) fmap"
  pv_PeakHours :: "PeakSegment list"
  pv_Billing :: string

definition noProvider :: Provider where
  "noProvider =
     \<lparr> pv_OpenAIBaseURL = [], pv_AnthropicBaseURL = [], pv_DecisionsBaseURL = [], pv_Provider = [], pv_Models = [], pv_Priority = 0,
       pv_Alias = fmempty, pv_Capabilities = fmempty, pv_PeakHours = [], pv_Billing = [] \<rparr>"

record Scheduling =
  sg_CircuitThreshold :: int
  sg_CircuitCooldown :: "duration option"
  sg_CircuitPersist :: "duration option"
  sg_RateLimitBackoff :: "duration option"
  sg_QuotaCooldown :: "duration option"
  sg_ModelLockout :: "duration option"
  sg_RetryWait :: "duration option"
  sg_StickyDwell :: "duration option"
  sg_QuotaPollInterval :: "duration option"
  sg_QuotaSwitchMargin :: int
  sg_QualityErrorWeight :: "int option"
  sg_QualityTTFTWeight :: "int option"

record Config =
  cf_Providers :: "(string, Provider) fmap"
  cf_Routes :: "(string, RouteTarget list) fmap"
  cf_RouteStrategies :: "(string, string) fmap"
  cf_Scheduling :: Scheduling

subsection \<open>Scheduling knobs\<close>

definition or_default :: "duration option \<Rightarrow> duration \<Rightarrow> duration" where
  "or_default d def = (case d of None \<Rightarrow> def | Some x \<Rightarrow> x)"

definition Threshold :: "Scheduling \<Rightarrow> int" where
  "Threshold s = (if 0 < sg_CircuitThreshold s then sg_CircuitThreshold s else 3)"

definition Cooldown :: "Scheduling \<Rightarrow> duration" where
  "Cooldown s = or_default (sg_CircuitCooldown s) (10 * minute)"

definition Persist :: "Scheduling \<Rightarrow> duration" where
  "Persist s = or_default (sg_CircuitPersist s) (6 * second)"

definition RateBackoff :: "Scheduling \<Rightarrow> duration" where
  "RateBackoff s = or_default (sg_RateLimitBackoff s) (60 * second)"

definition QuotaCooldownDuration :: "Scheduling \<Rightarrow> duration" where
  "QuotaCooldownDuration s = or_default (sg_QuotaCooldown s) hour"

definition ModelLockoutDuration :: "Scheduling \<Rightarrow> duration" where
  "ModelLockoutDuration s = or_default (sg_ModelLockout s) (10 * minute)"

definition RetryWaitDuration :: "Scheduling \<Rightarrow> duration" where
  "RetryWaitDuration s = or_default (sg_RetryWait s) (10 * second)"

definition Dwell :: "Scheduling \<Rightarrow> duration" where
  "Dwell s = or_default (sg_StickyDwell s) minute"

definition PollInterval :: "Scheduling \<Rightarrow> duration" where
  "PollInterval s = or_default (sg_QuotaPollInterval s) (5 * minute)"

definition SwitchMargin :: "Scheduling \<Rightarrow> real" where
  "SwitchMargin s = (if 0 < sg_QuotaSwitchMargin s then real_of_int (sg_QuotaSwitchMargin s) / 100 else 15 / 100)"

definition QualityErrorWeightValue :: "Scheduling \<Rightarrow> real" where
  "QualityErrorWeightValue s = (case sg_QualityErrorWeight s of None \<Rightarrow> 1 | Some w \<Rightarrow> real_of_int w / 100)"

definition QualityTTFTWeightValue :: "Scheduling \<Rightarrow> real" where
  "QualityTTFTWeightValue s = (case sg_QualityTTFTWeight s of None \<Rightarrow> 2 / 10 | Some w \<Rightarrow> real_of_int w / 100)"

subsection \<open>Lookups\<close>

definition ExposedModelName :: "Provider \<Rightarrow> string \<Rightarrow> string" where
  "ExposedModelName p model =
     (case fmlookup (pv_Alias p) model of
        None \<Rightarrow> model
      | Some a \<Rightarrow> if a \<noteq> [] then a else model)"

definition ProviderConfig :: "Config \<Rightarrow> (string, string) fmap \<Rightarrow> string \<Rightarrow> Provider option" where
  "ProviderConfig cfg parentOf name =
     (let parent = fmget [] parentOf name;
          name = (if parent \<noteq> [] then parent else name)
      in fmlookup (cf_Providers cfg) name)"

text \<open>\<open>strings.Cut\<close>: the text before the first occurrence of a one-byte separator.\<close>

definition cut_before :: "char \<Rightarrow> string \<Rightarrow> string" where
  "cut_before c s = takeWhile (\<lambda>x. x \<noteq> c) s"

definition RouteStrategyFor :: "Config \<Rightarrow> string \<Rightarrow> string" where
  "RouteStrategyFor c scheduleKey =
     (let key = cut_before (CHR ''#'') scheduleKey;
          strategy = fmget [] (cf_RouteStrategies c) key
      in if strategy \<noteq> [] then strategy else ''quota'')"

definition ProtocolHint :: "string \<Rightarrow> string \<Rightarrow> string" where
  "ProtocolHint providerID model =
     (if providerID = ''codex'' then ''responses''
      else if providerID = ''typesafe'' then ''decisions'' else [])"

subsection \<open>Peak windows\<close>

definition digit_val :: "char \<Rightarrow> int option" where
  "digit_val c = (let n = (of_char c :: nat) in if 48 \<le> n \<and> n \<le> 57 then Some (int n - 48) else None)"

fun digits_val :: "int \<Rightarrow> string \<Rightarrow> int option" where
  "digits_val acc [] = Some acc"
| "digits_val acc (c # cs) = (case digit_val c of None \<Rightarrow> None | Some d \<Rightarrow> digits_val (10 * acc + d) cs)"

text \<open>\<open>strconv.Atoi\<close>; the range error of a number beyond 64 bits is a failed range check of its callers.\<close>

definition Atoi :: "string \<Rightarrow> int option" where
  "Atoi s =
     (case s of
        [] \<Rightarrow> None
      | c # cs \<Rightarrow>
          if c = CHR ''-'' then (if cs = [] then None else map_option uminus (digits_val 0 cs))
          else if c = CHR ''+'' then (if cs = [] then None else digits_val 0 cs)
          else digits_val 0 (c # cs))"

definition parseHHMM :: "string \<Rightarrow> int option" where
  "parseHHMM value =
     (case split_on (CHR '':'') (TrimSpace value) of
        [h, mi] \<Rightarrow>
          (case (Atoi h, Atoi mi) of
             (Some hh, Some mm) \<Rightarrow>
               if hh < 0 \<or> 23 < hh \<or> mm < 0 \<or> 59 < mm then None else Some (hh * 60 + mm)
           | _ \<Rightarrow> None)
      | _ \<Rightarrow> None)"

definition parseHHMMRange :: "string \<Rightarrow> (int \<times> int) option" where
  "parseHHMMRange value =
     (case split_on (CHR ''-'') value of
        [a, b] \<Rightarrow> (case (parseHHMM a, parseHHMM b) of (Some s, Some e) \<Rightarrow> Some (s, e) | _ \<Rightarrow> None)
      | _ \<Rightarrow> None)"

definition DefaultPeakMultiplier :: real where
  "DefaultPeakMultiplier = 2"

definition in_window :: "int \<times> int \<Rightarrow> int \<Rightarrow> bool" where
  "in_window w m =
     (let (start, stop) = w
      in if start \<le> stop then start \<le> m \<and> m < stop else start \<le> m \<or> m < stop)"

text \<open>The argument is the minute of the local day, which the code reads off the clock.\<close>

fun peak_scan :: "PeakSegment list \<Rightarrow> int \<Rightarrow> real" where
  "peak_scan [] m = 1"
| "peak_scan (seg # segs) m =
     (case parseHHMMRange (pk_Window seg) of
        None \<Rightarrow> peak_scan segs m
      | Some w \<Rightarrow>
          if in_window w m then (if 0 < pk_Multiplier seg then pk_Multiplier seg else DefaultPeakMultiplier)
          else peak_scan segs m)"

definition PeakMultiplier :: "Provider \<Rightarrow> int \<Rightarrow> real" where
  "PeakMultiplier p m = peak_scan (pv_PeakHours p) m"

lemma PeakMultiplier_pos: "0 < PeakMultiplier p m"
proof -
  have "0 < peak_scan segs m" for segs
    by (induction segs m rule: peak_scan.induct) (auto simp: DefaultPeakMultiplier_def split: option.splits)
  then show ?thesis
    by (simp add: PeakMultiplier_def)
qed

lemma parseHHMM_range: "parseHHMM s = Some t \<Longrightarrow> 0 \<le> t \<and> t < 1440"
  by (auto simp: parseHHMM_def split: list.splits option.splits if_splits)

end
