(* ===== verification/Request_Planner.thy ===== *)
theory Request_Planner
  imports Request_Profile Config_Model
begin

text \<open>
  Request-aware routing (\<open>internal/routing/request.go\<close>): whether a model can serve a request
  profile, provider narrowing, the cross-route pool, and the planner that filters a scheduled chain
  or replaces it. The planner calls back into stateful scheduling through its \<open>Scheduler\<close>
  port; here the port is an operation on a state \<open>'s\<close>, threaded through the planner's methods.
  The catalog (\<open>internal/catalog/catalog.go\<close>) is the name-keyed table; \<open>None\<close> is a nil pointer.
\<close>

subsection \<open>Catalog and fit\<close>

record Model =
  md_Context :: int
  md_Input :: "string list"
  md_ToolCall :: bool

record Catalog =
  ct_byName :: "(string, Model) fmap"

definition Lookup :: "Catalog option \<Rightarrow> string \<Rightarrow> Model option" where
  "Lookup c model = (case c of None \<Rightarrow> None | Some cat \<Rightarrow> fmlookup (ct_byName cat) model)"

definition supportsImage :: "Model \<Rightarrow> bool" where
  "supportsImage model \<longleftrightarrow> list_ex (\<lambda>i. i = ''image'') (md_Input model)"

definition hasCapability :: "string list \<Rightarrow> string \<Rightarrow> bool" where
  "hasCapability capabilities want \<longleftrightarrow> list_ex (\<lambda>c. c = want) capabilities"

text \<open>The reason of a verdict, as data; the code builds a line of text from it.\<close>

datatype FitReason =
  NoReason | ImageNotDeclared | ToolsNotDeclared | NoImageModality | NoToolCalling
| ContextExceeded int int | ContextFits int int

definition FitVerdict ::
  "Catalog option \<Rightarrow> (string, string list) fmap \<Rightarrow> string \<Rightarrow> Profile \<Rightarrow> bool \<times> FitReason" where
  "FitVerdict cat capabilities model profile =
     (let context_check =
        (if 0 < pf_EstimatedTokens profile then
           (case Lookup cat model of
              None \<Rightarrow> (True, NoReason)
            | Some modelMeta \<Rightarrow>
                if 0 < md_Context modelMeta then
                  (if md_Context modelMeta < pf_EstimatedTokens profile
                   then (False, ContextExceeded (pf_EstimatedTokens profile) (md_Context modelMeta))
                   else (True, ContextFits (pf_EstimatedTokens profile) (md_Context modelMeta)))
                else (True, NoReason))
         else (True, NoReason))
      in case fmlookup capabilities model of
           Some declared \<Rightarrow>
             if pf_HasImage profile \<and> \<not> hasCapability declared ''image'' then (False, ImageNotDeclared)
             else if pf_HasTools profile \<and> \<not> hasCapability declared ''tools'' then (False, ToolsNotDeclared)
             else context_check
         | None \<Rightarrow>
             if cat = None then context_check
             else if pf_HasImage profile \<and>
               (case Lookup cat model of None \<Rightarrow> True | Some modelMeta \<Rightarrow> \<not> supportsImage modelMeta)
             then (False, NoImageModality)
             else if pf_HasTools profile \<and>
               (case Lookup cat model of None \<Rightarrow> True | Some modelMeta \<Rightarrow> \<not> md_ToolCall modelMeta)
             then (False, NoToolCalling)
             else context_check)"

definition Fits :: "Catalog option \<Rightarrow> (string, string list) fmap \<Rightarrow> string \<Rightarrow> Profile \<Rightarrow> bool" where
  "Fits cat capabilities model profile = fst (FitVerdict cat capabilities model profile)"

text \<open>A nil capability map and an empty one are looked up alike, so nil is the empty map.\<close>

definition CapabilitiesFor ::
  "Config option \<Rightarrow> (string, string) fmap \<Rightarrow> RouteTarget \<Rightarrow> (string, string list) fmap" where
  "CapabilitiesFor cfg parentOf target =
     (case cfg of
        None \<Rightarrow> fmempty
      | Some c \<Rightarrow>
          let providerName = rtg_Provider target;
              parent = fmget [] parentOf providerName;
              providerName = (if parent \<noteq> [] then parent else providerName)
          in case fmlookup (cf_Providers c) providerName of
               None \<Rightarrow> fmempty
             | Some providerConfig \<Rightarrow> pv_Capabilities providerConfig)"

definition ImageOKForTarget ::
  "Config option \<Rightarrow> (string, string) fmap \<Rightarrow> Catalog option \<Rightarrow> RouteTarget \<Rightarrow> bool" where
  "ImageOKForTarget cfg parentOf cat target =
     (case fmlookup (CapabilitiesFor cfg parentOf target) (rtg_Model target) of
        Some declared \<Rightarrow> hasCapability declared ''image''
      | None \<Rightarrow>
          (case Lookup cat (rtg_Model target) of
             Some modelMeta \<Rightarrow> supportsImage modelMeta
           | None \<Rightarrow> True))"

subsection \<open>Provider narrowing and the cross-route pool\<close>

definition FilterTargetsByProvider ::
  "RouteTarget list \<Rightarrow> (string, string) fmap \<Rightarrow> string \<Rightarrow> RouteTarget list" where
  "FilterTargetsByProvider targets parentOf provider =
     filter (\<lambda>t. rtg_Provider t = provider \<or> fmget [] parentOf (rtg_Provider t) = provider) targets"

text \<open>\<open>strings.Cut\<close> at the first slash; a prefix without one has no second part.\<close>

definition SplitProviderPrefix ::
  "(string, Provider) fmap \<Rightarrow> string \<Rightarrow> (string \<times> string) option" where
  "SplitProviderPrefix providers calledModel =
     (let p = cut_before (CHR ''/'') calledModel;
          rest = drop (length p) calledModel
      in if rest = [] \<or> p = [] \<or> tl rest = [] then None
         else if fmlookup providers p = None then None
         else Some (p, tl rest))"

type_synonym targetKey = "string \<times> string \<times> string"

definition target_key :: "RouteTarget \<Rightarrow> targetKey" where
  "target_key t = (rtg_Provider t, rtg_Model t, rtg_Protocol t)"

definition collect_one ::
  "(RouteTarget \<Rightarrow> bool) \<Rightarrow> (targetKey, RouteTarget) fmap \<Rightarrow> RouteTarget \<Rightarrow> (targetKey, RouteTarget) fmap" where
  "collect_one keep best target =
     (if rtg_Provider target = FusionProvider \<or> \<not> keep target then best
      else case fmlookup best (target_key target) of
             None \<Rightarrow> fmupd (target_key target) target best
           | Some existing \<Rightarrow>
               if rtg_Priority target < rtg_Priority existing then fmupd (target_key target) target best else best)"

definition CollectCrossRoute ::
  "(string, RouteTarget list) fmap \<Rightarrow> (RouteTarget \<Rightarrow> bool) \<Rightarrow> RouteTarget list" where
  "CollectCrossRoute expanded keep =
     (let best = foldl (\<lambda>best route. foldl (collect_one keep) best (fmget [] expanded route)) fmempty (fmkeys expanded)
      in map (\<lambda>k. the (fmlookup best k)) (fmkeys best))"

subsection \<open>Planner\<close>

type_synonym 's Scheduler = "string \<Rightarrow> string \<Rightarrow> RouteTarget list \<Rightarrow> 's \<Rightarrow> RouteTarget list \<times> 's"

record 's Planner =
  pl_config :: "Config option"
  pl_parentOf :: "(string, string) fmap"
  pl_catalog :: "Catalog option"
  pl_expandedRoutes :: "(string, RouteTarget list) fmap"
  pl_scheduler :: "'s Scheduler option"

definition routeProviderSet :: "RouteTarget list \<Rightarrow> string fset" where
  "routeProviderSet targets = fset_of_list (map rtg_Provider targets)"

definition preferRouteProviders :: "RouteTarget list \<Rightarrow> string fset \<Rightarrow> RouteTarget list" where
  "preferRouteProviders scheduled routeProviders =
     (if length scheduled < 2 \<or> routeProviders = {||} then scheduled
      else
        (let same = filter (\<lambda>t. rtg_Provider t |\<in>| routeProviders) scheduled;
             rest = filter (\<lambda>t. rtg_Provider t |\<notin>| routeProviders) scheduled
         in if same = [] \<or> rest = [] then scheduled else same @ rest))"

definition planner_schedule ::
  "'s Planner \<Rightarrow> string \<Rightarrow> string \<Rightarrow> RouteTarget list \<Rightarrow> 's \<Rightarrow> RouteTarget list \<times> 's" where
  "planner_schedule planner routeName sessionKey targets s =
     (if targets = [] then ([], s)
      else case pl_scheduler planner of
             None \<Rightarrow> ([], s)
           | Some schedule \<Rightarrow> schedule routeName sessionKey targets s)"

definition planner_fits :: "'s Planner \<Rightarrow> Profile \<Rightarrow> RouteTarget \<Rightarrow> bool" where
  "planner_fits planner profile target =
     Fits (pl_catalog planner) (CapabilitiesFor (pl_config planner) (pl_parentOf planner) target)
       (rtg_Model target) profile"

definition ApplyWithProfile ::
  "'s Planner \<Rightarrow> string \<Rightarrow> string \<Rightarrow> RouteTarget list \<Rightarrow> Profile \<Rightarrow> 's \<Rightarrow> RouteTarget list \<times> 's" where
  "ApplyWithProfile planner exposed sessionKey ordered profile s =
     (if pl_catalog planner = None then (ordered, s)
      else
        (let inRoute = filter (\<lambda>t. rtg_Provider t = FusionProvider \<or> planner_fits planner profile t) ordered
         in if length inRoute = length ordered then (ordered, s)
            else if 0 < length inRoute then (inRoute, s)
            else
              (let pool = CollectCrossRoute (pl_expandedRoutes planner) (planner_fits planner profile);
                   (scheduled, s') = planner_schedule planner (exposed @ ''#req'') sessionKey pool s
               in if scheduled = [] then (ordered, s')
                  else (preferRouteProviders scheduled (routeProviderSet ordered), s'))))"

definition max_context :: "Catalog option \<Rightarrow> RouteTarget list \<Rightarrow> int" where
  "max_context cat tried =
     foldl (\<lambda>acc t. case Lookup cat (rtg_Model t) of
                     None \<Rightarrow> acc
                   | Some modelMeta \<Rightarrow> if acc < md_Context modelMeta then md_Context modelMeta else acc) 0 tried"

definition larger_fit :: "'s Planner \<Rightarrow> int \<Rightarrow> Profile \<Rightarrow> RouteTarget \<Rightarrow> bool" where
  "larger_fit planner maxContext profile t =
     (case Lookup (pl_catalog planner) (rtg_Model t) of
        None \<Rightarrow> False
      | Some modelMeta \<Rightarrow>
          if md_Context modelMeta \<le> maxContext then False else planner_fits planner profile t)"

definition ContextOverflowRetryWithProfile ::
  "'s Planner \<Rightarrow> string \<Rightarrow> string \<Rightarrow> RouteTarget list \<Rightarrow> Profile \<Rightarrow> 's \<Rightarrow> RouteTarget list \<times> 's" where
  "ContextOverflowRetryWithProfile planner exposed sessionKey tried profile s =
     (if pl_catalog planner = None then ([], s)
      else
        (let maxContext = max_context (pl_catalog planner) tried
         in if maxContext = 0 then ([], s)
            else
              (let pool = CollectCrossRoute (pl_expandedRoutes planner) (larger_fit planner maxContext profile);
                   (scheduled, s') = planner_schedule planner (exposed @ ''#ctx'') sessionKey pool s
               in (preferRouteProviders scheduled (routeProviderSet tried), s'))))"

subsection \<open>Explaining a reroute\<close>

text \<open>
  \<open>DescribeFitReroute\<close>: the dropped targets with their reasons and, when the head was dropped, the
  replacement head; \<open>None\<close> when the target set survived. The code renders this as one line of text;
  membership is by the provider/model pair, which the code joins into one string.
\<close>

definition DescribeFitReroute ::
  "'s Planner \<Rightarrow> RouteTarget list \<Rightarrow> RouteTarget list \<Rightarrow> Profile \<Rightarrow>
    ((string \<times> FitReason) list \<times> RouteTarget option) option" where
  "DescribeFitReroute planner before after profile =
     (let name = (\<lambda>t. rtg_Provider t @ ''/'' @ rtg_Model t);
          kept = (\<lambda>t. list_ex (\<lambda>u. name u = name t) after);
          same = (length after = length before \<and>
                  list_all2 (\<lambda>b a. rtg_Provider b = rtg_Provider a \<and> rtg_Model b = rtg_Model a) before after);
          reasons = map (\<lambda>t. (name t,
                          snd (FitVerdict (pl_catalog planner)
                                 (CapabilitiesFor (pl_config planner) (pl_parentOf planner) t) (rtg_Model t) profile)))
                      (filter (\<lambda>t. \<not> kept t) before)
      in if same \<or> reasons = [] then None
         else Some (reasons, if \<not> kept (hd before) \<and> after \<noteq> [] then Some (hd after) else None))"

end
