(* ===== verification/Route_Policy.thy ===== *)
theory Route_Policy
  imports Request_Planner
begin

text \<open>
  The route-tier policy as pure functions (\<open>internal/routing/policy.go\<close>) with its configuration
  (\<open>internal/config/config.go\<close>): declarative bands over the request profile, the choice of a grade
  by latch, selector and bands, and moving one target to the front of a chain. As with the scheduling
  knobs, a duration is held as the result of parsing its text.
\<close>

record BandWhen =
  bw_EstimatedTokensMin :: "int option"
  bw_EstimatedTokensMax :: "int option"
  bw_FollowUp :: "bool option"
  bw_HasTools :: "bool option"
  bw_HasImage :: "bool option"

record RouteBand =
  rb_When :: BandWhen
  rb_Target :: RouteTarget
  rb_Grade :: string

record EscalationConfig =
  ec_BadSignals :: "string list"
  ec_Consecutive :: int
  ec_Target :: RouteTarget
  ec_Grade :: string
  ec_Dwell :: "duration option"

record SelectorConfig =
  sl_Mode :: string
  sl_Confidence :: real

record RoutePolicy =
  rp_Bands :: "RouteBand list"
  rp_Escalation :: "EscalationConfig option"
  rp_Selector :: "SelectorConfig option"
  rp_Grades :: "(string, RouteTarget list) fmap"
  rp_Fallback :: string

definition DwellDuration :: "EscalationConfig \<Rightarrow> duration" where
  "DwellDuration e = (case ec_Dwell e of None \<Rightarrow> 30 * minute | Some d \<Rightarrow> if 0 < d then d else 30 * minute)"

definition SelectorMode :: "SelectorConfig \<Rightarrow> string" where
  "SelectorMode s = (if sl_Mode s = [] then ''shadow'' else sl_Mode s)"

definition ConfidenceThreshold :: "SelectorConfig \<Rightarrow> real" where
  "ConfidenceThreshold s = (if sl_Confidence s \<le> 0 then 55 / 100 else sl_Confidence s)"

definition HasGrades :: "RoutePolicy \<Rightarrow> bool" where
  "HasGrades p \<longleftrightarrow> rp_Grades p \<noteq> fmempty"

definition FallbackMode :: "RoutePolicy \<Rightarrow> string" where
  "FallbackMode p = (if rp_Fallback p = [] \<or> rp_Fallback p = ''any'' then ''any'' else rp_Fallback p)"

subsection \<open>Bands\<close>

definition bandMatches :: "BandWhen \<Rightarrow> Profile \<Rightarrow> bool" where
  "bandMatches w p =
     (if (case bw_EstimatedTokensMin w of None \<Rightarrow> False | Some n \<Rightarrow> pf_EstimatedTokens p < n) then False
      else if (case bw_EstimatedTokensMax w of None \<Rightarrow> False | Some n \<Rightarrow> n < pf_EstimatedTokens p) then False
      else if (case bw_FollowUp w of None \<Rightarrow> False | Some b \<Rightarrow> pf_FollowUp p \<noteq> b) then False
      else if (case bw_HasTools w of None \<Rightarrow> False | Some b \<Rightarrow> pf_HasTools p \<noteq> b) then False
      else if (case bw_HasImage w of None \<Rightarrow> False | Some b \<Rightarrow> pf_HasImage p \<noteq> b) then False
      else True)"

definition PickBand :: "RoutePolicy \<Rightarrow> Profile \<Rightarrow> RouteTarget option" where
  "PickBand policy profile =
     map_option rb_Target (find (\<lambda>band. bandMatches (rb_When band) profile) (rp_Bands policy))"

subsection \<open>Grades\<close>

definition same_target :: "RouteTarget \<Rightarrow> RouteTarget \<Rightarrow> bool" where
  "same_target t u \<longleftrightarrow> rtg_Provider t = rtg_Provider u \<and> rtg_Model t = rtg_Model u"

fun grade_scan ::
  "RouteTarget \<Rightarrow> (string, RouteTarget list) fmap \<Rightarrow> string list \<Rightarrow> string \<Rightarrow> string \<times> bool" where
  "grade_scan target grades [] found = (found, False)"
| "grade_scan target grades (name # names) found =
     (if list_ex (\<lambda>t. same_target t target) (fmget [] grades name) then
        (if found \<noteq> [] \<and> found \<noteq> name then ([], True) else grade_scan target grades names name)
      else grade_scan target grades names found)"

definition GradeForTarget :: "RouteTarget \<Rightarrow> (string, RouteTarget list) fmap \<Rightarrow> string \<times> bool" where
  "GradeForTarget target grades = grade_scan target grades (fmkeys grades) []"

fun band_grade :: "RoutePolicy \<Rightarrow> Profile \<Rightarrow> RouteBand list \<Rightarrow> string \<times> bool" where
  "band_grade policy profile [] = ([], False)"
| "band_grade policy profile (band # bands) =
     (if \<not> bandMatches (rb_When band) profile then band_grade policy profile bands
      else if rb_Grade band \<noteq> [] then
        (if fmlookup (rp_Grades policy) (rb_Grade band) \<noteq> None then (rb_Grade band, True)
         else band_grade policy profile bands)
      else
        (let (grade, ambiguous) = GradeForTarget (rb_Target band) (rp_Grades policy)
         in if \<not> ambiguous \<and> grade \<noteq> [] then (grade, True) else band_grade policy profile bands))"

definition SelectGrade :: "RoutePolicy \<Rightarrow> Profile \<Rightarrow> string \<Rightarrow> string \<Rightarrow> string \<times> bool" where
  "SelectGrade policy profile latched choice =
     (if latched \<noteq> [] \<and> fmlookup (rp_Grades policy) latched \<noteq> None then (latched, True)
      else if choice \<noteq> [] \<and> fmlookup (rp_Grades policy) choice \<noteq> None then (choice, True)
      else band_grade policy profile (rp_Bands policy))"

subsection \<open>Preferring a target\<close>

definition target_matches :: "(string, string) fmap \<Rightarrow> RouteTarget \<Rightarrow> RouteTarget \<Rightarrow> bool" where
  "target_matches parentOf want t \<longleftrightarrow>
     rtg_Model t = rtg_Model want \<and>
     (rtg_Provider t = rtg_Provider want \<or> fmget [] parentOf (rtg_Provider t) = rtg_Provider want)"

text \<open>\<open>TargetIndex\<close>, with \<open>None\<close> for the code's \<open>-1\<close>.\<close>

fun TargetIndex :: "RouteTarget list \<Rightarrow> RouteTarget \<Rightarrow> (string, string) fmap \<Rightarrow> nat option" where
  "TargetIndex [] want parentOf = None"
| "TargetIndex (t # ts) want parentOf =
     (if target_matches parentOf want t then Some 0 else map_option Suc (TargetIndex ts want parentOf))"

definition PreferTarget :: "RouteTarget list \<Rightarrow> RouteTarget \<Rightarrow> (string, string) fmap \<Rightarrow> RouteTarget list" where
  "PreferTarget ordered want parentOf =
     (case TargetIndex ordered want parentOf of
        None \<Rightarrow> ordered
      | Some idx \<Rightarrow>
          if idx = 0 then ordered
          else ordered ! idx # take idx ordered @ drop (Suc idx) ordered)"

subsection \<open>Lemmas\<close>

lemma TargetIndex_Some:
  assumes "TargetIndex ts want par = Some i"
  shows "i < length ts" "target_matches par want (ts ! i)" "\<And>j. j < i \<Longrightarrow> \<not> target_matches par want (ts ! j)"
proof -
  have "i < length ts \<and> target_matches par want (ts ! i) \<and> (\<forall>j < i. \<not> target_matches par want (ts ! j))"
    using assms
  proof (induction ts arbitrary: i)
    case (Cons t ts)
    show ?case
    proof (cases "target_matches par want t")
      case False
      with Cons.prems obtain k where k: "i = Suc k" "TargetIndex ts want par = Some k"
        by auto
      from Cons.IH [OF k(2)] False k(1) show ?thesis
        by (auto simp: less_Suc_eq_0_disj)
    qed (use Cons.prems in auto)
  qed simp
  then show "i < length ts" "target_matches par want (ts ! i)" "\<And>j. j < i \<Longrightarrow> \<not> target_matches par want (ts ! j)"
    by auto
qed

lemma TargetIndex_None: "TargetIndex ts want par = None \<longleftrightarrow> \<not> list_ex (target_matches par want) ts"
  by (induction ts) auto

lemma PreferTarget_mset [simp]: "mset (PreferTarget ts want par) = mset ts"
proof (cases "TargetIndex ts want par")
  case (Some i)
  then have "ts = take i ts @ ts ! i # drop (Suc i) ts"
    using TargetIndex_Some(1) id_take_nth_drop by blast
  then have "mset ts = mset (take i ts @ ts ! i # drop (Suc i) ts)"
    by (rule arg_cong)
  with Some show ?thesis
    by (simp add: PreferTarget_def)
qed (simp add: PreferTarget_def)

lemma PreferTarget_hd:
  "list_ex (target_matches par want) ts \<Longrightarrow> target_matches par want (hd (PreferTarget ts want par))"
proof -
  assume "list_ex (target_matches par want) ts"
  then obtain i where i: "TargetIndex ts want par = Some i"
    using TargetIndex_None by fastforce
  with TargetIndex_Some(1,2) [OF i] show ?thesis
    by (cases ts) (auto simp: PreferTarget_def hd_conv_nth)
qed

lemma PreferTarget_none: "\<not> list_ex (target_matches par want) ts \<Longrightarrow> PreferTarget ts want par = ts"
  using TargetIndex_None [of ts want par] by (auto simp: PreferTarget_def)

lemma set_PreferTarget [simp]: "set (PreferTarget ts want par) = set ts"
  by (metis PreferTarget_mset set_mset_mset)

lemma band_grade_declared: "band_grade policy profile bands = (g, True) \<Longrightarrow> g \<noteq> []"
  by (induction bands) (auto simp: Let_def split_beta split: if_splits)

end
