(* ===== verification/Proxy_Schedule.thy ===== *)
theory Proxy_Schedule
  imports Config_Model Manager_Schedule
begin

text \<open>
  The application's scheduling adapter (\<open>internal/app/proxy_schedule.go\<close>): configuration targets are
  projected into the Manager's view, a decision is taken, and the sticky binding is committed in a
  second critical section; operator pins; and the classification of targets a schedule left out. The
  clock reading and the minute of the local day are arguments; so is the freshness window, which the
  quota tracker froze at start.
\<close>

definition declaredBillingClass :: "Provider \<Rightarrow> BillingClass" where
  "declaredBillingClass p =
     (if pv_Billing p = ''plan'' then BillingPlan
      else if pv_Billing p = ''pay-as-you-go'' then BillingPayG else BillingUnknown)"

definition fullRuntimeTargets ::
  "Config \<Rightarrow> (string, string) fmap \<Rightarrow> RouteTarget list \<Rightarrow> int \<Rightarrow> Target list" where
  "fullRuntimeTargets cfg parentOf targets localMinute =
     map (\<lambda>t. let pconf = (case ProviderConfig cfg parentOf (rtg_Provider t) of None \<Rightarrow> noProvider | Some p \<Rightarrow> p)
              in \<lparr> tg_Provider = rtg_Provider t, tg_Parent = fmget [] parentOf (rtg_Provider t),
                   tg_Model = rtg_Model t, tg_Priority = rtg_Priority t,
                   tg_PeakMultiplier = PeakMultiplier pconf localMinute,
                   tg_Billing = declaredBillingClass pconf \<rparr>) targets"

definition runtimeTargetsBare :: "RouteTarget list \<Rightarrow> Target list" where
  "runtimeTargetsBare targets =
     map (\<lambda>t. \<lparr> tg_Provider = rtg_Provider t, tg_Parent = [], tg_Model = rtg_Model t, tg_Priority = 0,
                tg_PeakMultiplier = 0, tg_Billing = BillingUnknown \<rparr>) targets"

definition scheduleInput ::
  "Config \<Rightarrow> string \<Rightarrow> Target list \<Rightarrow> string fset \<Rightarrow> gotime \<Rightarrow> ScheduleInput" where
  "scheduleInput cfg exposed targets routeKeys now =
     \<lparr> si_Exposed = exposed, si_SessionKey = [], si_Targets = targets, si_RouteKeys = routeKeys,
       si_Dwell = Dwell (cf_Scheduling cfg), si_SwitchMargin = SwitchMargin (cf_Scheduling cfg),
       si_Now = now, si_QuotaMaxAge = 0, si_Strategy = RouteStrategyFor cfg exposed,
       si_QualityErrWeight = QualityErrorWeightValue (cf_Scheduling cfg),
       si_QualityTTFTWeight = QualityTTFTWeightValue (cf_Scheduling cfg),
       si_Commit = False, si_Generation = 0, si_IgnorePins = False, si_IgnoreSticky = False \<rparr>"

text \<open>One clock reading of a request: the time and the minute of the local day.\<close>

record Clock =
  ck_now :: gotime
  ck_minute :: int

definition proxy_decideOrder ::
  "Config \<Rightarrow> (string, string) fmap \<Rightarrow> string \<Rightarrow> string \<Rightarrow> RouteTarget list \<Rightarrow> Clock \<Rightarrow> duration \<Rightarrow> bool \<Rightarrow>
    bool \<Rightarrow> string fset \<Rightarrow> uint64 list \<Rightarrow> Manager \<Rightarrow> (RouteTarget list \<times> string \<times> ScheduleSource) \<times> Manager" where
  "proxy_decideOrder cfg parentOf exposed sessionKey targets clk maxAge commit stickyOff routeKeys generations m =
     (let input = (scheduleInput cfg exposed (fullRuntimeTargets cfg parentOf targets (ck_minute clk)) routeKeys
                     (ck_now clk))
                  \<lparr> si_SessionKey := sessionKey, si_IgnoreSticky := stickyOff, si_QuotaMaxAge := maxAge,
                    si_Commit := commit, si_Generation := GenerationArg generations \<rparr>;
          (result, m') = DecideOrder input m
      in ((map (\<lambda>i. targets ! i) (sr_Order result), sr_StickyProvider result, sr_Source result), m'))"

definition proxy_schedule ::
  "Config \<Rightarrow> (string, string) fmap \<Rightarrow> string \<Rightarrow> string \<Rightarrow> bool \<Rightarrow> RouteTarget list \<Rightarrow> Clock \<Rightarrow> duration \<Rightarrow>
    string fset \<Rightarrow> uint64 list \<Rightarrow> Manager \<Rightarrow> (RouteTarget list \<times> ScheduleSource) \<times> Manager" where
  "proxy_schedule cfg parentOf exposed sessionKey stickyOff targets clk maxAge routeKeys generations m =
     (let ((ordered, stickyToSet, source), m1) =
            proxy_decideOrder cfg parentOf exposed sessionKey targets clk maxAge True stickyOff routeKeys generations m;
          m2 = (if stickyToSet \<noteq> []
                then snd (SetSticky (StickyKey sessionKey exposed)
                            \<lparr> st_Provider = stickyToSet, st_Since = ck_now clk \<rparr> (GenerationArg generations) m1)
                else m1)
      in ((ordered, source), m2))"

definition setPin ::
  "(string, RouteTarget list) fmap \<Rightarrow> (string, string) fmap \<Rightarrow> string \<Rightarrow> string \<Rightarrow> duration \<Rightarrow> gotime \<Rightarrow> Manager \<Rightarrow>
    Pin option \<times> Manager" where
  "setPin expanded parentOf route provider ttl now m =
     (case fmlookup expanded route of
        None \<Rightarrow> (None, m)
      | Some targets \<Rightarrow>
          if \<not> list_ex (\<lambda>t. rtg_Provider t = provider \<or> fmget [] parentOf (rtg_Provider t) = provider) targets
          then (None, m)
          else
            (let pe = \<lparr> pin_Provider = provider, pin_ExpiresAt = (if 0 < ttl then now + ttl else 0) \<rparr>
             in (Some pe, SetPin route pe m)))"

definition pinForces ::
  "Manager \<Rightarrow> string \<Rightarrow> RouteTarget list \<Rightarrow> (string, string) fmap \<Rightarrow> gotime \<Rightarrow> bool" where
  "pinForces m exposed ordered parentOf now =
     PinForces m exposed
       (map (\<lambda>t. \<lparr> tg_Provider = rtg_Provider t, tg_Parent = fmget [] parentOf (rtg_Provider t),
                   tg_Model = rtg_Model t, tg_Priority = 0, tg_PeakMultiplier = 0,
                   tg_Billing = BillingUnknown \<rparr>) ordered) now"

subsection \<open>Why a target is left out\<close>

datatype BlockReason =
  BlockUnavailable | BlockFrozen | BlockRateLimited | BlockQuotaExhausted | BlockCircuit | BlockModelLocked

record blockedInfo =
  bi_Provider :: string
  bi_Reason :: BlockReason
  bi_Until :: "gotime option"

text \<open>\<open>until\<close>: the recovery hint, omitted when it is not in the future (the code renders it as text).\<close>

definition until_hint :: "gotime \<Rightarrow> gotime \<Rightarrow> gotime option" where
  "until_hint now t = (if t = 0 \<or> \<not> now < t then None else Some t)"

definition blocked_reason ::
  "DashboardSnapshot \<Rightarrow> gotime \<Rightarrow> duration \<Rightarrow> Target \<Rightarrow> BlockReason \<times> gotime option" where
  "blocked_reason s now quotaMaxAge t =
     (let state = fmlookup (ds_Providers s) (tg_Provider t);
          exhausted = QuotaExhaustedUntil (fmget None (ds_Quotas s) (tg_Provider t)) now quotaMaxAge
      in if (case state of None \<Rightarrow> False | Some st \<Rightarrow> ps_Frozen st) then (BlockFrozen, None)
         else if (case state of None \<Rightarrow> False | Some st \<Rightarrow> now < ps_RateLimitedUntil st)
         then (BlockRateLimited, until_hint now (ps_RateLimitedUntil (the state)))
         else if exhausted \<noteq> 0 then (BlockQuotaExhausted, until_hint now exhausted)
         else if (case state of
                    None \<Rightarrow> False
                  | Some st \<Rightarrow> ps_CircuitState st = ''open'' \<or> ps_CircuitState st = ''half_open'')
         then (BlockCircuit, until_hint now (ps_CircuitOpenUntil (the state)))
         else case find (\<lambda>lock. ms_Model lock = tg_Model t \<and> now < ms_LockedUntil lock)
                     (fmget [] (ds_ModelLocks s) (tg_Provider t)) of
                None \<Rightarrow> (BlockUnavailable, None)
              | Some lock \<Rightarrow> (BlockModelLocked, until_hint now (ms_LockedUntil lock)))"

definition blockedReasons ::
  "DashboardSnapshot \<Rightarrow> Target list \<Rightarrow> gotime \<Rightarrow> duration \<Rightarrow> blockedInfo list" where
  "blockedReasons s targets now quotaMaxAge =
     map (\<lambda>t. let (r, u) = blocked_reason s now quotaMaxAge t
              in \<lparr> bi_Provider = tg_Provider t, bi_Reason = r, bi_Until = u \<rparr>)
       (filter (\<lambda>t. \<not> targetDisabled (ds_disabled s) t) targets)"

end
