(* ===== verification/Forward_Plan.thy ===== *)
theory Forward_Plan
  imports Request_Planner Proxy_Schedule
begin

text \<open>
  The planner of the request pipeline (\<open>internal/forward/plan.go\<close>): the request-routing planner bound
  to one runtime snapshot, whose scheduling port is the application's \<open>schedule\<close> on the live Manager.
\<close>

definition requestRoutingScheduler ::
  "Config \<Rightarrow> (string, string) fmap \<Rightarrow> string fset \<Rightarrow> uint64 \<Rightarrow> bool \<Rightarrow> Clock \<Rightarrow> duration \<Rightarrow> Manager Scheduler" where
  "requestRoutingScheduler config parentOf routeKeys generation stickyOff clk maxAge =
     (\<lambda>routeName sessionKey targets m.
        let ((ordered, source), m') =
              proxy_schedule config parentOf routeName sessionKey stickyOff targets clk maxAge routeKeys [generation] m
        in (ordered, m'))"

record Snapshot =
  fs_Cfg :: Config
  fs_ParentOf :: "(string, string) fmap"
  fs_Catalog :: "Catalog option"
  fs_ExpandedRoutes :: "(string, RouteTarget list) fmap"
  fs_Generation :: uint64

definition requestRoutingPlanner :: "Snapshot \<Rightarrow> string fset \<Rightarrow> bool \<Rightarrow> Clock \<Rightarrow> duration \<Rightarrow> Manager Planner" where
  "requestRoutingPlanner rt routeKeys stickyOff clk maxAge =
     \<lparr> pl_config = Some (fs_Cfg rt), pl_parentOf = fs_ParentOf rt, pl_catalog = fs_Catalog rt,
       pl_expandedRoutes = fs_ExpandedRoutes rt,
       pl_scheduler = Some (requestRoutingScheduler (fs_Cfg rt) (fs_ParentOf rt) routeKeys (fs_Generation rt) stickyOff clk maxAge) \<rparr>"

end
