(* ===== verification/Forward_Policy.thy ===== *)
theory Forward_Policy
  imports Route_Policy Forward_Plan
begin

text \<open>
  The route-tier policy of the pipeline (\<open>internal/forward/policy.go\<close>) and the order in which
  \<open>serveOnce\<close> (\<open>internal/forward/forward.go\<close>) applies scheduling, request-aware routing, the
  escalation latch, bands and the selector. The selector's model call, an upstream request, is an
  argument: a function from the offered candidates to the answer. Log lines, metrics and the latency
  reading are left out.
\<close>

record SelectorChoice =
  ch_Choice :: string
  ch_Confidence :: real
  ch_Difficulty :: real
  ch_Enforced :: bool
  ch_Err :: string

record RoutingDecision =
  rd_Source :: string
  rd_Grade :: string
  rd_Target :: string
  rd_Selector :: "SelectorChoice option"
  rd_Latch :: string

record SelectorCandidate =
  cd_Target :: RouteTarget
  cd_ID :: string
  cd_Rubric :: string

text \<open>The answer of the decisions call; the error is its message.\<close>

record decisionsOutput =
  do_ChoiceID :: string
  do_Confidence :: real
  do_Difficulty :: real
  do_Err :: "string option"

type_synonym decisions = "SelectorCandidate list \<Rightarrow> decisionsOutput"

definition target_name :: "RouteTarget \<Rightarrow> string" where
  "target_name t = rtg_Provider t @ ''/'' @ rtg_Model t"

text \<open>\<open>strconv.Itoa\<close> of a loop index.\<close>

definition digit_char :: "nat \<Rightarrow> char" where
  "digit_char d = char_of (d + 48)"

fun Itoa :: "nat \<Rightarrow> string" where
  "Itoa k = (let last = digit_char (k mod 10) in if k div 10 = 0 then [last] else Itoa (k div 10) @ [last])"

declare Itoa.simps [simp del]

subsection \<open>Bands and latch of an ungraded route\<close>

definition applyRoutePolicy ::
  "RouteTarget list \<Rightarrow> RoutePolicy \<Rightarrow> Profile \<Rightarrow> (string, string) fmap \<Rightarrow> RouteTarget list \<times> RoutingDecision option" where
  "applyRoutePolicy ordered policy profile parentOf =
     (case PickBand policy profile of
        None \<Rightarrow> (ordered, None)
      | Some want \<Rightarrow>
          (PreferTarget ordered want parentOf,
           Some \<lparr> rd_Source = ''band'', rd_Grade = [], rd_Target = target_name want, rd_Selector = None, rd_Latch = [] \<rparr>))"

text \<open>\<open>strings.SplitN\<close> of a latch target at its first slash; \<open>None\<close> when there are not two parts.\<close>

definition latch_target :: "string \<Rightarrow> RouteTarget option" where
  "latch_target s =
     (let p = cut_before (CHR ''/'') s; rest = drop (length p) s
      in if rest = [] then None
         else Some \<lparr> rtg_Provider = p, rtg_Model = tl rest, rtg_Priority = 0, rtg_Protocol = [], rtg_Rubric = [] \<rparr>)"

definition applyRouteLatch ::
  "Manager \<Rightarrow> string \<Rightarrow> string \<Rightarrow> RouteTarget list \<Rightarrow> RoutePolicy \<Rightarrow> (string, string) fmap \<Rightarrow> gotime \<Rightarrow>
    (RouteTarget list \<times> RoutingDecision) option" where
  "applyRouteLatch state sessionKey route ordered policy parentOf now =
     (case rp_Escalation policy of
        None \<Rightarrow> None
      | Some esc \<Rightarrow>
          if sessionKey = [] then None
          else case LatchValue state sessionKey route of
                 None \<Rightarrow> None
               | Some latch \<Rightarrow>
                   if DwellDuration esc < time_sub now (la_Since latch) then None
                   else case latch_target (la_Target latch) of
                          None \<Rightarrow> None
                        | Some want \<Rightarrow>
                            if TargetIndex ordered want parentOf = None then None
                            else Some (PreferTarget ordered want parentOf,
                                   \<lparr> rd_Source = ''latch'', rd_Grade = [], rd_Target = la_Target latch,
                                     rd_Selector = None, rd_Latch = la_Target latch \<rparr>))"

subsection \<open>Selector of an ungraded route\<close>

record routeSelectorResult =
  rs_ordered :: "RouteTarget list"
  rs_preferred :: RouteTarget
  rs_mode :: string
  rs_action :: string
  rs_choice :: string
  rs_confidence :: real
  rs_difficulty :: real
  rs_err :: string

definition noTarget :: RouteTarget where
  "noTarget = \<lparr> rtg_Provider = [], rtg_Model = [], rtg_Priority = 0, rtg_Protocol = [], rtg_Rubric = [] \<rparr>"

definition reapply :: "routeSelectorResult \<Rightarrow> RouteTarget list \<Rightarrow> (string, string) fmap \<Rightarrow> routeSelectorResult" where
  "reapply r ordered parentOf =
     (let r = r \<lparr> rs_ordered := ordered \<rparr>
      in if rs_action r \<noteq> ''enforce'' then r
         else if TargetIndex ordered (rs_preferred r) parentOf = None then r \<lparr> rs_action := ''fallback'' \<rparr>
         else r \<lparr> rs_ordered := PreferTarget ordered (rs_preferred r) parentOf \<rparr>)"

definition route_routingDecision :: "routeSelectorResult \<Rightarrow> RoutingDecision option \<Rightarrow> RoutingDecision option" where
  "route_routingDecision r base =
     (if rs_mode r = ''off'' then base
      else
        (let selector = \<lparr> ch_Choice = rs_choice r, ch_Confidence = rs_confidence r, ch_Difficulty = rs_difficulty r,
                          ch_Enforced = (rs_action r = ''enforce''), ch_Err = rs_err r \<rparr>
         in if rs_action r = ''enforce'' then
              Some \<lparr> rd_Source = ''selector'', rd_Grade = [],
                     rd_Target = (if rs_ordered r = [] then [] else target_name (hd (rs_ordered r))),
                     rd_Selector = Some selector, rd_Latch = [] \<rparr>
            else case base of
                   Some b \<Rightarrow> Some (b \<lparr> rd_Selector := Some selector \<rparr>)
                 | None \<Rightarrow> Some \<lparr> rd_Source = ''fallback'', rd_Grade = [], rd_Target = [],
                                  rd_Selector = Some selector, rd_Latch = [] \<rparr>))"

definition selector_candidates :: "RouteTarget list \<Rightarrow> SelectorCandidate list" where
  "selector_candidates ordered =
     map (\<lambda>(i, t). \<lparr> cd_Target = t, cd_ID = CHR ''c'' # Itoa i, cd_Rubric = rtg_Rubric t \<rparr>) (enumerate 0 ordered)"

fun index_where :: "('a \<Rightarrow> bool) \<Rightarrow> 'a list \<Rightarrow> nat option" where
  "index_where P [] = None"
| "index_where P (x # xs) = (if P x then Some 0 else map_option Suc (index_where P xs))"

definition applyRouteSelector ::
  "decisions \<Rightarrow> RouteTarget list \<Rightarrow> RoutePolicy \<Rightarrow> (string, string) fmap \<Rightarrow> routeSelectorResult" where
  "applyRouteSelector callDecisions ordered policy parentOf =
     (let res = \<lparr> rs_ordered = ordered, rs_preferred = noTarget, rs_mode = ''off'', rs_action = ''none'',
                  rs_choice = [], rs_confidence = 0, rs_difficulty = 0, rs_err = [] \<rparr>
      in case rp_Selector policy of
           None \<Rightarrow> res
         | Some sel \<Rightarrow>
             (let candidates = selector_candidates ordered;
                  out = callDecisions candidates;
                  res = res \<lparr> rs_mode := SelectorMode sel, rs_choice := do_ChoiceID out,
                              rs_confidence := do_Confidence out, rs_difficulty := do_Difficulty out \<rparr>
              in case do_Err out of
                   Some err \<Rightarrow> res \<lparr> rs_err := err, rs_action := ''fallback'' \<rparr>
                 | None \<Rightarrow>
                     if rs_mode res = ''shadow'' then res \<lparr> rs_action := ''shadow'' \<rparr>
                     else if rs_confidence res < ConfidenceThreshold sel then res \<lparr> rs_action := ''fallback'' \<rparr>
                     else case index_where (\<lambda>c. cd_ID c = rs_choice res) candidates of
                            None \<Rightarrow> res \<lparr> rs_action := ''fallback'', rs_err := ''unknown choice '' @ rs_choice res \<rparr>
                          | Some idx \<Rightarrow>
                              res \<lparr> rs_action := ''enforce'', rs_preferred := ordered ! idx,
                                    rs_ordered := PreferTarget ordered (ordered ! idx) parentOf \<rparr>))"

subsection \<open>Grades\<close>

record gradeSelectorResult =
  gs_choiceID :: string
  gs_choiceGrade :: string
  gs_mode :: string
  gs_action :: string
  gs_confidence :: real
  gs_difficulty :: real
  gs_err :: string

definition noGradeSelector :: gradeSelectorResult where
  "noGradeSelector =
     \<lparr> gs_choiceID = [], gs_choiceGrade = [], gs_mode = ''off'', gs_action = ''none'', gs_confidence = 0,
       gs_difficulty = 0, gs_err = [] \<rparr>"

record gradeGroup =
  gg_name :: string
  gg_targets :: "RouteTarget list"
  gg_first :: RouteTarget
  gg_index :: nat

definition grade_routingDecision ::
  "gradeSelectorResult \<Rightarrow> RoutingDecision option \<Rightarrow> string \<Rightarrow> RoutingDecision option" where
  "grade_routingDecision r base selectedGrade =
     (if gs_mode r = ''off'' then base
      else
        (let selector = \<lparr> ch_Choice = gs_choiceID r, ch_Confidence = gs_confidence r, ch_Difficulty = gs_difficulty r,
                          ch_Enforced = (gs_action r = ''enforce''), ch_Err = gs_err r \<rparr>
         in if gs_action r = ''enforce'' then
              Some \<lparr> rd_Source = ''selector'', rd_Grade = selectedGrade, rd_Target = [],
                     rd_Selector = Some selector, rd_Latch = [] \<rparr>
            else case base of
                   Some b \<Rightarrow> Some (b \<lparr> rd_Selector := Some selector \<rparr>)
                 | None \<Rightarrow> Some \<lparr> rd_Source = ''fallback'', rd_Grade = [], rd_Target = [],
                                  rd_Selector = Some selector, rd_Latch = [] \<rparr>))"

text \<open>The latched grade with the raw latch value.\<close>

definition resolveLatchGrade ::
  "Manager \<Rightarrow> string \<Rightarrow> string \<Rightarrow> RoutePolicy \<Rightarrow> gotime \<Rightarrow> (string \<times> string) option" where
  "resolveLatchGrade state sessionKey route policy now =
     (case rp_Escalation policy of
        None \<Rightarrow> None
      | Some esc \<Rightarrow>
          if sessionKey = [] \<or> \<not> HasGrades policy then None
          else case LatchValue state sessionKey route of
                 None \<Rightarrow> None
               | Some latch \<Rightarrow>
                   if DwellDuration esc < time_sub now (la_Since latch) then None
                   else if HasPrefix (la_Target latch) ''grade:'' then
                     (let g = drop 6 (la_Target latch)
                      in if fmlookup (rp_Grades policy) g \<noteq> None then Some (g, la_Target latch) else None)
                   else case latch_target (la_Target latch) of
                          None \<Rightarrow> None
                        | Some want \<Rightarrow>
                            (let (g, ambiguous) = GradeForTarget want (rp_Grades policy)
                             in if ambiguous \<or> g = [] then None else Some (g, la_Target latch)))"

text \<open>The empty name stands for \<open>ungraded\<close>, as in the code.\<close>

definition gradeOfTarget ::
  "RouteTarget \<Rightarrow> (string, RouteTarget list) fmap \<Rightarrow> (string, string) fmap \<Rightarrow> string" where
  "gradeOfTarget t grades parentOf =
     (case find (\<lambda>name. list_ex (\<lambda>gt. target_matches parentOf gt t) (fmget [] grades name)) (fmkeys grades) of
        None \<Rightarrow> []
      | Some name \<Rightarrow> name)"

fun grade_order_scan :: "string list \<Rightarrow> string list \<Rightarrow> string list" where
  "grade_order_scan seen [] = []"
| "grade_order_scan seen (g # gs) =
     (if g = [] \<or> g \<in> set seen then grade_order_scan seen gs else g # grade_order_scan (g # seen) gs)"

definition GradeOrder ::
  "RouteTarget list \<Rightarrow> (string, RouteTarget list) fmap \<Rightarrow> (string, string) fmap \<Rightarrow> string list" where
  "GradeOrder ordered grades parentOf =
     (if grades = fmempty then [] else grade_order_scan [] (map (\<lambda>t. gradeOfTarget t grades parentOf) ordered))"

definition groupTargetsByGrade ::
  "RouteTarget list \<Rightarrow> (string, RouteTarget list) fmap \<Rightarrow> (string, string) fmap \<Rightarrow> gradeGroup list \<times> RouteTarget list" where
  "groupTargetsByGrade ordered grades parentOf =
     (if grades = fmempty then ([], ordered)
      else
        (let grade = (\<lambda>t. gradeOfTarget t grades parentOf);
             targetsByGrade = (\<lambda>g. filter (\<lambda>t. grade t = g) ordered)
         in (map (\<lambda>(i, name). \<lparr> gg_name = name, gg_targets = targetsByGrade name, gg_first = hd (targetsByGrade name),
                                gg_index = i \<rparr>) (enumerate 0 (GradeOrder ordered grades parentOf)),
             filter (\<lambda>t. grade t = []) ordered)))"

definition buildGradeOrdered ::
  "string \<Rightarrow> gradeGroup list \<Rightarrow> RouteTarget list \<Rightarrow> string \<Rightarrow> RouteTarget list" where
  "buildGradeOrdered selected groups ungraded fallback =
     (let natural = concat (map gg_targets groups) @ ungraded
      in if selected = [] then natural
         else case index_where (\<lambda>g. gg_name g = selected) groups of
                None \<Rightarrow> natural
              | Some selectedIdx \<Rightarrow>
                  gg_targets (groups ! selectedIdx) @
                  (if fallback = ''next_grade'' then
                     (if selectedIdx + 1 < length groups then gg_targets (groups ! (selectedIdx + 1)) else []) @ ungraded
                   else if fallback = ''strict'' then []
                   else concat (map gg_targets (drop (selectedIdx + 1) groups)) @ ungraded))"

definition gradeGroupHasTargets :: "gradeGroup list \<Rightarrow> string \<Rightarrow> bool" where
  "gradeGroupHasTargets groups name =
     (case find (\<lambda>g. gg_name g = name) groups of None \<Rightarrow> False | Some g \<Rightarrow> gg_targets g \<noteq> [])"

definition filterGradeTargets ::
  "RouteTarget list \<Rightarrow> Config option \<Rightarrow> (string, string) fmap \<Rightarrow> Catalog option \<Rightarrow> Profile \<Rightarrow> RouteTarget list" where
  "filterGradeTargets targets cfg parentOf cat profile =
     filter (\<lambda>t. rtg_Provider t = FusionProvider \<or>
                Fits cat (CapabilitiesFor cfg parentOf t) (rtg_Model t) profile) targets"

definition applyRouteSelectorForGrades ::
  "decisions \<Rightarrow> gradeGroup list \<Rightarrow> RoutePolicy \<Rightarrow> gradeSelectorResult" where
  "applyRouteSelectorForGrades callDecisions groups policy =
     (case rp_Selector policy of
        None \<Rightarrow> noGradeSelector
      | Some sel \<Rightarrow>
          (let res = noGradeSelector \<lparr> gs_mode := SelectorMode sel \<rparr>;
               viable = filter (\<lambda>g. gg_targets g \<noteq> []) groups
           in if viable = [] then res \<lparr> gs_action := ''fallback'', gs_err := ''no viable grades'' \<rparr>
              else
                (let candidates = map (\<lambda>(i, g). \<lparr> cd_Target = gg_first g, cd_ID = CHR ''g'' # Itoa i,
                                                  cd_Rubric = ''grade '' @ gg_name g \<rparr>) (enumerate 0 viable);
                     out = callDecisions candidates;
                     choiceGrade = (case index_where (\<lambda>c. cd_ID c = do_ChoiceID out) candidates of
                                      None \<Rightarrow> [] | Some i \<Rightarrow> gg_name (viable ! i));
                     res = res \<lparr> gs_choiceID := do_ChoiceID out, gs_choiceGrade := choiceGrade,
                                 gs_confidence := do_Confidence out, gs_difficulty := do_Difficulty out \<rparr>
                 in case do_Err out of
                      Some err \<Rightarrow> res \<lparr> gs_err := err, gs_action := ''fallback'' \<rparr>
                    | None \<Rightarrow>
                        if gs_mode res = ''shadow'' then res \<lparr> gs_action := ''shadow'' \<rparr>
                        else if gs_confidence res < ConfidenceThreshold sel then res \<lparr> gs_action := ''fallback'' \<rparr>
                        else if choiceGrade = [] then
                          res \<lparr> gs_action := ''fallback'', gs_err := ''unknown choice '' @ do_ChoiceID out \<rparr>
                        else res \<lparr> gs_action := ''enforce'' \<rparr>)))"

definition buildGradeRoutingDecision ::
  "RoutePolicy \<Rightarrow> Profile \<Rightarrow> gradeGroup list \<Rightarrow> (string \<times> string) option \<Rightarrow> gradeSelectorResult \<Rightarrow> string \<Rightarrow>
    RoutingDecision option" where
  "buildGradeRoutingDecision policy profile filtered latch selectorRes selected =
     (case latch of
        Some (latchedGrade, latchValue) \<Rightarrow>
          Some \<lparr> rd_Source = ''latch'', rd_Grade = latchedGrade, rd_Target = [], rd_Selector = None, rd_Latch = latchValue \<rparr>
      | None \<Rightarrow>
          if gs_action selectorRes = ''enforce'' \<and> gradeGroupHasTargets filtered selected then
            grade_routingDecision selectorRes None selected
          else
            (let selectorRes = (if gs_action selectorRes = ''enforce'' then selectorRes \<lparr> gs_action := ''fallback'' \<rparr>
                                else selectorRes);
                 (bandGrade, bandMatched) = SelectGrade policy profile [] [];
                 base = (if bandMatched
                         then Some \<lparr> rd_Source = ''band'', rd_Grade = bandGrade, rd_Target = [], rd_Selector = None, rd_Latch = [] \<rparr>
                         else None)
             in if gs_mode selectorRes \<noteq> ''off'' then grade_routingDecision selectorRes base selected else base))"

subsection \<open>Policy within one request\<close>

text \<open>What a request caches across its wait-retry rounds: the selector's answer.\<close>

record serveState =
  sv_selectorComputed :: bool
  sv_routeSel :: routeSelectorResult
  sv_gradeSel :: gradeSelectorResult

definition routeSelector ::
  "decisions \<Rightarrow> RouteTarget list \<Rightarrow> RoutePolicy \<Rightarrow> (string, string) fmap \<Rightarrow> serveState \<Rightarrow> routeSelectorResult \<times> serveState" where
  "routeSelector callDecisions ordered policy parentOf st =
     (if sv_selectorComputed st then (reapply (sv_routeSel st) ordered parentOf, st)
      else
        (let res = applyRouteSelector callDecisions ordered policy parentOf
         in (res, st \<lparr> sv_routeSel := res, sv_selectorComputed := True \<rparr>)))"

definition filter_group :: "Snapshot \<Rightarrow> Profile \<Rightarrow> gradeGroup \<Rightarrow> gradeGroup" where
  "filter_group rt profile g =
     (let ft = filterGradeTargets (gg_targets g) (Some (fs_Cfg rt)) (fs_ParentOf rt) (fs_Catalog rt) profile
      in g \<lparr> gg_targets := ft, gg_first := (if ft \<noteq> [] then hd ft else gg_first g) \<rparr>)"

definition applyRoutePolicyGrades ::
  "decisions \<Rightarrow> RouteTarget list \<Rightarrow> RoutePolicy \<Rightarrow> Profile \<Rightarrow> string \<Rightarrow> Snapshot \<Rightarrow> string \<Rightarrow> gotime \<Rightarrow> Manager \<Rightarrow>
    serveState \<Rightarrow> (RouteTarget list \<times> RoutingDecision option) \<times> serveState" where
  "applyRoutePolicyGrades callDecisions ordered policy profile sessionKey rt exposed now m st =
     (let parentOf = fs_ParentOf rt;
          (groups, ungraded) = groupTargetsByGrade ordered (rp_Grades policy) parentOf
      in if groups = [] then ((ordered, None), st)
         else
           (let filtered = map (filter_group rt profile) groups;
                latch = (case resolveLatchGrade m sessionKey exposed policy now of
                           None \<Rightarrow> None
                         | Some (g, v) \<Rightarrow> if gradeGroupHasTargets filtered g then Some (g, v) else None);
                (selectorRes, st') =
                  (if rp_Selector policy \<noteq> None \<and> latch = None then
                     (if sv_selectorComputed st then (sv_gradeSel st, st)
                      else (let res = applyRouteSelectorForGrades callDecisions filtered policy
                            in (res, st \<lparr> sv_gradeSel := res, sv_selectorComputed := True \<rparr>)))
                   else (noGradeSelector, st));
                selectorChoice = (if gs_action selectorRes = ''enforce'' then gs_choiceGrade selectorRes else []);
                (selected, _) = SelectGrade policy profile (case latch of None \<Rightarrow> [] | Some (g, _) \<Rightarrow> g) selectorChoice;
                decision = buildGradeRoutingDecision policy profile filtered latch selectorRes selected
            in ((buildGradeOrdered selected filtered ungraded (FallbackMode policy), decision), st')))"

text \<open>
  The ordering part of \<open>serveOnce\<close>: scheduling, then, unless a pin or a forced provider fixed the
  backend, request-aware routing and the route's policy. The profile of request-aware routing is only
  read when there is a catalog. The second and third results are the routing decision and the
  selector cache.
\<close>

definition serve_order ::
  "decisions \<Rightarrow> Snapshot \<Rightarrow> RoutePolicy option \<Rightarrow> string \<Rightarrow> string \<Rightarrow> RouteTarget list \<Rightarrow> string fset \<Rightarrow> bool \<Rightarrow> string \<Rightarrow>
    bool \<Rightarrow> string \<Rightarrow> Clock \<Rightarrow> duration \<Rightarrow> serveState \<Rightarrow> Manager \<Rightarrow>
    (RouteTarget list \<times> RoutingDecision option \<times> serveState) \<times> Manager" where
  "serve_order callDecisions rt policy exposed sessionKey targets routeKeys force forcedProvider stickyOff origBody clk maxAge st m =
     (let forcedAffinityOff = (stickyOff \<or> forcedProvider \<noteq> []);
          ((ordered, source), m) = proxy_schedule (fs_Cfg rt) (fs_ParentOf rt) exposed sessionKey forcedAffinityOff targets clk
             maxAge routeKeys [fs_Generation rt] m
      in if force \<or> forcedProvider \<noteq> [] then ((ordered, None, st), m)
         else
           (let profile = ProfileRequest origBody;
                (ordered, m) = ApplyWithProfile (requestRoutingPlanner rt routeKeys stickyOff clk maxAge) exposed sessionKey
                   ordered profile m
            in case policy of
                 None \<Rightarrow> ((ordered, None, st), m)
               | Some policy \<Rightarrow>
                   if HasGrades policy then
                     (let ((ordered, decision), st) =
                        applyRoutePolicyGrades callDecisions ordered policy profile sessionKey rt exposed (ck_now clk) m st
                      in ((ordered, decision, st), m))
                   else
                     (case applyRouteLatch m sessionKey exposed ordered policy (fs_ParentOf rt) (ck_now clk) of
                        Some (ordered, decision) \<Rightarrow> ((ordered, Some decision, st), m)
                      | None \<Rightarrow>
                          (let (ordered, decision) = applyRoutePolicy ordered policy profile (fs_ParentOf rt);
                               (selectorRes, st) = routeSelector callDecisions ordered policy (fs_ParentOf rt) st
                           in ((rs_ordered selectorRes, route_routingDecision selectorRes decision, st), m)))))"

end
