(* ===== verification/Forward_Serve.thy ===== *)
theory Forward_Serve
  imports Forward_Policy "HOL-Library.Signed_Division"
begin

text \<open>
  The request entry of the pipeline (\<open>internal/forward/forward.go\<close>) around one scheduling pass:
  resolving the called name to targets with its early errors, the bounded wait-and-retry loop with
  the failure policy (\<open>internal/routing/retry.go\<close>), and the escalation signal a finished request
  records. One pass and the timed wait are the environment of the loop and arguments of it.
\<close>

subsection \<open>Admission\<close>

text \<open>The early answers: unknown model (502), disabled model (404), bad force-provider (400).\<close>

datatype admit_error = ModelNotFound | AllDisabled | ForcedDisabled | ForcedNotTarget

fun admit_status :: "admit_error \<Rightarrow> int" where
  "admit_status ModelNotFound = 502"
| "admit_status AllDisabled = 404"
| "admit_status ForcedDisabled = 400"
| "admit_status ForcedNotTarget = 400"

record admission =
  ad_exposed :: string
  ad_targets :: "RouteTarget list"
  ad_force :: bool
  ad_forcedProvider :: string

definition filterDisabledTargets :: "Manager \<Rightarrow> (string, string) fmap \<Rightarrow> RouteTarget list \<Rightarrow> RouteTarget list" where
  "filterDisabledTargets m parentOf targets =
     (let disabled = (\<lambda>t. TargetDisabled m
            \<lparr> tg_Provider = rtg_Provider t, tg_Parent = fmget [] parentOf (rtg_Provider t), tg_Model = rtg_Model t,
              tg_Priority = 0, tg_PeakMultiplier = 0, tg_Billing = BillingUnknown \<rparr>)
      in if \<not> list_ex disabled targets then targets else filter (\<lambda>t. \<not> disabled t) targets)"

text \<open>The called name as a route name or as a provider prefix: exposed name, targets, forced prefix.\<close>

definition resolve_called ::
  "Config \<Rightarrow> (string, RouteTarget list) fmap \<Rightarrow> (string, string) fmap \<Rightarrow> string \<Rightarrow> string \<times> RouteTarget list \<times> string" where
  "resolve_called cfg expanded parentOf calledModel =
     (let targets = fmget [] expanded calledModel
      in if targets = [] then
           (case SplitProviderPrefix (cf_Providers cfg) calledModel of
              Some (pref, bare) \<Rightarrow> (bare, FilterTargetsByProvider (fmget [] expanded bare) parentOf pref, pref)
            | None \<Rightarrow> (calledModel, [], []))
         else (calledModel, targets, []))"

definition admit ::
  "Config \<Rightarrow> (string, RouteTarget list) fmap \<Rightarrow> (string, string) fmap \<Rightarrow> string \<Rightarrow> string \<Rightarrow> gotime \<Rightarrow> Manager \<Rightarrow>
    admit_error + admission" where
  "admit cfg expanded parentOf calledModel requested now m =
     (let (exposed, targets0, prefixForced) = resolve_called cfg expanded parentOf calledModel
      in if targets0 = [] then Inl ModelNotFound
         else
           (let targets = filterDisabledTargets m parentOf targets0
            in if targets = [] then Inl AllDisabled
               else
                 (let force = pinForces m exposed targets parentOf now;
                      forcedProvider = (if requested = [] then prefixForced else requested)
                  in if forcedProvider = [] then
                       Inr \<lparr> ad_exposed = exposed, ad_targets = targets, ad_force = force, ad_forcedProvider = [] \<rparr>
                     else
                       (let narrowed = FilterTargetsByProvider targets parentOf forcedProvider
                        in if narrowed = [] then
                             (if FilterTargetsByProvider targets0 parentOf forcedProvider \<noteq> [] then Inl ForcedDisabled
                              else Inl ForcedNotTarget)
                           else
                             Inr \<lparr> ad_exposed = exposed, ad_targets = narrowed, ad_force = force,
                                   ad_forcedProvider = forcedProvider \<rparr>))))"

subsection \<open>Failure policy\<close>

datatype FailureAction = FailureTerminal | FailureWait | FailureRetryNow

record FailureInput =
  fi_SawHard :: bool
  fi_SawRateLimit :: bool
  fi_AllDown :: bool
  fi_AllDownRateLimited :: bool
  fi_RecoveredUntried :: bool
  fi_BypassWait :: bool
  fi_Round :: int
  fi_MaxRetryRounds :: int
  fi_RetryWait :: duration
  fi_RateLimitBackoff :: duration
  fi_EarliestRecovery :: gotime
  fi_Now :: gotime

record FailureDecision =
  fd_Action :: FailureAction
  fd_Wait :: duration
  fd_RateLimited :: bool
  fd_RetryAfterSeconds :: int

definition terminal_decision :: FailureDecision where
  "terminal_decision = \<lparr> fd_Action = FailureTerminal, fd_Wait = 0, fd_RateLimited = False, fd_RetryAfterSeconds = 0 \<rparr>"

definition retry_after_seconds :: "FailureInput \<Rightarrow> int" where
  "retry_after_seconds i =
     (let retryAfter = time_sub (fi_EarliestRecovery i) (fi_Now i);
          retryAfter = (if retryAfter \<le> 0 then fi_RateLimitBackoff i else retryAfter);
          seconds = retryAfter sdiv second;
          seconds = (if retryAfter smod second \<noteq> 0 then seconds + 1 else seconds)
      in if seconds < 1 then 1 else seconds)"

definition DecideFailure :: "FailureInput \<Rightarrow> FailureDecision" where
  "DecideFailure i =
     (let may_retry = (\<not> fi_BypassWait i \<and> 0 < fi_RetryWait i \<and> fi_Round i < fi_MaxRetryRounds i);
          wait = time_sub (fi_EarliestRecovery i) (fi_Now i);
          rateLimited = (\<not> fi_SawHard i \<and> (fi_SawRateLimit i \<or> fi_AllDown i \<and> fi_AllDownRateLimited i))
      in if may_retry \<and> fi_AllDown i \<and> 0 < wait \<and> wait \<le> fi_RetryWait i
         then terminal_decision \<lparr> fd_Action := FailureWait, fd_Wait := wait \<rparr>
         else if may_retry \<and> \<not> fi_AllDown i \<and> fi_RecoveredUntried i
         then terminal_decision \<lparr> fd_Action := FailureRetryNow \<rparr>
         else if \<not> rateLimited then terminal_decision
         else terminal_decision \<lparr> fd_RateLimited := True, fd_RetryAfterSeconds := retry_after_seconds i \<rparr>)"

subsection \<open>The wait-and-retry loop\<close>

record serveResult =
  sr_committed :: bool
  sr_tried :: "string fset"
  sr_sawHard :: bool
  sr_sawCooldown :: bool
  sr_clientGone :: bool
  sr_conversionErr :: bool
  sr_planningErr :: bool
  sr_committedBodyBytes :: int
  sr_effectiveTargets :: "RouteTarget list"

text \<open>
  The environment of a request: the Manager other requests change too, the clock, a scheduling pass,
  and the wait, which reports whether the client is still there.
\<close>

record 'w environment =
  en_manager :: "'w \<Rightarrow> Manager"
  en_now :: "'w \<Rightarrow> gotime"
  en_serveOnce :: "'w \<Rightarrow> serveResult \<times> 'w"
  en_wait :: "duration \<Rightarrow> 'w \<Rightarrow> bool \<times> 'w"

datatype serve_outcome =
    Committed serveResult
  | ClientGone serveResult
  | Unsupported serveResult
  | Failed serveResult FailureDecision

definition failure_input ::
  "'w environment \<Rightarrow> Scheduling \<Rightarrow> RouteTarget list \<Rightarrow> string \<Rightarrow> duration \<Rightarrow> int \<Rightarrow> bool \<Rightarrow> bool \<Rightarrow> serveResult \<Rightarrow> 'w \<Rightarrow>
    FailureInput" where
  "failure_input env sched targets forcedProvider quotaMaxAge rnd sawHard sawCool res w =
     (let checkTargets = (if sr_effectiveTargets res = [] then targets else sr_effectiveTargets res);
          m = en_manager env w; now = en_now env w;
          (allDown, allRateLimited, earliest) = CooldownState m (runtimeTargetsBare checkTargets) now quotaMaxAge;
          bypassWait = (forcedProvider \<noteq> []);
          retryWait = RetryWaitDuration sched
      in \<lparr> fi_SawHard = sawHard, fi_SawRateLimit = sawCool, fi_AllDown = allDown,
           fi_AllDownRateLimited = allRateLimited,
           fi_RecoveredUntried = (\<not> bypassWait \<and> 0 < retryWait \<and> rnd < 2 \<and> \<not> allDown \<and>
              HasRecoveredUntried m (runtimeTargetsBare checkTargets) (sr_tried res) now quotaMaxAge),
           fi_BypassWait = bypassWait, fi_Round = rnd, fi_MaxRetryRounds = 2, fi_RetryWait = retryWait,
           fi_RateLimitBackoff = RateBackoff sched, fi_EarliestRecovery = earliest, fi_Now = now \<rparr>)"

lemma DecideFailure_continues:
  "fd_Action (DecideFailure i) \<noteq> FailureTerminal \<Longrightarrow> fi_Round i < fi_MaxRetryRounds i"
  by (auto simp: DecideFailure_def terminal_decision_def Let_def split: if_splits)

lemma failure_input_round [simp]:
  "fi_Round (failure_input env sched targets forced maxAge rnd sawHard sawCool res w) = rnd"
  "fi_MaxRetryRounds (failure_input env sched targets forced maxAge rnd sawHard sawCool res w) = 2"
  "fi_SawHard (failure_input env sched targets forced maxAge rnd sawHard sawCool res w) = sawHard"
  "fi_RetryWait (failure_input env sched targets forced maxAge rnd sawHard sawCool res w) = RetryWaitDuration sched"
  by (simp_all add: failure_input_def Let_def split_beta)

lemma continue_round:
  "fd_Action (DecideFailure (failure_input env sched targets forced maxAge rnd h c res w)) = FailureWait \<Longrightarrow> rnd < 2"
  "fd_Action (DecideFailure (failure_input env sched targets forced maxAge rnd h c res w)) = FailureRetryNow \<Longrightarrow> rnd < 2"
  using DecideFailure_continues [of "failure_input env sched targets forced maxAge rnd h c res w"] by auto

text \<open>
  The loop from a round on. The second component lists the failed passes that were repeated, each
  with the wait after it (0 for an immediate retry). It ends because the failure policy continues only below the round bound.
\<close>

function serve_loop ::
  "'w environment \<Rightarrow> Scheduling \<Rightarrow> RouteTarget list \<Rightarrow> string \<Rightarrow> duration \<Rightarrow> int \<Rightarrow> bool \<Rightarrow> bool \<Rightarrow> 'w \<Rightarrow>
    (serve_outcome \<times> (serveResult \<times> duration) list) \<times> 'w" where
  "serve_loop env sched targets forcedProvider quotaMaxAge rnd sawHard sawCool w =
     (let (res, w) = en_serveOnce env w
      in if sr_committed res then ((Committed res, []), w)
         else if sr_clientGone res then ((ClientGone res, []), w)
         else if sr_conversionErr res \<and> sr_tried res = {||} then ((Unsupported res, []), w)
         else
           (let sawHard = (sawHard \<or> sr_sawHard res); sawCool = (sawCool \<or> sr_sawCooldown res);
                decision = DecideFailure (failure_input env sched targets forcedProvider quotaMaxAge rnd sawHard sawCool res w)
            in case fd_Action decision of
                 FailureWait \<Rightarrow>
                   (let (present, w) = en_wait env (fd_Wait decision) w
                    in if present then
                         (let ((out, passes), w) = serve_loop env sched targets forcedProvider quotaMaxAge (rnd + 1) sawHard sawCool w
                          in ((out, (res, fd_Wait decision) # passes), w))
                       else ((ClientGone res, [(res, fd_Wait decision)]), w))
               | FailureRetryNow \<Rightarrow>
                   (let ((out, passes), w) = serve_loop env sched targets forcedProvider quotaMaxAge (rnd + 1) sawHard sawCool w
                    in ((out, (res, 0) # passes), w))
               | FailureTerminal \<Rightarrow> ((Failed res decision, []), w)))"
  by pat_completeness auto
termination
  by (relation "measure (\<lambda>(env, sched, targets, forced, maxAge, rnd, sawHard, sawCool, w). nat (2 - rnd))")
    (auto dest: continue_round)

declare serve_loop.simps [simp del]

subsection \<open>The escalation signal\<close>

definition latch_outcome_target :: "RoutePolicy \<Rightarrow> EscalationConfig \<Rightarrow> string" where
  "latch_outcome_target policy esc =
     (if HasGrades policy \<and> ec_Grade esc \<noteq> [] then ''grade:'' @ ec_Grade esc else target_name (ec_Target esc))"

definition recordLatchOutcome ::
  "RoutePolicy option \<Rightarrow> string \<Rightarrow> string \<Rightarrow> string \<Rightarrow> uint64 \<Rightarrow> gotime \<Rightarrow> serveResult \<Rightarrow> Manager \<Rightarrow> Manager" where
  "recordLatchOutcome policy sessionKey exposed turnKey generation now res m =
     (case policy of
        None \<Rightarrow> m
      | Some policy \<Rightarrow>
          (case rp_Escalation policy of
             None \<Rightarrow> m
           | Some esc \<Rightarrow>
               if sessionKey = [] then m
               else if sr_tried res = {||} \<and> (sr_conversionErr res \<or> sr_planningErr res) then m
               else
                 (let signal = (\<lambda>s. s \<in> set (ec_BadSignals esc));
                      upstream = (if \<not> sr_committed res \<and> \<not> sr_clientGone res \<and> signal ''upstream_error'' then 1 else 0);
                      empty = (if sr_committed res \<and> \<not> sr_clientGone res \<and> signal ''empty_ok'' \<and> sr_committedBodyBytes res = 0
                               then 1 else 0);
                      (repeated, m) =
                        (if turnKey \<noteq> [] \<and> signal ''repeat_turn''
                         then CheckRepeatTurn sessionKey exposed turnKey now (DwellDuration esc) generation m
                         else (False, m));
                      badCount = upstream + empty + (if repeated then 1 else 0);
                      good = (badCount = 0 \<and> sr_committed res \<and> \<not> sr_clientGone res)
                  in if badCount = 0 \<and> \<not> good then m
                     else snd (RecordLatchOutcome
                       \<lparr> lo_SessionKey = sessionKey, lo_Route = exposed, lo_Now = now, lo_Dwell = DwellDuration esc,
                         lo_Consecutive = ec_Consecutive esc, lo_Target = latch_outcome_target policy esc,
                         lo_BadSignals = badCount, lo_Good = good \<rparr> generation m))))"

end
