(* ===== verification/Rotation.thy ===== *)
theory Rotation
  imports Prelude
begin

text \<open>
  Round-robin selection by a wrapping 64-bit counter, as an interface. Three places of the program
  rotate this way: the load-balanced route, the accounts of a pool behind a session's first request,
  and the account resolver. Each hands the interface its operation, its counter and the list it
  rotates over, proves the two laws, and obtains evenness.
\<close>

fun run_outs :: "('i \<Rightarrow> 's \<Rightarrow> 'o \<times> 's) \<Rightarrow> 'i list \<Rightarrow> 's \<Rightarrow> 'o list" where
  "run_outs op [] s = []"
| "run_outs op (i # is) s = fst (op i s) # run_outs op is (snd (op i s))"

lemma length_run_outs [simp]: "length (run_outs op is s) = length is"
  by (induction "is" arbitrary: s) auto

lemma unat_Suc64: "unat (c :: uint64) + 1 < 2 ^ 64 \<Longrightarrow> unat (c + 1) = Suc (unat c)"
  by (simp add: unat_word_ariths)

lemma mset_rotate_eq: "mset (rotate n xs) = mset xs"
  by (simp add: rotate_drop_take) (metis add.commute append_take_drop_id mset_append)

locale rotation =
  fixes op :: "'i \<Rightarrow> 's \<Rightarrow> 'o \<times> 's" and counter :: "'s \<Rightarrow> uint64" and slots :: "'o list"
    and request :: "'s \<Rightarrow> 'i \<Rightarrow> bool"
  assumes picks: "request s i \<Longrightarrow> slots \<noteq> [] \<and> fst (op i s) = slots ! (unat (counter s) mod length slots)"
    and advances: "request s i \<Longrightarrow> counter (snd (op i s)) = counter s + 1"
    and stays: "request s i \<Longrightarrow> request s j \<Longrightarrow> request (snd (op j s)) i"
begin

lemma run_outs_nth:
  assumes "list_all (request s) is" and "unat (counter s) + length is \<le> 2 ^ 64"
  shows "run_outs op is s = map (\<lambda>k. slots ! ((unat (counter s) + k) mod length slots)) [0..<length is]"
  using assms
proof (induction "is" arbitrary: s)
  case (Cons i "is")
  let ?s' = "snd (op i s)"
  have i: "request s i"
    using Cons.prems(1) by simp
  have rest: "list_all (request ?s') is"
    using Cons.prems(1) i by (auto simp: list_all_iff intro: stays)
  show ?case
  proof (cases "is")
    case Nil
    with picks [OF i] show ?thesis by simp
  next
    case (Cons j js)
    then have c1: "unat (counter ?s') = Suc (unat (counter s))"
      using Cons.prems(2) advances [OF i] by (simp add: unat_Suc64)
    have "run_outs op is ?s' = map (\<lambda>k. slots ! ((unat (counter s) + k) mod length slots)) [1..<Suc (length is)]"
      using Cons.IH [OF rest] Cons.prems(2) c1 by (simp add: map_Suc_upt [symmetric] del: upt_Suc)
    with picks [OF i] show ?thesis
      by (simp add: upt_rec [of 0 "Suc (length is)"] del: upt_Suc)
  qed
qed simp

lemma even_round:
  assumes "list_all (request s) is" and "length is = length slots"
    and "unat (counter s) + length is \<le> 2 ^ 64"
  shows "mset (run_outs op is s) = mset slots"
proof -
  have "run_outs op is s = rotate (unat (counter s)) slots"
    using assms by (intro nth_equalityI) (simp_all add: run_outs_nth nth_rotate)
  then show ?thesis by (simp add: mset_rotate_eq)
qed

end

end
