(* ===== verification/Schedule_Sessions.thy ===== *)
theory Schedule_Sessions
  imports Schedule_Props Rotation
begin

text \<open>
  Sessions: a binding holds for its dwell under both strategies, an opted-out request leaves the
  bindings alone, and new work is spread evenly, over the targets of a load-balanced route and over
  the accounts of a pool.
\<close>

subsection \<open>Bindings hold\<close>

lemma lookup_evict_sticky:
  assumes "fmlookup sticky key = Some e" and "\<not> si_Dwell input < time_sub (si_Now input) (st_Since e)"
  shows "fmlookup (evict_sticky input sticky) key = Some e"
  using assms by (simp add: evict_sticky_def)

lemma swept_lookup:
  assumes "fmlookup (ss_sticky state) key = Some e"
    and "time_sub (si_Now input) (st_Since e) < si_Dwell input"
  shows "fmlookup (ss_sticky (swept input state commit)) key = Some e"
  using assms by (auto simp: swept_def intro: lookup_evict_sticky)

lemma chain_head_parked:
  assumes "si_SessionKey input \<noteq> []" "\<not> si_IgnoreSticky input"
    and e: "fmlookup (ss_sticky state) (StickyKey (si_SessionKey input) (si_Exposed input)) = Some e"
    and "st_Provider e \<noteq> []" and dwell: "time_sub (si_Now input) (st_Since e) < si_Dwell input"
    and c: "c \<in> set (avail_of input state)" "tg_Provider (sc_target c) = st_Provider e"
  shows "chain_of input state commit \<noteq> [] \<and>
    tg_Provider (sc_target (hd (chain_of input state commit))) = st_Provider e"
proof -
  let ?avail = "avail_of input state" and ?state = "swept input state commit"
  let ?ranked = "sort_key rank_key ?avail"
  have e': "fmlookup (ss_sticky ?state) (StickyKey (si_SessionKey input) (si_Exposed input)) = Some e"
    using swept_lookup [OF e dwell] .
  have mem: "st_Provider e \<in> (\<lambda>c. tg_Provider (sc_target c)) ` set ?avail"
    using c by force
  show ?thesis
  proof (cases "si_Strategy input = RouteStrategyLoadBalance")
    case True
    obtain i where i: "index_of_provider (st_Provider e) ?avail = Some i"
      using mem index_of_provider_None by fastforce
    then have "lb_head input ?state ?avail = i"
      using assms e' by (simp add: lb_head_def Let_def)
    moreover have "i < length ?avail" "tg_Provider (sc_target (?avail ! i)) = st_Provider e"
      using index_of_provider_Some [OF i] by simp_all
    moreover have "hd (rotate i ?avail) = ?avail ! (i mod length ?avail)"
      using c(1) by (intro hd_rotate_conv_nth) auto
    ultimately show ?thesis
      using True c(1) by (auto simp: chain_of_def Let_def)
  next
    case False
    obtain i where i: "index_of_provider (st_Provider e) ?ranked = Some i"
      using mem index_of_provider_None [of "st_Provider e" ?ranked] by fastforce
    then have "keep_sticky input e ?ranked = Some i"
      using assms by (simp add: keep_sticky_def)
    then have "fst (pick_head input ?state ?ranked commit) = Some (?ranked ! i)"
      using assms e' by (simp add: pick_head_def Let_def)
    with False index_of_provider_Some [OF i] show ?thesis
      by (simp add: chain_of_def Let_def)
  qed
qed

text \<open>
  C20. A conversation stays where it is: while the dwell of a session's binding on a route has not
  passed and the bound provider has an eligible target there, the next request of the session is
  sent to that provider first, under either strategy and whatever the ranking prefers.
\<close>

theorem DecideOrder_session_stays:
  assumes "si_SessionKey input \<noteq> []" and "\<not> si_IgnoreSticky input"
    and "fmlookup (m_sticky m) (StickyKey (si_SessionKey input) (si_Exposed input)) = Some e"
    and "st_Provider e \<noteq> []" and "time_sub (si_Now input) (st_Since e) < si_Dwell input"
    and "i < length (si_Targets input)" and "tg_Provider (si_Targets input ! i) = st_Provider e"
    and "\<not> TargetDisabled m (si_Targets input ! i)"
    and "\<not> PinForces m (si_Exposed input) (filter (\<lambda>t. \<not> TargetDisabled m t) (si_Targets input)) (si_Now input)"
    and "TargetHealthy m (st_Provider e) (tg_Model (si_Targets input ! i)) (si_Now input)"
    and "\<not> quotaExhausted (quota_of m (st_Provider e)) (si_Now input) (si_QuotaMaxAge input)"
  shows "sr_Order (fst (DecideOrder input m)) \<noteq> [] \<and>
    tg_Provider (si_Targets input ! hd (sr_Order (fst (DecideOrder input m)))) = st_Provider e"
proof -
  let ?c = "candidate_of input (sched input m) i (si_Targets input ! i)"
  let ?chain = "chain_of input (sched input m) (commits input m)"
  have "eligible input (sched input m) (si_Targets input ! i)"
    using assms by (simp add: eligible_sched pin_in_effect_sched ready_def)
  then have "?c \<in> set (avail_of input (sched input m))"
    using assms(6) by (auto simp: avail_of_mem all_candidates_mem)
  then have ne: "?chain \<noteq> []" and p: "tg_Provider (sc_target (hd ?chain)) = st_Provider e"
    using chain_head_parked [of input "sched input m" e ?c "commits input m"] assms by simp_all
  then have "hd ?chain \<in> set (all_candidates input (sched input m))"
    using chain_of_mem_avail avail_of_mem by (metis hd_in_set subsetD)
  then have "sc_target (hd ?chain) = si_Targets input ! sc_index (hd ?chain)"
    using all_candidates_target by blast
  with ne p show ?thesis
    by (simp add: DecideOrder_order hd_map)
qed

definition ex_parked :: Manager where
  "ex_parked = newManager \<lparr> m_sticky := fmupd (StickyKey ''s'' ''r'')
     \<lparr> st_Provider = ''a'', st_Since = 950 \<rparr> fmempty \<rparr>"

theorem DecideOrder_session_stays_witness:
  "tg_Provider ([ex_target ''b'' [] 1, ex_target ''a'' [] 2] !
     hd (sr_Order (fst (DecideOrder (ex_input ''quota'' [ex_target ''b'' [] 1, ex_target ''a'' [] 2]) ex_parked)))) = ''a''"
  using DecideOrder_session_stays [of "ex_input ''quota'' [ex_target ''b'' [] 1, ex_target ''a'' [] 2]"
      ex_parked "\<lparr> st_Provider = ''a'', st_Since = 950 \<rparr>" 1]
  by (simp add: ex_input_def ex_target_def ex_parked_def newManager_def TargetDisabled_def
      TargetHealthy_def provider_available_def modelLocked_def quotaExhausted_def
      QuotaExhaustedUntil_def PinForces_def time_sub_def max_duration_def min_duration_def)

subsection \<open>Opting out\<close>

text \<open>
  A request that opts out of affinity never parks: no provider is returned for the binding, and
  the bindings of the Manager change at most by the eviction of idle ones.
\<close>

theorem DecideOrder_opt_out:
  assumes "si_IgnoreSticky input"
  shows "sr_StickyProvider (fst (DecideOrder input m)) = [] \<and>
    fmlookup (m_sticky (snd (DecideOrder input m))) key \<in> {None, fmlookup (m_sticky m) key}"
proof -
  have "sr_StickyProvider (fst (decideOrder input state commit)) = []" for state commit
  proof (cases "si_Strategy input = RouteStrategyLoadBalance")
    case True
    with assms show ?thesis
      by (auto simp: decideOrder_lb decideOrderLoadBalance_def Let_def split: option.splits)
  next
    case False
    obtain h sp src state' where
      ph: "pick_head input (swept input state commit) (sort_key rank_key (avail_of input state)) commit
        = (h, sp, src, state')"
      by (metis prod_cases4)
    show ?thesis
      using assms decideOrder_ranked [OF False ph] by simp
  qed
  then show ?thesis
    by (auto simp: DecideOrder_eq decideOrder_sticky swept_def evict_sticky_def split: option.splits)
qed

theorem DecideOrder_opt_out_witness:
  "sr_StickyProvider (fst (DecideOrder
     ((ex_input ''quota'' [ex_target ''b'' [] 1]) \<lparr> si_IgnoreSticky := True \<rparr>) ex_parked)) = []"
  using DecideOrder_opt_out [of "(ex_input ''quota'' [ex_target ''b'' [] 1]) \<lparr> si_IgnoreSticky := True \<rparr>" ex_parked]
  by (simp add: ex_input_def)

subsection \<open>Even spreading\<close>

text \<open>
  The load-balanced route: the counter of the route selects the head, and a committed request that
  finds no binding advances it.
\<close>

definition unbound :: "ScheduleInput \<Rightarrow> bool" where
  "unbound input \<longleftrightarrow> si_SessionKey input = [] \<or> si_IgnoreSticky input"

lemma lb_step:
  assumes "si_Strategy input = RouteStrategyLoadBalance" and "unbound input"
    and "commits input m" and "avail_of input (sched input m) \<noteq> []"
  shows "fmget 0 (m_rr (snd (DecideOrder input m))) (si_Exposed input) =
      fmget 0 (m_rr m) (si_Exposed input) + 1"
    and "sr_Order (fst (DecideOrder input m)) =
      map sc_index (rotate (unat (fmget 0 (m_rr m) (si_Exposed input)))
        (avail_of input (sched input m)))"
proof -
  show "fmget 0 (m_rr (snd (DecideOrder input m))) (si_Exposed input) =
      fmget 0 (m_rr m) (si_Exposed input) + 1"
    using assms by (auto simp: DecideOrder_eq decideOrder_lb decideOrderLoadBalance_def unbound_def Let_def)
  have "lb_head input (swept input (sched input m) True) (avail_of input (sched input m)) =
      unat (fmget 0 (m_rr m) (si_Exposed input)) mod length (avail_of input (sched input m))"
    using assms(2) by (auto simp: lb_head_def unbound_def Let_def)
  then show "sr_Order (fst (DecideOrder input m)) =
      map sc_index (rotate (unat (fmget 0 (m_rr m) (si_Exposed input)))
        (avail_of input (sched input m)))"
    using assms by (simp add: DecideOrder_order chain_of_def Let_def rotate_conv_mod [symmetric])
qed

text \<open>The indices of the eligible targets in input order, and the head chosen by a request.\<close>

definition eligible_indices :: "ScheduleInput \<Rightarrow> Manager \<Rightarrow> nat list" where
  "eligible_indices input m =
     filter (\<lambda>i. eligible input (sched input m) (si_Targets input ! i)) [0..<length (si_Targets input)]"

definition decide_head :: "ScheduleInput \<Rightarrow> Manager \<Rightarrow> nat \<times> Manager" where
  "decide_head input m = (let (r, m') = DecideOrder input m in (hd (sr_Order r), m'))"

lemma map_index_avail: "map sc_index (avail_of input (sched input m)) = eligible_indices input m"
  by (simp add: available_candidates_eq all_candidates_map filter_map comp_def eligible_indices_def)

text \<open>A decision touches stickiness and counters only, so it leaves the candidates of later requests alone.\<close>

lemma DecideOrder_frame:
  "\<exists>st sp rr. snd (DecideOrder input m) = m \<lparr> m_sticky := st, m_spread := sp, m_rr := rr \<rparr>"
  by (auto simp: DecideOrder_eq)

lemma avail_of_frame:
  "avail_of input (sched input (m \<lparr> m_sticky := st, m_spread := sp, m_rr := rr \<rparr>)) =
     avail_of input (sched input m)"
  by (simp add: available_candidates_eq eligible_def [abs_def] pin_in_effect_def ready_def TargetHealthy_def
      provider_available_def modelLocked_def TargetDisabled_def all_candidates_def candidate_of_def
      target_facts_def sched_def live_state_def)

lemma avail_of_after [simp]:
  "avail_of i (sched i (snd (DecideOrder j m))) = avail_of i (sched i m)"
  using DecideOrder_frame [of j m] by (auto simp: avail_of_frame)

lemma commits_after [simp]: "commits i (snd (DecideOrder j m)) = commits i m"
  using DecideOrder_frame [of j m] by (auto simp: commits_def generationMatches_def)

definition lb_request :: "string \<Rightarrow> nat list \<Rightarrow> Manager \<Rightarrow> ScheduleInput \<Rightarrow> bool" where
  "lb_request route idx m i \<longleftrightarrow>
     si_Strategy i = RouteStrategyLoadBalance \<and> si_Exposed i = route \<and> unbound i \<and>
     commits i m \<and> eligible_indices i m = idx \<and> idx \<noteq> []"

interpretation lb: rotation decide_head "\<lambda>m. fmget 0 (m_rr m) route" idx "lb_request route idx"
  for route idx
proof
  fix m i assume r: "lb_request route idx m i"
  then have ne: "avail_of i (sched i m) \<noteq> []"
    using map_index_avail [of i m] by (auto simp: lb_request_def)
  have "map sc_index (rotate n (avail_of i (sched i m))) = rotate n idx" for n
    using r map_index_avail [of i m] by (simp add: lb_request_def rotate_map [symmetric])
  then show "idx \<noteq> [] \<and> fst (decide_head i m) = idx ! (unat (fmget 0 (m_rr m) route) mod length idx)"
    using r lb_step(2) [of i m, OF _ _ _ ne]
    by (simp add: lb_request_def decide_head_def split_beta hd_rotate_conv_nth)
  show "fmget 0 (m_rr (snd (decide_head i m))) route = fmget 0 (m_rr m) route + 1"
    using r lb_step(1) [of i m, OF _ _ _ ne] by (auto simp: lb_request_def decide_head_def split_beta)
next
  fix m i j assume "lb_request route idx m i"
  then show "lb_request route idx (snd (decide_head j m)) i"
    by (simp add: lb_request_def decide_head_def split_beta flip: map_index_avail)
qed

text \<open>
  C21. Load balancing is even: over as many consecutive committed requests without affinity as the
  route has eligible targets, with the eligible set unchanged, every eligible target is tried first
  exactly once. (The 64-bit counter must not wrap during the round.)
\<close>

theorem load_balance_fair:
  assumes "list_all (lb_request route idx m) is" and "length is = length idx"
    and "unat (fmget 0 (m_rr m) route) + length is \<le> 2 ^ 64"
  shows "mset (run_outs decide_head is m) = mset idx"
  using assms by (rule lb.even_round)

definition ex_anonymous :: ScheduleInput where
  "ex_anonymous = (ex_input ''load_balance'' [ex_target ''a'' [] 2, ex_target ''b'' [] 1]) \<lparr> si_SessionKey := [] \<rparr>"

theorem load_balance_fair_witness:
  "mset (run_outs decide_head [ex_anonymous, ex_anonymous] newManager) = {#0, 1#}"
proof -
  have "eligible_indices ex_anonymous newManager = [0, 1]"
    by (simp add: eligible_indices_def eligible_def pin_in_effect_def ex_anonymous_def ex_input_def
        ex_target_def newManager_def TargetDisabled_def ready_def TargetHealthy_def
        provider_available_def modelLocked_def quotaExhausted_def QuotaExhaustedUntil_def)
  then have "list_all (lb_request ''r'' [0, 1] newManager) [ex_anonymous, ex_anonymous]"
    by (simp add: lb_request_def ex_anonymous_def ex_input_def RouteStrategyLoadBalance_def
        unbound_def commits_def generationMatches_def)
  from load_balance_fair [OF this] show ?thesis
    by (simp add: newManager_def)
qed

text \<open>
  The pool: a request that opens a conversation lands, in the default strategy, on an account of the
  winning pool band; \<open>pool_slots\<close> is that band, in account order.
\<close>

definition ranked_of :: "ScheduleInput \<Rightarrow> Manager \<Rightarrow> scheduleCandidate list" where
  "ranked_of input m = sort_key rank_key (avail_of input (sched input m))"

definition pool_slots :: "ScheduleInput \<Rightarrow> Manager \<Rightarrow> string \<Rightarrow> nat list" where
  "pool_slots input m parent =
     (case ranked_of input m of
        [] \<Rightarrow> []
      | best # _ \<Rightarrow>
          if tg_Parent (sc_target best) = parent
          then map sc_index (poolBandByID (ranked_of input m) parent (sc_tier best) (tg_Priority (sc_target best)))
          else [])"

definition opens_session :: "ScheduleInput \<Rightarrow> Manager \<Rightarrow> bool" where
  "opens_session i m \<longleftrightarrow>
     si_IgnoreSticky i \<or> fmlookup (m_sticky m) (StickyKey (si_SessionKey i) (si_Exposed i)) = None"

definition pool_request :: "string \<Rightarrow> nat list \<Rightarrow> Manager \<Rightarrow> ScheduleInput \<Rightarrow> bool" where
  "pool_request parent idx m i \<longleftrightarrow>
     si_Strategy i \<noteq> RouteStrategyLoadBalance \<and> opens_session i m \<and> commits i m \<and>
     parent \<noteq> [] \<and> pool_slots i m parent = idx \<and> idx \<noteq> []"

lemma pool_step:
  assumes "pool_request parent idx m i"
  shows "fst (decide_head i m) = idx ! (unat (fmget 0 (m_spread m) parent) mod length idx)"
    and "fmget 0 (m_spread (snd (decide_head i m))) parent = fmget 0 (m_spread m) parent + 1"
proof -
  let ?st = "swept i (sched i m) (commits i m)" and ?c = "fmget 0 (m_spread m) parent"
  obtain best rest where r: "ranked_of i m = best # rest" "tg_Parent (sc_target best) = parent"
    using assms by (auto simp: pool_request_def pool_slots_def split: list.splits if_splits)
  let ?band = "poolBandByID (ranked_of i m) parent (sc_tier best) (tg_Priority (sc_target best))"
  have idx: "idx = map sc_index ?band"
    using assms r by (simp add: pool_request_def pool_slots_def)
  have cm: "commits i m"
    using assms by (simp add: pool_request_def)
  have cur: "fmget noSticky (ss_sticky (swept i (sched i m) True)) (StickyKey (si_SessionKey i) (si_Exposed i))
      = noSticky" if "\<not> si_IgnoreSticky i"
    using assms that by (auto simp: pool_request_def opens_session_def fmget_def swept_def evict_sticky_def
        split: option.splits)
  have "keep_sticky i noSticky (ranked_of i m) = None"
    by (simp add: keep_sticky_def noSticky_def)
  then have ph: "pick_head i ?st (ranked_of i m) (commits i m) =
      (Some (?band ! (unat ?c mod length ?band)),
       tg_Provider (sc_target (?band ! (unat ?c mod length ?band))), ScheduleSourceQuota,
       ?st \<lparr> ss_spread := fmupd parent (?c + 1) (m_spread m) \<rparr>)"
    using assms r cm cur
    by (cases "si_IgnoreSticky i") (simp_all add: pick_head_def pool_request_def Let_def del: fmget_None)
  note dec = decideOrder_ranked [of i "sched i m" "commits i m", folded ranked_of_def, OF _ ph]
  show "fst (decide_head i m) = idx ! (unat ?c mod length idx)"
    using assms ph by (simp add: decide_head_def split_beta DecideOrder_order chain_of_def Let_def
        pool_request_def idx ranked_of_def [symmetric])
  show "fmget 0 (m_spread (snd (decide_head i m))) parent = ?c + 1"
    using assms dec by (simp add: decide_head_def split_beta DecideOrder_eq pool_request_def)
qed

lemma pool_slots_after [simp]: "pool_slots i (snd (DecideOrder j m)) parent = pool_slots i m parent"
proof -
  have "ranked_of i (snd (DecideOrder j m)) = ranked_of i m"
    by (simp add: ranked_of_def)
  then show ?thesis by (simp only: pool_slots_def)
qed

interpretation pool: rotation decide_head "\<lambda>m. fmget 0 (m_spread m) parent" idx "pool_request parent idx"
  for parent idx
proof
  fix m i assume r: "pool_request parent idx m i"
  then show "idx \<noteq> [] \<and> fst (decide_head i m) = idx ! (unat (fmget 0 (m_spread m) parent) mod length idx)"
    by (simp add: pool_step pool_request_def)
  from r show "fmget 0 (m_spread (snd (decide_head i m))) parent = fmget 0 (m_spread m) parent + 1"
    by (rule pool_step)
next
  fix m i j assume "pool_request parent idx m i"
  moreover have "fmlookup (m_sticky (snd (DecideOrder j m))) k = None" if "fmlookup (m_sticky m) k = None" for k
    using that by (simp add: DecideOrder_eq decideOrder_sticky swept_def evict_sticky_def)
  ultimately show "pool_request parent idx (snd (decide_head j m)) i"
    by (auto simp: pool_request_def decide_head_def split_beta opens_session_def)
qed

text \<open>
  A pool is filled evenly: over as many consecutive committed requests that open conversations
  as the winning band of the pool has accounts, with the band unchanged, every account of the band
  is tried first exactly once.
\<close>

theorem pool_spread_fair:
  assumes "list_all (pool_request parent idx m) is" and "length is = length idx"
    and "unat (fmget 0 (m_spread m) parent) + length is \<le> 2 ^ 64"
  shows "mset (run_outs decide_head is m) = mset idx"
  using assms by (rule pool.even_round)

definition ex_pooled :: "string \<Rightarrow> ScheduleInput" where
  "ex_pooled session =
     (ex_input ''quota'' [ex_target ''p#1'' ''p'' 1, ex_target ''x'' [] 2, ex_target ''p#2'' ''p'' 1])
     \<lparr> si_SessionKey := session \<rparr>"

theorem pool_spread_fair_witness:
  "mset (run_outs decide_head [ex_pooled ''s1'', ex_pooled ''s2''] newManager) = {#0, 2#}"
proof -
  have "pool_slots (ex_pooled s) newManager ''p'' = [0, 2]" if "s = ''s1'' \<or> s = ''s2''" for s
    using that
    by (auto simp: pool_slots_def ranked_of_def poolBandByID_def available_candidates_eq all_candidates_def
        candidate_of_def target_facts_def targetScheduleFacts_def effectiveBilling_def rank_key_def
        eligible_def pin_in_effect_def ex_pooled_def ex_input_def ex_target_def newManager_def TargetDisabled_def
        ready_def TargetHealthy_def provider_available_def modelLocked_def quotaExhausted_def
        QuotaExhaustedUntil_def sched_def live_state_def projectQuality_def Let_def)
  then have "list_all (pool_request ''p'' [0, 2] newManager) [ex_pooled ''s1'', ex_pooled ''s2'']"
    by (simp add: pool_request_def ex_pooled_def ex_input_def RouteStrategyLoadBalance_def
        opens_session_def commits_def generationMatches_def newManager_def)
  from pool_spread_fair [OF this] show ?thesis
    by (simp add: newManager_def)
qed

end
