(* ===== verification/Schedule_Preview.thy ===== *)
theory Schedule_Preview
  imports Schedule_Props
begin

text \<open>
  The dashboard's preview refines the live decision: computed from a detached snapshot, through other
  data (per-provider status, per-provider lock lists, a nested disabled set, the active pins only), it
  returns what the live Manager would decide at the moment of the snapshot without committing.
\<close>

subsection \<open>The snapshot answers as the Manager does\<close>

lemma set_dashboard_locks:
  "set (fmget [] (foldl (dashboard_lock m now) out ks) p) =
     set (fmget [] out p) \<union>
     {\<lparr> ms_Provider = mk_Provider k, ms_Model = mk_Model k,
        ms_Failures = ml_failures (fmget \<lparr> ml_failures = 0, ml_lockedUntil = 0 \<rparr> (m_modelLocks m) k),
        ms_LockedUntil = ml_lockedUntil (fmget \<lparr> ml_failures = 0, ml_lockedUntil = 0 \<rparr> (m_modelLocks m) k) \<rparr> |k.
        k \<in> set ks \<and> mk_Provider k = p \<and>
        now < ml_lockedUntil (fmget \<lparr> ml_failures = 0, ml_lockedUntil = 0 \<rparr> (m_modelLocks m) k)}"
proof (induction ks arbitrary: out)
  case (Cons k ks)
  show ?case
    unfolding foldl_Cons Cons.IH by (auto simp: dashboard_lock_def Let_def)
qed simp

lemma dashboard_locked:
  "list_ex (\<lambda>l. ms_Model l = mo \<and> now < ms_LockedUntil l) (fmget [] (ds_ModelLocks (Dashboard now m)) p)
     \<longleftrightarrow> modelLocked m p mo now"
proof -
  let ?locks = "foldl (dashboard_lock m now) fmempty (fmkeys (m_modelLocks m))"
  have "set (fmget [] (ds_ModelLocks (Dashboard now m)) p) = set (fmget [] ?locks p)"
    by (simp add: Dashboard_def fmget_def split: option.splits)
  then have "list_ex (\<lambda>l. ms_Model l = mo \<and> now < ms_LockedUntil l)
        (fmget [] (ds_ModelLocks (Dashboard now m)) p) \<longleftrightarrow>
      (\<exists>k \<in> set (fmkeys (m_modelLocks m)). mk_Provider k = p \<and> mk_Model k = mo \<and>
        now < ml_lockedUntil (fmget \<lparr> ml_failures = 0, ml_lockedUntil = 0 \<rparr> (m_modelLocks m) k))"
    by (auto simp: list_ex_iff set_dashboard_locks)
  also have "\<dots> \<longleftrightarrow> modelLocked m p mo now"
    by (force simp: modelLocked_def fmlookup_dom'_iff split: option.splits)
  finally show ?thesis .
qed

lemma preview_available_eq:
  "preview_available (Dashboard now m) maxAge t now = ready m now maxAge t"
proof -
  have "(case fmlookup (ds_Providers (Dashboard now m)) (tg_Provider t) of
      None \<Rightarrow> False | Some status \<Rightarrow> \<not> ps_Available status) = (\<not> provider_available m (tg_Provider t) now)"
    by (simp add: Dashboard_def providerStatus_at_def provider_available_def split: option.splits)
  moreover have "ds_Quotas (Dashboard now m) = m_quotas m"
    by (simp add: Dashboard_def)
  ultimately show ?thesis
    by (simp add: preview_available_def dashboard_locked ready_def TargetHealthy_def)
qed

lemma cloneDisabledModels_mem:
  "mo |\<in>| fmget {||} (cloneDisabledModels d) p \<longleftrightarrow> ModelKey p mo |\<in>| d"
proof -
  have "mo |\<in>| fmget {||} (foldl
      (\<lambda>out k. fmupd (mk_Provider k) (finsert (mk_Model k) (fmget {||} out (mk_Provider k))) out) out ks) p
    \<longleftrightarrow> mo |\<in>| fmget {||} out p \<or> ModelKey p mo \<in> set ks" for out ks
  proof (induction ks arbitrary: out)
    case (Cons k ks)
    show ?case
      unfolding foldl_Cons Cons.IH by (cases k) auto
  qed simp
  note mem = this
  show ?thesis
    unfolding cloneDisabledModels_def mem by simp
qed

lemma targetDisabled_clone: "targetDisabled (cloneDisabledModels (m_disabledModels m)) t = TargetDisabled m t"
  by (simp add: targetDisabled_def TargetDisabled_def cloneDisabledModels_mem)

subsection \<open>What a decision depends on\<close>

lemma decideOrder_cong:
  assumes same: "ss_quotas s = ss_quotas s'" "ss_quality s = ss_quality s'" "ss_sticky s = ss_sticky s'"
      "ss_spread s = ss_spread s'" "ss_rr s = ss_rr s'"
    and av: "available_candidates input s = available_candidates input s'"
  shows "fst (decideOrder input s False) = fst (decideOrder input s' False)"
proof (cases "si_Strategy input = RouteStrategyLoadBalance")
  case True
  have "target_facts input s = target_facts input s'"
    using same by (simp add: fun_eq_iff target_facts_def)
  moreover have "pin_in_effect input s = pin_in_effect input s'"
    using av by (simp add: available_candidates_eq)
  moreover have "fst (decideOrderLoadBalance input s avail facts False pinned) =
      fst (decideOrderLoadBalance input s' avail facts False pinned)" for avail facts pinned
    using same by (auto simp: decideOrderLoadBalance_def Let_def split: option.splits)
  ultimately show ?thesis
    using True av by (simp add: decideOrder_lb swept_def)
next
  case False
  let ?ranked = "sort_key rank_key (avail_of input s)"
  obtain h sp src st where
    ph: "pick_head input s ?ranked False = (h, sp, src, st)"
    by (metis prod_cases4)
  then have ph': "pick_head input s' ?ranked False = (h, sp, src, s')"
    using same by (auto simp: pick_head_def Let_def split: option.splits list.splits if_splits)
  have "target_facts input s = target_facts input s'"
    using same by (simp add: fun_eq_iff target_facts_def)
  moreover have "pin_in_effect input s = pin_in_effect input s'"
    using av by (simp add: available_candidates_eq)
  moreover have "chain_of input s False = chain_of input s' False"
    using False av ph ph' by (simp add: chain_of_def swept_def Let_def)
  ultimately show ?thesis
    using decideOrder_ranked [OF False, of s False] decideOrder_ranked [OF False, of s' False] ph ph' av
    by (simp add: swept_def)
qed

text \<open>
  C22. The preview is the live decision: on the dashboard snapshot of a Manager, the preview of a
  request (with the operator's pins shown) is the result the live Manager returns for the same
  request, uncommitted, at the moment the snapshot was taken, with its order, facts, parked provider
  and source.
\<close>

theorem preview_refines_decision:
  assumes "now \<noteq> 0" and "\<not> si_IgnorePins input"
  shows "PreviewOrder (Dashboard now m) input =
    fst (DecideOrder (input \<lparr> si_Commit := False, si_Generation := m_generation m, si_Now := now \<rparr>) m)"
proof -
  let ?s = "Dashboard now m"
  let ?input = "input \<lparr> si_Commit := False, si_Generation := m_generation m, si_Now := now \<rparr>"
  let ?state = "\<lparr> ss_quotas = ds_Quotas ?s, ss_quality = ds_Quality ?s, ss_sticky = ds_Sticky ?s,
      ss_pins = ds_Pins ?s, ss_spread = ds_spread ?s, ss_rr = ds_rr ?s,
      ss_targetAvailable = preview_available ?s (si_QuotaMaxAge input),
      ss_disabled = targetDisabled (ds_disabled ?s) \<rparr>"
  have sel: "ds_Generation ?s = m_generation m" "ds_capturedAt ?s = now" "ds_Quotas ?s = m_quotas m"
    "ds_Sticky ?s = m_sticky m" "ds_spread ?s = m_spread m" "ds_rr ?s = m_rr m"
    "ds_Quality ?s = projectQuality (m_quality m) now"
    "ds_disabled ?s = cloneDisabledModels (m_disabledModels m)"
    "ds_Pins ?s = fmkeep (\<lambda>_ pin. Pin_Active pin now) (m_pins m)"
    by (simp_all add: Dashboard_def reconcile_any_source)
  have dis: "ss_disabled ?state = ss_disabled (sched ?input m)"
    by (simp add: sel targetDisabled_clone fun_eq_iff)
  have pin: "pin_in_effect ?input ?state = pin_in_effect ?input (sched ?input m)"
    by (auto simp: pin_in_effect_def sel dis targetDisabled_clone split: option.splits)
  have "eligible ?input ?state t = eligible ?input (sched ?input m) t" for t
    using pin
    by (auto simp: eligible_def sel targetDisabled_clone preview_available_eq pin_in_effect_def
        split: option.splits if_splits)
  moreover have "all_candidates ?input ?state = all_candidates ?input (sched ?input m)"
    by (simp add: all_candidates_def candidate_of_def target_facts_def sel sched_def live_state_def)
  ultimately have "available_candidates ?input ?state = available_candidates ?input (sched ?input m)"
    using pin by (simp add: available_candidates_eq)
  then have "fst (decideOrder ?input ?state False) = fst (decideOrder ?input (sched ?input m) False)"
    by (intro decideOrder_cong) (simp_all add: sel sched_def live_state_def)
  then show ?thesis
    using assms by (simp add: PreviewOrder_def DecideOrder_eq commits_def sel Let_def)
qed

theorem preview_refines_decision_witness:
  "PreviewOrder (Dashboard 1000 newManager) (ex_input ''quota'' [ex_target ''a'' [] 2]) =
    fst (DecideOrder ((ex_input ''quota'' [ex_target ''a'' [] 2])
      \<lparr> si_Commit := False, si_Generation := m_generation newManager, si_Now := 1000 \<rparr>) newManager)"
  by (rule preview_refines_decision) (simp_all add: ex_input_def)

end
