(* ===== verification/Proxy_Props.thy ===== *)
theory Proxy_Props
  imports Proxy_Schedule Schedule_Sessions Schedule_Preview
begin

text \<open>
  Properties of the scheduling adapter: it returns targets it was given, it parks a session on the
  provider it sends the request to, pins it accepts are in effect, and the explanation of a left-out
  target is exact.
\<close>

subsection \<open>The adapter\<close>

lemma length_fullRuntimeTargets [simp]: "length (fullRuntimeTargets cfg par ts mi) = length ts"
  by (simp add: fullRuntimeTargets_def)

lemma fullRuntimeTargets_provider:
  "i < length ts \<Longrightarrow> tg_Provider (fullRuntimeTargets cfg par ts mi ! i) = rtg_Provider (ts ! i)"
  by (simp add: fullRuntimeTargets_def Let_def)

definition adapter_input ::
  "Config \<Rightarrow> (string, string) fmap \<Rightarrow> string \<Rightarrow> string \<Rightarrow> RouteTarget list \<Rightarrow> Clock \<Rightarrow> duration \<Rightarrow> bool \<Rightarrow> bool \<Rightarrow>
    string fset \<Rightarrow> uint64 list \<Rightarrow> ScheduleInput" where
  "adapter_input cfg par exposed sk ts clk maxAge commit off rks gens =
     (scheduleInput cfg exposed (fullRuntimeTargets cfg par ts (ck_minute clk)) rks (ck_now clk))
       \<lparr> si_SessionKey := sk, si_IgnoreSticky := off, si_QuotaMaxAge := maxAge, si_Commit := commit,
         si_Generation := GenerationArg gens \<rparr>"

lemma adapter_input_sel [simp]:
  "si_Targets (adapter_input cfg par exposed sk ts clk maxAge commit off rks gens) =
     fullRuntimeTargets cfg par ts (ck_minute clk)"
  "si_SessionKey (adapter_input cfg par exposed sk ts clk maxAge commit off rks gens) = sk"
  "si_Exposed (adapter_input cfg par exposed sk ts clk maxAge commit off rks gens) = exposed"
  "si_IgnoreSticky (adapter_input cfg par exposed sk ts clk maxAge commit off rks gens) = off"
  "si_Generation (adapter_input cfg par exposed sk ts clk maxAge commit off rks gens) = GenerationArg gens"
  by (simp_all add: adapter_input_def scheduleInput_def)

lemma proxy_decideOrder_eq:
  "proxy_decideOrder cfg par exposed sk ts clk maxAge commit off rks gens m =
     (let r = DecideOrder (adapter_input cfg par exposed sk ts clk maxAge commit off rks gens) m
      in ((map (\<lambda>i. ts ! i) (sr_Order (fst r)), sr_StickyProvider (fst r), sr_Source (fst r)), snd r))"
  by (simp add: proxy_decideOrder_def adapter_input_def Let_def split_beta)

lemma proxy_schedule_order:
  "fst (fst (proxy_schedule cfg par exposed sk off ts clk maxAge rks gens m)) =
     map (\<lambda>i. ts ! i) (sr_Order (fst (DecideOrder (adapter_input cfg par exposed sk ts clk maxAge True off rks gens) m)))"
  by (simp add: proxy_schedule_def proxy_decideOrder_eq Let_def split_beta)

lemma proxy_schedule_subset:
  "set (fst (fst (proxy_schedule cfg par exposed sk off ts clk maxAge rks gens m))) \<subseteq> set ts"
  using DecideOrder_mem(1) [where m = m and input = "adapter_input cfg par exposed sk ts clk maxAge True off rks gens"]
  by (auto simp: proxy_schedule_order)

subsection \<open>A session is parked where its request goes\<close>

lemma sticky_is_head:
  assumes "si_SessionKey input \<noteq> []" "\<not> si_IgnoreSticky input" "chain_of input state commit \<noteq> []"
    and named: "\<And>c. c \<in> set (avail_of input state) \<Longrightarrow> tg_Provider (sc_target c) \<noteq> []"
  shows "sr_StickyProvider (fst (decideOrder input state commit)) =
    tg_Provider (sc_target (hd (chain_of input state commit)))"
proof (cases "si_Strategy input = RouteStrategyLoadBalance")
  case True
  let ?avail = "avail_of input state" and ?state = "swept input state commit"
  have ne: "?avail \<noteq> []"
    using assms(3) chain_of_Nil by blast
  have hd: "hd (rotate n ?avail) = ?avail ! (n mod length ?avail)" for n
    using ne by (rule hd_rotate_conv_nth)
  show ?thesis
    using True assms(1,2) ne
    by (auto simp: decideOrder_lb decideOrderLoadBalance_def chain_of_def Let_def lb_head_def hd
        fmget_def noSticky_def split: option.splits dest: index_of_provider_Some)
next
  case False
  let ?ranked = "sort_key rank_key (avail_of input state)"
  obtain h sp src st where
    ph: "pick_head input (swept input state commit) ?ranked commit = (h, sp, src, st)"
    by (metis prod_cases4)
  have key: "StickyKey (si_SessionKey input) (si_Exposed input) \<noteq> si_Exposed input"
    using assms(1) by (auto simp: StickyKey_def stickySep_def dest: arg_cong [where f = length])
  have ne: "?ranked \<noteq> []"
    using assms(3) chain_of_Nil by fastforce
  from ph have "\<exists>c. h = Some c \<and> sp = tg_Provider (sc_target c)"
  proof (cases rule: pick_head_cases)
    case (sticky i cur)
    with ph key show ?thesis
      by (auto simp: pick_head_def Let_def dest: keep_sticky_Some split: if_splits)
  qed (use ne in auto)
  with False ph assms(2) show ?thesis
    by (auto simp: decideOrder_ranked [OF False ph] chain_of_def Let_def)
qed

text \<open>
  A session is parked on the provider its request is sent to: after a current request of a
  session has been scheduled (with affinity, on targets with a provider name), the session's binding
  on the route names the provider of the first target of the returned chain, with the time of this
  request, so the dwell starts anew with every request.
\<close>

theorem schedule_parks_session:
  assumes "sk \<noteq> []" and "generationMatches m (GenerationArg gens)"
    and "list_all (\<lambda>t. rtg_Provider t \<noteq> []) ts"
    and "proxy_schedule cfg par exposed sk False ts clk maxAge rks gens m = ((ordered, source), m')"
    and "ordered \<noteq> []"
  shows "fmlookup (m_sticky m') (StickyKey sk exposed) =
    Some \<lparr> st_Provider = rtg_Provider (hd ordered), st_Since = ck_now clk \<rparr>"
proof -
  let ?in = "adapter_input cfg par exposed sk ts clk maxAge True False rks gens"
  let ?chain = "chain_of ?in (sched ?in m) (commits ?in m)" and ?r = "DecideOrder ?in m"
  have ord: "ordered = map (\<lambda>i. ts ! i) (sr_Order (fst ?r))"
    using assms(4) proxy_schedule_order [of cfg par exposed sk False ts clk maxAge rks gens m] by simp
  with assms(5) have ne: "?chain \<noteq> []"
    by (auto simp: DecideOrder_order)
  have cand: "sc_index c < length ts" "tg_Provider (sc_target c) = rtg_Provider (ts ! sc_index c)"
    if "c \<in> set (avail_of ?in (sched ?in m))" for c
    using that all_candidates_target [of c ?in "sched ?in m"]
    by (auto simp: avail_of_mem fullRuntimeTargets_provider)
  have named: "tg_Provider (sc_target c) \<noteq> []" if "c \<in> set (avail_of ?in (sched ?in m))" for c
    using cand [OF that] assms(3) by (simp add: list_all_length)
  have hd: "hd ?chain \<in> set (avail_of ?in (sched ?in m))"
    using ne chain_of_mem_avail [of ?in "sched ?in m"] by (meson hd_in_set subsetD)
  have "sr_StickyProvider (fst ?r) = tg_Provider (sc_target (hd ?chain))"
    using sticky_is_head [of ?in "sched ?in m" "commits ?in m"] assms(1) ne named by (simp add: DecideOrder_eq)
  also have "\<dots> = rtg_Provider (hd ordered)"
    using ne cand [OF hd] by (simp add: ord DecideOrder_order hd_map)
  finally have sp: "sr_StickyProvider (fst ?r) = rtg_Provider (hd ordered)" .
  moreover have "rtg_Provider (hd ordered) \<noteq> []"
    using sp named [OF hd] ne cand [OF hd] by (simp add: ord DecideOrder_order hd_map)
  moreover have "generationMatches (snd ?r) (GenerationArg gens)"
    using assms(2) DecideOrder_frame [of ?in m] by (auto simp: generationMatches_def)
  ultimately show ?thesis
    using assms(4) by (auto simp: proxy_schedule_def proxy_decideOrder_eq SetSticky_def Let_def)
qed

text \<open>A two-provider configuration for the witnesses.\<close>

definition ex_scheduling :: Scheduling where
  "ex_scheduling =
     \<lparr> sg_CircuitThreshold = 0, sg_CircuitCooldown = None, sg_CircuitPersist = None, sg_RateLimitBackoff = None,
       sg_QuotaCooldown = None, sg_ModelLockout = None, sg_RetryWait = None, sg_StickyDwell = None,
       sg_QuotaPollInterval = None, sg_QuotaSwitchMargin = 0, sg_QualityErrorWeight = None,
       sg_QualityTTFTWeight = None \<rparr>"

definition ex_config :: Config where
  "ex_config =
     \<lparr> cf_Providers = fmap_of_list [(''a'', noProvider), (''b'', noProvider)],
       cf_Routes = fmempty, cf_RouteStrategies = fmempty, cf_Scheduling = ex_scheduling \<rparr>"

definition ex_rt :: "string \<Rightarrow> string \<Rightarrow> int \<Rightarrow> RouteTarget" where
  "ex_rt p model prio =
     \<lparr> rtg_Provider = p, rtg_Model = model, rtg_Priority = prio, rtg_Protocol = [], rtg_Rubric = [] \<rparr>"

definition ex_clock :: Clock where
  "ex_clock = \<lparr> ck_now = 1000, ck_minute = 600 \<rparr>"

theorem schedule_parks_session_witness:
  "fmlookup (m_sticky (snd (proxy_schedule ex_config fmempty ''r'' ''s'' False
      [ex_rt ''a'' ''m'' 2, ex_rt ''b'' ''m'' 1] ex_clock 500 {|''r''|} [] newManager)))
    (StickyKey ''s'' ''r'') = Some \<lparr> st_Provider = ''b'', st_Since = 1000 \<rparr>"
proof -
  let ?ts = "[ex_rt ''a'' ''m'' 2, ex_rt ''b'' ''m'' 1]"
  let ?p = "proxy_schedule ex_config fmempty ''r'' ''s'' False ?ts ex_clock 500 {|''r''|} [] newManager"
  have 1: "fst (fst ?p) = [ex_rt ''b'' ''m'' 1, ex_rt ''a'' ''m'' 2]"
    by code_simp
  have 2: "generationMatches newManager (GenerationArg [])"
    by code_simp
  have 3: "?p = ((fst (fst ?p), snd (fst ?p)), snd ?p)"
    by (metis prod.collapse)
  from schedule_parks_session [OF _ 2 _ 3] 1 show ?thesis
    by (simp add: ex_rt_def ex_clock_def)
qed

text \<open>
  In quota mode the chain keeps one target per provider: a second, equally available model of the
  head's provider is left out of the order.
\<close>

lemma second_model_of_head_left_out:
  "fst (fst (proxy_schedule ex_config fmempty ''r'' ''s'' False
      [ex_rt ''a'' ''m'' 1, ex_rt ''a'' ''n'' 2, ex_rt ''b'' ''m'' 3] ex_clock 500 {|''r''|} [] newManager)) =
    [ex_rt ''a'' ''m'' 1, ex_rt ''b'' ''m'' 3]"
  by code_simp

subsection \<open>Explaining left-out targets\<close>

text \<open>
  The explanation of a left-out target is exact: from the dashboard snapshot, a target is
  classified with a specific reason (frozen, rate-limited, quota-exhausted, circuit, model-locked)
  exactly when the live availability test rejects it, provided a probe is in flight only behind an
  opened circuit, which holds in every reachable state.
\<close>

theorem blocked_reason_exact:
  assumes "0 < now"
    and "\<forall>h. fmlookup (m_health m) (tg_Provider t) = Some h \<longrightarrow> ph_halfOpenInFlight h \<longrightarrow> ph_circuitOpenUntil h \<noteq> 0"
  shows "fst (blocked_reason (Dashboard now m) now maxAge t) = BlockUnavailable \<longleftrightarrow>
    TargetHealthy m (tg_Provider t) (tg_Model t) now \<and>
    \<not> quotaExhausted (quota_of m (tg_Provider t)) now maxAge"
proof -
  let ?s = "Dashboard now m"
  have find: "find (\<lambda>l. ms_Model l = tg_Model t \<and> now < ms_LockedUntil l)
      (fmget [] (ds_ModelLocks ?s) (tg_Provider t)) = None \<longleftrightarrow> \<not> modelLocked m (tg_Provider t) (tg_Model t) now"
    using dashboard_locked [of "tg_Model t" now m "tg_Provider t"]
    by (auto simp: find_None_iff list_ex_iff)
  have sel: "fmlookup (ds_Providers ?s) n = map_option (providerStatus_at now) (fmlookup (m_health m) n)"
    "ds_Quotas ?s = m_quotas m" for n
    by (simp_all add: Dashboard_def)
  show ?thesis
    using assms find
    by (cases "fmlookup (m_health m) (tg_Provider t)")
      (auto simp: blocked_reason_def sel Let_def providerStatus_at_def TargetHealthy_def provider_available_def
        available_def quotaExhausted_def split: option.splits if_splits)
qed

theorem blocked_reason_exact_witness:
  "fst (blocked_reason (Dashboard 1000 (snd (FreezeHealth ''a'' fmempty [''a''] newManager))) 1000 500 (ex_target ''a'' [] 1)) \<noteq> BlockUnavailable"
proof -
  let ?m = "snd (FreezeHealth ''a'' fmempty [''a''] newManager)"
  have "\<not> TargetHealthy ?m ''a'' ''m'' 1000"
    by code_simp
  moreover have "ph_halfOpenInFlight (the (fmlookup (m_health ?m) ''a'')) = False" "fmlookup (m_health ?m) ''a'' \<noteq> None"
    by code_simp+
  ultimately show ?thesis
    using blocked_reason_exact [of 1000 ?m "ex_target ''a'' [] 1" 500]
    by (auto simp: ex_target_def)
qed

end
