(* ===== verification/Planner_Props.thy ===== *)
theory Planner_Props
  imports Forward_Plan Proxy_Props
begin

text \<open>
  Properties of request-aware routing. The planner's dependence on scheduling is the interface
  \<open>scheduler_port\<close>: what the scheduler returns is a part of what it was given and usable. The
  planner's guarantees are proved once against it, and the interface is interpreted on the
  application's scheduler over the live Manager.
\<close>

subsection \<open>The cross-route pool\<close>

abbreviation collectable :: "(RouteTarget \<Rightarrow> bool) \<Rightarrow> RouteTarget \<Rightarrow> bool" where
  "collectable keep t \<equiv> rtg_Provider t \<noteq> FusionProvider \<and> keep t"

lemma collect_one_lookup:
  "fmlookup (collect_one keep b x) k =
     (if collectable keep x \<and> target_key x = k \<and>
         (case fmlookup b k of None \<Rightarrow> True | Some e \<Rightarrow> rtg_Priority x < rtg_Priority e)
      then Some x else fmlookup b k)"
  by (simp add: collect_one_def split: option.splits)

lemma collect_none:
  "fmlookup (foldl (collect_one keep) fmempty ts) k = None \<Longrightarrow> u \<in> set ts \<Longrightarrow> collectable keep u \<Longrightarrow> target_key u \<noteq> k"
  by (induction ts rule: rev_induct) (auto simp: collect_one_def split: if_splits option.splits)

lemma collect_best:
  "fmlookup (foldl (collect_one keep) fmempty ts) k = Some t \<Longrightarrow>
     t \<in> set ts \<and> collectable keep t \<and> target_key t = k \<and>
     (\<forall>u \<in> set ts. collectable keep u \<longrightarrow> target_key u = k \<longrightarrow> rtg_Priority t \<le> rtg_Priority u)"
proof (induction ts arbitrary: t rule: rev_induct)
  case (snoc x ts)
  let ?best = "foldl (collect_one keep) fmempty ts"
  have prem: "fmlookup (collect_one keep ?best x) k = Some t"
    using snoc.prems by simp
  show ?case
  proof (cases "collectable keep x \<and> target_key x = k \<and>
      (case fmlookup ?best k of None \<Rightarrow> True | Some e \<Rightarrow> rtg_Priority x < rtg_Priority e)")
    case True
    with prem have t: "t = x"
      by (simp add: collect_one_lookup)
    have "rtg_Priority t \<le> rtg_Priority u" if u: "u \<in> set ts" "collectable keep u" "target_key u = k" for u
    proof -
      from collect_none [of keep ts k u] u obtain e where e: "fmlookup ?best k = Some e"
        by fastforce
      then have "rtg_Priority e \<le> rtg_Priority u"
        using snoc.IH [OF e] u by blast
      with True e t show ?thesis by simp
    qed
    with True t show ?thesis by auto
  next
    case False
    with prem have t: "fmlookup ?best k = Some t"
      by (simp add: collect_one_lookup split: if_splits)
    with False have "collectable keep x \<Longrightarrow> target_key x = k \<Longrightarrow> rtg_Priority t \<le> rtg_Priority x"
      by simp
    with snoc.IH [OF t] show ?thesis by auto
  qed
qed simp

lemma foldl_routes:
  "foldl (\<lambda>best route. foldl f best (g route)) b rs = foldl f b (concat (map g rs))"
  by (induction rs arbitrary: b) auto

definition route_targets :: "(string, RouteTarget list) fmap \<Rightarrow> RouteTarget list" where
  "route_targets expanded = concat (map (fmget [] expanded) (fmkeys expanded))"

lemma route_targets_mem:
  "t \<in> set (route_targets expanded) \<longleftrightarrow> (\<exists>route ts. fmlookup expanded route = Some ts \<and> t \<in> set ts)"
  by (fastforce simp: route_targets_def fmlookup_dom'_iff intro: rev_bexI fmdom'I)

lemma CollectCrossRoute_eq:
  "CollectCrossRoute expanded keep =
     (let best = foldl (collect_one keep) fmempty (route_targets expanded)
      in map (\<lambda>k. the (fmlookup best k)) (fmkeys best))"
  by (simp add: CollectCrossRoute_def foldl_routes route_targets_def)

lemma CollectCrossRoute_mem:
  assumes "t \<in> set (CollectCrossRoute expanded keep)"
  shows "t \<in> set (route_targets expanded)" "collectable keep t"
  using assms collect_best [where ts = "route_targets expanded" and keep = keep]
  by (fastforce simp: CollectCrossRoute_eq Let_def fmlookup_dom'_iff)+

text \<open>
  The cross-route pool is the set of collectable identities, each at its best priority: its
  entries come from some expanded route, are not fusion recipes and pass the test; no identity
  (provider, model, protocol) appears twice; and every target of any route that passes the test is
  represented by an entry of the same identity with no worse priority.
\<close>

theorem CollectCrossRoute_spec:
  "distinct (map target_key (CollectCrossRoute expanded keep)) \<and>
   (\<forall>t \<in> set (CollectCrossRoute expanded keep).
      (\<exists>route ts. fmlookup expanded route = Some ts \<and> t \<in> set ts) \<and> rtg_Provider t \<noteq> FusionProvider \<and> keep t) \<and>
   (\<forall>route ts u. fmlookup expanded route = Some ts \<and> u \<in> set ts \<and> rtg_Provider u \<noteq> FusionProvider \<and> keep u \<longrightarrow>
      (\<exists>t \<in> set (CollectCrossRoute expanded keep). target_key t = target_key u \<and> rtg_Priority t \<le> rtg_Priority u))"
proof (intro conjI ballI allI impI)
  let ?best = "foldl (collect_one keep) fmempty (route_targets expanded)"
  have keys: "map target_key (CollectCrossRoute expanded keep) = fmkeys ?best"
    using collect_best [where ts = "route_targets expanded" and keep = keep]
    by (auto simp: CollectCrossRoute_eq Let_def fmlookup_dom'_iff intro!: map_idI)
  show "distinct (map target_key (CollectCrossRoute expanded keep))"
    by (simp add: keys)
  fix route ts u
  assume u: "fmlookup expanded route = Some ts \<and> u \<in> set ts \<and> rtg_Provider u \<noteq> FusionProvider \<and> keep u"
  then have mem: "u \<in> set (route_targets expanded)"
    using route_targets_mem by blast
  obtain t where t: "fmlookup ?best (target_key u) = Some t"
    using collect_none [of keep "route_targets expanded" "target_key u" u] mem u by fastforce
  then have "t \<in> set (CollectCrossRoute expanded keep)"
    by (force simp: CollectCrossRoute_eq Let_def fmlookup_dom'_iff image_iff)
  then show "\<exists>t \<in> set (CollectCrossRoute expanded keep). target_key t = target_key u \<and> rtg_Priority t \<le> rtg_Priority u"
    using collect_best [OF t] mem u by blast
qed (use CollectCrossRoute_mem route_targets_mem in blast)+

subsection \<open>The scheduling port\<close>

lemma preferRouteProviders_mset: "mset (preferRouteProviders ts ps) = mset ts"
  using multiset_partition [of "mset ts" "\<lambda>t. rtg_Provider t |\<in>| ps"]
  by (simp add: preferRouteProviders_def Let_def mset_filter)

lemma set_preferRouteProviders [simp]: "set (preferRouteProviders ts ps) = set ts"
  by (metis preferRouteProviders_mset set_mset_mset)

lemma preferRouteProviders_Nil [simp]: "preferRouteProviders ts ps = [] \<longleftrightarrow> ts = []"
  by (metis preferRouteProviders_mset mset_zero_iff)

lemma max_context_upper:
  assumes "t \<in> set tried" "Lookup cat (rtg_Model t) = Some md"
  shows "md_Context md \<le> max_context cat tried"
  using assms unfolding max_context_def
  by (induction tried rule: rev_induct) (fastforce split: option.splits)+

text \<open>A target the planner keeps in the route's own chain.\<close>

definition served :: "'s Planner \<Rightarrow> Profile \<Rightarrow> RouteTarget \<Rightarrow> bool" where
  "served pl profile t \<longleftrightarrow> rtg_Provider t = FusionProvider \<or> planner_fits pl profile t"

lemma served_eq: "(\<lambda>t. rtg_Provider t = FusionProvider \<or> planner_fits pl profile t) = served pl profile"
  by (auto simp: served_def)

locale scheduler_port =
  fixes schedule :: "'s Scheduler" and usable :: "'s \<Rightarrow> RouteTarget \<Rightarrow> bool"
  assumes returns_given: "t \<in> set (fst (schedule r k ts s)) \<Longrightarrow> t \<in> set ts"
    and returns_usable: "t \<in> set (fst (schedule r k ts s)) \<Longrightarrow> usable s t"
begin

lemma planner_schedule_mem:
  assumes "pl_scheduler pl = Some schedule" "t \<in> set (fst (planner_schedule pl r k ts s))"
  shows "t \<in> set ts \<and> usable s t"
  using assms returns_given returns_usable by (auto simp: planner_schedule_def split: if_splits)

lemma apply_cases:
  assumes "pl_scheduler pl = Some schedule" "pl_catalog pl \<noteq> None"
  obtains (in_route) "fst (ApplyWithProfile pl exposed k ordered profile s) = filter (served pl profile) ordered"
      "ordered = [] \<or> list_ex (served pl profile) ordered"
  | (unserved) "fst (ApplyWithProfile pl exposed k ordered profile s) = ordered" "\<not> list_ex (served pl profile) ordered"
  | (rerouted) "fst (ApplyWithProfile pl exposed k ordered profile s) \<noteq> []" "\<not> list_ex (served pl profile) ordered"
      "\<And>t. t \<in> set (fst (ApplyWithProfile pl exposed k ordered profile s)) \<Longrightarrow>
         t \<in> set (CollectCrossRoute (pl_expandedRoutes pl) (planner_fits pl profile)) \<and> usable s t"
proof -
  let ?pool = "CollectCrossRoute (pl_expandedRoutes pl) (planner_fits pl profile)"
  let ?sch = "planner_schedule pl (exposed @ ''#req'') k ?pool s"
  have all: "length (filter (served pl profile) ordered) = length ordered \<Longrightarrow> filter (served pl profile) ordered = ordered"
    by (metis filter_id_conv length_filter_less less_irrefl)
  have none: "filter (served pl profile) ordered = [] \<longleftrightarrow> \<not> list_ex (served pl profile) ordered"
    by (auto simp: filter_empty_conv list_ex_iff)
  have eq: "fst (ApplyWithProfile pl exposed k ordered profile s) =
      (if filter (served pl profile) ordered = ordered \<or> filter (served pl profile) ordered \<noteq> [] then filter (served pl profile) ordered
       else if fst ?sch = [] then ordered else preferRouteProviders (fst ?sch) (routeProviderSet ordered))"
    using assms(2) all by (auto simp: ApplyWithProfile_def served_eq Let_def split_beta)
  show thesis
  proof (cases "ordered = [] \<or> list_ex (served pl profile) ordered")
    case True
    with eq none show ?thesis by (intro in_route) auto
  next
    case False
    then have eq': "fst (ApplyWithProfile pl exposed k ordered profile s) =
        (if fst ?sch = [] then ordered else preferRouteProviders (fst ?sch) (routeProviderSet ordered))"
      using eq none by auto
    show ?thesis
    proof (cases "fst ?sch = []")
      case True
      with False eq' show ?thesis by (intro unserved) auto
    next
      case sch: False
      show ?thesis
        by (rule rerouted) (use False sch eq' planner_schedule_mem [OF assms(1)] in auto)
    qed
  qed
qed

lemma overflow_mem:
  assumes "pl_scheduler pl = Some schedule"
    and "t \<in> set (fst (ContextOverflowRetryWithProfile pl exposed k tried profile s))"
  shows "t \<in> set (route_targets (pl_expandedRoutes pl)) \<and> planner_fits pl profile t \<and> usable s t \<and>
    (\<exists>md. Lookup (pl_catalog pl) (rtg_Model t) = Some md \<and> max_context (pl_catalog pl) tried < md_Context md)"
proof -
  let ?keep = "larger_fit pl (max_context (pl_catalog pl) tried) profile"
  let ?pool = "CollectCrossRoute (pl_expandedRoutes pl) ?keep"
  have "t \<in> set (fst (planner_schedule pl (exposed @ ''#ctx'') k ?pool s))"
    using assms(2) by (auto simp: ContextOverflowRetryWithProfile_def Let_def split_beta split: if_splits)
  from planner_schedule_mem [OF assms(1) this] have "t \<in> set ?pool" "usable s t"
    by auto
  with CollectCrossRoute_mem [OF this(1)] show ?thesis
    by (auto simp: larger_fit_def split: option.splits if_splits)
qed

end

text \<open>
  A scheduler that is also complete on a name without a pin: it lists ready targets only, and some target
  whenever it was given a ready one. Readiness is a matter of provider, model and protocol.
\<close>

locale exact_scheduler = scheduler_port +
  fixes unpinned :: "string \<Rightarrow> 's \<Rightarrow> bool" and ready_target :: "'s \<Rightarrow> RouteTarget \<Rightarrow> bool"
  assumes returns_ready: "unpinned r s \<Longrightarrow> t \<in> set (fst (schedule r k ts s)) \<Longrightarrow> ready_target s t"
    and returns_some: "unpinned r s \<Longrightarrow> t \<in> set ts \<Longrightarrow> ready_target s t \<Longrightarrow> fst (schedule r k ts s) \<noteq> []"
    and ready_key: "target_key t = target_key u \<Longrightarrow> ready_target s t \<longleftrightarrow> ready_target s u"
begin

definition serviceable :: "'s Planner \<Rightarrow> Profile \<Rightarrow> 's \<Rightarrow> RouteTarget \<Rightarrow> bool" where
  "serviceable pl profile s t \<longleftrightarrow>
     t \<in> set (route_targets (pl_expandedRoutes pl)) \<and> rtg_Provider t \<noteq> FusionProvider \<and> planner_fits pl profile t \<and>
     ready_target s t"

lemma apply_exact:
  assumes "pl_scheduler pl = Some schedule" "pl_catalog pl \<noteq> None" "unpinned (exposed @ ''#req'') s"
    and "\<not> list_ex (served pl profile) ordered" "ordered \<noteq> []"
  shows "if \<exists>t. serviceable pl profile s t
    then fst (ApplyWithProfile pl exposed k ordered profile s) \<noteq> [] \<and>
      list_all (serviceable pl profile s) (fst (ApplyWithProfile pl exposed k ordered profile s))
    else fst (ApplyWithProfile pl exposed k ordered profile s) = ordered"
proof -
  let ?pool = "CollectCrossRoute (pl_expandedRoutes pl) (planner_fits pl profile)"
  let ?sch = "planner_schedule pl (exposed @ ''#req'') k ?pool s"
  have none: "filter (served pl profile) ordered = []" using assms(4) by (auto simp: filter_empty_conv list_ex_iff)
  have eq: "fst (ApplyWithProfile pl exposed k ordered profile s) =
      (if fst ?sch = [] then ordered else preferRouteProviders (fst ?sch) (routeProviderSet ordered))"
    using assms(2,5) none by (auto simp: ApplyWithProfile_def served_eq Let_def split_beta)
  have sch: "fst ?sch = (if ?pool = [] then [] else fst (schedule (exposed @ ''#req'') k ?pool s))"
    using assms(1) by (simp add: planner_schedule_def)
  have listed: "serviceable pl profile s t" if t: "t \<in> set (fst ?sch)" for t
  proof -
    have "t \<in> set ?pool" "ready_target s t"
      using t returns_given [of t "exposed @ ''#req''" k ?pool s] returns_ready [OF assms(3), of t k ?pool]
      unfolding sch by (auto split: if_splits)
    then show ?thesis using CollectCrossRoute_mem [of t] by (auto simp: serviceable_def)
  qed
  have some: "fst ?sch \<noteq> []" if t: "serviceable pl profile s t" for t
  proof -
    obtain u where u: "u \<in> set ?pool" "target_key u = target_key t"
      using CollectCrossRoute_spec [of "pl_expandedRoutes pl" "planner_fits pl profile"] t
      unfolding serviceable_def route_targets_mem by blast
    then have "ready_target s u" using t ready_key [OF u(2)] by (simp add: serviceable_def)
    then show ?thesis using returns_some [OF assms(3) u(1)] u(1) unfolding sch by auto
  qed
  show ?thesis
  proof (cases "\<exists>t. serviceable pl profile s t")
    case True
    then have "fst ?sch \<noteq> []" using some by blast
    then show ?thesis using True listed eq by (simp add: list_all_iff)
  next
    case False
    then have "fst ?sch = []" using listed by (cases "fst ?sch") auto
    then show ?thesis using False eq by simp
  qed
qed

end

definition ex_catalog :: Catalog where
  "ex_catalog =
     \<lparr> ct_byName = fmap_of_list
         [(''small'', \<lparr> md_Context = 100, md_Input = [''text''], md_ToolCall = True \<rparr>),
          (''big'', \<lparr> md_Context = 1000, md_Input = [''text'', ''image''], md_ToolCall = True \<rparr>)] \<rparr>"

definition ex_snapshot :: Snapshot where
  "ex_snapshot =
     \<lparr> fs_Cfg = ex_config, fs_ParentOf = fmempty, fs_Catalog = Some ex_catalog,
       fs_ExpandedRoutes = fmap_of_list [(''r'', [ex_rt ''a'' ''small'' 1]), (''q'', [ex_rt ''b'' ''big'' 2, ex_rt ''a'' ''small'' 1])],
       fs_Generation = 0 \<rparr>"

definition ex_profile :: Profile where
  "ex_profile = \<lparr> pf_HasImage = True, pf_HasTools = True, pf_EstimatedTokens = 500, pf_FollowUp = False \<rparr>"

theorem CollectCrossRoute_spec_witness:
  "\<exists>t \<in> set (CollectCrossRoute (fs_ExpandedRoutes ex_snapshot) (\<lambda>_. True)).
     target_key t = target_key (ex_rt ''b'' ''big'' 2) \<and> rtg_Priority t \<le> 2"
proof -
  have "fmlookup (fs_ExpandedRoutes ex_snapshot) ''q'' = Some [ex_rt ''b'' ''big'' 2, ex_rt ''a'' ''small'' 1]"
    by code_simp
  then show ?thesis
    using CollectCrossRoute_spec [of "fs_ExpandedRoutes ex_snapshot" "\<lambda>_. True"]
    by (force simp: ex_rt_def FusionProvider_def)
qed

subsection \<open>The port of the application\<close>

text \<open>An operator disabled the target's model, on the target's provider or on its parent.\<close>

definition operator_disabled :: "(string, string) fmap \<Rightarrow> Manager \<Rightarrow> RouteTarget \<Rightarrow> bool" where
  "operator_disabled parentOf m t \<longleftrightarrow>
     ModelDisabled m (rtg_Provider t) (rtg_Model t) \<or>
     (fmget [] parentOf (rtg_Provider t) \<noteq> [] \<and> ModelDisabled m (fmget [] parentOf (rtg_Provider t)) (rtg_Model t))"

lemma fullRuntimeTargets_disabled:
  "i < length ts \<Longrightarrow> TargetDisabled m (fullRuntimeTargets cfg par ts mi ! i) = operator_disabled par m (ts ! i)"
  by (simp add: fullRuntimeTargets_def Let_def TargetDisabled_def operator_disabled_def ModelDisabled_def)

lemma proxy_schedule_enabled:
  assumes "t \<in> set (fst (fst (proxy_schedule cfg par exposed sk off ts clk maxAge rks gens m)))"
  shows "\<not> operator_disabled par m t"
proof -
  let ?in = "adapter_input cfg par exposed sk ts clk maxAge True off rks gens"
  from assms obtain i where i: "i \<in> set (sr_Order (fst (DecideOrder ?in m)))" "t = ts ! i"
    by (auto simp: proxy_schedule_order)
  have "i < length ts"
    using DecideOrder_mem(1) [OF i(1)] by simp
  with DecideOrder_mem(2) [OF i(1)] i(2) show ?thesis
    by (simp add: eligible_sched ready_def fullRuntimeTargets_disabled)
qed

lemma requestRoutingScheduler_fst:
  "fst (requestRoutingScheduler cfg par rks gen off clk maxAge r k ts m) =
     fst (fst (proxy_schedule cfg par r k off ts clk maxAge rks [gen] m))"
  by (simp add: requestRoutingScheduler_def split_beta Let_def)

interpretation port: scheduler_port "requestRoutingScheduler cfg par rks gen off clk maxAge"
    "\<lambda>m t. \<not> operator_disabled par m t"
  for cfg par rks gen off clk maxAge
proof
  fix r k ts m t
  assume t: "t \<in> set (fst (requestRoutingScheduler cfg par rks gen off clk maxAge r k ts m))"
  then show "t \<in> set ts"
    using proxy_schedule_subset [of cfg par r k off ts clk maxAge rks "[gen]" m]
    by (auto simp: requestRoutingScheduler_fst)
  from t show "\<not> operator_disabled par m t"
    by (simp add: requestRoutingScheduler_fst proxy_schedule_enabled)
qed

text \<open>A target the Manager has ready: enabled, healthy, not locked, with quota left.\<close>

definition target_ready :: "(string, string) fmap \<Rightarrow> gotime \<Rightarrow> duration \<Rightarrow> Manager \<Rightarrow> RouteTarget \<Rightarrow> bool" where
  "target_ready parentOf now maxAge m t \<longleftrightarrow>
     \<not> operator_disabled parentOf m t \<and> TargetHealthy m (rtg_Provider t) (rtg_Model t) now \<and>
     \<not> quotaExhausted (quota_of m (rtg_Provider t)) now maxAge"

lemma adapter_eligible:
  fixes cfg par r k ts clk maxAge off rks gens
  assumes "fmlookup (m_pins m) r = None" "i < length ts"
  defines "input \<equiv> adapter_input cfg par r k ts clk maxAge True off rks gens"
  shows "eligible input (sched input m) (si_Targets input ! i) = target_ready par (ck_now clk) maxAge m (ts ! i)"
proof -
  have "\<not> pin_in_effect input (sched input m)" using assms(1) by (simp add: pin_in_effect_def input_def)
  then show ?thesis
    using assms(2) fullRuntimeTargets_disabled [OF assms(2), of m cfg par "ck_minute clk"]
    by (simp add: eligible_sched ready_def target_ready_def input_def)
      (simp add: adapter_input_def scheduleInput_def fullRuntimeTargets_def Let_def)
qed

interpretation exact: exact_scheduler "requestRoutingScheduler cfg par rks gen off clk maxAge"
    "\<lambda>m t. \<not> operator_disabled par m t" "\<lambda>r m. fmlookup (m_pins m) r = None" "target_ready par (ck_now clk) maxAge"
  for cfg par rks gen off clk maxAge
proof
  fix r k ts and m :: Manager and t
  let ?in = "adapter_input cfg par r k ts clk maxAge True off rks [gen]"
  assume pin: "fmlookup (m_pins m) r = None"
  have order: "fst (requestRoutingScheduler cfg par rks gen off clk maxAge r k ts m) =
      map (\<lambda>i. ts ! i) (sr_Order (fst (DecideOrder ?in m)))"
    by (simp add: requestRoutingScheduler_fst proxy_schedule_order)
  show "target_ready par (ck_now clk) maxAge m t"
    if t: "t \<in> set (fst (requestRoutingScheduler cfg par rks gen off clk maxAge r k ts m))"
  proof -
    obtain i where i: "i \<in> set (sr_Order (fst (DecideOrder ?in m)))" "t = ts ! i" using t unfolding order by auto
    then show ?thesis using DecideOrder_mem [OF i(1)] adapter_eligible [OF pin, of i ts] by simp
  qed
  show "fst (requestRoutingScheduler cfg par rks gen off clk maxAge r k ts m) \<noteq> []"
    if t: "t \<in> set ts" "target_ready par (ck_now clk) maxAge m t"
  proof -
    obtain i where i: "i < length ts" "t = ts ! i" using t(1) by (auto simp: in_set_conv_nth)
    then have "eligible ?in (sched ?in m) (si_Targets ?in ! i)" using t(2) adapter_eligible [OF pin i(1)] by simp
    then obtain j where "j \<in> set (sr_Order (fst (DecideOrder ?in m)))" using eligible_listed [of i ?in m] i(1) by auto
    then show ?thesis unfolding order by auto
  qed
qed (auto simp: target_key_def target_ready_def operator_disabled_def)

text \<open>
  C27. Request-aware routing is sound and never loses a request. On a scheduled chain it returns the
  serving targets of the chain in their order whenever there is one. Otherwise it reroutes: if any route
  has a target that fits the request, is enabled and healthy and has quota left, it returns only such
  targets, and at least one; if no route has one, it returns the chain unchanged. With a pin on the
  name under which the reroute is scheduled it returns the chain or fitting enabled targets. So a
  non-empty chain never becomes empty.
\<close>

theorem ApplyWithProfile_sound:
  fixes rt rks off clk maxAge
  defines "pl \<equiv> requestRoutingPlanner rt rks off clk maxAge"
  assumes "fs_Catalog rt \<noteq> None" and "ordered \<noteq> []"
    and "ApplyWithProfile pl exposed k ordered profile m = (result, m')"
  defines "candidate \<equiv> \<lambda>t. t \<in> set (route_targets (fs_ExpandedRoutes rt)) \<and> rtg_Provider t \<noteq> FusionProvider \<and>
      planner_fits pl profile t \<and> \<not> operator_disabled (fs_ParentOf rt) m t"
  shows "result \<noteq> [] \<and>
    (if list_ex (served pl profile) ordered then result = filter (served pl profile) ordered
     else if fmlookup (m_pins m) (exposed @ ''#req'') \<noteq> None then result = ordered \<or> list_all candidate result
     else if \<exists>t. candidate t \<and> target_ready (fs_ParentOf rt) (ck_now clk) maxAge m t
     then list_all (\<lambda>t. candidate t \<and> target_ready (fs_ParentOf rt) (ck_now clk) maxAge m t) result
     else result = ordered)"
proof -
  have sel: "pl_scheduler pl = Some (requestRoutingScheduler (fs_Cfg rt) (fs_ParentOf rt) rks (fs_Generation rt) off clk maxAge)"
    "pl_catalog pl \<noteq> None" "pl_expandedRoutes pl = fs_ExpandedRoutes rt"
    using assms(2) by (simp_all add: pl_def requestRoutingPlanner_def)
  have res: "fst (ApplyWithProfile pl exposed k ordered profile m) = result"
    using assms(4) by simp
  have ready: "candidate t \<and> target_ready (fs_ParentOf rt) (ck_now clk) maxAge m t \<longleftrightarrow>
      exact.serviceable (fs_ParentOf rt) clk maxAge pl profile m t" for t
    by (auto simp: candidate_def exact.serviceable_def sel(3) target_ready_def)
  have exact: "\<not> list_ex (served pl profile) ordered \<Longrightarrow> fmlookup (m_pins m) (exposed @ ''#req'') = None \<Longrightarrow>
      (if \<exists>t. candidate t \<and> target_ready (fs_ParentOf rt) (ck_now clk) maxAge m t
       then result \<noteq> [] \<and> list_all (\<lambda>t. candidate t \<and> target_ready (fs_ParentOf rt) (ck_now clk) maxAge m t) result
       else result = ordered)"
    unfolding ready using exact.apply_exact [OF sel(1,2) _ _ assms(3)] res by metis
  show ?thesis
  proof (cases rule: port.apply_cases [OF sel(1,2), where exposed = exposed and k = k and ordered = ordered
        and profile = profile and s = m, case_names in_route unserved rerouted])
    case in_route
    then show ?thesis
      using res assms(3) by (auto simp: list_ex_iff filter_empty_conv)
  next
    case unserved
    then show ?thesis
      using res assms(3) exact by (auto split: if_splits)
  next
    case rerouted
    have "candidate t" if "t \<in> set result" for t
      using rerouted(3) [of t] that res sel(3)
        CollectCrossRoute_mem [of t "pl_expandedRoutes pl" "planner_fits pl profile"] by (auto simp: candidate_def)
    then have "list_all candidate result" by (simp add: list_all_iff)
    with rerouted(1,2) res exact show ?thesis
      by (auto split: if_splits)
  qed
qed

theorem ApplyWithProfile_sound_witness:
  "let pl = requestRoutingPlanner ex_snapshot {|''r'', ''q''|} False ex_clock 500
   in planner_fits pl ex_profile (ex_rt ''b'' ''big'' 2) \<and> \<not> planner_fits pl ex_profile (ex_rt ''a'' ''small'' 1)"
proof -
  let ?pl = "requestRoutingPlanner ex_snapshot {|''r'', ''q''|} False ex_clock 500"
  let ?p = "ApplyWithProfile ?pl ''r'' ''s'' [ex_rt ''a'' ''small'' 1] ex_profile newManager"
  have 1: "fst ?p = [ex_rt ''b'' ''big'' 2]"
    by code_simp
  have 2: "fs_Catalog ex_snapshot \<noteq> None"
    by (simp add: ex_snapshot_def)
  have 3: "?p = ([ex_rt ''b'' ''big'' 2], snd ?p)"
    using 1 by (metis prod.collapse)
  from ApplyWithProfile_sound [OF 2 _ 3] show ?thesis
    by (auto simp: ex_rt_def served_def FusionProvider_def Let_def split: if_splits)
qed

lemma overflow_target:
  fixes rt rks off clk maxAge
  defines "pl \<equiv> requestRoutingPlanner rt rks off clk maxAge"
  assumes "t \<in> set (fst (ContextOverflowRetryWithProfile pl exposed k tried profile m))"
  shows "planner_fits pl profile t \<and> \<not> operator_disabled (fs_ParentOf rt) m t \<and>
    t \<in> set (route_targets (fs_ExpandedRoutes rt)) \<and>
    (\<exists>md. Lookup (fs_Catalog rt) (rtg_Model t) = Some md \<and>
      (\<forall>u \<in> set tried. \<forall>md'. Lookup (fs_Catalog rt) (rtg_Model u) = Some md' \<longrightarrow> md_Context md' < md_Context md))"
proof -
  have sel: "pl_scheduler pl = Some (requestRoutingScheduler (fs_Cfg rt) (fs_ParentOf rt) rks (fs_Generation rt) off clk maxAge)"
    "pl_catalog pl = fs_Catalog rt" "pl_expandedRoutes pl = fs_ExpandedRoutes rt"
    by (simp_all add: pl_def requestRoutingPlanner_def)
  from port.overflow_mem [OF sel(1) assms(2)] show ?thesis
    using max_context_upper [of _ tried "fs_Catalog rt"] sel(2,3) by fastforce
qed

text \<open>
  A context-overflow retry goes strictly up: every target it schedules has a known context window
  larger than the known window of every target already tried, fits the request profile, is enabled,
  and comes from an expanded route.
\<close>

theorem ContextOverflowRetry_larger:
  fixes rt rks off clk maxAge
  defines "pl \<equiv> requestRoutingPlanner rt rks off clk maxAge"
  assumes "t \<in> set (fst (ContextOverflowRetryWithProfile pl exposed k tried profile m))"
  shows "planner_fits pl profile t \<and> \<not> operator_disabled (fs_ParentOf rt) m t \<and>
    t \<in> set (route_targets (fs_ExpandedRoutes rt)) \<and>
    (\<exists>md. Lookup (fs_Catalog rt) (rtg_Model t) = Some md \<and>
      (\<forall>u \<in> set tried. \<forall>md'. Lookup (fs_Catalog rt) (rtg_Model u) = Some md' \<longrightarrow> md_Context md' < md_Context md))"
  using assms unfolding pl_def by (intro overflow_target)

theorem ContextOverflowRetry_larger_witness:
  "\<exists>md. Lookup (fs_Catalog ex_snapshot) ''big'' = Some md \<and> 100 < md_Context md"
proof -
  let ?pl = "requestRoutingPlanner ex_snapshot {|''r'', ''q''|} False ex_clock 500"
  have 1: "ex_rt ''b'' ''big'' 2 \<in> set (fst (ContextOverflowRetryWithProfile ?pl ''r'' ''s'' [ex_rt ''a'' ''small'' 1]
      ex_profile newManager))"
    by code_simp
  have 2: "Lookup (fs_Catalog ex_snapshot) ''small'' = Some \<lparr> md_Context = 100, md_Input = [''text''], md_ToolCall = True \<rparr>"
    by code_simp
  from ContextOverflowRetry_larger [OF 1] 2 show ?thesis
    by (auto simp: ex_rt_def)
qed

end
