(* ===== verification/Policy_Props.thy ===== *)
theory Policy_Props
  imports Forward_Policy Planner_Props
begin

text \<open>
  Properties of the route-tier policy and of the whole ordering of a request: a policy on an ungraded
  route only moves one target to the front; a graded route serves fitting targets, the latched grade
  first; and whatever the pins, latches, bands, selectors and cross-route fallbacks do, an
  operator-disabled model is never in the order.
\<close>

subsection \<open>Ungraded routes\<close>

lemma applyRoutePolicy_mset: "mset (fst (applyRoutePolicy ts policy profile par)) = mset ts"
  by (simp add: applyRoutePolicy_def split: option.splits)

lemma applyRouteLatch_mset:
  "applyRouteLatch m sk route ts policy par now = Some (ts', d) \<Longrightarrow> mset ts' = mset ts"
  by (auto simp: applyRouteLatch_def split: option.splits if_splits)

lemma reapply_mset: "mset (rs_ordered (reapply r ts par)) = mset ts"
  by (simp add: reapply_def Let_def)

lemma applyRouteSelector_mset: "mset (rs_ordered (applyRouteSelector cd ts policy par)) = mset ts"
  by (simp add: applyRouteSelector_def Let_def split: option.splits)

lemma routeSelector_mset: "mset (rs_ordered (fst (routeSelector cd ts policy par st))) = mset ts"
  by (simp add: routeSelector_def reapply_mset applyRouteSelector_mset Let_def)

subsection \<open>Graded routes\<close>

lemma grade_order_scan_mem: "g \<in> set (grade_order_scan seen gs) \<Longrightarrow> g \<in> set gs \<and> g \<noteq> []"
  by (induction gs arbitrary: seen) (auto split: if_splits)

lemma grade_order_scan_complete: "g \<in> set gs \<Longrightarrow> g \<noteq> [] \<Longrightarrow> g \<notin> set seen \<Longrightarrow> g \<in> set (grade_order_scan seen gs)"
  by (induction seen gs rule: grade_order_scan.induct) auto

lemma grade_order_scan_distinct: "distinct (grade_order_scan seen gs) \<and> set (grade_order_scan seen gs) \<inter> set seen = {}"
  by (induction seen gs rule: grade_order_scan.induct) auto

lemma groupTargetsByGrade_groups:
  assumes "groupTargetsByGrade ts grades par = (groups, ungraded)" "g \<in> set groups"
  shows "gg_name g \<noteq> []" "gg_targets g = filter (\<lambda>t. gradeOfTarget t grades par = gg_name g) ts" "gg_targets g \<noteq> []"
    "gg_first g = hd (gg_targets g)"
proof -
  from assms obtain i where i: "gg_name g = GradeOrder ts grades par ! i" "i < length (GradeOrder ts grades par)"
    "gg_targets g = filter (\<lambda>t. gradeOfTarget t grades par = gg_name g) ts" "gg_first g = hd (gg_targets g)"
    by (auto simp: groupTargetsByGrade_def in_set_enumerate_eq Let_def split: if_splits)
  then have "gg_name g \<in> set (GradeOrder ts grades par)"
    by simp
  then have "gg_name g \<in> set (map (\<lambda>t. gradeOfTarget t grades par) ts) \<and> gg_name g \<noteq> []"
    by (auto simp: GradeOrder_def dest: grade_order_scan_mem split: if_splits)
  with i(3,4) show "gg_name g \<noteq> []" "gg_targets g = filter (\<lambda>t. gradeOfTarget t grades par = gg_name g) ts"
    "gg_targets g \<noteq> []" "gg_first g = hd (gg_targets g)"
    by (auto simp: filter_empty_conv)
qed

lemma groupTargetsByGrade_names:
  assumes "groupTargetsByGrade ts grades par = (groups, ungraded)" "grades \<noteq> fmempty"
  shows "set (GradeOrder ts grades par) = gg_name ` set groups"
proof -
  have "map gg_name groups = map snd (enumerate 0 (GradeOrder ts grades par))"
    using assms by (auto simp: groupTargetsByGrade_def Let_def comp_def split_beta simp del: map_snd_enumerate)
  then show ?thesis
    by (metis list.set_map map_snd_enumerate)
qed

lemma groupTargetsByGrade_ungraded:
  assumes "groupTargetsByGrade ts grades par = (groups, ungraded)"
  shows "set ungraded \<subseteq> set ts"
  using assms by (auto simp: groupTargetsByGrade_def Let_def split: if_splits)

lemma index_where_Some:
  "index_where P xs = Some i \<Longrightarrow> i < length xs \<and> P (xs ! i)"
  by (induction xs arbitrary: i) (auto split: if_splits)

lemma index_where_None: "index_where P xs = None \<longleftrightarrow> \<not> list_ex P xs"
  by (induction xs) auto

lemma buildGradeOrdered_subset:
  "set (buildGradeOrdered selected groups ungraded fallback) \<subseteq> (\<Union>g \<in> set groups. set (gg_targets g)) \<union> set ungraded"
  by (auto simp: buildGradeOrdered_def Let_def split: option.splits if_splits
      dest!: index_where_Some dest: in_set_dropD intro: nth_mem)

lemma filter_group_sel [simp]:
  "gg_name (filter_group rt profile g) = gg_name g"
  "gg_targets (filter_group rt profile g) =
     filterGradeTargets (gg_targets g) (Some (fs_Cfg rt)) (fs_ParentOf rt) (fs_Catalog rt) profile"
  by (simp_all add: filter_group_def Let_def)

text \<open>A target a graded route keeps: a fusion recipe or one that fits the request.\<close>

definition grade_fit :: "Snapshot \<Rightarrow> Profile \<Rightarrow> RouteTarget \<Rightarrow> bool" where
  "grade_fit rt profile t \<longleftrightarrow>
     rtg_Provider t = FusionProvider \<or>
     Fits (fs_Catalog rt) (CapabilitiesFor (Some (fs_Cfg rt)) (fs_ParentOf rt) t) (rtg_Model t) profile"

lemma filterGradeTargets_eq:
  "filterGradeTargets ts (Some (fs_Cfg rt)) (fs_ParentOf rt) (fs_Catalog rt) profile = filter (grade_fit rt profile) ts"
  by (simp add: filterGradeTargets_def grade_fit_def [abs_def])

lemma find_index_where: "find P xs = map_option ((!) xs) (index_where P xs)"
  by (induction xs) (auto simp: option.map_comp comp_def)

lemma gradeOfTarget_declared: "gradeOfTarget t grades par \<noteq> [] \<Longrightarrow> fmlookup grades (gradeOfTarget t grades par) \<noteq> None"
  by (auto simp: gradeOfTarget_def fmlookup_dom'_iff split: option.splits dest!: find_SomeD)

text \<open>The grade that decides the order: an active latch wins over the selector and the bands.\<close>

lemma graded_order:
  assumes "groupTargetsByGrade ts (rp_Grades policy) (fs_ParentOf rt) = (groups, ungraded)" "groups \<noteq> []"
  obtains selected where
    "fst (fst (applyRoutePolicyGrades cd ts policy profile sk rt exposed now m st)) =
       buildGradeOrdered selected (map (filter_group rt profile) groups) ungraded (FallbackMode policy)"
    "\<And>g v. resolveLatchGrade m sk exposed policy now = Some (g, v) \<Longrightarrow>
       gradeGroupHasTargets (map (filter_group rt profile) groups) g \<Longrightarrow> g \<noteq> [] \<Longrightarrow>
       fmlookup (rp_Grades policy) g \<noteq> None \<Longrightarrow> selected = g \<and>
       snd (fst (applyRoutePolicyGrades cd ts policy profile sk rt exposed now m st)) =
         Some \<lparr> rd_Source = ''latch'', rd_Grade = g, rd_Target = [], rd_Selector = None, rd_Latch = v \<rparr>"
  using assms
  by (auto simp: applyRoutePolicyGrades_def Let_def split_beta SelectGrade_def buildGradeRoutingDecision_def)

lemma graded_subset: "set (fst (fst (applyRoutePolicyGrades cd ts policy profile sk rt exposed now m st))) \<subseteq> set ts"
proof -
  obtain groups ungraded where g: "groupTargetsByGrade ts (rp_Grades policy) (fs_ParentOf rt) = (groups, ungraded)"
    by fastforce
  show ?thesis
  proof (cases "groups = []")
    case False
    obtain selected where ord: "fst (fst (applyRoutePolicyGrades cd ts policy profile sk rt exposed now m st)) =
       buildGradeOrdered selected (map (filter_group rt profile) groups) ungraded (FallbackMode policy)"
      using graded_order [OF g False] by metis
    have "set (gg_targets (filter_group rt profile h)) \<subseteq> set ts" if "h \<in> set groups" for h
      using groupTargetsByGrade_groups(2) [OF g that] by (auto simp: filterGradeTargets_eq)
    then show ?thesis
      using buildGradeOrdered_subset [of selected "map (filter_group rt profile) groups" ungraded "FallbackMode policy"]
        groupTargetsByGrade_ungraded [OF g] unfolding ord by fastforce
  qed (use g in \<open>simp add: applyRoutePolicyGrades_def Let_def\<close>)
qed

subsection \<open>The order of a request\<close>

lemma serve_order_policy_subset:
  "set (fst (fst (serve_order cd rt policy exposed sk targets rks force forced off body clk maxAge st m))) \<subseteq>
   set (fst (fst (serve_order cd rt None exposed sk targets rks force forced off body clk maxAge st m)))"
proof -
  have latch: "set ts' \<subseteq> set ts" if "applyRouteLatch m' sk exposed ts p par now = Some (ts', d)" for m' ts ts' p par now d
    using applyRouteLatch_mset [OF that] by (metis order_refl set_mset_mset)
  have sel: "set (rs_ordered (fst (routeSelector cd ts p par st))) = set ts" for ts p par
    by (metis routeSelector_mset set_mset_mset)
  have band: "set (fst (applyRoutePolicy ts p profile par)) = set ts" for ts p profile par
    by (metis applyRoutePolicy_mset set_mset_mset)
  show ?thesis
    by (auto simp: serve_order_def Let_def split_beta sel band
        dest: latch [THEN subsetD, rotated] graded_subset [THEN subsetD] split: option.splits)
qed

text \<open>
  C28. On a route without grades the tier policy only reorders: with any bands, latch state, selector
  answer (also a wrong, failing or cached one), the order of a request is a permutation of the order
  it would have without a policy, so the policy neither drops nor adds a target.
\<close>

theorem ungraded_policy_permutes:
  assumes "\<not> HasGrades policy"
  shows "mset (fst (fst (serve_order cd rt (Some policy) exposed sk targets rks force forced off body clk maxAge st m))) =
    mset (fst (fst (serve_order cd rt None exposed sk targets rks force forced off body clk maxAge st m)))"
  using assms
  by (simp add: serve_order_def Let_def split_beta routeSelector_mset applyRoutePolicy_mset applyRouteLatch_mset
      split: option.splits)

text \<open>A policy with one band and an escalation, on a route of two targets.\<close>

definition ex_policy :: "(string, RouteTarget list) fmap \<Rightarrow> string \<Rightarrow> RoutePolicy" where
  "ex_policy grades fallback =
     \<lparr> rp_Bands = [\<lparr> rb_When = \<lparr> bw_EstimatedTokensMin = Some 0, bw_EstimatedTokensMax = None, bw_FollowUp = None,
                                   bw_HasTools = None, bw_HasImage = None \<rparr>,
                     rb_Target = ex_rt ''b'' ''big'' 2, rb_Grade = [] \<rparr>],
       rp_Escalation = Some \<lparr> ec_BadSignals = [''upstream_error''], ec_Consecutive = 1, ec_Target = ex_rt ''b'' ''big'' 2, ec_Grade = [],
                              ec_Dwell = None \<rparr>,
       rp_Selector = None, rp_Grades = grades, rp_Fallback = fallback \<rparr>"

definition no_decisions :: decisions where
  "no_decisions = (\<lambda>_. \<lparr> do_ChoiceID = [], do_Confidence = 0, do_Difficulty = 0, do_Err = Some ''off'' \<rparr>)"

definition ex_serveState :: serveState where
  "ex_serveState =
     \<lparr> sv_selectorComputed = False,
       sv_routeSel = \<lparr> rs_ordered = [], rs_preferred = noTarget, rs_mode = ''off'', rs_action = ''none'', rs_choice = [],
                       rs_confidence = 0, rs_difficulty = 0, rs_err = [] \<rparr>,
       sv_gradeSel = noGradeSelector \<rparr>"

theorem ungraded_policy_permutes_witness:
  "mset (fst (fst (serve_order no_decisions ex_snapshot (Some (ex_policy fmempty [])) ''q'' ''s''
      [ex_rt ''a'' ''small'' 1, ex_rt ''b'' ''big'' 2] {|''q''|} False [] False ''hello'' ex_clock 500 ex_serveState newManager))) =
   mset [ex_rt ''a'' ''small'' 1, ex_rt ''b'' ''big'' 2]"
proof -
  have 1: "\<not> HasGrades (ex_policy fmempty [])"
    by (simp add: HasGrades_def ex_policy_def)
  have 2: "fst (fst (serve_order no_decisions ex_snapshot None ''q'' ''s'' [ex_rt ''a'' ''small'' 1, ex_rt ''b'' ''big'' 2]
      {|''q''|} False [] False ''hello'' ex_clock 500 ex_serveState newManager)) = [ex_rt ''a'' ''small'' 1, ex_rt ''b'' ''big'' 2]"
    by code_simp
  show ?thesis
    unfolding ungraded_policy_permutes [OF 1] 2 ..
qed

lemma proxy_schedule_keeps_disabled:
  "m_disabledModels (snd (proxy_schedule cfg par exposed sk off ts clk maxAge rks gens m)) = m_disabledModels m"
proof -
  let ?in = "adapter_input cfg par exposed sk ts clk maxAge True off rks gens"
  obtain a b c where "snd (DecideOrder ?in m) = m \<lparr> m_sticky := a, m_spread := b, m_rr := c \<rparr>"
    using DecideOrder_frame [of ?in m] by auto
  then show ?thesis
    by (simp add: proxy_schedule_def proxy_decideOrder_eq Let_def split_beta SetSticky_def)
qed

lemma operator_disabled_cong:
  "m_disabledModels m = m_disabledModels m' \<Longrightarrow> operator_disabled par m t = operator_disabled par m' t"
  by (simp add: operator_disabled_def ModelDisabled_def)

lemma ApplyWithProfile_enabled:
  assumes "t \<in> set (fst (ApplyWithProfile (requestRoutingPlanner rt rks off clk maxAge) exposed k ordered profile m))"
    and "\<And>u. u \<in> set ordered \<Longrightarrow> \<not> operator_disabled (fs_ParentOf rt) m u"
  shows "\<not> operator_disabled (fs_ParentOf rt) m t \<and> (t \<in> set ordered \<or> t \<in> set (route_targets (fs_ExpandedRoutes rt)))"
proof (cases "fs_Catalog rt = None")
  case True
  with assms show ?thesis by (simp add: ApplyWithProfile_def requestRoutingPlanner_def)
next
  case False
  let ?pl = "requestRoutingPlanner rt rks off clk maxAge"
  have sel: "pl_scheduler ?pl = Some (requestRoutingScheduler (fs_Cfg rt) (fs_ParentOf rt) rks (fs_Generation rt) off clk maxAge)"
    "pl_catalog ?pl \<noteq> None" "pl_expandedRoutes ?pl = fs_ExpandedRoutes rt"
    using False by (simp_all add: requestRoutingPlanner_def)
  show ?thesis
  proof (cases rule: port.apply_cases [OF sel(1,2), where exposed = exposed and k = k and ordered = ordered
        and profile = profile and s = m, case_names in_route unserved rerouted])
    case rerouted
    from rerouted(3) [OF assms(1)] show ?thesis
      using CollectCrossRoute_mem(1) [of t "pl_expandedRoutes ?pl" "planner_fits ?pl profile"] sel(3) by auto
  qed (use assms in auto)
qed

lemma order_enabled:
  assumes "t \<in> set (fst (fst (serve_order cd rt policy exposed sk targets rks force forced off body clk maxAge st m)))"
  shows "\<not> operator_disabled (fs_ParentOf rt) m t \<and>
    (t \<in> set targets \<or> t \<in> set (route_targets (fs_ExpandedRoutes rt)))"
proof -
  let ?sch = "proxy_schedule (fs_Cfg rt) (fs_ParentOf rt) exposed sk (off \<or> forced \<noteq> []) targets clk maxAge rks [fs_Generation rt] m"
  have sch: "u \<in> set targets \<and> \<not> operator_disabled (fs_ParentOf rt) m u" if "u \<in> set (fst (fst ?sch))" for u
    using subsetD [OF proxy_schedule_subset that] proxy_schedule_enabled [OF that] by simp
  have keep: "operator_disabled (fs_ParentOf rt) (snd ?sch) u = operator_disabled (fs_ParentOf rt) m u" for u
    by (rule operator_disabled_cong) (rule proxy_schedule_keeps_disabled)
  from serve_order_policy_subset assms
  have "t \<in> set (fst (fst (serve_order cd rt None exposed sk targets rks force forced off body clk maxAge st m)))"
    by blast
  then consider "t \<in> set (fst (fst ?sch))"
    | "t \<in> set (fst (ApplyWithProfile (requestRoutingPlanner rt rks off clk maxAge) exposed sk (fst (fst ?sch))
        (ProfileRequest body) (snd ?sch)))"
    by (auto simp: serve_order_def Let_def split_beta split: if_splits)
  then show ?thesis
  proof cases
    case 2
    from ApplyWithProfile_enabled [OF this] sch keep show ?thesis by blast
  qed (use sch in blast)
qed

text \<open>
  C5. An operator-disabled model is never in the order of a request: whatever pins, forced
  providers, sessions, latches, bands, selector answers and cross-route fallbacks do, every target of
  the order was enabled when the request was scheduled, and is a target of the request or, after a
  cross-route fallback, of some expanded route.
\<close>

theorem serve_order_enabled:
  assumes "t \<in> set (fst (fst (serve_order cd rt policy exposed sk targets rks force forced off body clk maxAge st m)))"
  shows "\<not> operator_disabled (fs_ParentOf rt) m t \<and>
    (t \<in> set targets \<or> t \<in> set (route_targets (fs_ExpandedRoutes rt)))"
  using assms by (rule order_enabled)

theorem serve_order_enabled_witness:
  "\<not> operator_disabled fmempty (SetModelDisabled ''a'' ''small'' True newManager) (ex_rt ''b'' ''big'' 2)"
proof -
  let ?m = "SetModelDisabled ''a'' ''small'' True newManager"
  have "ex_rt ''b'' ''big'' 2 \<in> set (fst (fst (serve_order no_decisions ex_snapshot (Some (ex_policy fmempty [])) ''q'' ''s''
      [ex_rt ''a'' ''small'' 1, ex_rt ''b'' ''big'' 2] {|''q''|} False [] False ''hello'' ex_clock 500 ex_serveState ?m)))"
    by code_simp
  from serve_order_enabled [OF this] show ?thesis
    by (simp add: ex_snapshot_def)
qed

subsection \<open>Latched grades\<close>

lemma graded_latched:
  assumes "resolveLatchGrade m sk exposed policy now = Some (g, v)"
    and "t \<in> set ts" and "gradeOfTarget t (rp_Grades policy) (fs_ParentOf rt) = g" and "g \<noteq> []"
    and "grade_fit rt profile t"
    and "applyRoutePolicyGrades cd ts policy profile sk rt exposed now m st = ((ordered, decision), st')"
  shows "prefix (filter (\<lambda>u. gradeOfTarget u (rp_Grades policy) (fs_ParentOf rt) = g \<and> grade_fit rt profile u) ts) ordered \<and>
    decision = Some \<lparr> rd_Source = ''latch'', rd_Grade = g, rd_Target = [], rd_Selector = None, rd_Latch = v \<rparr>"
proof -
  let ?gr = "\<lambda>u. gradeOfTarget u (rp_Grades policy) (fs_ParentOf rt)"
  obtain groups ungraded where grp: "groupTargetsByGrade ts (rp_Grades policy) (fs_ParentOf rt) = (groups, ungraded)"
    by fastforce
  let ?f = "map (filter_group rt profile) groups"
  have declared: "fmlookup (rp_Grades policy) g \<noteq> None"
    using gradeOfTarget_declared [of t] assms(3,4) by blast
  then have ne: "rp_Grades policy \<noteq> fmempty"
    by auto
  have "g \<in> set (GradeOrder ts (rp_Grades policy) (fs_ParentOf rt))"
    using assms(2-4) ne by (auto simp: GradeOrder_def intro!: grade_order_scan_complete)
  then have mem: "list_ex (\<lambda>h. gg_name h = g) groups"
    using groupTargetsByGrade_names [OF grp ne] by (auto simp: list_ex_iff)
  then obtain i where i: "index_where (\<lambda>h. gg_name h = g) ?f = Some i"
    using index_where_None [of "\<lambda>h. gg_name h = g" ?f] by (auto simp: list_ex_iff)
  from index_where_Some [OF i] have il: "i < length groups" and name: "gg_name (groups ! i) = g"
    by auto
  have targets: "gg_targets (?f ! i) = filter (\<lambda>u. ?gr u = g \<and> grade_fit rt profile u) ts"
    using groupTargetsByGrade_groups(2) [OF grp nth_mem [OF il]] il name
    by (simp add: filterGradeTargets_eq conj_commute)
  have has: "gradeGroupHasTargets ?f g"
    using i il targets assms(2,3,5) by (auto simp: gradeGroupHasTargets_def find_index_where filter_empty_conv)
  have "groups \<noteq> []"
    using il by auto
  from graded_order [OF grp this] obtain selected where
    ord: "fst (fst (applyRoutePolicyGrades cd ts policy profile sk rt exposed now m st)) =
      buildGradeOrdered selected ?f ungraded (FallbackMode policy)"
    and sel: "selected = g \<and> snd (fst (applyRoutePolicyGrades cd ts policy profile sk rt exposed now m st)) =
      Some \<lparr> rd_Source = ''latch'', rd_Grade = g, rd_Target = [], rd_Selector = None, rd_Latch = v \<rparr>"
    using assms(1,4) declared has by metis
  from ord sel i targets assms(4,6) show ?thesis
    by (simp add: buildGradeOrdered_def Let_def)
qed

text \<open>
  C29. An active grade latch decides a graded route: while the session's latch has not outlived its
  dwell and some scheduled target of the latched grade fits the request, the order starts with
  exactly the fitting targets of that grade in their scheduled order, whatever selector and bands
  say, and the decision record names the latch.
\<close>

theorem graded_latch_first:
  assumes "resolveLatchGrade m sk exposed policy now = Some (g, v)"
    and "t \<in> set ts" and "gradeOfTarget t (rp_Grades policy) (fs_ParentOf rt) = g" and "g \<noteq> []"
    and "grade_fit rt profile t"
    and "applyRoutePolicyGrades cd ts policy profile sk rt exposed now m st = ((ordered, decision), st')"
  shows "prefix (filter (\<lambda>u. gradeOfTarget u (rp_Grades policy) (fs_ParentOf rt) = g \<and> grade_fit rt profile u) ts) ordered \<and>
    decision = Some \<lparr> rd_Source = ''latch'', rd_Grade = g, rd_Target = [], rd_Selector = None, rd_Latch = v \<rparr>"
  using assms by (rule graded_latched)

definition ex_grades :: "(string, RouteTarget list) fmap" where
  "ex_grades = fmap_of_list [(''cheap'', [ex_rt ''a'' ''small'' 1]), (''strong'', [ex_rt ''b'' ''big'' 2])]"

definition ex_latched :: Manager where
  "ex_latched = newManager \<lparr> m_latch := fmupd (LatchKey ''s'' ''q'') \<lparr> la_Target = ''grade:strong'', la_Since = 900, la_BadRuns = 0 \<rparr> fmempty \<rparr>"

theorem graded_latch_first_witness:
  "prefix [ex_rt ''b'' ''big'' 2]
     (fst (fst (applyRoutePolicyGrades no_decisions [ex_rt ''a'' ''small'' 1, ex_rt ''b'' ''big'' 2] (ex_policy ex_grades [])
        ex_profile ''s'' ex_snapshot ''q'' 1000 ex_latched ex_serveState)))"
proof -
  let ?ts = "[ex_rt ''a'' ''small'' 1, ex_rt ''b'' ''big'' 2]"
  let ?p = "applyRoutePolicyGrades no_decisions ?ts (ex_policy ex_grades []) ex_profile ''s'' ex_snapshot ''q'' 1000 ex_latched ex_serveState"
  have 1: "resolveLatchGrade ex_latched ''s'' ''q'' (ex_policy ex_grades []) 1000 = Some (''strong'', ''grade:strong'')"
    by code_simp
  have 2: "gradeOfTarget (ex_rt ''b'' ''big'' 2) (rp_Grades (ex_policy ex_grades [])) (fs_ParentOf ex_snapshot) = ''strong''"
    by code_simp
  have 3: "grade_fit ex_snapshot ex_profile (ex_rt ''b'' ''big'' 2)"
    by code_simp
  have 4: "?p = ((fst (fst ?p), snd (fst ?p)), snd ?p)"
    by simp
  have 5: "filter (\<lambda>u. gradeOfTarget u (rp_Grades (ex_policy ex_grades [])) (fs_ParentOf ex_snapshot) = ''strong'' \<and>
      grade_fit ex_snapshot ex_profile u) ?ts = [ex_rt ''b'' ''big'' 2]"
    by code_simp
  from graded_latch_first [OF 1 _ 2 _ 3 4] 5 show ?thesis
    by simp
qed

text \<open>
  A grade emptied by the request filter still counts as present: a band that selects it under the
  strict fallback leaves the request without any target, although request-aware routing had kept the
  chain (no route can serve the request, so it is returned unchanged).
\<close>

definition ex_huge :: Profile where
  "ex_huge = \<lparr> pf_HasImage = False, pf_HasTools = False, pf_EstimatedTokens = 5000, pf_FollowUp = False \<rparr>"

lemma strict_grade_empties_order:
  "fst (ApplyWithProfile (requestRoutingPlanner ex_snapshot {|''q''|} False ex_clock 500) ''q'' ''s''
      [ex_rt ''a'' ''small'' 1, ex_rt ''b'' ''big'' 2] ex_huge newManager) = [ex_rt ''a'' ''small'' 1, ex_rt ''b'' ''big'' 2]"
  "fst (fst (applyRoutePolicyGrades no_decisions [ex_rt ''a'' ''small'' 1, ex_rt ''b'' ''big'' 2]
      (ex_policy ex_grades ''strict'') ex_huge ''s'' ex_snapshot ''q'' 1000 newManager ex_serveState)) = []"
  by code_simp+

text \<open>
  The fallback \<open>any\<close> appends the grades after the selected one only: the cheaper grade before it is
  not a fallback of the strong one.
\<close>

lemma any_fallback_drops_earlier_grade:
  "fst (fst (applyRoutePolicyGrades no_decisions [ex_rt ''a'' ''small'' 1, ex_rt ''b'' ''big'' 2] (ex_policy ex_grades ''any'')
      (ex_profile \<lparr> pf_HasImage := False, pf_EstimatedTokens := 50 \<rparr>) ''s'' ex_snapshot ''q'' 1000 newManager ex_serveState))
   = [ex_rt ''b'' ''big'' 2]"
  by code_simp

end
