(* ===== verification/Serve_Props.thy ===== *)
theory Serve_Props
  imports Forward_Serve Policy_Props
begin

text \<open>
  Properties of the request entry: admission answers exactly the errors it should and hands on
  enabled targets; the wait-and-retry loop is bounded and its final status honest; and an escalation
  recorded by one request takes effect on the next.
\<close>

subsection \<open>Admission\<close>

lemma filterDisabledTargets_eq: "filterDisabledTargets m par ts = filter (\<lambda>t. \<not> operator_disabled par m t) ts"
proof -
  have "TargetDisabled m \<lparr> tg_Provider = rtg_Provider t, tg_Parent = fmget [] par (rtg_Provider t), tg_Model = rtg_Model t,
      tg_Priority = 0, tg_PeakMultiplier = 0, tg_Billing = BillingUnknown \<rparr> = operator_disabled par m t" for t
    by (simp add: TargetDisabled_def operator_disabled_def ModelDisabled_def)
  moreover have "\<not> list_ex P ts \<Longrightarrow> filter (\<lambda>t. \<not> P t) ts = ts" for P
    by (auto simp: list_ex_iff intro: filter_True)
  ultimately show ?thesis
    by (simp add: filterDisabledTargets_def Let_def)
qed

text \<open>A target belongs to a provider: it is its own or an account of its pool.\<close>

definition of_provider :: "(string, string) fmap \<Rightarrow> string \<Rightarrow> RouteTarget \<Rightarrow> bool" where
  "of_provider par p t \<longleftrightarrow> rtg_Provider t = p \<or> fmget [] par (rtg_Provider t) = p"

lemma FilterTargetsByProvider_eq: "FilterTargetsByProvider ts par p = filter (of_provider par p) ts"
  by (simp add: FilterTargetsByProvider_def of_provider_def [abs_def])

lemma list_ex_filter: "list_ex P xs \<longleftrightarrow> filter P xs \<noteq> []"
  by (auto simp: list_ex_iff filter_empty_conv)

lemma admit_eq:
  assumes "resolve_called cfg expanded par called = (exposed, ts, pre)"
  shows "admit cfg expanded par called requested now m =
    (let enabled = filter (\<lambda>t. \<not> operator_disabled par m t) ts;
         forced = (if requested = [] then pre else requested);
         narrowed = (if forced = [] then enabled else filter (of_provider par forced) enabled)
     in if ts = [] then Inl ModelNotFound
        else if enabled = [] then Inl AllDisabled
        else if narrowed = [] then (if list_ex (of_provider par forced) ts then Inl ForcedDisabled else Inl ForcedNotTarget)
        else Inr \<lparr> ad_exposed = exposed, ad_targets = narrowed, ad_force = pinForces m exposed enabled par now,
                   ad_forcedProvider = forced \<rparr>)"
  using assms
  by (auto simp: admit_def Let_def filterDisabledTargets_eq FilterTargetsByProvider_eq list_ex_filter)

text \<open>
  C16. Admission is exact. A request is refused as unknown only if its called name resolves to no
  target, as disabled only if every target of it is operator-disabled, and a forced provider is
  refused as disabled or as no target of the model according to whether the route has a target of
  that provider. An admitted request has at least one target; its targets are exactly the enabled
  targets of the resolved name, narrowed to the forced provider when there is one.
\<close>

theorem admit_exact:
  assumes "resolve_called cfg expanded par called = (exposed, ts, pre)"
    and "forced = (if requested = [] then pre else requested)"
  shows "case admit cfg expanded par called requested now m of
      Inl ModelNotFound \<Rightarrow> ts = []
    | Inl AllDisabled \<Rightarrow> ts \<noteq> [] \<and> list_all (operator_disabled par m) ts
    | Inl ForcedDisabled \<Rightarrow> \<not> list_all (operator_disabled par m) ts \<and> forced \<noteq> [] \<and> list_ex (of_provider par forced) ts \<and>
        list_all (\<lambda>t. of_provider par forced t \<longrightarrow> operator_disabled par m t) ts
    | Inl ForcedNotTarget \<Rightarrow> \<not> list_all (operator_disabled par m) ts \<and> forced \<noteq> [] \<and> \<not> list_ex (of_provider par forced) ts
    | Inr a \<Rightarrow> ad_exposed a = exposed \<and> ad_forcedProvider a = forced \<and> ad_targets a \<noteq> [] \<and>
        ad_targets a = filter (\<lambda>t. \<not> operator_disabled par m t \<and> (forced = [] \<or> of_provider par forced t)) ts"
  unfolding admit_eq [OF assms(1)] assms(2)
  by (auto simp: Let_def filter_empty_conv list_all_iff list_ex_iff conj_commute intro: filter_cong)

theorem admit_exact_witness:
  "case admit ex_config (fmap_of_list [(''m'', [ex_rt ''a'' ''m'' 1])]) fmempty ''b/m'' [] 1000 newManager of
     Inl ModelNotFound \<Rightarrow> True | _ \<Rightarrow> False"
proof -
  have 1: "resolve_called ex_config (fmap_of_list [(''m'', [ex_rt ''a'' ''m'' 1])]) fmempty ''b/m'' = (''m'', [], ''b'')"
    by code_simp
  show ?thesis
    using admit_exact [OF 1 refl, where requested = "[]" and now = 1000 and m = newManager] by (auto split: sum.splits admit_error.splits)
qed

subsection \<open>The wait-and-retry loop\<close>

lemma DecideFailure_wait:
  assumes "fd_Action (DecideFailure i) = FailureWait"
  shows "0 < fd_Wait (DecideFailure i)" "fd_Wait (DecideFailure i) \<le> fi_RetryWait i"
  using assms by (auto simp: DecideFailure_def terminal_decision_def Let_def split: if_splits)

lemma DecideFailure_retry_pos: "fd_Action (DecideFailure i) \<noteq> FailureTerminal \<Longrightarrow> 0 < fi_RetryWait i"
  by (auto simp: DecideFailure_def terminal_decision_def Let_def split: if_splits)

lemma DecideFailure_rate_limited:
  "fd_RateLimited (DecideFailure i) \<Longrightarrow> \<not> fi_SawHard i \<and> 1 \<le> fd_RetryAfterSeconds (DecideFailure i)"
  by (auto simp: DecideFailure_def terminal_decision_def retry_after_seconds_def Let_def split: if_splits)

definition honest_status :: "bool \<Rightarrow> serve_outcome \<times> (serveResult \<times> duration) list \<Rightarrow> bool" where
  "honest_status sawHard r =
     (case fst r of
        Failed res d \<Rightarrow> fd_Action d = FailureTerminal \<and>
          (fd_RateLimited d \<longrightarrow> \<not> sawHard \<and> \<not> sr_sawHard res \<and> list_all (\<lambda>(p, _). \<not> sr_sawHard p) (snd r) \<and>
             1 \<le> fd_RetryAfterSeconds d)
      | _ \<Rightarrow> True)"

text \<open>One unfolding of the loop: it stops, loses the client while waiting, or goes around.\<close>

lemma serve_loop_step:
  obtains (stop) out where "fst (serve_loop env knobs targets forced maxAge rnd h c w) = (out, [])" "honest_status h (out, [])"
  | (gone) res d where "fst (serve_loop env knobs targets forced maxAge rnd h c w) = (ClientGone res, [(res, d)])"
      "rnd < 2" "0 \<le> d" "d \<le> RetryWaitDuration knobs"
  | (again) res d w' where "rnd < 2" "0 \<le> d" "d \<le> RetryWaitDuration knobs"
      "\<And>r. r = fst (serve_loop env knobs targets forced maxAge (rnd + 1) (h \<or> sr_sawHard res) (c \<or> sr_sawCooldown res) w') \<Longrightarrow>
         fst (serve_loop env knobs targets forced maxAge rnd h c w) = (fst r, (res, d) # snd r)"
proof -
  obtain res w1 where pass: "en_serveOnce env w = (res, w1)"
    by fastforce
  let ?i = "failure_input env knobs targets forced maxAge rnd (h \<or> sr_sawHard res) (c \<or> sr_sawCooldown res) res w1"
  let ?d = "DecideFailure ?i"
  note unf = serve_loop.simps [of env knobs targets forced maxAge rnd h c w]
  show thesis
  proof (cases "sr_committed res \<or> sr_clientGone res \<or> sr_conversionErr res \<and> sr_tried res = {||}")
    case True
    then show thesis
      by (intro stop [of "if sr_committed res then Committed res else if sr_clientGone res then ClientGone res else Unsupported res"])
        (auto simp: unf pass honest_status_def)
  next
    case go: False
    show thesis
    proof (cases "fd_Action ?d")
      case FailureTerminal
      with go DecideFailure_rate_limited [of ?i] show thesis
        by (intro stop [of "Failed res ?d"]) (auto simp: unf pass Let_def honest_status_def)
    next
      case FailureWait
      obtain present w2 where wait: "en_wait env (fd_Wait ?d) w1 = (present, w2)"
        by fastforce
      have rnd: "rnd < 2" "0 \<le> fd_Wait ?d" "fd_Wait ?d \<le> RetryWaitDuration knobs"
        using continue_round(1) [OF FailureWait] DecideFailure_wait [OF FailureWait] by simp_all
      show thesis
      proof (cases present)
        case True
        with go FailureWait wait show thesis
          by (intro again [OF rnd, where res = res and w' = w2]) (simp add: unf pass Let_def split_beta)
      next
        case False
        with go FailureWait wait show thesis
          by (intro gone [OF _ rnd, where res = res]) (simp add: unf pass Let_def)
      qed
    next
      case FailureRetryNow
      have rnd: "rnd < 2" "0 \<le> (0 :: duration)" "0 \<le> RetryWaitDuration knobs"
        using continue_round(2) [OF FailureRetryNow] DecideFailure_retry_pos [of ?i] FailureRetryNow by simp_all
      with go FailureRetryNow show thesis
        by (intro again [OF rnd, where res = res and w' = w1]) (simp add: unf pass Let_def split_beta)
    qed
  qed
qed

lemma serve_loop_props:
  assumes "rnd \<le> 2"
  shows "int (length (snd (fst (serve_loop env knobs targets forced maxAge rnd h c w)))) \<le> 2 - rnd \<and>
   list_all (\<lambda>(_, d). 0 \<le> d \<and> d \<le> RetryWaitDuration knobs) (snd (fst (serve_loop env knobs targets forced maxAge rnd h c w))) \<and>
   honest_status h (fst (serve_loop env knobs targets forced maxAge rnd h c w))"
  using assms
proof (induction "nat (2 - rnd)" arbitrary: rnd h c w rule: less_induct)
  case less
  show ?case
  proof (cases rule: serve_loop_step [of env knobs targets forced maxAge rnd h c w, case_names stop gone again])
    case (stop out)
    with less.prems show ?thesis by simp
  next
    case (gone res d)
    then show ?thesis by (simp add: honest_status_def)
  next
    case (again res d w')
    let ?r = "fst (serve_loop env knobs targets forced maxAge (rnd + 1) (h \<or> sr_sawHard res) (c \<or> sr_sawCooldown res) w')"
    have "int (length (snd ?r)) \<le> 2 - (rnd + 1) \<and> list_all (\<lambda>(_, d). 0 \<le> d \<and> d \<le> RetryWaitDuration knobs) (snd ?r) \<and>
        honest_status (h \<or> sr_sawHard res) ?r"
      using again(1) by (intro less.hyps) auto
    then show ?thesis
      using again(2,3) unfolding again(4) [OF refl] by (auto simp: honest_status_def split: serve_outcome.splits)
  qed
qed

text \<open>
  C10. Serving a request ends after at most three passes, and its status is honest: whatever the
  environment does, the loop returns, at most two passes are repeated, no wait is longer than the
  configured retry wait (so the client waits at most twice that), and a terminal rate-limit answer is
  given only if no pass saw a hard failure, with a retry-after of at least one second.
\<close>

theorem serve_loop_bounded:
  assumes "serve_loop env knobs targets forced maxAge 0 False False w = ((out, passes), w')"
  shows "length passes \<le> 2 \<and> list_all (\<lambda>(_, d). 0 \<le> d \<and> d \<le> RetryWaitDuration knobs) passes \<and>
    (case out of
       Failed res d \<Rightarrow> fd_Action d = FailureTerminal \<and>
         (fd_RateLimited d \<longrightarrow> \<not> sr_sawHard res \<and> list_all (\<lambda>(p, _). \<not> sr_sawHard p) passes \<and> 1 \<le> fd_RetryAfterSeconds d)
     | _ \<Rightarrow> True)"
  using serve_loop_props [of 0 env knobs targets forced maxAge False False w] assms
  by (simp add: honest_status_def split: serve_outcome.splits)

text \<open>An environment whose two targets are rate-limited for five seconds and never recover.\<close>

definition ex_env :: "(Manager \<times> gotime) environment" where
  "ex_env =
     \<lparr> en_manager = fst, en_now = snd,
       en_serveOnce = (\<lambda>w. (\<lparr> sr_committed = False, sr_tried = {||}, sr_sawHard = False, sr_sawCooldown = True,
          sr_clientGone = False, sr_conversionErr = False, sr_planningErr = False, sr_committedBodyBytes = 0,
          sr_effectiveTargets = [] \<rparr>, w)),
       en_wait = (\<lambda>d w. (True, w)) \<rparr>"

theorem serve_loop_bounded_witness:
  fixes w :: "Manager \<times> gotime"
  defines "w \<equiv> (newManager \<lparr> m_health := fmupd ''a'' (newHealth \<lparr> ph_rateLimitedUntil := 1000 + 5 * second \<rparr>) fmempty \<rparr>, 1000)"
  shows "length (snd (fst (serve_loop ex_env ex_scheduling [ex_rt ''a'' ''m'' 1] [] 500 0 False False w))) = 2 \<and>
    list_all (\<lambda>(_, d). 0 \<le> d \<and> d \<le> 10 * second)
      (snd (fst (serve_loop ex_env ex_scheduling [ex_rt ''a'' ''m'' 1] [] 500 0 False False w)))"
proof -
  let ?r = "serve_loop ex_env ex_scheduling [ex_rt ''a'' ''m'' 1] [] 500 0 False False w"
  have "length (snd (fst ?r)) = 2"
    unfolding w_def by code_simp
  moreover have "RetryWaitDuration ex_scheduling = 10 * second"
    by code_simp
  moreover have "?r = ((fst (fst ?r), snd (fst ?r)), snd ?r)"
    by simp
  from serve_loop_bounded [OF this] have "list_all (\<lambda>(_, d). 0 \<le> d \<and> d \<le> RetryWaitDuration ex_scheduling) (snd (fst ?r))"
    by blast
  ultimately show ?thesis
    by simp
qed

subsection \<open>Escalation takes effect\<close>

lemma latch_target_name:
  assumes "CHR ''/'' \<notin> set (rtg_Provider t)"
  shows "latch_target (target_name t) = Some (t \<lparr> rtg_Priority := 0, rtg_Protocol := [], rtg_Rubric := [] \<rparr>)"
proof -
  have "cut_before (CHR ''/'') (rtg_Provider t @ ''/'' @ rtg_Model t) = rtg_Provider t"
    using assms by (auto simp: cut_before_def takeWhile_append)
  then show ?thesis
    by (simp add: latch_target_def target_name_def)
qed

lemma target_matches_cong:
  "rtg_Provider a = rtg_Provider b \<Longrightarrow> rtg_Model a = rtg_Model b \<Longrightarrow> target_matches par a = target_matches par b"
  by (auto simp: target_matches_def)

text \<open>
  The bad signals of a request: it ended in an upstream error, it committed an empty answer, or its turn
  repeats one of the same session and route within the dwell. Only configured signals count.
\<close>

definition repeated_turn :: "string \<Rightarrow> string \<Rightarrow> string \<Rightarrow> gotime \<Rightarrow> EscalationConfig \<Rightarrow> Manager \<Rightarrow> bool" where
  "repeated_turn sk route turnKey now esc m \<longleftrightarrow>
     turnKey \<noteq> [] \<and>
     (\<exists>w e. fmlookup (m_repeatTurns m) (RepeatTurnKey sk route) = Some w \<and> e \<in> set (rw_Entries w) \<and>
        re_TurnKey e = turnKey \<and> now - DwellDuration esc \<le> re_At e)"

definition bad_signals :: "string \<Rightarrow> string \<Rightarrow> string \<Rightarrow> gotime \<Rightarrow> EscalationConfig \<Rightarrow> serveResult \<Rightarrow> Manager \<Rightarrow> string set" where
  "bad_signals sk route turnKey now esc res m =
     {s \<in> set (ec_BadSignals esc).
        s = ''upstream_error'' \<and> \<not> sr_committed res \<and> \<not> sr_clientGone res \<or>
        s = ''empty_ok'' \<and> sr_committed res \<and> \<not> sr_clientGone res \<and> sr_committedBodyBytes res = 0 \<or>
        s = ''repeat_turn'' \<and> repeated_turn sk route turnKey now esc m}"

text \<open>The bad signals counted so far; a latch that outlived its dwell counts for nothing.\<close>

definition bad_streak :: "Manager \<Rightarrow> string \<Rightarrow> string \<Rightarrow> EscalationConfig \<Rightarrow> gotime \<Rightarrow> int" where
  "bad_streak m sk route esc now =
     (case LatchValue m sk route of
        None \<Rightarrow> 0
      | Some l \<Rightarrow> if DwellDuration esc < time_sub now (la_Since l) then 0 else la_BadRuns l)"

text \<open>The grade an escalation of a graded route goes to, when its target names one.\<close>

definition escalation_grade :: "RoutePolicy \<Rightarrow> EscalationConfig \<Rightarrow> string option" where
  "escalation_grade policy esc =
     (if ec_Grade esc \<noteq> [] then (if fmlookup (rp_Grades policy) (ec_Grade esc) = None then None else Some (ec_Grade esc))
      else if CHR ''/'' \<in> set (rtg_Provider (ec_Target esc)) \<or> HasPrefix (rtg_Provider (ec_Target esc)) ''grade:'' then None
      else (let (g, ambiguous) = GradeForTarget (ec_Target esc) (rp_Grades policy)
            in if ambiguous \<or> g = [] then None else Some g))"

lemma DwellDuration_pos: "0 < DwellDuration esc"
  by (auto simp: DwellDuration_def minute_def second_def split: option.split)

lemma CheckRepeatTurn_repeated:
  assumes "sk \<noteq> []" "route \<noteq> []" "turnKey \<noteq> []" "generationMatches m g"
  shows "fst (CheckRepeatTurn sk route turnKey now (DwellDuration esc) g m) = repeated_turn sk route turnKey now esc m"
    "m_latch (snd (CheckRepeatTurn sk route turnKey now (DwellDuration esc) g m)) = m_latch m"
    "generationMatches (snd (CheckRepeatTurn sk route turnKey now (DwellDuration esc) g m)) g"
proof -
  have d: "\<not> DwellDuration esc \<le> 0" using DwellDuration_pos [of esc] by simp
  let ?turns = "sweep_turns route (now - DwellDuration esc) (m_repeatTurns m)"
  have w: "e \<in> set (rw_Entries (fmget \<lparr> rw_Entries = [] \<rparr> ?turns (RepeatTurnKey sk route))) \<longleftrightarrow>
      (\<exists>w. fmlookup (m_repeatTurns m) (RepeatTurnKey sk route) = Some w \<and> e \<in> set (rw_Entries w) \<and>
        now - DwellDuration esc \<le> re_At e)" for e
    by (auto simp: sweep_turns_def fmget_def keep_recent_def filter_empty_conv split: option.splits if_splits)
  show "fst (CheckRepeatTurn sk route turnKey now (DwellDuration esc) g m) = repeated_turn sk route turnKey now esc m"
    using assms d w by (auto simp: CheckRepeatTurn_def repeated_turn_def list_ex_iff Let_def)
  show "m_latch (snd (CheckRepeatTurn sk route turnKey now (DwellDuration esc) g m)) = m_latch m"
    "generationMatches (snd (CheckRepeatTurn sk route turnKey now (DwellDuration esc) g m)) g"
    using assms by (simp_all add: CheckRepeatTurn_def Let_def generationMatches_def)
qed

lemma RecordLatchOutcome_value:
  assumes "generationMatches m g" "lo_SessionKey i \<noteq> []" "lo_Route i \<noteq> []" "0 < lo_BadSignals i"
    and "streak = (case LatchValue m (lo_SessionKey i) (lo_Route i) of
           None \<Rightarrow> 0 | Some l \<Rightarrow> if lo_Dwell i < time_sub (lo_Now i) (la_Since l) then 0 else la_BadRuns l)"
  shows "if lo_Consecutive i \<le> lo_BadSignals i + streak
    then LatchValue (snd (RecordLatchOutcome i g m)) (lo_SessionKey i) (lo_Route i) =
      Some \<lparr> la_Target = lo_Target i, la_Since = lo_Now i, la_BadRuns = 0 \<rparr>
    else \<exists>l. LatchValue (snd (RecordLatchOutcome i g m)) (lo_SessionKey i) (lo_Route i) = Some l \<and>
      la_BadRuns l = lo_BadSignals i + streak \<and>
      la_Target l = (case LatchValue m (lo_SessionKey i) (lo_Route i) of
         None \<Rightarrow> [] | Some l \<Rightarrow> if lo_Dwell i < time_sub (lo_Now i) (la_Since l) then [] else la_Target l)"
  using assms by (auto simp: RecordLatchOutcome_def LatchValue_def noLatch_def Let_def add.commute split: option.splits if_splits)

lemma signal_card:
  "int (card {s \<in> set ss. s = ''upstream_error'' \<and> a \<or> s = ''empty_ok'' \<and> b \<or> s = ''repeat_turn'' \<and> c}) =
   (if a \<and> ''upstream_error'' \<in> set ss then 1 else 0) + (if b \<and> ''empty_ok'' \<in> set ss then 1 else 0) +
   (if c \<and> ''repeat_turn'' \<in> set ss then 1 else 0)"
proof -
  have "{s \<in> set ss. s = ''upstream_error'' \<and> a \<or> s = ''empty_ok'' \<and> b \<or> s = ''repeat_turn'' \<and> c} =
      (if a \<and> ''upstream_error'' \<in> set ss then {''upstream_error''} else {}) \<union>
      (if b \<and> ''empty_ok'' \<in> set ss then {''empty_ok''} else {}) \<union>
      (if c \<and> ''repeat_turn'' \<in> set ss then {''repeat_turn''} else {})"
    by auto
  then show ?thesis by simp
qed

text \<open>A request with a bad signal is recorded with their number.\<close>

lemma recordLatchOutcome_value:
  assumes esc: "rp_Escalation policy = Some esc" and sk: "sk \<noteq> []" "exposed \<noteq> []" "generationMatches m g"
    and rec: "\<not> (sr_tried res = {||} \<and> (sr_conversionErr res \<or> sr_planningErr res))"
    and n: "n = int (card (bad_signals sk exposed turnKey now esc res m))" "0 < n"
  shows "if ec_Consecutive esc \<le> n + bad_streak m sk exposed esc now
    then LatchValue (recordLatchOutcome (Some policy) sk exposed turnKey g now res m) sk exposed =
      Some \<lparr> la_Target = latch_outcome_target policy esc, la_Since = now, la_BadRuns = 0 \<rparr>
    else \<exists>l. LatchValue (recordLatchOutcome (Some policy) sk exposed turnKey g now res m) sk exposed = Some l \<and>
      la_BadRuns l = n + bad_streak m sk exposed esc now \<and>
      la_Target l = (case LatchValue m sk exposed of
         None \<Rightarrow> [] | Some l \<Rightarrow> if DwellDuration esc < time_sub now (la_Since l) then [] else la_Target l)"
proof -
  let ?check = "turnKey \<noteq> [] \<and> ''repeat_turn'' \<in> set (ec_BadSignals esc)"
  define rm where "rm = (if ?check then CheckRepeatTurn sk exposed turnKey now (DwellDuration esc) g m else (False, m))"
  have repeated: "fst rm \<longleftrightarrow> repeated_turn sk exposed turnKey now esc m \<and> ''repeat_turn'' \<in> set (ec_BadSignals esc)"
    using CheckRepeatTurn_repeated(1) [OF sk(1,2) _ sk(3)] by (auto simp: rm_def repeated_turn_def)
  have kept: "LatchValue (snd rm) = LatchValue m" "generationMatches (snd rm) g"
    using CheckRepeatTurn_repeated(2,3) [OF sk(1,2) _ sk(3)] sk(3) by (auto simp: rm_def LatchValue_def fun_eq_iff)
  define cnt :: int where "cnt = (if \<not> sr_committed res \<and> \<not> sr_clientGone res \<and> ''upstream_error'' \<in> set (ec_BadSignals esc) then 1 else 0) +
      (if sr_committed res \<and> \<not> sr_clientGone res \<and> ''empty_ok'' \<in> set (ec_BadSignals esc) \<and> sr_committedBodyBytes res = 0 then 1 else 0) +
      (if fst rm then 1 else 0)"
  have cnt: "cnt = n"
    unfolding n(1) bad_signals_def cnt_def signal_card repeated by simp
  let ?i = "\<lparr> lo_SessionKey = sk, lo_Route = exposed, lo_Now = now, lo_Dwell = DwellDuration esc,
     lo_Consecutive = ec_Consecutive esc, lo_Target = latch_outcome_target policy esc, lo_BadSignals = n, lo_Good = False \<rparr>"
  have "recordLatchOutcome (Some policy) sk exposed turnKey g now res m =
      (if cnt = 0 \<and> \<not> (cnt = 0 \<and> sr_committed res \<and> \<not> sr_clientGone res) then snd rm
       else snd (RecordLatchOutcome
         \<lparr> lo_SessionKey = sk, lo_Route = exposed, lo_Now = now, lo_Dwell = DwellDuration esc,
           lo_Consecutive = ec_Consecutive esc, lo_Target = latch_outcome_target policy esc,
           lo_BadSignals = cnt, lo_Good = (cnt = 0 \<and> sr_committed res \<and> \<not> sr_clientGone res) \<rparr> g (snd rm)))"
    unfolding recordLatchOutcome_def option.case esc if_not_P [OF rec] if_not_P [OF sk(1)] Let_def split_beta rm_def cnt_def
    by (rule refl)
  then have "recordLatchOutcome (Some policy) sk exposed turnKey g now res m = snd (RecordLatchOutcome ?i g (snd rm))"
    using cnt n(2) by simp
  note eq = this
  have streak: "bad_streak m sk exposed esc now = (case LatchValue (snd rm) (lo_SessionKey ?i) (lo_Route ?i) of
      None \<Rightarrow> 0 | Some l \<Rightarrow> if lo_Dwell ?i < time_sub (lo_Now ?i) (la_Since l) then 0 else la_BadRuns l)"
    unfolding bad_streak_def kept(1) LatchOutcome.select_convs by (rule refl)
  have ne: "lo_SessionKey ?i \<noteq> []" "lo_Route ?i \<noteq> []" "0 < lo_BadSignals ?i" using sk(1,2) n(2) by simp_all
  show ?thesis
    using RecordLatchOutcome_value [OF kept(2) ne streak] unfolding eq LatchOutcome.select_convs kept(1) .
qed

lemma GradeForTarget_cong:
  assumes "rtg_Provider a = rtg_Provider b" "rtg_Model a = rtg_Model b"
  shows "GradeForTarget a grades = GradeForTarget b grades"
proof -
  have "grade_scan a grades names found = grade_scan b grades names found" for names found
    using assms by (induction names arbitrary: found) (simp_all add: same_target_def)
  then show ?thesis by (simp add: GradeForTarget_def)
qed

lemma prefix_grade_target:
  assumes "\<not> HasPrefix (rtg_Provider t) ''grade:''" shows "\<not> HasPrefix (target_name t) ''grade:''"
proof
  assume "HasPrefix (target_name t) ''grade:''"
  then consider "prefix ''grade:'' (rtg_Provider t)" | us where "''grade:'' = rtg_Provider t @ us" "prefix us (CHR ''/'' # rtg_Model t)"
    by (auto simp: HasPrefix_def target_name_def prefix_append)
  then show False
  proof cases
    case (2 us)
    show ?thesis
    proof (cases us)
      case (Cons c cs)
      then have "CHR ''/'' \<in> set (rtg_Provider t @ us)" using 2(2) by simp
      then show ?thesis unfolding 2(1) [symmetric] by simp
    qed (use 2(1) assms in \<open>simp add: HasPrefix_def\<close>)
  qed (use assms in \<open>simp add: HasPrefix_def\<close>)
qed

text \<open>The latch an escalation arms resolves to its grade.\<close>

lemma armed_grade:
  assumes "rp_Escalation policy = Some esc" "sk \<noteq> []" "HasGrades policy" "escalation_grade policy esc = Some grade"
    and "LatchValue m sk exposed = Some \<lparr> la_Target = latch_outcome_target policy esc, la_Since = now, la_BadRuns = 0 \<rparr>"
    and "time_sub later now \<le> DwellDuration esc"
  shows "\<exists>v. resolveLatchGrade m sk exposed policy later = Some (grade, v)"
proof (cases "ec_Grade esc = []")
  case False
  then show ?thesis
    using assms by (auto simp: resolveLatchGrade_def latch_outcome_target_def escalation_grade_def HasPrefix_def split: if_splits)
next
  case True
  let ?w = "(ec_Target esc) \<lparr> rtg_Priority := 0, rtg_Protocol := [], rtg_Rubric := [] \<rparr>"
  have slash: "CHR ''/'' \<notin> set (rtg_Provider (ec_Target esc))" "\<not> HasPrefix (target_name (ec_Target esc)) ''grade:''"
    using assms(4) True prefix_grade_target [of "ec_Target esc"] by (auto simp: escalation_grade_def split: if_splits)
  have "GradeForTarget ?w (rp_Grades policy) = GradeForTarget (ec_Target esc) (rp_Grades policy)"
    by (rule GradeForTarget_cong) simp_all
  then show ?thesis
    using assms True slash latch_target_name [OF slash(1)]
    by (auto simp: resolveLatchGrade_def latch_outcome_target_def escalation_grade_def Let_def split: if_splits prod.splits)
qed

text \<open>The latch an escalation arms puts its target first on a route without grades.\<close>

lemma armed_target:
  assumes "rp_Escalation policy = Some esc" "sk \<noteq> []" "\<not> HasGrades policy"
    and "LatchValue m sk exposed = Some \<lparr> la_Target = latch_outcome_target policy esc, la_Since = now, la_BadRuns = 0 \<rparr>"
    and "time_sub later now \<le> DwellDuration esc" "CHR ''/'' \<notin> set (rtg_Provider (ec_Target esc))"
    and "list_ex (target_matches par (ec_Target esc)) ordered"
  shows "\<exists>d. applyRouteLatch m sk exposed ordered policy par later = Some (PreferTarget ordered (ec_Target esc) par, d) \<and>
    target_matches par (ec_Target esc) (hd (PreferTarget ordered (ec_Target esc) par))"
proof -
  let ?w = "(ec_Target esc) \<lparr> rtg_Priority := 0, rtg_Protocol := [], rtg_Rubric := [] \<rparr>"
  have "target_matches par ?w = target_matches par (ec_Target esc)"
    by (rule target_matches_cong) simp_all
  then have idx: "TargetIndex ts ?w par = TargetIndex ts (ec_Target esc) par" for ts
    by (induction ts) simp_all
  have "PreferTarget ordered ?w par = PreferTarget ordered (ec_Target esc) par"
    by (simp add: PreferTarget_def idx)
  moreover have "TargetIndex ordered ?w par \<noteq> None"
    using assms(7) by (simp add: idx TargetIndex_None)
  ultimately show ?thesis
    using assms latch_target_name [OF assms(6)] PreferTarget_hd [OF assms(7)]
    by (simp add: applyRouteLatch_def latch_outcome_target_def)
qed

text \<open>
  C31. Escalation takes effect: when a request of a session shows bad signals that count on its route
  (an upstream error, an empty answer, a repeated turn, or several), and they complete the configured
  streak, then for as long as the latch dwell lasts the session's requests on the route obey the
  escalation, ahead of bands and selector: without grades they try the escalation target first whenever
  it is scheduled, with grades they start with the fitting targets of the escalation's grade. Signals
  that do not complete the streak are counted and change nothing else. The name of the escalation's
  provider must not contain a slash, at which the code splits the latched name.
\<close>

theorem escalation_takes_effect:
  assumes "rp_Escalation policy = Some esc" and "sk \<noteq> []" and "exposed \<noteq> []" and "generationMatches m g"
    and "\<not> (sr_tried res = {||} \<and> (sr_conversionErr res \<or> sr_planningErr res))"
    and "bad_signals sk exposed turnKey now esc res m \<noteq> {}"
    and "n = int (card (bad_signals sk exposed turnKey now esc res m)) + bad_streak m sk exposed esc now"
    and "m' = recordLatchOutcome (Some policy) sk exposed turnKey g now res m"
    and "time_sub later now \<le> DwellDuration esc"
  shows "if ec_Consecutive esc \<le> n
    then
      (\<not> HasGrades policy \<and> CHR ''/'' \<notin> set (rtg_Provider (ec_Target esc)) \<and> list_ex (target_matches par (ec_Target esc)) ordered \<longrightarrow>
        (\<exists>d. applyRouteLatch m' sk exposed ordered policy par later = Some (PreferTarget ordered (ec_Target esc) par, d) \<and>
          target_matches par (ec_Target esc) (hd (PreferTarget ordered (ec_Target esc) par)))) \<and>
      (\<forall>grade t. HasGrades policy \<and> escalation_grade policy esc = Some grade \<and> t \<in> set ordered \<and>
          gradeOfTarget t (rp_Grades policy) (fs_ParentOf rt) = grade \<and> grade_fit rt profile t \<longrightarrow>
        prefix (filter (\<lambda>u. gradeOfTarget u (rp_Grades policy) (fs_ParentOf rt) = grade \<and> grade_fit rt profile u) ordered)
          (fst (fst (applyRoutePolicyGrades cd ordered policy profile sk rt exposed later m' st))))
    else \<exists>l. LatchValue m' sk exposed = Some l \<and> la_BadRuns l = n \<and>
      la_Target l = (case LatchValue m sk exposed of
         None \<Rightarrow> [] | Some l \<Rightarrow> if DwellDuration esc < time_sub now (la_Since l) then [] else la_Target l)"
proof -
  let ?k = "int (card (bad_signals sk exposed turnKey now esc res m))"
  have fin: "finite (bad_signals sk exposed turnKey now esc res m)" by (simp add: bad_signals_def)
  then have "0 < ?k" using assms(6) by (simp add: card_gt_0_iff)
  note lv = recordLatchOutcome_value [OF assms(1-5) refl this, folded assms(8)]
  show ?thesis
  proof (cases "ec_Consecutive esc \<le> n")
    case False
    then show ?thesis using lv assms(7) by (simp add: add.commute)
  next
    case True
    then have armed: "LatchValue m' sk exposed = Some \<lparr> la_Target = latch_outcome_target policy esc, la_Since = now, la_BadRuns = 0 \<rparr>"
      using lv assms(7) by simp
    have graded: "prefix (filter (\<lambda>u. gradeOfTarget u (rp_Grades policy) (fs_ParentOf rt) = grade \<and> grade_fit rt profile u) ordered)
          (fst (fst (applyRoutePolicyGrades cd ordered policy profile sk rt exposed later m' st)))"
      if g: "HasGrades policy" "escalation_grade policy esc = Some grade" "t \<in> set ordered"
        "gradeOfTarget t (rp_Grades policy) (fs_ParentOf rt) = grade" "grade_fit rt profile t" for grade t
    proof -
      let ?p = "applyRoutePolicyGrades cd ordered policy profile sk rt exposed later m' st"
      obtain v where v: "resolveLatchGrade m' sk exposed policy later = Some (grade, v)"
        using armed_grade [OF assms(1,2) g(1,2) armed assms(9)] by blast
      have "grade \<noteq> []" using g(2) by (auto simp: escalation_grade_def Let_def split: if_splits prod.splits)
      moreover have "?p = ((fst (fst ?p), snd (fst ?p)), snd ?p)" by simp
      ultimately show ?thesis using graded_latched [OF v g(3,4) _ g(5)] by blast
    qed
    show ?thesis using True armed_target [OF assms(1,2) _ armed assms(9)] graded by auto
  qed
qed

definition ex_failed :: serveResult where
  "ex_failed =
     \<lparr> sr_committed = False, sr_tried = {|''a''|}, sr_sawHard = True, sr_sawCooldown = False, sr_clientGone = False,
       sr_conversionErr = False, sr_planningErr = False, sr_committedBodyBytes = 0, sr_effectiveTargets = [] \<rparr>"

theorem escalation_takes_effect_witness:
  "\<exists>d. applyRouteLatch (recordLatchOutcome (Some (ex_policy fmempty [])) ''s'' ''q'' ''turn'' 0 900 ex_failed newManager) ''s'' ''q''
      [ex_rt ''a'' ''small'' 1, ex_rt ''b'' ''big'' 2] (ex_policy fmempty []) fmempty 1000 =
    Some ([ex_rt ''b'' ''big'' 2, ex_rt ''a'' ''small'' 1], d)"
proof -
  let ?p = "ex_policy fmempty []" and ?ts = "[ex_rt ''a'' ''small'' 1, ex_rt ''b'' ''big'' 2]"
  let ?esc = "the (rp_Escalation ?p)"
  have h: "\<not> HasGrades ?p" "generationMatches newManager 0" "LatchValue newManager ''s'' ''q'' = None"
    "list_ex (target_matches fmempty (ex_rt ''b'' ''big'' 2)) ?ts"
    "PreferTarget ?ts (ex_rt ''b'' ''big'' 2) fmempty = [ex_rt ''b'' ''big'' 2, ex_rt ''a'' ''small'' 1]"
    "time_sub 1000 900 \<le> DwellDuration ?esc"
    by code_simp+
  have e: "rp_Escalation ?p = Some ?esc" "ec_Target ?esc = ex_rt ''b'' ''big'' 2" "ec_Consecutive ?esc = 1"
    by (simp_all add: ex_policy_def)
  have bad: "bad_signals ''s'' ''q'' ''turn'' 900 ?esc ex_failed newManager = {''upstream_error''}"
    by (auto simp: bad_signals_def ex_policy_def ex_failed_def repeated_turn_def)
  have "\<not> (sr_tried ex_failed = {||} \<and> (sr_conversionErr ex_failed \<or> sr_planningErr ex_failed))" by (simp add: ex_failed_def)
  note effect = escalation_takes_effect [OF e(1) _ _ h(2) this _ refl refl h(6), where sk = "''s''" and exposed = "''q''" and
      turnKey = "''turn''" and par = fmempty and ordered = ?ts]
  show ?thesis
    using effect h e(2,3) by (simp add: bad bad_streak_def) (simp add: ex_rt_def)
qed

text \<open>
  The latched name is split at its first slash, so an escalation to a provider whose name contains one,
  which the map form of a target allows, is armed for another provider.
\<close>

lemma slash_in_provider_misdirects:
  "latch_target (target_name (ex_rt ''a/b'' ''m'' 1)) = Some ((ex_rt ''a'' ''b/m'' 0))"
  by code_simp

end
