(* ===== verification/Resolver.thy ===== *)
theory Resolver
  imports Rotation Config_Model Manager_Routing Manager_Health
begin

unbundle bit_operations_syntax

text \<open>
  Provider identity resolution (\<open>internal/routing/resolver.go\<close>): a configured target, whose provider
  may be the parent of a pool of accounts, becomes one or all of its runnable accounts. The resolver
  sees the mutable runtime through the narrow port \<open>ResolverState\<close>; here the port is a record of
  operations over a state \<open>'s\<close>, \<open>None\<close> for a nil port. The clock reading of a health check is part of
  the port.
\<close>

record 's ResolverState =
  rs_ResolverSpreadStart :: "string \<Rightarrow> nat \<Rightarrow> uint64 \<Rightarrow> 's \<Rightarrow> nat \<times> 's"
  rs_TargetHealthy :: "'s \<Rightarrow> string \<Rightarrow> string \<Rightarrow> bool"
  rs_ModelDisabled :: "'s \<Rightarrow> string \<Rightarrow> string \<Rightarrow> bool"

record 's Resolver =
  rv_state :: "'s ResolverState option"
  rv_providers :: "string fset"
  rv_poolIndex :: "(string, string list) fmap"
  rv_generation :: uint64

definition virtualsOf :: "'s Resolver \<Rightarrow> string \<Rightarrow> string list" where
  "virtualsOf r provider = (case fmlookup (rv_poolIndex r) provider of Some ids \<Rightarrow> ids | None \<Rightarrow> [provider])"

definition Expand :: "'s Resolver \<Rightarrow> RouteTarget \<Rightarrow> RouteTarget list" where
  "Expand r t = map (\<lambda>vid. t \<lparr> rtg_Provider := vid \<rparr>) (virtualsOf r (rtg_Provider t))"

text \<open>FNV-1a on 64 bits, as in \<open>hash/fnv\<close>.\<close>

definition fnv_step :: "uint64 \<Rightarrow> char \<Rightarrow> uint64" where
  "fnv_step h c = (h XOR of_char c) * 1099511628211"

definition stickyHash :: "string \<Rightarrow> uint64" where
  "stickyHash s = foldl fnv_step 14695981039346656037 s"

definition pickStart :: "'s Resolver \<Rightarrow> string \<Rightarrow> nat \<Rightarrow> string \<Rightarrow> 's \<Rightarrow> nat \<times> 's" where
  "pickStart r parent n stickyKey s =
     (if stickyKey \<noteq> [] then (unat (stickyHash stickyKey mod of_nat n), s)
      else case rv_state r of
             None \<Rightarrow> (0, s)
           | Some state \<Rightarrow> rs_ResolverSpreadStart state parent n (rv_generation r) s)"

definition healthy :: "'s Resolver \<Rightarrow> 's \<Rightarrow> string \<Rightarrow> string \<Rightarrow> bool" where
  "healthy r s virtual model = (case rv_state r of None \<Rightarrow> False | Some state \<Rightarrow> rs_TargetHealthy state s virtual model)"

definition built :: "'s Resolver \<Rightarrow> string \<Rightarrow> bool" where
  "built r vid \<longleftrightarrow> vid |\<in>| rv_providers r"

definition Pick :: "'s Resolver \<Rightarrow> RouteTarget \<Rightarrow> string \<Rightarrow> 's \<Rightarrow> RouteTarget option \<times> 's" where
  "Pick r t stickyKey s =
     (if (case rv_state r of None \<Rightarrow> False | Some state \<Rightarrow> rs_ModelDisabled state s (rtg_Provider t) (rtg_Model t))
      then (None, s)
      else
        (let vids = virtualsOf r (rtg_Provider t)
         in if vids = [] then (None, s)
            else if fmlookup (rv_poolIndex r) (rtg_Provider t) = None then
              (if \<not> built r (hd vids) \<or> \<not> healthy r s (hd vids) (rtg_Model t) then (None, s)
               else (Some (t \<lparr> rtg_Provider := hd vids \<rparr>), s))
            else
              (let (start, s') = pickStart r (rtg_Provider t) (length vids) stickyKey s
               in (map_option (\<lambda>vid. t \<lparr> rtg_Provider := vid \<rparr>)
                     (find (\<lambda>vid. built r vid \<and> healthy r s' vid (rtg_Model t))
                       (map (\<lambda>k. vids ! ((start + k) mod length vids)) [0..<length vids])), s'))))"

subsection \<open>The port and what rests on it\<close>

text \<open>
  The laws the resolver relies on: the rotation start lies in the pool, and taking it changes neither
  health nor the operator's overrides.
\<close>

locale resolver_port =
  fixes port :: "'s ResolverState"
  assumes start_range: "0 < n \<Longrightarrow> fst (rs_ResolverSpreadStart port parent n g s) < n"
    and start_health: "rs_TargetHealthy port (snd (rs_ResolverSpreadStart port parent n g s)) v mo =
      rs_TargetHealthy port s v mo"
begin

text \<open>An account that may be picked.\<close>

definition pickable :: "'s Resolver \<Rightarrow> 's \<Rightarrow> string \<Rightarrow> string \<Rightarrow> bool" where
  "pickable r s mo vid \<longleftrightarrow> built r vid \<and> rs_TargetHealthy port s vid mo"

lemma pickStart_range:
  assumes "rv_state r = Some port" "0 < n" "n < 2 ^ 64"
  shows "fst (pickStart r parent n key s) < n"
proof (cases "key = []")
  case True
  with assms start_range show ?thesis by (simp add: pickStart_def)
next
  case False
  have "unat (of_nat n :: uint64) = n"
    using assms(3) by (simp add: unat_of_nat take_bit_eq_mod)
  then have "unat (stickyHash key mod of_nat n) < n"
    using assms(2) by (simp add: unat_mod)
  with False show ?thesis by (simp add: pickStart_def)
qed

lemma pickStart_health:
  assumes "rv_state r = Some port"
  shows "healthy r (snd (pickStart r parent n key s)) v mo = rs_TargetHealthy port s v mo"
  using assms start_health by (simp add: pickStart_def healthy_def)

lemma rotation_covers:
  assumes "0 < length xs"
  shows "set (map (\<lambda>k. xs ! ((start + k) mod length xs)) [0..<length xs]) = set xs"
proof -
  have "map (\<lambda>k. xs ! ((start + k) mod length xs)) [0..<length xs] = rotate start xs"
    by (rule nth_equalityI) (simp_all add: nth_rotate)
  then show ?thesis by simp
qed

lemma Pick_cases:
  assumes port: "rv_state r = Some port" and "\<not> rs_ModelDisabled port s (rtg_Provider t) (rtg_Model t)"
  obtains (picked) vid where "fst (Pick r t key s) = Some (t \<lparr> rtg_Provider := vid \<rparr>)"
      "vid \<in> set (virtualsOf r (rtg_Provider t))" "pickable r s (rtg_Model t) vid"
  | (none) "fst (Pick r t key s) = None" "\<And>v. v \<in> set (virtualsOf r (rtg_Provider t)) \<Longrightarrow> \<not> pickable r s (rtg_Model t) v"
proof (cases "fmlookup (rv_poolIndex r) (rtg_Provider t)")
  case None
  then have v: "virtualsOf r (rtg_Provider t) = [rtg_Provider t]"
    by (simp add: virtualsOf_def)
  have eq: "fst (Pick r t key s) =
      (if pickable r s (rtg_Model t) (rtg_Provider t) then Some (t \<lparr> rtg_Provider := rtg_Provider t \<rparr>) else None)"
    using None v assms by (simp add: Pick_def healthy_def pickable_def)
  show thesis
  proof (cases "pickable r s (rtg_Model t) (rtg_Provider t)")
    case True
    with eq v show thesis by (intro picked [of "rtg_Provider t"]) simp_all
  next
    case False
    with eq v show thesis by (intro none) simp_all
  qed
next
  case (Some ids)
  then have v: "virtualsOf r (rtg_Provider t) = ids"
    by (simp add: virtualsOf_def)
  show thesis
  proof (cases "ids = []")
    case True
    with Some v assms show thesis by (intro none) (simp_all add: Pick_def)
  next
    case False
    let ?st = "pickStart r (rtg_Provider t) (length ids) key s"
    let ?scan = "map (\<lambda>k. ids ! ((fst ?st + k) mod length ids)) [0..<length ids]"
    have scan: "set ?scan = set ids"
      using False by (intro rotation_covers) simp
    have eq: "fst (Pick r t key s) = map_option (\<lambda>vid. t \<lparr> rtg_Provider := vid \<rparr>) (find (pickable r s (rtg_Model t)) ?scan)"
      using Some False v assms
      by (simp add: Pick_def Let_def split_beta pickStart_health pickable_def [abs_def])
    show thesis
    proof (cases "find (pickable r s (rtg_Model t)) ?scan")
      case None
      then show thesis
        using eq v scan by (intro none) (auto dest: find_NoneD)
    next
      case (Some vid)
      then show thesis
        using eq v scan find_SomeD [OF Some] by (intro picked) auto
    qed
  qed
qed

lemma Pick_sticky:
  assumes "rv_state r = Some port" "key \<noteq> []" "\<not> rs_ModelDisabled port s (rtg_Provider t) (rtg_Model t)"
    "fmlookup (rv_poolIndex r) (rtg_Provider t) = Some ids" "ids \<noteq> []"
    and "pickable r s (rtg_Model t) (ids ! (unat (stickyHash key mod of_nat (length ids))))"
    and "length ids < 2 ^ 64"
  shows "Pick r t key s = (Some (t \<lparr> rtg_Provider := ids ! (unat (stickyHash key mod of_nat (length ids))) \<rparr>), s)"
proof -
  let ?i = "unat (stickyHash key mod of_nat (length ids))"
  have start: "pickStart r (rtg_Provider t) (length ids) key s = (?i, s)"
    using assms(2) by (simp add: pickStart_def)
  have "?i < length ids"
    using pickStart_range [OF assms(1), of "length ids" "rtg_Provider t" key s] assms(5,7) start by simp
  moreover have "[0..<length ids] = 0 # [1..<length ids]"
    using assms(5) by (simp add: upt_conv_Cons)
  ultimately show ?thesis
    using assms start by (simp add: Pick_def Let_def virtualsOf_def pickable_def healthy_def)
qed

end

subsection \<open>The port of the Manager\<close>

definition manager_port :: "gotime \<Rightarrow> Manager ResolverState" where
  "manager_port now =
     \<lparr> rs_ResolverSpreadStart = ResolverSpreadStart, rs_TargetHealthy = (\<lambda>m v mo. TargetHealthy m v mo now),
       rs_ModelDisabled = ModelDisabled \<rparr>"

interpretation mp: resolver_port "manager_port now" for now
proof
  fix n parent g m assume "0 < (n :: nat)"
  then show "fst (rs_ResolverSpreadStart (manager_port now) parent n g m) < n"
    by (simp add: manager_port_def ResolverSpreadStart_def Let_def)
next
  fix parent n g m v mo
  show "rs_TargetHealthy (manager_port now) (snd (rs_ResolverSpreadStart (manager_port now) parent n g m)) v mo =
      rs_TargetHealthy (manager_port now) m v mo"
    by (simp add: manager_port_def ResolverSpreadStart_def Let_def TargetHealthy_def provider_available_def modelLocked_def)
qed

definition NewResolver :: "gotime \<Rightarrow> string fset \<Rightarrow> (string, string list) fmap \<Rightarrow> uint64 list \<Rightarrow> Manager Resolver" where
  "NewResolver now providers poolIndex generations =
     \<lparr> rv_state = Some (manager_port now), rv_providers = providers, rv_poolIndex = poolIndex,
       rv_generation = (case generations of [] \<Rightarrow> 0 | g # _ \<Rightarrow> g) \<rparr>"

text \<open>
  Resolving a target to one account is sound and complete: on an enabled target the resolver
  returns an account of the target's provider that has a runtime instance, is healthy and not locked
  for the model, with the rest of the target unchanged; and it returns none only if no account of the
  provider qualifies. A session key is honoured: the account its hash selects is returned, with no
  state changed, whenever that account qualifies.
\<close>

theorem Pick_healthy_account:
  fixes now providers poolIndex gens and m :: Manager and t :: RouteTarget
  defines "r \<equiv> NewResolver now providers poolIndex gens"
  defines "ok \<equiv> \<lambda>v. v |\<in>| providers \<and> TargetHealthy m v (rtg_Model t) now"
  assumes "\<not> ModelDisabled m (rtg_Provider t) (rtg_Model t)"
  shows "(case fst (Pick r t key m) of
       Some u \<Rightarrow> rtg_Provider u \<in> set (virtualsOf r (rtg_Provider t)) \<and> ok (rtg_Provider u) \<and>
         u = t \<lparr> rtg_Provider := rtg_Provider u \<rparr>
     | None \<Rightarrow> \<not> list_ex ok (virtualsOf r (rtg_Provider t))) \<and>
    (\<forall>ids. fmlookup poolIndex (rtg_Provider t) = Some ids \<and> ids \<noteq> [] \<and> length ids < 2 ^ 64 \<and> key \<noteq> [] \<and>
       ok (ids ! unat (stickyHash key mod of_nat (length ids))) \<longrightarrow>
       Pick r t key m = (Some (t \<lparr> rtg_Provider := ids ! unat (stickyHash key mod of_nat (length ids)) \<rparr>), m))"
proof (intro conjI allI impI)
  have port: "rv_state r = Some (manager_port now)"
    and en: "\<not> rs_ModelDisabled (manager_port now) m (rtg_Provider t) (rtg_Model t)"
    using assms(3) by (simp_all add: r_def NewResolver_def manager_port_def)
  have ok: "mp.pickable now r m (rtg_Model t) v = ok v" for v
    unfolding mp.pickable_def by (simp add: r_def NewResolver_def built_def ok_def manager_port_def)
  show "case fst (Pick r t key m) of
       Some u \<Rightarrow> rtg_Provider u \<in> set (virtualsOf r (rtg_Provider t)) \<and> ok (rtg_Provider u) \<and>
         u = t \<lparr> rtg_Provider := rtg_Provider u \<rparr>
     | None \<Rightarrow> \<not> list_ex ok (virtualsOf r (rtg_Provider t))"
    by (rule mp.Pick_cases [OF port en, where key = key]) (auto simp: ok list_ex_iff)
  fix ids
  assume a: "fmlookup poolIndex (rtg_Provider t) = Some ids \<and> ids \<noteq> [] \<and> length ids < 2 ^ 64 \<and> key \<noteq> [] \<and>
       ok (ids ! unat (stickyHash key mod of_nat (length ids)))"
  then have "fmlookup (rv_poolIndex r) (rtg_Provider t) = Some ids"
    by (simp add: r_def NewResolver_def)
  with mp.Pick_sticky [OF port _ en this] a ok
  show "Pick r t key m = (Some (t \<lparr> rtg_Provider := ids ! unat (stickyHash key mod of_nat (length ids)) \<rparr>), m)"
    by simp
qed

theorem Pick_healthy_account_witness:
  "fst (Pick (NewResolver 1000 {|''p#1'', ''p#2''|} (fmap_of_list [(''p'', [''p#1'', ''p#2''])]) [])
      \<lparr> rtg_Provider = ''p'', rtg_Model = ''m'', rtg_Priority = 1, rtg_Protocol = [], rtg_Rubric = [] \<rparr> ''s'' newManager) \<noteq> None"
proof -
  let ?t = "\<lparr> rtg_Provider = ''p'', rtg_Model = ''m'', rtg_Priority = 1, rtg_Protocol = [], rtg_Rubric = [] \<rparr>"
  let ?r = "NewResolver 1000 {|''p#1'', ''p#2''|} (fmap_of_list [(''p'', [''p#1'', ''p#2''])]) []"
  have "\<not> ModelDisabled newManager (rtg_Provider ?t) (rtg_Model ?t)"
    by code_simp
  moreover have "list_ex (\<lambda>v. v |\<in>| {|''p#1'', ''p#2''|} \<and> TargetHealthy newManager v (rtg_Model ?t) 1000)
      (virtualsOf ?r (rtg_Provider ?t))"
    by code_simp
  ultimately show ?thesis
    using Pick_healthy_account [where m = newManager and t = ?t and now = 1000 and providers = "{|''p#1'', ''p#2''|}"
        and poolIndex = "fmap_of_list [(''p'', [''p#1'', ''p#2''])]" and gens = "[]" and key = "''s''"]
    by (auto split: option.splits)
qed

subsection \<open>Round-robin without a session\<close>

definition pick_account ::
  "gotime \<Rightarrow> string fset \<Rightarrow> (string, string list) fmap \<Rightarrow> uint64 \<Rightarrow> RouteTarget \<Rightarrow> Manager \<Rightarrow> string \<times> Manager" where
  "pick_account now providers poolIndex g t m =
     (let (u, m') = Pick (NewResolver now providers poolIndex [g]) t [] m
      in (case u of None \<Rightarrow> [] | Some u \<Rightarrow> rtg_Provider u, m'))"

definition spread_request ::
  "gotime \<Rightarrow> string fset \<Rightarrow> (string, string list) fmap \<Rightarrow> uint64 \<Rightarrow> string \<Rightarrow> string list \<Rightarrow> Manager \<Rightarrow> RouteTarget \<Rightarrow> bool" where
  "spread_request now providers poolIndex g parent ids m t \<longleftrightarrow>
     rtg_Provider t = parent \<and> fmlookup poolIndex parent = Some ids \<and> ids \<noteq> [] \<and> generationMatches m g \<and>
     \<not> ModelDisabled m parent (rtg_Model t) \<and>
     list_all (\<lambda>v. v |\<in>| providers \<and> TargetHealthy m v (rtg_Model t) now) ids"

lemma spread_step:
  assumes "spread_request now providers poolIndex g parent ids m t"
  shows "pick_account now providers poolIndex g t m =
    (ids ! (unat (fmget 0 (m_spread m) parent) mod length ids),
     m \<lparr> m_spread := fmupd parent (fmget 0 (m_spread m) parent + 1) (m_spread m) \<rparr>)"
proof -
  let ?i = "unat (fmget 0 (m_spread m) parent) mod length ids"
  let ?m = "m \<lparr> m_spread := fmupd parent (fmget 0 (m_spread m) parent + 1) (m_spread m) \<rparr>"
  let ?r = "NewResolver now providers poolIndex [g]"
  have req: "rtg_Provider t = parent" "fmlookup poolIndex parent = Some ids" "ids \<noteq> []" "generationMatches m g"
      "\<not> ModelDisabled m parent (rtg_Model t)"
    and all: "\<And>v. v \<in> set ids \<Longrightarrow> v |\<in>| providers \<and> TargetHealthy m v (rtg_Model t) now"
    using assms by (auto simp: spread_request_def list_all_iff)
  have start: "pickStart ?r parent (length ids) [] m = (?i, ?m)"
    using req by (simp add: pickStart_def NewResolver_def manager_port_def ResolverSpreadStart_def Let_def)
  have "?i < length ids"
    using req(3) by simp
  then have "healthy ?r ?m (ids ! ?i) (rtg_Model t)" "built ?r (ids ! ?i)"
    using all [of "ids ! ?i"]
    by (simp_all add: healthy_def built_def NewResolver_def manager_port_def TargetHealthy_def provider_available_def modelLocked_def)
  moreover have "[0..<length ids] = 0 # [1..<length ids]"
    using req(3) by (simp add: upt_conv_Cons)
  moreover have "rs_ModelDisabled (manager_port now) m parent (rtg_Model t) = False" "rv_state ?r = Some (manager_port now)"
    "fmlookup (rv_poolIndex ?r) parent = Some ids"
    using req by (simp_all add: manager_port_def NewResolver_def)
  ultimately show ?thesis
    using req(1,3) start by (simp add: pick_account_def Pick_def Let_def virtualsOf_def)
qed

interpretation account: rotation "pick_account now providers poolIndex g" "\<lambda>m. fmget 0 (m_spread m) parent" ids
    "spread_request now providers poolIndex g parent ids"
  for now providers poolIndex g parent ids
proof
  fix m t assume r: "spread_request now providers poolIndex g parent ids m t"
  then show "ids \<noteq> [] \<and> fst (pick_account now providers poolIndex g t m) = ids ! (unat (fmget 0 (m_spread m) parent) mod length ids)"
    unfolding spread_step [OF r] by (simp add: spread_request_def)
  show "fmget 0 (m_spread (snd (pick_account now providers poolIndex g t m))) parent = fmget 0 (m_spread m) parent + 1"
    by (simp add: spread_step [OF r])
next
  fix m t u assume r: "spread_request now providers poolIndex g parent ids m t" "spread_request now providers poolIndex g parent ids m u"
  then show "spread_request now providers poolIndex g parent ids (snd (pick_account now providers poolIndex g u m)) t"
    by (simp add: spread_step [OF r(2)])
      (simp add: spread_request_def generationMatches_def ModelDisabled_def TargetHealthy_def provider_available_def modelLocked_def)
qed

text \<open>Without a session the resolver fills a healthy pool evenly: one round of picks visits every account once.\<close>

lemma resolver_spread_even:
  assumes "list_all (spread_request now providers poolIndex g parent ids m) ts" "length ts = length ids"
    and "unat (fmget 0 (m_spread m) parent) + length ts \<le> 2 ^ 64"
  shows "mset (run_outs (pick_account now providers poolIndex g) ts m) = mset ids"
  using assms by (rule account.even_round)

end
