(* ===== verification/Routes.thy ===== *)
theory Routes
  imports Resolver Wirecap
begin

text \<open>
  The route table (\<open>internal/routing/implicit_routes.go\<close>) and what is known of the wire protocols of
  its targets (\<open>internal/routing/native_protocol.go\<close>), with the request-time choice of the backend
  protocol (\<open>internal/app/wirecap.go\<close>). Routes are derived from the providers' model lists, explicit
  entries override them by name, and pooled targets fan out into their accounts.
\<close>

subsection \<open>Deriving routes\<close>

definition derived_target :: "string \<Rightarrow> Provider \<Rightarrow> string \<Rightarrow> RouteTarget" where
  "derived_target name prov m =
     \<lparr> rtg_Provider = name, rtg_Model = m, rtg_Priority = pv_Priority prov,
       rtg_Protocol = (let hint = ProtocolHint (pv_Provider prov) m in if hint \<noteq> [] then hint else []), rtg_Rubric = [] \<rparr>"

definition derived_pairs :: "Config \<Rightarrow> (string \<times> RouteTarget) list" where
  "derived_pairs cfg =
     concat (map (\<lambda>name. let prov = fmget noProvider (cf_Providers cfg) name
                          in map (\<lambda>m. (ExposedModelName prov m, derived_target name prov m)) (pv_Models prov))
       (fmkeys (cf_Providers cfg)))"

definition append_route ::
  "(string, RouteTarget list) fmap \<Rightarrow> string \<times> RouteTarget \<Rightarrow> (string, RouteTarget list) fmap" where
  "append_route out e = fmupd (fst e) (fmget [] out (fst e) @ [snd e]) out"

definition DeriveRoutesFrom :: "Config \<Rightarrow> (string, RouteTarget list) fmap" where
  "DeriveRoutesFrom cfg =
     fmmap (sort_key (\<lambda>t. (rtg_Priority t, rtg_Provider t))) (foldl append_route fmempty (derived_pairs cfg))"

definition FillTargetPriorities :: "Config \<Rightarrow> RouteTarget list \<Rightarrow> RouteTarget list" where
  "FillTargetPriorities cfg targets =
     map (\<lambda>t. if rtg_Priority t = 0
               then (case fmlookup (cf_Providers cfg) (rtg_Provider t) of
                       None \<Rightarrow> t
                     | Some prov \<Rightarrow> t \<lparr> rtg_Priority := pv_Priority prov \<rparr>)
               else t) targets"

definition RouteTable :: "Config \<Rightarrow> (string, RouteTarget list) fmap" where
  "RouteTable cfg =
     foldl (\<lambda>out exposed. fmupd exposed (FillTargetPriorities cfg (fmget [] (cf_Routes cfg) exposed)) out)
       (DeriveRoutesFrom cfg) (fmkeys (cf_Routes cfg))"

definition expand_all :: "(RouteTarget \<Rightarrow> RouteTarget list) \<Rightarrow> RouteTarget list \<Rightarrow> RouteTarget list" where
  "expand_all expand ts = concat (map expand ts)"

definition BuildExpandedRoutes ::
  "Config \<Rightarrow> (string, RouteTarget list) fmap \<Rightarrow> (RouteTarget \<Rightarrow> RouteTarget list) \<Rightarrow> (string, RouteTarget list) fmap" where
  "BuildExpandedRoutes cfg derived expand =
     (let out = foldl (\<lambda>out exposed. fmupd exposed
                  (expand_all expand (FillTargetPriorities cfg (fmget [] (cf_Routes cfg) exposed))) out)
                fmempty (fmkeys (cf_Routes cfg))
      in foldl (\<lambda>out exposed. if fmlookup out exposed \<noteq> None then out
                              else fmupd exposed (expand_all expand (fmget [] derived exposed)) out)
           out (fmkeys derived))"

definition RouteModelsForProvider :: "Config \<Rightarrow> string \<Rightarrow> string list" where
  "RouteModelsForProvider cfg provName =
     sort (remdups (map rtg_Model (filter (\<lambda>t. rtg_Provider t = provName)
       (concat (map (fmget [] (RouteTable cfg)) (fmkeys (RouteTable cfg)))))))"

subsection \<open>Native protocols\<close>

datatype Tri = TriUnknown | TriYes | TriNo

record ModelProtocolVerdict =
  mv_Chat :: Tri
  mv_Anthropic :: Tri
  mv_Responses :: Tri

definition settle :: "Tri \<Rightarrow> string \<Rightarrow> bool \<Rightarrow> string fset \<Rightarrow> string fset" where
  "settle leg proto declared out =
     (case leg of
        TriYes \<Rightarrow> finsert proto out
      | TriUnknown \<Rightarrow> if declared then finsert proto out else out
      | TriNo \<Rightarrow> out)"

text \<open>A nil set and an empty one both mean that nothing is known.\<close>

definition NativeProtocolsWithVerdict ::
  "Config \<Rightarrow> RouteTarget \<Rightarrow> ModelProtocolVerdict option \<Rightarrow> string fset" where
  "NativeProtocolsWithVerdict cfg t v =
     (if rtg_Protocol t \<noteq> [] then {|rtg_Protocol t|}
      else case fmlookup (cf_Providers cfg) (rtg_Provider t) of
             None \<Rightarrow> {||}
           | Some prov \<Rightarrow>
               (let hint = ProtocolHint (pv_Provider prov) (rtg_Model t)
                in if hint \<noteq> [] then {|hint|}
                   else case v of
                          None \<Rightarrow>
                            (if pv_AnthropicBaseURL prov \<noteq> [] then {|''anthropic''|} else {||}) |\<union>|
                            (if pv_OpenAIBaseURL prov \<noteq> [] then {|''openai''|} else {||})
                        | Some v \<Rightarrow>
                            settle (mv_Responses v) ''responses'' False
                              (settle (mv_Anthropic v) ''anthropic'' (pv_AnthropicBaseURL prov \<noteq> [])
                                (settle (mv_Chat v) ''openai'' (pv_OpenAIBaseURL prov \<noteq> []) {||}))))"

definition NativeProtocols :: "Config \<Rightarrow> RouteTarget \<Rightarrow> string fset" where
  "NativeProtocols cfg t = NativeProtocolsWithVerdict cfg t None"

definition isChatClientProtocol :: "string \<Rightarrow> bool" where
  "isChatClientProtocol proto \<longleftrightarrow> proto = ''anthropic'' \<or> proto = ''openai'' \<or> proto = ''responses''"

definition target_reachable :: "Config \<Rightarrow> RouteTarget \<Rightarrow> bool" where
  "target_reachable cfg t =
     (let set = NativeProtocols cfg t in set = {||} \<or> fBex set isChatClientProtocol)"

definition ChatReachableRoutes ::
  "Config \<Rightarrow> (string, RouteTarget list) fmap \<Rightarrow> (string, RouteTarget list) fmap \<times> string list" where
  "ChatReachableRoutes cfg routes =
     (let reachable = (\<lambda>targets. targets = [] \<or> list_ex (target_reachable cfg) targets)
      in (fmkeep (\<lambda>_. reachable) routes,
          sort (filter (\<lambda>exposed. \<not> reachable (fmget [] routes exposed)) (fmkeys routes))))"

subsection \<open>The backend protocol of a request\<close>

text \<open>The two verdict stores are arguments.\<close>

definition resolvedBackendProto ::
  "string \<Rightarrow> string \<Rightarrow> Provider \<Rightarrow> string \<Rightarrow> string \<Rightarrow> (string, string) fmap \<Rightarrow> ModelStore \<Rightarrow>
    Store \<Rightarrow> string \<times> bool" where
  "resolvedBackendProto declared provName provCfg model clientProto parentOf modelCaps wireCaps =
     (if declared \<noteq> [] then (declared, False)
      else
        (let hint = ProtocolHint (pv_Provider provCfg) model
         in if hint \<noteq> [] then (hint, False)
            else
              (let parent = (case fmlookup parentOf provName of Some par \<Rightarrow> par | None \<Rightarrow> provName);
                   mc = (if model \<noteq> [] then Get parent model modelCaps else None);
                   caps = fmlookup wireCaps parent
               in ResolveModel clientProto (pv_AnthropicBaseURL provCfg \<noteq> [])
                    (case mc of Some x \<Rightarrow> x | None \<Rightarrow> \<lparr> mp_Chat = Unknown, mp_Anthropic = Unknown, mp_Responses = Unknown \<rparr>)
                    (mc \<noteq> None)
                    (case caps of Some c \<Rightarrow> c | None \<Rightarrow> noCapabilities) (caps \<noteq> None))))"

end
