(* ===== verification/Routes_Props.thy ===== *)
theory Routes_Props
  imports Routes Wirecap_Props
begin

text \<open>
  Properties of the route table: derived routes list exactly what the providers serve under a name,
  in priority order; explicit entries override them; expanding the table gives the routes the proxy
  serves; and the protocols a target is said to speak natively are those the request path forwards
  unconverted.
\<close>

subsection \<open>Derived and explicit routes\<close>

lemma foldl_append_route:
  "fmget [] (foldl append_route out ps) e = fmget [] out e @ map snd (filter (\<lambda>p. fst p = e) ps)"
  by (induction ps arbitrary: out) (auto simp: append_route_def)

lemma foldl_append_route_None:
  "fmlookup (foldl append_route out ps) e = None \<longleftrightarrow> fmlookup out e = None \<and> e \<notin> fst ` set ps"
  by (induction ps arbitrary: out) (auto simp: append_route_def)

lemma fmlookup_via_fmget: "fmlookup m e = (if fmlookup m e = None then None else Some (fmget d m e))"
  by (auto simp: fmget_def split: option.splits)

lemma derived_pairs_mem:
  "(e, t) \<in> set (derived_pairs cfg) \<longleftrightarrow>
     (\<exists>name prov m. fmlookup (cf_Providers cfg) name = Some prov \<and> m \<in> set (pv_Models prov) \<and>
        ExposedModelName prov m = e \<and> t = derived_target name prov m)"
  by (force simp: derived_pairs_def Let_def fmlookup_dom'_iff image_iff)

lemma DeriveRoutesFrom_lookup:
  "fmlookup (DeriveRoutesFrom cfg) e =
     (if e \<in> fst ` set (derived_pairs cfg)
      then Some (sort_key (\<lambda>t. (rtg_Priority t, rtg_Provider t)) (map snd (filter (\<lambda>p. fst p = e) (derived_pairs cfg))))
      else None)"
  using fmlookup_via_fmget [of "foldl append_route fmempty (derived_pairs cfg)" e "[]"]
  by (simp add: DeriveRoutesFrom_def foldl_append_route foldl_append_route_None)

lemma foldl_fmupd_keys:
  "fmlookup (foldl (\<lambda>out k. fmupd k (f k) out) out ks) e = (if e \<in> set ks then Some (f e) else fmlookup out e)"
  by (induction ks arbitrary: out) auto

lemma foldl_fmupd_missing:
  "fmlookup (foldl (\<lambda>out k. if fmlookup out k \<noteq> None then out else fmupd k (f k) out) out ks) e =
     (if fmlookup out e = None \<and> e \<in> set ks then Some (f e) else fmlookup out e)"
  by (induction ks arbitrary: out) auto

lemma RouteTable_lookup:
  "fmlookup (RouteTable cfg) e =
     (case fmlookup (cf_Routes cfg) e of
        Some ts \<Rightarrow> Some (FillTargetPriorities cfg ts)
      | None \<Rightarrow> fmlookup (DeriveRoutesFrom cfg) e)"
  by (auto simp: RouteTable_def foldl_fmupd_keys fmlookup_dom'_iff split: option.splits)

text \<open>
  The route table lists exactly what can be called: an explicitly configured name has its
  configured targets, with the provider's priority where a target sets none; any other name has one
  target for every provider that lists a model exposed under that name, each with the upstream model
  name, the provider's priority and its protocol hint, ordered by priority and then provider name;
  and a name nobody serves has no entry.
\<close>

theorem RouteTable_spec:
  "case fmlookup (cf_Routes cfg) e of
     Some ts \<Rightarrow> fmlookup (RouteTable cfg) e = Some (FillTargetPriorities cfg ts)
   | None \<Rightarrow>
       set (fmget [] (RouteTable cfg) e) =
         {derived_target name prov m | name prov m.
            fmlookup (cf_Providers cfg) name = Some prov \<and> m \<in> set (pv_Models prov) \<and> ExposedModelName prov m = e} \<and>
       sorted (map (\<lambda>t. (rtg_Priority t, rtg_Provider t)) (fmget [] (RouteTable cfg) e)) \<and>
       (fmlookup (RouteTable cfg) e = None \<longleftrightarrow>
          \<not> (\<exists>name prov m. fmlookup (cf_Providers cfg) name = Some prov \<and> m \<in> set (pv_Models prov) \<and>
               ExposedModelName prov m = e))"
proof (cases "fmlookup (cf_Routes cfg) e")
  case None
  have lookup: "fmlookup (RouteTable cfg) e = fmlookup (DeriveRoutesFrom cfg) e"
    using None by (simp add: RouteTable_lookup)
  have get: "fmget [] (RouteTable cfg) e =
      sort_key (\<lambda>t. (rtg_Priority t, rtg_Provider t)) (map snd (filter (\<lambda>p. fst p = e) (derived_pairs cfg)))"
  proof (cases "e \<in> fst ` set (derived_pairs cfg)")
    case False
    then have "filter (\<lambda>p. fst p = e) (derived_pairs cfg) = []"
      by (auto simp: filter_empty_conv)
    with False show ?thesis by (simp add: fmget_def lookup DeriveRoutesFrom_lookup)
  qed (simp add: fmget_def lookup DeriveRoutesFrom_lookup)
  have mem: "t \<in> set (map snd (filter (\<lambda>p. fst p = e) (derived_pairs cfg))) \<longleftrightarrow> (e, t) \<in> set (derived_pairs cfg)" for t
    by force
  have "set (fmget [] (RouteTable cfg) e) =
      {derived_target name prov m | name prov m.
         fmlookup (cf_Providers cfg) name = Some prov \<and> m \<in> set (pv_Models prov) \<and> ExposedModelName prov m = e}"
    unfolding get set_sort using mem derived_pairs_mem [of e _ cfg] by blast
  moreover have "e \<in> fst ` set (derived_pairs cfg) \<longleftrightarrow>
      (\<exists>name prov m. fmlookup (cf_Providers cfg) name = Some prov \<and> m \<in> set (pv_Models prov) \<and> ExposedModelName prov m = e)"
    using derived_pairs_mem [of e _ cfg] by force
  ultimately show ?thesis
    using None by (simp add: get lookup DeriveRoutesFrom_lookup)
qed (simp add: RouteTable_lookup)

text \<open>
  The proxy serves the expanded route table: building the expanded routes from the configuration
  and the derived routes is the same as expanding every target of the complete route table, so the
  table the command line lists and the routes requests are served from have the same names, and a
  name's targets are the accounts of its targets in order.
\<close>

theorem BuildExpandedRoutes_eq:
  "BuildExpandedRoutes cfg (DeriveRoutesFrom cfg) (Expand r) = fmmap (expand_all (Expand r)) (RouteTable cfg)"
  unfolding BuildExpandedRoutes_def Let_def
  by (rule fmap_ext, subst foldl_fmupd_missing)
    (auto simp: foldl_fmupd_keys RouteTable_lookup fmlookup_dom'_iff split: option.splits)

text \<open>Every target of the table survives expansion under each of its accounts.\<close>

lemma expand_all_mem:
  "u \<in> set (expand_all (Expand r) ts) \<longleftrightarrow>
     (\<exists>t \<in> set ts. \<exists>v \<in> set (virtualsOf r (rtg_Provider t)). u = t \<lparr> rtg_Provider := v \<rparr>)"
  by (auto simp: expand_all_def Expand_def)

subsection \<open>Offline and request-time protocol knowledge\<close>

fun tri :: "Verdict \<Rightarrow> Tri" where
  "tri Yes = TriYes"
| "tri No = TriNo"
| "tri Unknown = TriUnknown"

definition model_verdict :: "ModelProtocols \<Rightarrow> ModelProtocolVerdict" where
  "model_verdict mp = \<lparr> mv_Chat = tri (mp_Chat mp), mv_Anthropic = tri (mp_Anthropic mp), mv_Responses = tri (mp_Responses mp) \<rparr>"

lemma native_live_leg:
  assumes "fmlookup (cf_Providers cfg) (rtg_Provider t) = Some prov" "rtg_Protocol t = []"
    "ProtocolHint (pv_Provider prov) (rtg_Model t) = []" "Concluded mp" "isChatClientProtocol client"
  shows "client |\<in>| NativeProtocolsWithVerdict cfg t (Some (model_verdict mp)) \<longleftrightarrow> leg mp client = Yes"
proof -
  have "NativeProtocolsWithVerdict cfg t (Some (model_verdict mp)) =
      settle (tri (mp_Responses mp)) ''responses'' False
        (settle (tri (mp_Anthropic mp)) ''anthropic'' (pv_AnthropicBaseURL prov \<noteq> [])
          (settle (tri (mp_Chat mp)) ''openai'' (pv_OpenAIBaseURL prov \<noteq> []) {||}))"
    using assms(1-3) by (simp add: NativeProtocolsWithVerdict_def model_verdict_def)
  moreover have "p |\<in>| settle (tri v) q b out \<longleftrightarrow> p = q \<and> v = Yes \<or> p |\<in>| out" if "v \<noteq> Unknown" for p q v b out
    using that by (cases v) (auto simp: settle_def)
  ultimately show ?thesis
    using assms(4,5) by (auto simp: Concluded_def isChatClientProtocol_def)
qed

lemma ResolveModel_live_leg:
  assumes "Concluded mp" "mp_Chat mp = Yes \<or> mp_Anthropic mp = Yes \<or> mp_Responses mp = Yes"
    "mp_Anthropic mp = Yes \<Longrightarrow> base" "isChatClientProtocol client"
  shows "fst (ResolveModel client base mp True caps cok) = client \<longleftrightarrow> leg mp client = Yes"
proof -
  consider "client = ''anthropic''" | "client = ''openai''" | "client = ''responses''"
    using assms(4) by (auto simp: isChatClientProtocol_def)
  then show ?thesis
  proof cases
    case 1
    with assms show ?thesis
      by (cases "mp_Anthropic mp"; cases "mp_Responses mp") (simp_all add: ResolveModel_def Concluded_def Let_def)
  next
    case 2
    with assms show ?thesis
      by (cases "mp_Chat mp"; cases "mp_Responses mp"; cases "mp_Anthropic mp") (simp_all add: ResolveModel_def Concluded_def)
  next
    case 3
    with assms show ?thesis
      by (cases "mp_Responses mp"; cases "mp_Chat mp"; cases "mp_Anthropic mp") (simp_all add: ResolveModel_def Concluded_def)
  qed
qed

text \<open>
  Offline protocol knowledge agrees with the request path: for a target whose model was probed
  on all three legs with at least one of them alive (and the Anthropic leg alive only where an
  Anthropic endpoint is declared, as probes conclude), a chat client's protocol is in the target's
  native set exactly when the request path sends the request on that protocol; the same holds for a
  target with a declared protocol or a provider with a protocol hint.
\<close>

theorem native_protocols_agree:
  assumes "fmlookup (cf_Providers cfg) (rtg_Provider t) = Some prov" and "rtg_Model t \<noteq> []"
    and "fmlookup parentOf (rtg_Provider t) = None"
    and "Get (rtg_Provider t) (rtg_Model t) modelCaps = Some mp" and "Concluded mp"
    and "mp_Chat mp = Yes \<or> mp_Anthropic mp = Yes \<or> mp_Responses mp = Yes"
    and "mp_Anthropic mp = Yes \<longrightarrow> pv_AnthropicBaseURL prov \<noteq> []"
    and "isChatClientProtocol client"
  shows "client |\<in>| NativeProtocolsWithVerdict cfg t (Some (model_verdict mp)) \<longleftrightarrow>
    fst (resolvedBackendProto (rtg_Protocol t) (rtg_Provider t) prov (rtg_Model t) client parentOf modelCaps wireCaps) = client"
proof (cases "rtg_Protocol t = [] \<and> ProtocolHint (pv_Provider prov) (rtg_Model t) = []")
  case True
  have run: "resolvedBackendProto (rtg_Protocol t) (rtg_Provider t) prov (rtg_Model t) client parentOf modelCaps wireCaps =
      ResolveModel client (pv_AnthropicBaseURL prov \<noteq> []) mp True
        (case fmlookup wireCaps (rtg_Provider t) of Some c \<Rightarrow> c | None \<Rightarrow> noCapabilities)
        (fmlookup wireCaps (rtg_Provider t) \<noteq> None)"
    using True assms(2-4) by (simp add: resolvedBackendProto_def Let_def)
  show ?thesis
    using native_live_leg [OF assms(1) _ _ assms(5,8)] ResolveModel_live_leg [OF assms(5,6) _ assms(8)] True assms(7)
    unfolding run by blast
next
  case False
  with assms(1) show ?thesis
    by (auto simp: NativeProtocolsWithVerdict_def resolvedBackendProto_def Let_def)
qed

theorem native_protocols_agree_witness:
  "\<not> ''openai'' |\<in>| NativeProtocolsWithVerdict
       \<lparr> cf_Providers = fmap_of_list [(''a'', noProvider)], cf_Routes = fmempty, cf_RouteStrategies = fmempty,
         cf_Scheduling = \<lparr> sg_CircuitThreshold = 0, sg_CircuitCooldown = None, sg_CircuitPersist = None, sg_RateLimitBackoff = None,
           sg_QuotaCooldown = None, sg_ModelLockout = None, sg_RetryWait = None, sg_StickyDwell = None,
           sg_QuotaPollInterval = None, sg_QuotaSwitchMargin = 0, sg_QualityErrorWeight = None, sg_QualityTTFTWeight = None \<rparr> \<rparr>
       \<lparr> rtg_Provider = ''a'', rtg_Model = ''m'', rtg_Priority = 0, rtg_Protocol = [], rtg_Rubric = [] \<rparr>
       (Some (model_verdict \<lparr> mp_Chat = No, mp_Anthropic = No, mp_Responses = Yes \<rparr>))"
proof -
  let ?mp = "\<lparr> mp_Chat = No, mp_Anthropic = No, mp_Responses = Yes \<rparr>"
  let ?t = "\<lparr> rtg_Provider = ''a'', rtg_Model = ''m'', rtg_Priority = 0, rtg_Protocol = [], rtg_Rubric = [] \<rparr>"
  let ?store = "Put ''a'' ''f'' ''m'' ?mp 1 \<lparr> store_caps = fmempty, store_expected = fmempty \<rparr>"
  have "Get ''a'' ''m'' ?store = Some ?mp"
    by code_simp
  moreover have "fst (resolvedBackendProto [] ''a'' noProvider ''m'' ''openai'' fmempty ?store fmempty) = ''responses''"
    by code_simp
  ultimately show ?thesis
    by (subst native_protocols_agree [where t = ?t and prov = noProvider and modelCaps = ?store and mp = ?mp
          and parentOf = fmempty and wireCaps = fmempty])
      (simp_all add: Concluded_def isChatClientProtocol_def)
qed

end
