(* ===== verification/Response_Cache.thy ===== *)
theory Response_Cache
  imports Prelude
begin

text \<open>
  The exact-response cache (\<open>internal/cache/store.go\<close>): a bounded map from request keys to responses
  with a time to live, and cumulative counters that outlive a store. A Store holds a pointer to its
  counters, which other generations of the store share; the operations here take the store and the
  counters as two states. The nil store (caching off) is \<open>None\<close>. Headers and bodies are values, so
  the defensive copies of the code are identity.

  At capacity the code deletes the first key that ranging over the map yields, which Go leaves open:
  \<open>iter\<close> is an argument of \<open>cache_Put\<close>, and the theorems hold for every such order.
\<close>

record cache_Options =
  co_TTL :: duration
  co_MaxEntries :: int
  co_MaxBodyBytes :: int

record cache_Entry =
  ce_model :: string
  ce_status :: int
  ce_header :: "(string, string list) fmap"
  ce_body :: string
  ce_expiresAt :: gotime

record modelCounters =
  mc_hits :: uint64
  mc_misses :: uint64

record Counters =
  ct_hits :: uint64
  ct_misses :: uint64
  ct_perModel :: "(string, modelCounters) fmap"

record cache_Store =
  cs_entries :: "(string, cache_Entry) fmap"
  cs_ttl :: duration
  cs_maxEntries :: int
  cs_maxBodyBytes :: int

record ModelStat =
  ms_Name :: string
  ms_Hits :: uint64
  ms_Misses :: uint64
  ms_Entries :: uint64

record Stats =
  st_Hits :: uint64
  st_Misses :: uint64
  st_Entries :: uint64
  st_Models :: "ModelStat list"

definition cache_New :: "cache_Options \<Rightarrow> cache_Store" where
  "cache_New options =
     \<lparr> cs_entries = fmempty, cs_ttl = co_TTL options, cs_maxEntries = co_MaxEntries options,
       cs_maxBodyBytes = co_MaxBodyBytes options \<rparr>"

definition Counters_model :: "string \<Rightarrow> Counters \<Rightarrow> modelCounters" where
  "Counters_model name c = fmget \<lparr> mc_hits = 0, mc_misses = 0 \<rparr> (ct_perModel c) name"

definition count_miss :: "string \<Rightarrow> Counters \<Rightarrow> Counters" where
  "count_miss model c =
     c \<lparr> ct_misses := ct_misses c + 1,
         ct_perModel := fmupd model (Counters_model model c \<lparr> mc_misses := mc_misses (Counters_model model c) + 1 \<rparr>) (ct_perModel c) \<rparr>"

definition count_hit :: "string \<Rightarrow> Counters \<Rightarrow> Counters" where
  "count_hit model c =
     c \<lparr> ct_hits := ct_hits c + 1,
         ct_perModel := fmupd model (Counters_model model c \<lparr> mc_hits := mc_hits (Counters_model model c) + 1 \<rparr>) (ct_perModel c) \<rparr>"

definition cache_Lookup ::
  "string \<Rightarrow> string \<Rightarrow> gotime \<Rightarrow> cache_Store option \<Rightarrow> Counters \<Rightarrow> cache_Entry option \<times> cache_Store option \<times> Counters" where
  "cache_Lookup key model now store c =
     (case store of
        None \<Rightarrow> (None, None, c)
      | Some s \<Rightarrow>
          (case fmlookup (cs_entries s) key of
             None \<Rightarrow> (None, Some s, count_miss model c)
           | Some e \<Rightarrow>
               if now > ce_expiresAt e then (None, Some (s \<lparr> cs_entries := fmdrop key (cs_entries s) \<rparr>), count_miss model c)
               else (Some e, Some s, count_hit model c)))"

definition cache_Peek :: "string \<Rightarrow> gotime \<Rightarrow> cache_Store option \<Rightarrow> bool" where
  "cache_Peek key now store =
     (case store of
        None \<Rightarrow> False
      | Some s \<Rightarrow> (case fmlookup (cs_entries s) key of None \<Rightarrow> False | Some e \<Rightarrow> \<not> now > ce_expiresAt e))"

definition evict_one :: "(string fset \<Rightarrow> string list) \<Rightarrow> (string, cache_Entry) fmap \<Rightarrow> (string, cache_Entry) fmap" where
  "evict_one iter entries = (case iter (fmdom entries) of [] \<Rightarrow> entries | existing # _ \<Rightarrow> fmdrop existing entries)"

definition cache_Put ::
  "(string fset \<Rightarrow> string list) \<Rightarrow> string \<Rightarrow> string \<Rightarrow> int \<Rightarrow> (string, string list) fmap \<Rightarrow> string \<Rightarrow> gotime \<Rightarrow>
    cache_Store option \<Rightarrow> cache_Store option" where
  "cache_Put iter key model status header body now store =
     (case store of
        None \<Rightarrow> None
      | Some s \<Rightarrow>
          if key = [] then Some s
          else
            (let entry = \<lparr> ce_model = model, ce_status = status, ce_header = header, ce_body = body,
                           ce_expiresAt = now + cs_ttl s \<rparr>;
                 entries = (if int (fcard (fmdom (cs_entries s))) \<ge> cs_maxEntries s
                            then evict_one iter (cs_entries s) else cs_entries s)
             in Some (s \<lparr> cs_entries := fmupd key entry entries \<rparr>)))"

definition Counters_Reset :: "Counters \<Rightarrow> Counters" where
  "Counters_Reset c = \<lparr> ct_hits = 0, ct_misses = 0, ct_perModel = fmempty \<rparr>"

definition cache_Reset :: "cache_Store option \<Rightarrow> Counters \<Rightarrow> cache_Store option \<times> Counters" where
  "cache_Reset store c =
     (case store of None \<Rightarrow> (None, c) | Some s \<Rightarrow> (Some (s \<lparr> cs_entries := fmempty \<rparr>), Counters_Reset c))"

definition seed_model :: "ModelStat \<Rightarrow> Counters \<Rightarrow> Counters" where
  "seed_model m c =
     (if ms_Name m = [] then c
      else
        (let mc = Counters_model (ms_Name m) c
         in c \<lparr> ct_perModel := fmupd (ms_Name m)
                  \<lparr> mc_hits = mc_hits mc + ms_Hits m, mc_misses = mc_misses mc + ms_Misses m \<rparr> (ct_perModel c) \<rparr>))"

definition Counters_Seed :: "uint64 \<Rightarrow> uint64 \<Rightarrow> ModelStat list \<Rightarrow> Counters \<Rightarrow> Counters" where
  "Counters_Seed hits misses models c =
     fold seed_model models (c \<lparr> ct_hits := ct_hits c + hits, ct_misses := ct_misses c + misses \<rparr>)"

definition cache_Seed :: "uint64 \<Rightarrow> uint64 \<Rightarrow> ModelStat list \<Rightarrow> cache_Store option \<Rightarrow> Counters \<Rightarrow> Counters" where
  "cache_Seed hits misses models store c = (case store of None \<Rightarrow> c | Some s \<Rightarrow> Counters_Seed hits misses models c)"

text \<open>The live entries per model, and the statistics rows: models with counters, then models that only have entries.\<close>

definition liveEntries :: "(string, cache_Entry) fmap \<Rightarrow> (string, uint64) fmap" where
  "liveEntries entries =
     fold (\<lambda>k live. let m = (case fmlookup entries k of None \<Rightarrow> [] | Some e \<Rightarrow> ce_model e) in fmupd m (fmget 0 live m + 1) live)
       (fmkeys entries) fmempty"

definition statsLocked :: "Counters \<Rightarrow> (string, uint64) fmap \<Rightarrow> Stats" where
  "statsLocked c live =
     (let counted = map (\<lambda>name. \<lparr> ms_Name = name, ms_Hits = mc_hits (Counters_model name c),
                                   ms_Misses = mc_misses (Counters_model name c), ms_Entries = fmget 0 live name \<rparr>)
                      (filter (\<lambda>name. name \<noteq> []) (fmkeys (ct_perModel c)));
          rest = map (\<lambda>name. \<lparr> ms_Name = name, ms_Hits = 0, ms_Misses = 0, ms_Entries = fmget 0 live name \<rparr>)
                   (filter (\<lambda>name. name \<notin> set (map ms_Name counted)) (fmkeys live))
      in \<lparr> st_Hits = ct_hits c, st_Misses = ct_misses c, st_Entries = 0, st_Models = sort_key ms_Name (counted @ rest) \<rparr>)"

definition Counters_Stats :: "Counters \<Rightarrow> Stats" where
  "Counters_Stats c = statsLocked c fmempty"

definition cache_Stats :: "cache_Store option \<Rightarrow> Counters \<Rightarrow> Stats" where
  "cache_Stats store c =
     (case store of
        None \<Rightarrow> \<lparr> st_Hits = 0, st_Misses = 0, st_Entries = 0, st_Models = [] \<rparr>
      | Some s \<Rightarrow> statsLocked c (liveEntries (cs_entries s)) \<lparr> st_Entries := of_nat (fcard (fmdom (cs_entries s))) \<rparr>)"

definition MaxBodyBytes :: "cache_Store option \<Rightarrow> int" where
  "MaxBodyBytes store = (case store of None \<Rightarrow> 0 | Some s \<Rightarrow> cs_maxBodyBytes s)"

end
