(* ===== verification/Cache_Codec.thy ===== *)
theory Cache_Codec
  imports Response_Cache
begin

text \<open>
  The request key of the response cache (\<open>internal/cache/request.go\<close>), the bounded recorder and the
  headers of a captured response (\<open>recorder.go\<close>) and the replay loop (\<open>replay.go\<close>). The digest of
  \<open>crypto/sha256\<close> is an argument of \<open>cache_Key\<close>; what is proved is about the bytes that are hashed.
  A reader and a response writer are environments: a read result is a chunk with its error, a writer
  is a function that takes bytes and says how many it took.
\<close>

subsection \<open>Request keys\<close>

record request =
  rq_Method :: string
  rq_Path :: string
  rq_RawQuery :: string
  rq_Header :: "string \<Rightarrow> string"

definition keyHeaders :: "string list" where
  "keyHeaders = [''anthropic-beta'', ''accept-language'']"

definition PutUint64 :: "uint64 \<Rightarrow> string" where
  "PutUint64 n = map (\<lambda>i. char_of (unat (drop_bit (8 * (7 - i)) n) mod 256)) [0..<8]"

definition writeField :: "string \<Rightarrow> string" where
  "writeField field = PutUint64 (of_nat (length field)) @ field"

definition key_fields :: "request \<Rightarrow> string \<Rightarrow> string \<Rightarrow> string list" where
  "key_fields r body caller =
     [rq_Method r, rq_Path r, rq_RawQuery r] @
     map (\<lambda>name. name @ '':'' @ rq_Header r name) (filter (\<lambda>name. rq_Header r name \<noteq> []) keyHeaders) @
     (if caller \<noteq> [] then [caller] else []) @ [body]"

definition key_preimage :: "request \<Rightarrow> string \<Rightarrow> string \<Rightarrow> string" where
  "key_preimage r body caller = concat (map writeField (key_fields r body caller))"

definition hex_digit :: "nat \<Rightarrow> char" where
  "hex_digit n = ''0123456789abcdef'' ! n"

definition hex_EncodeToString :: "string \<Rightarrow> string" where
  "hex_EncodeToString s = concat (map (\<lambda>c. [hex_digit (of_char c div 16), hex_digit (of_char c mod 16)]) s)"

definition cache_Key :: "(string \<Rightarrow> string) \<Rightarrow> request \<Rightarrow> string \<Rightarrow> string \<Rightarrow> string" where
  "cache_Key sha256 r body caller = hex_EncodeToString (sha256 (key_preimage r body caller))"

subsection \<open>The recorder\<close>

text \<open>One result of the wrapped reader: the bytes read and its error, if any.\<close>

datatype read_error = EOF | ReadError

record Recorder =
  rec_body :: string
  rec_max :: int
  rec_truncated :: bool
  rec_sawEOF :: bool

definition NewRecorder :: "int \<Rightarrow> Recorder" where
  "NewRecorder mx = \<lparr> rec_body = [], rec_max = mx, rec_truncated = False, rec_sawEOF = False \<rparr>"

definition Recorder_Read :: "string \<times> read_error option \<Rightarrow> Recorder \<Rightarrow> Recorder" where
  "Recorder_Read res r =
     (let (buffer, err) = res;
          r = (if err = Some EOF then r \<lparr> rec_sawEOF := True \<rparr> else r)
      in if buffer \<noteq> [] \<and> \<not> rec_truncated r then
           (if int (length (rec_body r)) + int (length buffer) > rec_max r then
              (let fit = rec_max r - int (length (rec_body r))
               in (if fit > 0 then r \<lparr> rec_body := rec_body r @ take (nat fit) buffer \<rparr> else r) \<lparr> rec_truncated := True \<rparr>)
            else r \<lparr> rec_body := rec_body r @ buffer \<rparr>)
         else r)"

definition Complete :: "Recorder option \<Rightarrow> bool" where
  "Complete r = (case r of None \<Rightarrow> False | Some r \<Rightarrow> rec_sawEOF r \<and> \<not> rec_truncated r)"

definition Recorder_Body :: "Recorder option \<Rightarrow> string" where
  "Recorder_Body r = (case r of None \<Rightarrow> [] | Some r \<Rightarrow> rec_body r)"

subsection \<open>Headers of a captured response\<close>

text \<open>
  \<open>http.Header\<close>: \<open>Del\<close>, \<open>Set\<close> and \<open>Values\<close> canonicalise the name they are given (a name with a byte
  that is not allowed in a header field name is left as it is).
\<close>

definition header_char :: "char \<Rightarrow> bool" where
  "header_char c \<longleftrightarrow>
     (let n = (of_char c :: nat)
      in 48 \<le> n \<and> n \<le> 57 \<or> 65 \<le> n \<and> n \<le> 90 \<or> 97 \<le> n \<and> n \<le> 122 \<or> c \<in> set ''!#$%&*+-.^_`|~'' \<or> n = 39)"

definition upper_char :: "char \<Rightarrow> char" where
  "upper_char c = (let n = (of_char c :: nat) in if 97 \<le> n \<and> n \<le> 122 then char_of (n - 32) else c)"

fun canonical :: "bool \<Rightarrow> string \<Rightarrow> string" where
  "canonical up [] = []"
| "canonical up (c # s) = (if up then upper_char c else lower_char c) # canonical (c = CHR ''-'') s"

definition CanonicalHeaderKey :: "string \<Rightarrow> string" where
  "CanonicalHeaderKey s = (if list_all header_char s then canonical True s else s)"

type_synonym header = "(string, string list) fmap"

definition Header_Del :: "string \<Rightarrow> header \<Rightarrow> header" where
  "Header_Del name h = fmdrop (CanonicalHeaderKey name) h"

definition Header_Set :: "string \<Rightarrow> string \<Rightarrow> header \<Rightarrow> header" where
  "Header_Set name value h = fmupd (CanonicalHeaderKey name) [value] h"

definition Header_Values :: "string \<Rightarrow> header \<Rightarrow> string list" where
  "Header_Values name h = fmget [] h (CanonicalHeaderKey name)"

definition hopByHopHeaders :: "string list" where
  "hopByHopHeaders =
     [''connection'', ''keep-alive'', ''proxy-authenticate'', ''proxy-authorization'', ''te'', ''trailer'', ''upgrade'']"

definition connection_named :: "header \<Rightarrow> string list" where
  "connection_named h =
     map ToLower (filter (\<lambda>named. named \<noteq> [])
       (concat (map (\<lambda>v. map TrimSpace (split_on (CHR '','') v)) (Header_Values ''Connection'' h))))"

definition HeaderForCapturedBody :: "header \<Rightarrow> bool \<Rightarrow> bool \<Rightarrow> bool \<Rightarrow> header" where
  "HeaderForCapturedBody h converted modeMismatch clientWantsStream =
     (let named = connection_named h;
          result = fold (\<lambda>name result.
                       if ToLower name \<in> set hopByHopHeaders \<or> ToLower name \<in> set named then Header_Del name result else result)
                     (fmkeys h) h;
          result = (if converted then Header_Del ''Transfer-Encoding'' (Header_Del ''Content-Length'' result) else result)
      in if modeMismatch then
           Header_Set ''Content-Type'' (if clientWantsStream then ''text/event-stream'' else ''application/json'') result
         else result)"

text \<open>
  When the response has been copied to the client (\<open>internal/targetexec/executor.go\<close>), a complete
  capture is stored; \<open>terminal\<close> says whether the client's stream ended with its protocol's terminal
  sequence.
\<close>

definition store_captured ::
  "(string fset \<Rightarrow> string list) \<Rightarrow> string \<Rightarrow> string \<Rightarrow> int \<Rightarrow> header \<Rightarrow> bool \<Rightarrow> bool \<Rightarrow> bool \<Rightarrow> bool \<Rightarrow>
    (string \<Rightarrow> bool) \<Rightarrow> Recorder option \<Rightarrow> gotime \<Rightarrow> cache_Store option \<Rightarrow> cache_Store option" where
  "store_captured iter key model status hdr transformed modeMismatch wantsStream clientStream terminal recorder now store =
     (if recorder \<noteq> None \<and> Complete recorder \<and> Recorder_Body recorder \<noteq> [] then
        (if clientStream \<and> \<not> terminal (Recorder_Body recorder) then store
         else cache_Put iter key model status (HeaderForCapturedBody hdr transformed modeMismatch wantsStream)
                (Recorder_Body recorder) now store)
      else store)"

subsection \<open>Replay\<close>

text \<open>
  The body goes out in chunks of 32 KiB. A writer returns how many bytes it took and whether it
  failed; the loop continues behind the bytes taken. The result lists the slices it offered with the
  counts taken.
\<close>

datatype replay_result = ReplayOK | WriteError | NoProgress

definition replay_chunk :: "string \<Rightarrow> string" where
  "replay_chunk rest = take (32 * 1024) rest"

function replay_loop :: "(string \<Rightarrow> 'w \<Rightarrow> nat \<times> bool \<times> 'w) \<Rightarrow> string \<Rightarrow> 'w \<Rightarrow> replay_result \<times> 'w" where
  "replay_loop write rest w =
     (if rest = [] then (ReplayOK, w)
      else
        (let (written, failed, w') = write (replay_chunk rest) w
         in if failed then (WriteError, w')
            else if written = 0 then (NoProgress, w')
            else replay_loop write (drop written rest) w'))"
  by pat_completeness auto
termination
  by (relation "measure (\<lambda>(write, rest, w). length rest)") auto

declare replay_loop.simps [simp del]

record client_response =
  cl_header :: header
  cl_status :: "int option"
  cl_body :: string

text \<open>
  Replaying an entry: its header values are added to those already set, then the status and the body
  are written. \<open>write\<close> acts on the response; the nil entry writes nothing.
\<close>

definition Header_Add :: "string \<Rightarrow> string \<Rightarrow> header \<Rightarrow> header" where
  "Header_Add name value h = (let k = CanonicalHeaderKey name in fmupd k (fmget [] h k @ [value]) h)"

definition add_headers :: "header \<Rightarrow> header \<Rightarrow> header" where
  "add_headers src dst = fold (\<lambda>name h. fold (Header_Add name) (fmget [] src name) h) (fmkeys src) dst"

definition Replay ::
  "(string \<Rightarrow> client_response \<Rightarrow> nat \<times> bool \<times> client_response) \<Rightarrow> cache_Entry option \<Rightarrow> client_response \<Rightarrow>
    replay_result \<times> client_response" where
  "Replay write entry w =
     (case entry of
        None \<Rightarrow> (ReplayOK, w)
      | Some e \<Rightarrow>
          replay_loop write (ce_body e)
            (w \<lparr> cl_header := add_headers (ce_header e) (cl_header w), cl_status := Some (ce_status e) \<rparr>))"

end
