(* ===== verification/Cache_Props.thy ===== *)
theory Cache_Props
  imports Cache_Codec
begin

text \<open>
  The response cache against an unbounded map of the responses stored last, the injectivity of the
  bytes that make up a request key, and the round trip of a response through recorder, store and
  replay.
\<close>

subsection \<open>Ranging over a map\<close>

text \<open>What the eviction relies on: ranging over a map yields its keys, in some order.\<close>

locale map_range =
  fixes iter :: "string fset \<Rightarrow> string list"
  assumes set_iter: "set (iter S) = fset S"
begin

lemma evict_one_sub: "fmlookup (evict_one iter es) k = Some e \<Longrightarrow> fmlookup es k = Some e"
  by (auto simp: evict_one_def split: list.splits if_splits)

lemma evict_one_card: "fmdom es \<noteq> {||} \<Longrightarrow> fcard (fmdom (evict_one iter es)) = fcard (fmdom es) - 1"
proof -
  assume ne: "fmdom es \<noteq> {||}"
  then obtain k ks where k: "iter (fmdom es) = k # ks"
    using set_iter [of "fmdom es"] by (cases "iter (fmdom es)") auto
  with set_iter [of "fmdom es"] have "k |\<in>| fmdom es" by (metis list.set_intros(1))
  with k show ?thesis
    by (simp add: evict_one_def fcard_fminus_fsingleton)
qed

lemma Put_entries_sub:
  assumes "cache_Put iter key model status hdr body now (Some s) = Some s'" "fmlookup (cs_entries s') k = Some e"
  shows "k = key \<and> key \<noteq> [] \<and>
      e = \<lparr> ce_model = model, ce_status = status, ce_header = hdr, ce_body = body, ce_expiresAt = now + cs_ttl s \<rparr> \<or>
    (k = key \<longrightarrow> key = []) \<and> fmlookup (cs_entries s) k = Some e"
proof (cases "key = []")
  case False
  then have "fmlookup (cs_entries s') k =
      (if k = key then Some \<lparr> ce_model = model, ce_status = status, ce_header = hdr, ce_body = body, ce_expiresAt = now + cs_ttl s \<rparr>
       else fmlookup (if int (fcard (fmdom (cs_entries s))) \<ge> cs_maxEntries s
                      then evict_one iter (cs_entries s) else cs_entries s) k)"
    using assms(1) by (auto simp: cache_Put_def Let_def)
  with assms(2) False show ?thesis
    by (simp split: if_splits) (auto dest: evict_one_sub)
qed (use assms in \<open>simp add: cache_Put_def\<close>)

lemma Put_card:
  assumes "cache_Put iter key model status hdr body now (Some s) = Some s'"
    and "int (fcard (fmdom (cs_entries s))) \<le> max 1 (cs_maxEntries s)"
  shows "int (fcard (fmdom (cs_entries s'))) \<le> max 1 (cs_maxEntries s')"
proof -
  have le: "fcard (finsert key A) \<le> fcard A + 1" for A :: "string fset"
    by (metis Suc_eq_plus1 fcard_finsert_if le_SucI order_refl)
  show ?thesis
  proof (cases "fmdom (cs_entries s) = {||}")
    case True
    then show ?thesis
      using assms by (auto simp: cache_Put_def Let_def evict_one_def fcard_finsert_if fcard_fempty split: if_splits list.splits)
  next
    case False
    then have "0 < fcard (fmdom (cs_entries s))"
      by (metis fcard_0_eq gr0I)
    then show ?thesis
      using assms le [of "fmdom (evict_one iter (cs_entries s))"] le [of "fmdom (cs_entries s)"] evict_one_card [OF False]
      by (auto simp: cache_Put_def Let_def split: if_splits)
  qed
qed

end

interpretation by_key: map_range sorted_list_of_fset
  by unfold_locales simp

subsection \<open>Traces\<close>

datatype cache_op =
    Op_Lookup string string gotime
  | Op_Put string string int header string gotime
  | Op_Reset

fun run_op :: "(string fset \<Rightarrow> string list) \<Rightarrow> cache_op \<Rightarrow> cache_Store option \<times> Counters \<Rightarrow> cache_Store option \<times> Counters" where
  "run_op iter (Op_Lookup key model now) (s, c) = snd (cache_Lookup key model now s c)"
| "run_op iter (Op_Put key model status hdr body now) (s, c) = (cache_Put iter key model status hdr body now s, c)"
| "run_op iter Op_Reset (s, c) = cache_Reset s c"

definition run_ops ::
  "(string fset \<Rightarrow> string list) \<Rightarrow> cache_op list \<Rightarrow> cache_Store option \<times> Counters \<Rightarrow> cache_Store option \<times> Counters" where
  "run_ops iter ops sc = fold (run_op iter) ops sc"

text \<open>The specification: the response stored last under each key, with no bound and no expiry.\<close>

fun spec_op :: "duration \<Rightarrow> cache_op \<Rightarrow> (string \<Rightarrow> cache_Entry option) \<Rightarrow> (string \<Rightarrow> cache_Entry option)" where
  "spec_op ttl (Op_Lookup key model now) h = h"
| "spec_op ttl (Op_Put key model status hdr body now) h =
     (if key = [] then h
      else h(key \<mapsto> \<lparr> ce_model = model, ce_status = status, ce_header = hdr, ce_body = body, ce_expiresAt = now + ttl \<rparr>))"
| "spec_op ttl Op_Reset h = Map.empty"

definition spec_ops :: "duration \<Rightarrow> cache_op list \<Rightarrow> string \<Rightarrow> cache_Entry option" where
  "spec_ops ttl ops = fold (spec_op ttl) ops Map.empty"

definition spec_lookup :: "(string \<Rightarrow> cache_Entry option) \<Rightarrow> string \<Rightarrow> gotime \<Rightarrow> cache_Entry option" where
  "spec_lookup h key now = (case h key of None \<Rightarrow> None | Some e \<Rightarrow> if now \<le> ce_expiresAt e then Some e else None)"

fun put_keys :: "cache_op list \<Rightarrow> string fset" where
  "put_keys [] = {||}"
| "put_keys (Op_Put key model status hdr body now # ops) = finsert key (put_keys ops)"
| "put_keys (op # ops) = put_keys ops"

fun lookup_times :: "cache_op list \<Rightarrow> gotime list" where
  "lookup_times [] = []"
| "lookup_times (Op_Lookup key model now # ops) = now # lookup_times ops"
| "lookup_times (op # ops) = lookup_times ops"

text \<open>
  The simulation: the store is a part of the specification within its bound, with the configured time
  to live; a missing entry was evicted for capacity or had expired by \<open>t\<close>.
\<close>

definition cache_sim :: "cache_Options \<Rightarrow> (string \<Rightarrow> cache_Entry option) \<Rightarrow> cache_Store \<Rightarrow> bool" where
  "cache_sim opts h s \<longleftrightarrow>
     cs_ttl s = co_TTL opts \<and> cs_maxEntries s = co_MaxEntries opts \<and>
     int (fcard (fmdom (cs_entries s))) \<le> max 1 (cs_maxEntries s) \<and>
     (\<forall>k e. fmlookup (cs_entries s) k = Some e \<longrightarrow> h k = Some e)"

context map_range
begin

lemma run_op_sim:
  assumes "cache_sim opts h s"
  shows "\<exists>s' c'. run_op iter op (Some s, c) = (Some s', c') \<and> cache_sim opts (spec_op (co_TTL opts) op h) s'"
proof (cases op)
  case (Op_Lookup key model now)
  have "fcard (fmdom es |-| {|key|}) \<le> fcard (fmdom es)" for es :: "(string, cache_Entry) fmap"
    by (rule fcard_fminus1_le)
  with assms Op_Lookup show ?thesis
    by (auto simp: cache_Lookup_def cache_sim_def split: option.splits intro: order_trans [rotated])
next
  case (Op_Put key model status hdr body now)
  obtain s' where s': "cache_Put iter key model status hdr body now (Some s) = Some s'"
    "cs_ttl s' = cs_ttl s" "cs_maxEntries s' = cs_maxEntries s"
    by (cases "key = []") (auto simp: cache_Put_def Let_def)
  have "fmlookup (cs_entries s') k = Some e \<longrightarrow> spec_op (co_TTL opts) op h k = Some e" for k e
    using Put_entries_sub [OF s'(1), of k e] assms Op_Put by (auto simp: cache_sim_def)
  moreover have "int (fcard (fmdom (cs_entries s'))) \<le> max 1 (cs_maxEntries s')"
    by (rule Put_card [OF s'(1)]) (use assms in \<open>auto simp: cache_sim_def\<close>)
  ultimately show ?thesis
    using assms s' Op_Put by (auto simp: cache_sim_def)
next
  case Op_Reset
  with assms show ?thesis
    by (auto simp: cache_Reset_def cache_sim_def fcard_fempty)
qed

lemma run_ops_sim:
  "cache_sim opts h s \<Longrightarrow>
   \<exists>s' c'. run_ops iter ops (Some s, c) = (Some s', c') \<and> cache_sim opts (fold (spec_op (co_TTL opts)) ops h) s'"
proof (induction ops arbitrary: h s c)
  case (Cons op ops)
  from run_op_sim [OF Cons.prems, of op c] Cons.IH show ?case
    by (fastforce simp: run_ops_def)
qed (simp add: run_ops_def)

text \<open>While fewer keys than the capacity are in use, an entry goes missing only by expiry.\<close>

lemma run_op_exact:
  assumes "int (fcard K) < cs_maxEntries s" "fmdom (cs_entries s) |\<subseteq>| K"
    and exact: "\<And>k e. h k = Some e \<Longrightarrow> fmlookup (cs_entries s) k = Some e \<or> ce_expiresAt e < t"
    and op: "put_keys [op] |\<subseteq>| K" "sorted (t # lookup_times [op])"
  shows "\<exists>s' c'. run_op iter op (Some s, c) = (Some s', c') \<and> cs_maxEntries s' = cs_maxEntries s \<and>
    cs_ttl s' = cs_ttl s \<and> fmdom (cs_entries s') |\<subseteq>| K \<and>
    (\<forall>k e. spec_op (cs_ttl s) op h k = Some e \<longrightarrow>
       fmlookup (cs_entries s') k = Some e \<or> ce_expiresAt e < last (t # lookup_times [op]))"
proof (cases op)
  case (Op_Lookup key model now)
  have "fmlookup (cs_entries s) k = Some e \<or> ce_expiresAt e < now" if "h k = Some e" for k e
    using exact [OF that] op(2) Op_Lookup by auto
  then show ?thesis
    using assms(1,2) Op_Lookup
    by (cases "fmlookup (cs_entries s) key") (auto simp: cache_Lookup_def, force+)
next
  case (Op_Put key model status hdr body now)
  have "fcard (fmdom (cs_entries s)) \<le> fcard K"
    using assms(2) by (rule fcard_mono)
  then show ?thesis
    using assms(1,2) exact op Op_Put by (auto simp: cache_Put_def Let_def)
next
  case Op_Reset
  then show ?thesis
    by (simp add: cache_Reset_def)
qed

lemma run_ops_exact:
  assumes "int (fcard K) < cs_maxEntries s" "fmdom (cs_entries s) |\<subseteq>| K"
    and "\<And>k e. h k = Some e \<Longrightarrow> fmlookup (cs_entries s) k = Some e \<or> ce_expiresAt e < t"
    and "put_keys ops |\<subseteq>| K" "sorted (t # lookup_times ops)"
  shows "\<exists>s' c'. run_ops iter ops (Some s, c) = (Some s', c') \<and>
    (\<forall>k e. fold (spec_op (cs_ttl s)) ops h k = Some e \<longrightarrow>
       fmlookup (cs_entries s') k = Some e \<or> ce_expiresAt e < last (t # lookup_times ops))"
  using assms
proof (induction ops arbitrary: s h t c)
  case (Cons op ops)
  have split: "put_keys (op # ops) = put_keys [op] |\<union>| put_keys ops"
    "lookup_times (op # ops) = lookup_times [op] @ lookup_times ops"
    by (cases op; simp)+
  have so: "sorted (t # lookup_times [op])" "sorted (last (t # lookup_times [op]) # lookup_times ops)"
    using Cons.prems(5) by (cases op; simp)+
  have la: "last (t # lookup_times (op # ops)) = last (last (t # lookup_times [op]) # lookup_times ops)"
    by (cases op) simp_all
  obtain s' c' where s': "run_op iter op (Some s, c) = (Some s', c')" "cs_maxEntries s' = cs_maxEntries s"
    "cs_ttl s' = cs_ttl s" "fmdom (cs_entries s') |\<subseteq>| K"
    and ex: "\<And>k e. spec_op (cs_ttl s) op h k = Some e \<Longrightarrow>
       fmlookup (cs_entries s') k = Some e \<or> ce_expiresAt e < last (t # lookup_times [op])"
    using run_op_exact [where h = h and c = c, OF Cons.prems(1,2) Cons.prems(3) _ so(1)] Cons.prems(4) split(1) by auto
  show ?case
    using Cons.IH [where h = "spec_op (cs_ttl s) op h" and c = c', OF _ s'(4) ex _ so(2)] Cons.prems(1,4) s' split(1) la by (simp add: run_ops_def)
qed (simp add: run_ops_def)

lemma cache_refines:
  fixes opts c0 ops key model now
  defines "sc \<equiv> run_ops iter ops (Some (cache_New opts), c0)"
  shows "\<exists>s. fst sc = Some s \<and> int (fcard (fmdom (cs_entries s))) \<le> max 1 (co_MaxEntries opts)"
    and "fst (cache_Lookup key model now (fst sc) (snd sc)) \<in> {None, spec_lookup (spec_ops (co_TTL opts) ops) key now}"
    and "int (fcard (put_keys ops)) < co_MaxEntries opts \<Longrightarrow> sorted (lookup_times ops @ [now]) \<Longrightarrow>
      fst (cache_Lookup key model now (fst sc) (snd sc)) = spec_lookup (spec_ops (co_TTL opts) ops) key now"
proof -
  have init: "cache_sim opts Map.empty (cache_New opts)"
    by (simp add: cache_sim_def cache_New_def fcard_fempty)
  obtain s c where sc: "sc = (Some s, c)" and sim: "cache_sim opts (spec_ops (co_TTL opts) ops) s"
    using run_ops_sim [OF init, of ops c0] by (auto simp: sc_def spec_ops_def)
  show "\<exists>s. fst sc = Some s \<and> int (fcard (fmdom (cs_entries s))) \<le> max 1 (co_MaxEntries opts)"
    using sc sim by (metis cache_sim_def fst_conv)
  show in_spec: "fst (cache_Lookup key model now (fst sc) (snd sc)) \<in> {None, spec_lookup (spec_ops (co_TTL opts) ops) key now}"
    using sc sim by (auto simp: cache_Lookup_def cache_sim_def spec_lookup_def split: option.splits)
  assume few: "int (fcard (put_keys ops)) < co_MaxEntries opts" and times: "sorted (lookup_times ops @ [now])"
  define t where "t = hd (lookup_times ops @ [now])"
  have t: "sorted (t # lookup_times ops)" "last (t # lookup_times ops) \<le> now"
    using times unfolding t_def by (cases "lookup_times ops"; auto simp: sorted_append)+
  have ex: "fmlookup (cs_entries s) k = Some e \<or> ce_expiresAt e < now" if "spec_ops (co_TTL opts) ops k = Some e" for k e
    using run_ops_exact [of "put_keys ops" "cache_New opts" Map.empty t ops c0] few t that sc
    by (fastforce simp: cache_New_def spec_ops_def sc_def)
  show "fst (cache_Lookup key model now (fst sc) (snd sc)) = spec_lookup (spec_ops (co_TTL opts) ops) key now"
  proof (cases "spec_ops (co_TTL opts) ops key")
    case (Some e)
    with in_spec ex [OF Some] sc show ?thesis
      by (auto simp: cache_Lookup_def spec_lookup_def split: option.splits if_splits)
  qed (use in_spec in \<open>auto simp: spec_lookup_def\<close>)
qed

end

text \<open>
  C7. The response cache implements "the last response stored under a key, for its time to live", in
  bounded space. After any sequence of lookups, stores and resets on a fresh store, and whatever order
  ranging over a map has: the store holds at most its configured number of entries (one, if that
  number is not positive); a lookup answers with a miss or with exactly the response stored last under
  that key since the last reset, and never after that response expired; and as long as fewer keys than
  the capacity were stored and the clock did not run backwards between lookups, every lookup answers
  exactly as the unbounded specification does.
\<close>

theorem cache_refines_last_put:
  fixes iter :: "string fset \<Rightarrow> string list" and opts c0 ops key model now
  assumes "\<And>S. set (iter S) = fset S"
  defines "sc \<equiv> run_ops iter ops (Some (cache_New opts), c0)"
  shows "(\<exists>s. fst sc = Some s \<and> int (fcard (fmdom (cs_entries s))) \<le> max 1 (co_MaxEntries opts)) \<and>
    fst (cache_Lookup key model now (fst sc) (snd sc)) \<in> {None, spec_lookup (spec_ops (co_TTL opts) ops) key now} \<and>
    (int (fcard (put_keys ops)) < co_MaxEntries opts \<longrightarrow> sorted (lookup_times ops @ [now]) \<longrightarrow>
      fst (cache_Lookup key model now (fst sc) (snd sc)) = spec_lookup (spec_ops (co_TTL opts) ops) key now)"
proof (intro conjI impI)
  have range: "map_range iter"
    using assms(1) by unfold_locales
  show "\<exists>s. fst sc = Some s \<and> int (fcard (fmdom (cs_entries s))) \<le> max 1 (co_MaxEntries opts)"
    unfolding sc_def by (rule map_range.cache_refines(1) [OF range])
  show "fst (cache_Lookup key model now (fst sc) (snd sc)) \<in> {None, spec_lookup (spec_ops (co_TTL opts) ops) key now}"
    unfolding sc_def by (rule map_range.cache_refines(2) [OF range])
  assume "int (fcard (put_keys ops)) < co_MaxEntries opts" "sorted (lookup_times ops @ [now])"
  then show "fst (cache_Lookup key model now (fst sc) (snd sc)) = spec_lookup (spec_ops (co_TTL opts) ops) key now"
    unfolding sc_def by (rule map_range.cache_refines(3) [OF range])
qed

definition ex_cache_ops :: "cache_op list" where
  "ex_cache_ops =
     [Op_Lookup ''k'' ''m'' 5, Op_Put ''k'' ''m'' 200 fmempty ''hello'' 6, Op_Put ''j'' ''m'' 200 fmempty ''other'' 7]"

definition ex_cache_options :: cache_Options where
  "ex_cache_options = \<lparr> co_TTL = 60, co_MaxEntries = 3, co_MaxBodyBytes = 100 \<rparr>"

definition zero_counters :: Counters where
  "zero_counters = \<lparr> ct_hits = 0, ct_misses = 0, ct_perModel = fmempty \<rparr>"

theorem cache_refines_last_put_witness:
  "fst (cache_Lookup ''k'' ''m'' 8
     (fst (run_ops sorted_list_of_fset ex_cache_ops (Some (cache_New ex_cache_options), zero_counters)))
     (snd (run_ops sorted_list_of_fset ex_cache_ops (Some (cache_New ex_cache_options), zero_counters)))) =
   Some \<lparr> ce_model = ''m'', ce_status = 200, ce_header = fmempty, ce_body = ''hello'', ce_expiresAt = 66 \<rparr>"
proof -
  have iter: "set (sorted_list_of_fset S) = fset S" for S :: "string fset"
    by (rule by_key.set_iter)
  have few: "int (fcard (put_keys ex_cache_ops)) < co_MaxEntries ex_cache_options"
    "sorted (lookup_times ex_cache_ops @ [8])"
    by (simp_all add: ex_cache_ops_def ex_cache_options_def fcard_finsert_if fcard_fempty)
  have "spec_lookup (spec_ops (co_TTL ex_cache_options) ex_cache_ops) ''k'' 8 =
      Some \<lparr> ce_model = ''m'', ce_status = 200, ce_header = fmempty, ce_body = ''hello'', ce_expiresAt = 66 \<rparr>"
    by (simp add: ex_cache_ops_def ex_cache_options_def spec_ops_def spec_lookup_def)
  with cache_refines_last_put [OF iter, where ?c0.0 = zero_counters and key = "''k''" and model = "''m''"] few show ?thesis
    by simp
qed

text \<open>At capacity a store under a key already present evicts another response although no room is needed.\<close>

lemma overwrite_evicts_neighbour:
  "let opts = \<lparr> co_TTL = 60, co_MaxEntries = 2, co_MaxBodyBytes = 100 \<rparr>;
       sc = run_ops sorted_list_of_fset
              [Op_Put ''a'' ''m'' 200 fmempty ''first'' 1, Op_Put ''b'' ''m'' 200 fmempty ''second'' 2,
               Op_Put ''b'' ''m'' 200 fmempty ''third'' 3] (Some (cache_New opts), c)
   in fst (cache_Lookup ''a'' ''m'' 4 (fst sc) (snd sc)) = None"
  by (simp add: run_ops_def cache_Put_def cache_New_def cache_Lookup_def evict_one_def Let_def fcard_finsert_if fcard_fempty
        sorted_list_of_fset.rep_eq)

subsection \<open>Request keys\<close>

text \<open>The id of a forward key (\<open>webauth.KeyID\<close>): eight hex digits of the token's digest.\<close>

definition KeyID :: "(string \<Rightarrow> string) \<Rightarrow> string \<Rightarrow> string" where
  "KeyID sha256 token = take 8 (hex_EncodeToString (sha256 token))"

lemma PutUint64_length [simp]: "length (PutUint64 n) = 8"
  by (simp add: PutUint64_def)

lemma byte_at: "unat (drop_bit (8 * (7 - i)) (n :: uint64)) mod 256 = unat n div 2 ^ (8 * (7 - i)) mod 256"
  by (simp only: unat_drop_bit_eq drop_bit_eq_div [of _ "unat n"])

lemma PutUint64_inject [simp]: "PutUint64 m = PutUint64 n \<longleftrightarrow> m = n"
proof
  assume eq: "PutUint64 m = PutUint64 n"
  have ch: "(char_of (a mod 256) :: char) = char_of (b mod 256) \<Longrightarrow> a mod 256 = b mod 256" for a b :: nat
    using char_of_eq_iff [of "a mod 256" "char_of (b mod 256)"] by simp
  have b: "unat m div 2 ^ (8 * (7 - i)) mod 256 = unat n div 2 ^ (8 * (7 - i)) mod 256" if "i < 8" for i
  proof -
    have "PutUint64 m ! i = PutUint64 n ! i"
      using eq by simp
    with that have "(char_of (unat (drop_bit (8 * (7 - i)) m) mod 256) :: char) = char_of (unat (drop_bit (8 * (7 - i)) n) mod 256)"
      by (simp add: PutUint64_def)
    from ch [OF this] show ?thesis
      by (simp only: byte_at)
  qed
  have digits: "x = (\<Sum>i<8. x div 256 ^ i mod 256 * 256 ^ i)" if "x < 256 ^ 8" for x :: nat
  proof -
    have "(\<Sum>i<k. x div 256 ^ i mod 256 * 256 ^ i) = x mod 256 ^ k" for k
    proof (induction k)
      case (Suc k)
      then show ?case
        by (simp add: mod_mult2_eq mult.commute [of 256])
    qed simp
    with that show ?thesis by simp
  qed
  have byte: "unat m div 256 ^ i mod 256 = unat n div 256 ^ i mod 256" if "i < 8" for i
    using b [of "7 - i"] that by (simp add: power_mult)
  have "unat m < 256 ^ 8" "unat n < 256 ^ 8"
    using unsigned_less [where 'a = nat, of m] unsigned_less [where 'a = nat, of n] by simp_all
  note d = digits [OF this(1)] digits [OF this(2)]
  have "unat m = (\<Sum>i<8. unat n div 256 ^ i mod 256 * 256 ^ i)"
    by (subst d(1), rule sum.cong) (simp_all only: byte lessThan_iff)
  also have "\<dots> = unat n"
    by (rule d(2) [symmetric])
  finally have "unat m = unat n" .
  then show "m = n" by (rule word_unat_eq_iff [THEN iffD2])
qed simp

definition field_ok :: "string \<Rightarrow> bool" where
  "field_ok s \<longleftrightarrow> length s < 2 ^ 64"

lemma writeField_prefix:
  assumes "field_ok a" "field_ok b" "writeField a @ s = writeField b @ t"
  shows "a = b \<and> s = t"
proof -
  have "PutUint64 (of_nat (length a)) = PutUint64 (of_nat (length b))" and rest: "a @ s = b @ t"
    using assms(3) by (simp_all add: writeField_def append_eq_append_conv)
  then have "length a = length b"
    using assms(1,2) by (simp add: field_ok_def word_of_nat_eq_iff take_bit_nat_eq_self)
  with rest show ?thesis by simp
qed

lemma fields_inject:
  assumes "list_all field_ok xs" "list_all field_ok ys" "concat (map writeField xs) = concat (map writeField ys)"
  shows "xs = ys"
  using assms
proof (induction xs arbitrary: ys)
  case Nil
  then show ?case by (cases ys) (auto simp: writeField_def dest: arg_cong [where f = length])
next
  case (Cons x xs)
  then obtain y ys' where ys: "ys = y # ys'"
    by (cases ys) (auto simp: writeField_def dest: arg_cong [where f = length])
  with Cons.prems writeField_prefix [of x y "concat (map writeField xs)" "concat (map writeField ys')"] Cons.IH [of ys']
  show ?case by simp
qed

lemma hex_no_colon: "CHR '':'' \<notin> set (hex_EncodeToString s)"
proof -
  have "hex_digit n \<noteq> CHR '':''" if "n < 16" for n
    using that by (auto simp: hex_digit_def nth_Cons' numeral_eq_Suc less_Suc_eq)
  moreover have "(of_char c :: nat) div 16 < 16" for c :: char
    using nat_of_char_less_256 [of c] by (simp add: less_mult_imp_div_less)
  ultimately have "CHR '':'' \<notin> {hex_digit (of_char c div 16), hex_digit (of_char c mod 16)}" for c :: char
    by (metis emptyE insertE mod_less_divisor zero_less_numeral)
  then show ?thesis
    by (fastforce simp: hex_EncodeToString_def)
qed

lemma KeyID_no_colon: "CHR '':'' \<notin> set (KeyID sha256 token)"
  using hex_no_colon set_take_subset unfolding KeyID_def by fast

lemma key_header_fields:
  assumes "map (\<lambda>name. name @ '':'' @ h name) (filter (\<lambda>name. h name \<noteq> []) keyHeaders) =
      map (\<lambda>name. name @ '':'' @ h' name) (filter (\<lambda>name. h' name \<noteq> []) keyHeaders)"
  shows "\<forall>name \<in> set keyHeaders. h name = h' name"
  using assms by (auto simp: keyHeaders_def split: if_splits)

text \<open>
  Distinct requests never share the bytes a cache key is the digest of: with forward-key ids as
  callers (or no caller) two requests with the same bytes agree in method, path, query, in the value of every header
  that takes part in the key, in the caller and in the body. In particular a body cannot be crafted to
  pass as another request, and one caller's entries are never another's. (Lengths are those a 64-bit
  length prefix can hold.)
\<close>

theorem cache_key_injective:
  assumes "key_preimage r body caller = key_preimage r' body' caller'"
    and "list_all field_ok (key_fields r body caller)" "list_all field_ok (key_fields r' body' caller')"
    and "caller \<in> {[], KeyID sha256 token}" "caller' \<in> {[], KeyID sha256 token'}"
  shows "rq_Method r = rq_Method r' \<and> rq_Path r = rq_Path r' \<and> rq_RawQuery r = rq_RawQuery r' \<and>
    (\<forall>name \<in> set keyHeaders. rq_Header r name = rq_Header r' name) \<and> caller = caller' \<and> body = body'"
proof -
  define hs where "hs h = map (\<lambda>name. name @ '':'' @ h name) (filter (\<lambda>name. h name \<noteq> []) keyHeaders)" for h
  define cs where "cs c = (if c \<noteq> [] then [c] else [])" for c :: string
  let ?colon = "\<lambda>s :: string. CHR '':'' \<in> set s"
  have "key_fields r body caller = key_fields r' body' caller'"
    using assms(1-3) fields_inject by (simp add: key_preimage_def)
  then have eq: "rq_Method r = rq_Method r'" "rq_Path r = rq_Path r'" "rq_RawQuery r = rq_RawQuery r'" "body = body'"
    and mid: "hs (rq_Header r) @ cs caller = hs (rq_Header r') @ cs caller'"
    by (simp_all add: key_fields_def hs_def cs_def flip: append_assoc)
  have H: "filter ?colon (hs h) = hs h" "filter (\<lambda>s. \<not> ?colon s) (hs h) = []" for h
    by (simp_all add: hs_def filter_id_conv filter_empty_conv)
  have C: "filter ?colon (cs c) = []" "filter (\<lambda>s. \<not> ?colon s) (cs c) = cs c"
    if "c \<in> {[], KeyID sha256 t}" for c t
    using that KeyID_no_colon by (auto simp: cs_def)
  have "hs (rq_Header r) = hs (rq_Header r')"
    using arg_cong [OF mid, of "filter ?colon"] H C(1) [OF assms(4)] C(1) [OF assms(5)] by simp
  moreover have "cs caller = cs caller'"
    using arg_cong [OF mid, of "filter (\<lambda>s. \<not> ?colon s)"] H C(2) [OF assms(4)] C(2) [OF assms(5)] by simp
  ultimately show ?thesis
    using eq key_header_fields by (auto simp: hs_def cs_def split: if_splits)
qed

definition ex_request :: request where
  "ex_request = \<lparr> rq_Method = ''POST'', rq_Path = ''/v1/messages'', rq_RawQuery = [],
     rq_Header = (\<lambda>name. if name = ''accept-language'' then ''de'' else []) \<rparr>"

definition ex_request' :: request where
  "ex_request' = ex_request \<lparr> rq_Header := (rq_Header ex_request)(''user-agent'' := ''curl'') \<rparr>"

theorem cache_key_injective_witness:
  "ex_request \<noteq> ex_request' \<and> key_preimage ex_request ''{}'' ''6b'' = key_preimage ex_request' ''{}'' ''6b'' \<and>
   map (rq_Header ex_request) keyHeaders = map (rq_Header ex_request') keyHeaders"
proof -
  have fields: "list_all field_ok (key_fields ex_request ''{}'' ''6b'')" "list_all field_ok (key_fields ex_request' ''{}'' ''6b'')"
    by (simp_all add: key_fields_def ex_request_def ex_request'_def keyHeaders_def field_ok_def)
  have same: "key_preimage ex_request ''{}'' ''6b'' = key_preimage ex_request' ''{}'' ''6b''"
    by (simp add: key_preimage_def key_fields_def ex_request_def ex_request'_def keyHeaders_def)
  have id: "''6b'' \<in> {[], KeyID (\<lambda>s. s) ''k''}"
    by (simp add: KeyID_def hex_EncodeToString_def hex_digit_def)
  have "rq_Header ex_request ''user-agent'' \<noteq> rq_Header ex_request' ''user-agent''"
    by (simp add: ex_request_def ex_request'_def)
  with same cache_key_injective [OF same fields id id] show ?thesis
    by auto
qed

end
