(* ===== verification/Cache_Replay.thy ===== *)
theory Cache_Replay
  imports Cache_Props
begin

text \<open>
  A response on its way through the cache: captured while it streams to its first client, stored,
  found again and replayed to a later client.
\<close>

subsection \<open>The recorder\<close>

definition record_reads :: "(string \<times> read_error option) list \<Rightarrow> int \<Rightarrow> Recorder" where
  "record_reads reads mx = fold Recorder_Read reads (NewRecorder mx)"

lemma Recorder_Read_inv:
  assumes "rec_max r = mx" "\<not> rec_truncated r \<Longrightarrow> rec_body r = seen \<and> (seen = [] \<or> int (length seen) \<le> mx)"
    and "rec_truncated r \<Longrightarrow> mx < int (length seen) \<or> mx < 0"
  shows "rec_max (Recorder_Read (b, e) r) = mx"
    and "\<not> rec_truncated (Recorder_Read (b, e) r) \<Longrightarrow>
      rec_body (Recorder_Read (b, e) r) = seen @ b \<and> (seen @ b = [] \<or> int (length (seen @ b)) \<le> mx)"
    and "rec_truncated (Recorder_Read (b, e) r) \<Longrightarrow> mx < int (length (seen @ b)) \<or> mx < 0"
    and "rec_sawEOF (Recorder_Read (b, e) r) \<longleftrightarrow> rec_sawEOF r \<or> e = Some EOF"
  using assms by (auto simp: Recorder_Read_def Let_def split: if_splits)

lemma record_reads_aux:
  assumes "rec_max r = mx" "\<not> rec_truncated r \<Longrightarrow> rec_body r = seen \<and> (seen = [] \<or> int (length seen) \<le> mx)"
    and "rec_truncated r \<Longrightarrow> mx < int (length seen) \<or> mx < 0"
  shows "let r' = fold Recorder_Read reads r; all = seen @ concat (map fst reads)
    in (\<not> rec_truncated r' \<longrightarrow> rec_body r' = all \<and> (all = [] \<or> int (length all) \<le> mx)) \<and>
       (rec_truncated r' \<longrightarrow> mx < int (length all) \<or> mx < 0) \<and>
       (rec_sawEOF r' \<longleftrightarrow> rec_sawEOF r \<or> Some EOF \<in> snd ` set reads)"
  using assms
proof (induction reads arbitrary: r seen)
  case (Cons rd reads)
  obtain b e where rd: "rd = (b, e)" by (cases rd)
  note step = Recorder_Read_inv [OF Cons.prems, of b e]
  show ?case
    using Cons.IH [OF step(1,2,3)] step(4) by (auto simp: rd Let_def)
qed (auto simp: Let_def)

lemma record_reads_complete:
  "Complete (Some (record_reads reads mx)) \<Longrightarrow>
     rec_body (record_reads reads mx) = concat (map fst reads) \<and>
     (concat (map fst reads) = [] \<or> int (length (concat (map fst reads))) \<le> mx) \<and> Some EOF \<in> snd ` set reads"
  using record_reads_aux [of "NewRecorder mx" mx "[]" reads]
  by (simp add: Complete_def record_reads_def NewRecorder_def Let_def)

lemma record_reads_incomplete:
  assumes "Some EOF \<notin> snd ` set reads \<or> (0 \<le> mx \<and> mx < int (length (concat (map fst reads))))"
  shows "\<not> Complete (Some (record_reads reads mx))"
proof
  assume "Complete (Some (record_reads reads mx))"
  from record_reads_complete [OF this] assms show False
    by (cases "concat (map fst reads) = []") (simp_all only: list.size, auto)
qed

subsection \<open>Response writers\<close>

text \<open>
  What replaying relies on (the contract of \<open>io.Writer\<close>): a write appends a prefix of its bytes to
  the response, of the length it reports, and changes nothing else.
\<close>

locale response_writer =
  fixes wr :: "string \<Rightarrow> client_response \<Rightarrow> nat \<times> bool \<times> client_response"
  assumes write_prefix: "wr b w = (n, failed, w') \<Longrightarrow> n \<le> length b \<and> w' = w \<lparr> cl_body := cl_body w @ take n b \<rparr>"
begin

lemma replay_loop_prefix:
  "replay_loop wr rest w = (res, w') \<Longrightarrow>
     \<exists>n. w' = w \<lparr> cl_body := cl_body w @ take n rest \<rparr> \<and> (res = ReplayOK \<longrightarrow> length rest \<le> n)"
proof (induction "length rest" arbitrary: rest w rule: less_induct)
  case less
  show ?case
  proof (cases "rest = []")
    case True
    then show ?thesis
      using less.prems by (auto simp: replay_loop.simps)
  next
    case False
    obtain n failed v where v: "wr (replay_chunk rest) w = (n, failed, v)"
      by (cases "wr (replay_chunk rest) w") auto
    from write_prefix [OF v] have n: "n \<le> length rest" "v = w \<lparr> cl_body := cl_body w @ take n rest \<rparr>"
      by (auto simp: replay_chunk_def min_def split: if_splits)
    show ?thesis
    proof (cases "failed \<or> n = 0")
      case True
      with less.prems False v n show ?thesis
        by (subst (asm) replay_loop.simps) (auto simp: Let_def intro!: exI [of _ n] split: if_splits)
    next
      case False
      with less.prems \<open>rest \<noteq> []\<close> v have rec: "replay_loop wr (drop n rest) v = (res, w')"
        by (subst (asm) replay_loop.simps) (auto simp: Let_def)
      have "length (drop n rest) < length rest"
        using False \<open>rest \<noteq> []\<close> by simp
      from less.hyps [OF this rec] obtain k where
        "w' = v \<lparr> cl_body := cl_body v @ take k (drop n rest) \<rparr>" "res = ReplayOK \<longrightarrow> length (drop n rest) \<le> k"
        by blast
      with n show ?thesis
        by (intro exI [of _ "n + k"]) (auto simp: take_add)
    qed
  qed
qed

text \<open>A writer that always takes something and does not fail lets the replay finish.\<close>

lemma replay_loop_finishes:
  assumes "\<And>b w. b \<noteq> [] \<Longrightarrow> 0 < fst (wr b w) \<and> \<not> fst (snd (wr b w))"
  shows "fst (replay_loop wr rest w) = ReplayOK"
proof (induction "length rest" arbitrary: rest w rule: less_induct)
  case less
  show ?case
  proof (cases "rest = []")
    case False
    then have ne: "replay_chunk rest \<noteq> []"
      by (simp add: replay_chunk_def)
    obtain n failed v where v: "wr (replay_chunk rest) w = (n, failed, v)"
      by (cases "wr (replay_chunk rest) w") auto
    with assms [OF ne, of w] have "0 < n" "\<not> failed"
      by simp_all
    with less [of "drop n rest" v] False v show ?thesis
      by (subst replay_loop.simps) simp
  qed (simp add: replay_loop.simps)
qed

end

text \<open>The response writer of a live connection takes every byte.\<close>

definition full_write :: "string \<Rightarrow> client_response \<Rightarrow> nat \<times> bool \<times> client_response" where
  "full_write b w = (length b, False, w \<lparr> cl_body := cl_body w @ b \<rparr>)"

interpretation live: response_writer full_write
  by unfold_locales (auto simp: full_write_def)

subsection \<open>The round trip\<close>

lemma HeaderForCapturedBody_strips:
  assumes "ToLower name \<in> set hopByHopHeaders" "CanonicalHeaderKey name = name"
  shows "fmlookup (HeaderForCapturedBody h conv mm ws) name = None"
proof -
  have fold_none: "fmlookup g name = None \<Longrightarrow>
      fmlookup (fold (\<lambda>n r. if P n then Header_Del n r else r) ns g) name = None" for P ns g
    by (induction ns arbitrary: g) (auto simp: Header_Del_def)
  have fold_del: "name \<in> set ns \<Longrightarrow> P name \<Longrightarrow>
      fmlookup (fold (\<lambda>n r. if P n then Header_Del n r else r) ns g) name = None" for P ns g
  proof (induction ns arbitrary: g)
    case (Cons n ns)
    show ?case
    proof (cases "n = name")
      case True
      with Cons.prems assms(2) show ?thesis
        by (auto simp: Header_Del_def intro!: fold_none)
    qed (use Cons in auto)
  qed simp
  have "fmlookup (fold (\<lambda>n r. if ToLower n \<in> set hopByHopHeaders \<or> ToLower n \<in> set (connection_named h) then Header_Del n r else r)
      (fmkeys h) h) name = None"
  proof (cases "name \<in> set (fmkeys h)")
    case True
    then show ?thesis
      by (rule fold_del) (use assms(1) in simp)
  next
    case False
    then show ?thesis
      by (intro fold_none) (simp add: fmlookup_dom'_iff)
  qed
  moreover have "CanonicalHeaderKey ''Content-Type'' \<noteq> name"
    using assms(1) by (auto simp: CanonicalHeaderKey_def header_char_def upper_char_def lower_char_def ToLower_def hopByHopHeaders_def)
  ultimately show ?thesis
    by (simp add: HeaderForCapturedBody_def Let_def Header_Del_def Header_Set_def)
qed

text \<open>
  C32. A cached answer is the answer: a response that is captured to its clean end within the size
  bound and stored is, at every time within its time to live, found again under its key and replayed
  with the same status and, when the replay reports success, byte for byte; a replay that fails has
  written a prefix of it. The stored body respects the size bound, and no connection-scoped header of
  the upstream exchange is stored. A response that was cut off before its end, or exceeds
  the bound, leaves the store as it was.
\<close>

theorem cached_replay_exact:
  fixes reads :: "(string \<times> read_error option) list" and s :: cache_Store
    and iter key model status hdr conv mm ws stream terminal now
  assumes wr: "\<And>b w n failed w'. wr b w = (n, failed, w') \<Longrightarrow> n \<le> length b \<and> w' = w \<lparr> cl_body := cl_body w @ take n b \<rparr>"
    and key: "key \<noteq> []" and cap: "0 \<le> cs_maxBodyBytes s"
  defines "bytes \<equiv> concat (map fst reads)"
    and "rec \<equiv> record_reads reads (MaxBodyBytes (Some s))"
  defines "s' \<equiv> store_captured iter key model status hdr conv mm ws stream terminal (Some rec) now (Some s)"
  shows "(Some EOF \<in> snd ` set reads \<longrightarrow> bytes \<noteq> [] \<longrightarrow> int (length bytes) \<le> MaxBodyBytes (Some s) \<longrightarrow>
      (stream \<longrightarrow> terminal bytes) \<longrightarrow> t \<le> now + cs_ttl s \<longrightarrow> cl_body w = [] \<longrightarrow>
      Replay wr (fst (cache_Lookup key called t s' c)) w = (res, w') \<longrightarrow>
      cl_status w' = Some status \<and> prefix (cl_body w') bytes \<and> (res = ReplayOK \<longrightarrow> cl_body w' = bytes) \<and>
      (\<exists>e. fst (cache_Lookup key called t s' c) = Some e \<and> ce_body e = bytes \<and>
         (\<forall>name. CanonicalHeaderKey name = name \<longrightarrow> ToLower name \<in> set hopByHopHeaders \<longrightarrow> fmlookup (ce_header e) name = None))) \<and>
    (Some EOF \<notin> snd ` set reads \<or> MaxBodyBytes (Some s) < int (length bytes) \<longrightarrow> s' = Some s)"
proof (rule conjI; (rule impI)+)
  assume eof: "Some EOF \<in> snd ` set reads" and ne: "bytes \<noteq> []" and fits: "int (length bytes) \<le> MaxBodyBytes (Some s)"
    and st: "stream \<longrightarrow> terminal bytes" and t: "t \<le> now + cs_ttl s" and w: "cl_body w = []"
    and rp: "Replay wr (fst (cache_Lookup key called t s' c)) w = (res, w')"
  have writer: "response_writer wr"
    using wr by unfold_locales blast
  have rec: "Complete (Some rec)" "rec_body rec = bytes"
    using record_reads_aux [of "NewRecorder (MaxBodyBytes (Some s))" "MaxBodyBytes (Some s)" "[]" reads] eof fits cap
    by (auto simp: rec_def bytes_def record_reads_def NewRecorder_def Let_def Complete_def MaxBodyBytes_def simp del: length_concat)
  define e where "e = \<lparr> ce_model = model, ce_status = status, ce_header = HeaderForCapturedBody hdr conv mm ws,
    ce_body = bytes, ce_expiresAt = now + cs_ttl s \<rparr>"
  have "s' = cache_Put iter key model status (HeaderForCapturedBody hdr conv mm ws) bytes now (Some s)"
    using rec ne st by (auto simp: s'_def store_captured_def Recorder_Body_def)
  then obtain s1 where "s' = Some s1" "fmlookup (cs_entries s1) key = Some e"
    using key by (auto simp: cache_Put_def Let_def e_def)
  with t have found: "fst (cache_Lookup key called t s' c) = Some e"
    by (simp add: cache_Lookup_def e_def)
  with rp found have loop: "replay_loop wr bytes (w \<lparr> cl_header := add_headers (ce_header e) (cl_header w), cl_status := Some status \<rparr>) = (res, w')"
    by (simp add: Replay_def e_def)
  from response_writer.replay_loop_prefix [OF writer loop] w
  have "cl_status w' = Some status \<and> prefix (cl_body w') bytes \<and> (res = ReplayOK \<longrightarrow> cl_body w' = bytes)"
    by (auto simp: take_is_prefix)
  with found show "cl_status w' = Some status \<and> prefix (cl_body w') bytes \<and> (res = ReplayOK \<longrightarrow> cl_body w' = bytes) \<and>
      (\<exists>e. fst (cache_Lookup key called t s' c) = Some e \<and> ce_body e = bytes \<and>
         (\<forall>name. CanonicalHeaderKey name = name \<longrightarrow> ToLower name \<in> set hopByHopHeaders \<longrightarrow> fmlookup (ce_header e) name = None))"
    by (simp add: e_def HeaderForCapturedBody_strips)
next
  assume "Some EOF \<notin> snd ` set reads \<or> MaxBodyBytes (Some s) < int (length bytes)"
  then have "\<not> Complete (Some rec)"
    unfolding rec_def by (intro record_reads_incomplete) (use cap in \<open>auto simp: bytes_def MaxBodyBytes_def\<close>)
  then show "s' = Some s"
    by (simp add: s'_def store_captured_def)
qed

definition ex_reads :: "(string \<times> read_error option) list" where
  "ex_reads = [(''he'', None), (''llo'', Some EOF)]"

definition ex_stored :: "cache_Store option" where
  "ex_stored = store_captured sorted_list_of_fset ''k'' ''m'' 200 fmempty False False False True (\<lambda>body. body = ''hello'')
     (Some (record_reads ex_reads 100)) 6 (Some (cache_New ex_cache_options))"

definition ex_fresh :: client_response where
  "ex_fresh = \<lparr> cl_header = fmempty, cl_status = None, cl_body = [] \<rparr>"

theorem cached_replay_exact_witness:
  "cl_body (snd (Replay full_write (fst (cache_Lookup ''k'' ''m'' 60 ex_stored zero_counters)) ex_fresh)) = ''hello''"
proof -
  let ?r = "Replay full_write (fst (cache_Lookup ''k'' ''m'' 60 ex_stored zero_counters)) ex_fresh"
  have cap: "0 \<le> cs_maxBodyBytes (cache_New ex_cache_options)" "MaxBodyBytes (Some (cache_New ex_cache_options)) = 100"
    "cs_ttl (cache_New ex_cache_options) = 60"
    by (simp_all add: cache_New_def ex_cache_options_def MaxBodyBytes_def)
  have "fst ?r = ReplayOK"
    by (simp add: Replay_def full_write_def live.replay_loop_finishes split: option.split)
  moreover have "fst ?r = ReplayOK \<longrightarrow> cl_body (snd ?r) = concat (map fst ex_reads)"
    using cached_replay_exact [where wr = full_write and key = "''k''" and s = "cache_New ex_cache_options"
        and reads = ex_reads and stream = True and terminal = "\<lambda>body. body = ''hello''" and t = 60 and now = 6
        and w = ex_fresh and called = "''m''" and iter = sorted_list_of_fset and model = "''m''" and status = 200
        and hdr = fmempty and conv = False and mm = False and ws = False and c = zero_counters
        and res = "fst ?r" and w' = "snd ?r", OF live.write_prefix _ cap(1)]
    by (simp add: cap ex_reads_def ex_stored_def ex_fresh_def)
  ultimately show ?thesis
    by (simp add: ex_reads_def)
qed

end
