(* ===== verification/Regex.thy ===== *)
theory Regex
  imports Prelude
begin

text \<open>
  The part of Go's regular expressions (package \<open>regexp\<close>) that the sources use: matching over code
  points with captures, leftmost-first. The matches of an expression at a position are listed in
  order of preference, so the first of the list at the leftmost position that has one is the match
  \<open>FindSubmatch\<close> reports. A byte that is not part of a valid UTF-8 sequence reads as U+FFFD, as in
  the standard library. Case folding (\<open>(?i)\<close>) is that of ASCII letters.
\<close>

type_synonym rune = nat

definition bytes :: "nat list \<Rightarrow> string" where
  "bytes ns = map char_of ns"

subsection \<open>UTF-8\<close>

definition cont_byte :: "nat \<Rightarrow> nat \<Rightarrow> char \<Rightarrow> bool" where
  "cont_byte lo hi c \<longleftrightarrow> lo \<le> of_char c \<and> of_char c \<le> hi"

definition low6 :: "char \<Rightarrow> nat" where
  "low6 c = of_char c mod 64"

fun DecodeRune :: "string \<Rightarrow> rune \<times> nat" where
  "DecodeRune [] = (0xFFFD, 0)"
| "DecodeRune (a # s) =
     (let n = (of_char a :: nat)
      in if n < 0x80 then (n, 1)
         else if 0xC2 \<le> n \<and> n \<le> 0xDF then
           (case s of b # _ \<Rightarrow> if cont_byte 0x80 0xBF b then (n mod 32 * 64 + low6 b, 2) else (0xFFFD, 1) | _ \<Rightarrow> (0xFFFD, 1))
         else if 0xE0 \<le> n \<and> n \<le> 0xEF then
           (case s of b # c # _ \<Rightarrow>
              if cont_byte (if n = 0xE0 then 0xA0 else 0x80) (if n = 0xED then 0x9F else 0xBF) b \<and> cont_byte 0x80 0xBF c
              then ((n mod 16 * 64 + low6 b) * 64 + low6 c, 3) else (0xFFFD, 1) | _ \<Rightarrow> (0xFFFD, 1))
         else if 0xF0 \<le> n \<and> n \<le> 0xF4 then
           (case s of b # c # d # _ \<Rightarrow>
              if cont_byte (if n = 0xF0 then 0x90 else 0x80) (if n = 0xF4 then 0x8F else 0xBF) b \<and>
                 cont_byte 0x80 0xBF c \<and> cont_byte 0x80 0xBF d
              then (((n mod 8 * 64 + low6 b) * 64 + low6 c) * 64 + low6 d, 4) else (0xFFFD, 1) | _ \<Rightarrow> (0xFFFD, 1))
         else (0xFFFD, 1))"

lemma DecodeRune_width: "s \<noteq> [] \<Longrightarrow> 0 < snd (DecodeRune s)"
  by (cases s) (auto simp: Let_def split: list.split)

function runes :: "string \<Rightarrow> rune list" where
  "runes s = (if s = [] then [] else let (r, n) = DecodeRune s in r # runes (drop n s))"
  by pat_completeness auto
termination
proof (relation "measure length")
  fix s :: string and x r n
  assume "s \<noteq> []" "x = DecodeRune s" "(r, n) = x"
  then show "(drop n s, s) \<in> measure length"
    using DecodeRune_width [of s] by (cases "DecodeRune s") auto
qed simp

declare runes.simps [simp del]

subsection \<open>Expressions\<close>

datatype rx =
    Empty
  | One "rune \<Rightarrow> bool"
  | Many "rune \<Rightarrow> bool"
  | Cat rx rx
  | Or rx rx
  | Rep nat nat rx
  | Lazy nat nat rx
  | Cap nat rx

type_synonym rx_state = "rune list \<times> (nat \<times> rune list) list"

fun many :: "(rune \<Rightarrow> bool) \<Rightarrow> rune list \<Rightarrow> rune list list" where
  "many P [] = [[]]"
| "many P (r # s) = (if P r then many P s else []) @ [r # s]"

fun rep :: "nat \<Rightarrow> nat \<Rightarrow> ('s \<Rightarrow> 's list) \<Rightarrow> 's \<Rightarrow> 's list" where
  "rep mn 0 m st = (if mn = 0 then [st] else [])"
| "rep mn (Suc mx) m st = concat (map (rep (mn - 1) mx m) (m st)) @ (if mn = 0 then [st] else [])"

fun lazy :: "nat \<Rightarrow> nat \<Rightarrow> ('s \<Rightarrow> 's list) \<Rightarrow> 's \<Rightarrow> 's list" where
  "lazy mn 0 m st = (if mn = 0 then [st] else [])"
| "lazy mn (Suc mx) m st = (if mn = 0 then [st] else []) @ concat (map (lazy (mn - 1) mx m) (m st))"

primrec rx_matches :: "rx \<Rightarrow> rx_state \<Rightarrow> rx_state list" where
  "rx_matches Empty st = [st]"
| "rx_matches (One P) st = (case fst st of [] \<Rightarrow> [] | r # s \<Rightarrow> if P r then [(s, snd st)] else [])"
| "rx_matches (Many P) st = map (\<lambda>s. (s, snd st)) (many P (fst st))"
| "rx_matches (Cat a b) st = concat (map (rx_matches b) (rx_matches a st))"
| "rx_matches (Or a b) st = rx_matches a st @ rx_matches b st"
| "rx_matches (Rep mn mx a) st = rep mn mx (rx_matches a) st"
| "rx_matches (Lazy mn mx a) st = lazy mn mx (rx_matches a) st"
| "rx_matches (Cap i a) st =
     map (\<lambda>(s, caps). (s, (i, take (length (fst st) - length s) (fst st)) # caps)) (rx_matches a st)"

definition submatch :: "nat \<Rightarrow> (nat \<times> rune list) list \<Rightarrow> rune list" where
  "submatch i caps = (case map_of caps i of None \<Rightarrow> [] | Some s \<Rightarrow> s)"

fun find_at :: "rx \<Rightarrow> rune list \<Rightarrow> rx_state option" where
  "find_at r s =
     (case rx_matches r (s, []) of
        st # _ \<Rightarrow> Some st
      | [] \<Rightarrow> (case s of [] \<Rightarrow> None | _ # s \<Rightarrow> find_at r s))"

declare find_at.simps [simp del]

definition FindSubmatch :: "rx \<Rightarrow> rune list \<Rightarrow> (nat \<times> rune list) list option" where
  "FindSubmatch r s = map_option snd (find_at r s)"

text \<open>All successive matches of an expression that consumes input.\<close>

function FindAllSubmatch :: "rx \<Rightarrow> rune list \<Rightarrow> (nat \<times> rune list) list list" where
  "FindAllSubmatch r s =
     (case find_at r s of
        None \<Rightarrow> []
      | Some (rest, caps) \<Rightarrow> caps # (if length rest < length s then FindAllSubmatch r rest else []))"
  by pat_completeness auto
termination
  by (relation "measure (\<lambda>(r, s). length s)") auto

declare FindAllSubmatch.simps [simp del]

subsection \<open>Building blocks\<close>

definition is_digit :: "rune \<Rightarrow> bool" where
  "is_digit r \<longleftrightarrow> 48 \<le> r \<and> r \<le> 57"

text \<open>The class \<open>\s\<close>: tab, newline, form feed, carriage return, space.\<close>

definition is_ws :: "rune \<Rightarrow> bool" where
  "is_ws r \<longleftrightarrow> r \<in> {9, 10, 12, 13, 32}"

definition fold_rune :: "rune \<Rightarrow> rune" where
  "fold_rune r = (if 65 \<le> r \<and> r \<le> 90 then r + 32 else r)"

definition cats :: "rx list \<Rightarrow> rx" where
  "cats rs = foldr Cat rs Empty"

fun alts :: "rx list \<Rightarrow> rx" where
  "alts [] = One (\<lambda>_. False)"
| "alts [r] = r"
| "alts (r # r' # rs) = Or r (alts (r' # rs))"

definition opt :: "rx \<Rightarrow> rx" where
  "opt r = Rep 0 1 r"

definition lit :: "rune list \<Rightarrow> rx" where
  "lit s = cats (map (\<lambda>r. One (\<lambda>x. x = r)) s)"

definition ci :: "string \<Rightarrow> rx" where
  "ci s = cats (map (\<lambda>c. One (\<lambda>x. fold_rune x = of_char c)) s)"

definition digits1 :: rx where
  "digits1 = Cat (One is_digit) (Many is_digit)"

definition ws0 :: rx where
  "ws0 = Many is_ws"

end
