(* ===== verification/Rate_Limit.thy ===== *)
theory Rate_Limit
  imports Regex Config_Model Manager_State "HOL-Library.Signed_Division"
begin

text \<open>
  What a 429 says (\<open>internal/targetexec/rate_limit.go\<close>): which budget is exhausted, and until when
  the provider is to be left alone. The reset hints in a body are found by the regular expressions of
  the source. Three functions of the standard library are arguments: the parsers of HTTP dates and of
  RFC 3339 times, and the start of the next calendar day in the clock's time zone; what is proved
  holds for all of them, with the one law of the last that it says.
\<close>

definition maxResetHint :: duration where
  "maxResetHint = 7 * 24 * hour"

definition dailyQuotaMarkers :: "string list" where
  "dailyQuotaMarkers =
     [(''today'' @ [CHR 39] @ ''s quota''), ''todays quota'', ''daily quota'', ''daily limit'', ''per-day'',
      ''per day quota'', bytes [230, 175, 143, 230, 151, 165, 233, 153, 144, 233, 162, 157],
      bytes [230, 175, 143, 230, 151, 165, 233, 162, 157, 229, 186, 166],
      bytes [230, 151, 165, 233, 133, 141, 233, 162, 157],
      bytes [228, 187, 138, 230, 151, 165, 233, 162, 157, 229, 186, 166]]"

definition quotaExhaustedMarkers :: "string list" where
  "quotaExhaustedMarkers =
     [''insufficient_quota'', ''insufficient quota'', ''insufficient balance'', ''quota_exceeded'',
      ''quota exceeded'', ''exceeded your current quota'', ''quota exhausted'', ''quota_exhausted'', ''usage limit'',
      ''credit balance'', ''balance not enough'', ''account balance'',
      bytes [228, 189, 153, 233, 162, 157, 228, 184, 141, 232, 182, 179],
      bytes [233, 162, 157, 229, 186, 166, 228, 184, 141, 232, 182, 179],
      bytes [233, 133, 141, 233, 162, 157, 228, 184, 141, 232, 182, 179],
      bytes [229, 165, 151, 233, 164, 144, 233, 162, 157, 229, 186, 166],
      bytes [233, 133, 141, 233, 162, 157, 229, 183, 178, 231, 148, 168, 229, 174, 140],
      bytes [233, 162, 157, 229, 186, 166, 229, 183, 178, 231, 148, 168, 229, 174, 140], ''limit_source'',
      ''not enough credits'']"

subsection \<open>Patterns\<close>

definition unit_words :: rx where
  "unit_words = alts
     [Cat (ci ''day'') (opt (ci ''s'')), ci ''d'', Cat (ci ''hour'') (opt (ci ''s'')), Cat (ci ''hr'') (opt (ci ''s'')),
      ci ''h'', Cat (ci ''minute'') (opt (ci ''s'')), Cat (ci ''min'') (opt (ci ''s'')), ci ''m'',
      Cat (ci ''second'') (opt (ci ''s'')), Cat (ci ''sec'') (opt (ci ''s'')), ci ''s'']"

definition not_digit :: "rune \<Rightarrow> bool" where
  "not_digit r \<longleftrightarrow> \<not> is_digit r"

definition retryAfterRe :: rx where
  "retryAfterRe = cats
     [ci ''retry'', opt (One (\<lambda>r. r = 32 \<or> r = 45)), ci ''after'', Rep 0 20 (One not_digit), Cap 1 digits1, ws0, Cap 2 unit_words]"

definition reset_in :: rx where
  "reset_in = cats [ci ''reset'', opt (ci ''s''), ws0, alts [ci ''after'', ci ''in''], Rep 0 20 (One not_digit)]"

definition resetInRe :: rx where
  "resetInRe = cats
     [reset_in, Cap 1 (Rep 1 3 (cats [digits1, ws0, One (\<lambda>r. fold_rune r \<in> {104, 109, 115}), ws0]))]"

definition resetInWordsRe :: rx where
  "resetInWordsRe = cats [reset_in, Cap 1 digits1, ws0, Cap 2 unit_words]"

definition durationTokenRe :: rx where
  "durationTokenRe = cats [Cap 1 digits1, ws0, Cap 2 (One (\<lambda>r. r \<in> {104, 109, 115}))]"

text \<open>The Chinese wordings: a number, a unit, "later", and a verb for retrying or recovering.\<close>

definition cnResetHintRe :: rx where
  "cnResetHintRe = cats
     [Cap 1 digits1, ws0, opt (lit [20010]), ws0,
      Cap 3 (alts [lit [22825], lit [23567, 26102], lit [26102], lit [20998, 38047], lit [20998], lit [31186]]),
      ws0, opt (lit [20043]), lit [21518], ws0, opt (lit [20877]),
      alts [lit [37325, 35797], lit [37325, 21457], lit [37325, 32622], lit [24674, 22797],
        lit [23581, 35797], lit [20877, 35797], lit [35797], lit [24320, 25918]]]"

definition rfc3339KeyedRe :: rx where
  "rfc3339KeyedRe = cats
     [alts [ci ''reset'', ci ''retry''], Lazy 0 40 (One (\<lambda>r. r \<noteq> 10)),
      Cap 1 (cats [Rep 4 4 (One is_digit), lit [45], Rep 2 2 (One is_digit), lit [45], Rep 2 2 (One is_digit), ci ''t'',
        Rep 2 2 (One is_digit), lit [58], Rep 2 2 (One is_digit), lit [58], Rep 2 2 (One is_digit),
        alts [ci ''z'', cats [One (\<lambda>r. r = 43 \<or> r = 45), Rep 2 2 (One is_digit), opt (lit [58]), Rep 2 2 (One is_digit)]]])]"

subsection \<open>Numbers and durations\<close>

text \<open>\<open>strconv.Atoi\<close> on code points: an optional sign and digits, within 64 bits.\<close>

definition digits_value :: "rune list \<Rightarrow> int" where
  "digits_value ds = foldl (\<lambda>n r. 10 * n + (int r - 48)) 0 ds"

definition Atoi64 :: "rune list \<Rightarrow> int option" where
  "Atoi64 s =
     (let (neg, ds) = (case s of r # ds \<Rightarrow> if r = 45 then (True, ds) else if r = 43 then (False, ds) else (False, s) | [] \<Rightarrow> (False, []));
          n = (if neg then - digits_value ds else digits_value ds)
      in if ds \<noteq> [] \<and> list_all is_digit ds \<and> - (2 ^ 63) \<le> n \<and> n < 2 ^ 63 then Some n else None)"

definition wrap64 :: "int \<Rightarrow> int" where
  "wrap64 n = (n + 2 ^ 63) mod 2 ^ 64 - 2 ^ 63"

definition scaled :: "rune list \<Rightarrow> duration \<Rightarrow> duration option" where
  "scaled number scale =
     (case Atoi64 number of
        None \<Rightarrow> None
      | Some n \<Rightarrow> if n < 0 then None else if n > max_duration div scale then Some maxResetHint else Some (n * scale))"

definition unit_is :: "rune list \<Rightarrow> string list \<Rightarrow> bool" where
  "unit_is u ws \<longleftrightarrow> map fold_rune u \<in> set (map (map of_char) ws)"

definition hint_scale :: "rune list \<Rightarrow> duration" where
  "hint_scale u =
     (if unit_is u [''d'', ''day'', ''days''] then 24 * hour
      else if unit_is u [''h'', ''hr'', ''hrs'', ''hour'', ''hours''] then hour
      else if unit_is u [''m'', ''min'', ''mins'', ''minute'', ''minutes''] then minute
      else second)"

definition hintDuration :: "rune list \<Rightarrow> rune list \<Rightarrow> duration option" where
  "hintDuration number u = scaled number (hint_scale u)"

definition cn_scale :: "rune list \<Rightarrow> duration" where
  "cn_scale u =
     (if u = [22825] then 24 * hour
      else if u \<in> {[23567, 26102], [26102]} then hour
      else if u \<in> {[20998, 38047], [20998]} then minute
      else second)"

definition cnHintDuration :: "rune list \<Rightarrow> rune list \<Rightarrow> duration option" where
  "cnHintDuration number u = scaled number (cn_scale u)"

subsection \<open>Reset hints\<close>

definition token_total :: "(nat \<times> rune list) list list \<Rightarrow> duration" where
  "token_total toks =
     foldl (\<lambda>total tok. case hintDuration (submatch 1 tok) (submatch 2 tok) of None \<Rightarrow> total | Some d \<Rightarrow> wrap64 (total + d)) 0 toks"

text \<open>The five hint forms, each tried while no earlier one gave a time (the zero time is "none").\<close>

definition retry_after_hint :: "rune list \<Rightarrow> gotime \<Rightarrow> gotime" where
  "retry_after_hint body now =
     (case FindSubmatch retryAfterRe body of
        None \<Rightarrow> 0
      | Some m \<Rightarrow> (case hintDuration (submatch 1 m) (submatch 2 m) of None \<Rightarrow> 0 | Some d \<Rightarrow> now + d))"

definition reset_in_hint :: "rune list \<Rightarrow> gotime \<Rightarrow> gotime" where
  "reset_in_hint body now =
     (case FindSubmatch resetInRe body of
        None \<Rightarrow> 0
      | Some m \<Rightarrow> (let total = token_total (FindAllSubmatch durationTokenRe (submatch 1 m)) in if total > 0 then now + total else 0))"

definition reset_words_hint :: "rune list \<Rightarrow> gotime \<Rightarrow> gotime" where
  "reset_words_hint body now =
     (case FindSubmatch resetInWordsRe body of
        None \<Rightarrow> 0
      | Some m \<Rightarrow> (case hintDuration (submatch 1 m) (submatch 2 m) of None \<Rightarrow> 0 | Some d \<Rightarrow> now + d))"

definition cn_hint :: "rune list \<Rightarrow> gotime \<Rightarrow> gotime" where
  "cn_hint body now =
     (case FindSubmatch cnResetHintRe body of
        None \<Rightarrow> 0
      | Some m \<Rightarrow> (case cnHintDuration (submatch 1 m) (submatch 3 m) of None \<Rightarrow> 0 | Some d \<Rightarrow> now + d))"

definition rfc3339_hint :: "(rune list \<Rightarrow> gotime option) \<Rightarrow> rune list \<Rightarrow> gotime" where
  "rfc3339_hint parse body =
     (case FindSubmatch rfc3339KeyedRe body of
        None \<Rightarrow> 0
      | Some m \<Rightarrow> (case parse (submatch 1 m) of None \<Rightarrow> 0 | Some t \<Rightarrow> t))"

definition parseResetHint :: "(rune list \<Rightarrow> gotime option) \<Rightarrow> string \<Rightarrow> gotime \<Rightarrow> gotime option" where
  "parseResetHint parse body now =
     (if body = [] then None
      else
        (let b = runes body;
             until = retry_after_hint b now;
             until = (if until = 0 then reset_in_hint b now else until);
             until = (if until = 0 then reset_words_hint b now else until);
             until = (if until = 0 then cn_hint b now else until);
             until = (if until = 0 then rfc3339_hint parse b else until)
         in if until = 0 then None
            else if until < now then Some now
            else if until > now + maxResetHint then Some (now + maxResetHint)
            else Some until))"

subsection \<open>The decision\<close>

definition has_marker :: "string list \<Rightarrow> string \<Rightarrow> bool" where
  "has_marker markers body \<longleftrightarrow> list_ex (Contains (ToLower body)) markers"

definition classify429 :: "string \<Rightarrow> RateLimitKind" where
  "classify429 body =
     (if has_marker dailyQuotaMarkers body then Daily
      else if has_marker quotaExhaustedMarkers body then Quota
      else Transient)"

record RateLimitDecision =
  rl_Until :: gotime
  rl_Kind :: RateLimitKind

text \<open>The clock's calendar and the two time parsers.\<close>

record time_lib =
  tl_ParseRFC3339 :: "rune list \<Rightarrow> gotime option"
  tl_ParseTime :: "string \<Rightarrow> gotime option"
  tl_nextMidnight :: "gotime \<Rightarrow> gotime"

definition retry_after_header :: "time_lib \<Rightarrow> string \<Rightarrow> gotime \<Rightarrow> gotime option" where
  "retry_after_header lib v now =
     (case Atoi64 (map of_char v) of
        Some seconds \<Rightarrow>
          (let seconds = (if seconds < 0 then 0 else seconds); mx = maxResetHint sdiv second;
               seconds = (if seconds > mx then mx else seconds)
           in Some (now + seconds * second))
      | None \<Rightarrow>
          map_option (\<lambda>until.
            let until = (if until < now then now else until)
            in if until > now + maxResetHint then now + maxResetHint else until) (tl_ParseTime lib v))"

text \<open>The response's \<open>Retry-After\<close> value, empty if absent; a nil response is \<open>None\<close>.\<close>

definition ParseRateLimit :: "time_lib \<Rightarrow> string option \<Rightarrow> string \<Rightarrow> gotime \<Rightarrow> Scheduling \<Rightarrow> RateLimitDecision" where
  "ParseRateLimit lib retryAfter bodyPeek now scheduling =
     (let kind = classify429 bodyPeek;
          fallback = (case kind of
              Daily \<Rightarrow> tl_nextMidnight lib now
            | Quota \<Rightarrow> now + QuotaCooldownDuration scheduling
            | Transient \<Rightarrow> now + RateBackoff scheduling);
          until = (case parseResetHint (tl_ParseRFC3339 lib) bodyPeek now of
              Some until \<Rightarrow> until
            | None \<Rightarrow>
                (case retryAfter of
                   None \<Rightarrow> fallback
                 | Some v \<Rightarrow> if v = [] then fallback
                            else (case retry_after_header lib v now of Some until \<Rightarrow> until | None \<Rightarrow> fallback)))
      in \<lparr> rl_Until = until, rl_Kind = kind \<rparr>)"

definition ParseQuotaDenied :: "time_lib \<Rightarrow> string option \<Rightarrow> string \<Rightarrow> gotime \<Rightarrow> Scheduling \<Rightarrow> RateLimitDecision option" where
  "ParseQuotaDenied lib retryAfter bodyPeek now scheduling =
     (if bodyPeek = [] \<or> classify429 bodyPeek = Transient then None
      else Some (ParseRateLimit lib retryAfter bodyPeek now scheduling))"

end
