(* ===== verification/Failure_Class.thy ===== *)
theory Failure_Class
  imports Rate_Limit
begin

text \<open>
  Reading a failed upstream answer (\<open>internal/targetexec/failure.go\<close>): markers and patterns in the
  body that tell a context overflow, a model the account may not use, a rejected parameter, role or
  thinking dialect, a content refusal, and an HTML page in place of an API reply. The functions that
  rewrite a JSON request body are not modelled here.
\<close>

definition contextOverflowMarkers :: "string list" where
  "contextOverflowMarkers =
     [''context_length_exceeded'', ''maximum context length'', ''context window'', ''context length'',
      ''prompt is too long'', ''reduce the length'', ''too many tokens'']"

definition IsContextOverflow :: "int \<Rightarrow> string \<Rightarrow> bool" where
  "IsContextOverflow status peek =
     (if status < 400 \<or> 500 \<le> status \<or> peek = [] then False else has_marker contextOverflowMarkers peek)"

definition modelDeniedMarkers :: "string list" where
  "modelDeniedMarkers =
     [''model not found'', ''not supported by this endpoint'', ''model_not_found'', ''model does not exist'',
      ''does not exist'', ''no such model'', ''model is not available'', ''model unavailable'',
      ''do not have access to model'', ''not have access to the model'', ''no access to model'',
      ''not entitled to access model'', ''invalid model'', ''unknown model'',
      bytes [230, 168, 161, 229, 158, 139, 228, 184, 141, 229, 173, 152, 229, 156, 168],
      bytes [230, 168, 161, 229, 158, 139, 229, 183, 178, 228, 184, 139, 231, 186, 191],
      bytes [230, 168, 161, 229, 158, 139, 228, 184, 141, 229, 143, 175, 231, 148, 168],
      bytes [230, 151, 160, 230, 157, 131, 233, 153, 144, 232, 174, 191, 233, 151, 174, 230, 168, 161, 229, 158, 139],
      bytes [230, 178, 161, 230, 156, 137, 232, 175, 165, 230, 168, 161, 229, 158, 139, 231, 154, 132, 232, 174, 191, 233, 151, 174, 230, 157, 131, 233, 153, 144]]"

definition IsModelDenied :: "int \<Rightarrow> string \<Rightarrow> bool" where
  "IsModelDenied status peek =
     (if status \<noteq> 400 \<and> status \<noteq> 403 \<or> peek = [] then False else has_marker modelDeniedMarkers peek)"

subsection \<open>Rejected parameters\<close>

definition not_alnum :: "rune \<Rightarrow> bool" where
  "not_alnum r \<longleftrightarrow> \<not> (is_digit r \<or> 97 \<le> fold_rune r \<and> fold_rune r \<le> 122)"

text \<open>An optional quote: \<open>"\<close>, \<open>'\<close> or a backquote.\<close>

definition quote0 :: rx where
  "quote0 = opt (One (\<lambda>r. r \<in> {34, 39, 96}))"

definition param_char :: "rune \<Rightarrow> bool" where
  "param_char r \<longleftrightarrow> is_digit r \<or> 97 \<le> fold_rune r \<and> fold_rune r \<le> 122 \<or> r \<in> {95, 46, 45}"

definition param_name :: rx where
  "param_name = Cap 1 (Rep 1 64 (One param_char))"

definition blank_or_underscore :: rx where
  "blank_or_underscore = One (\<lambda>r. r = 32 \<or> r = 95)"

definition unsupportedParamRE :: rx where
  "unsupportedParamRE = cats
     [ci ''unsupported'', blank_or_underscore, ci ''parameter'', Rep 0 12 (One not_alnum), quote0, param_name]"

definition unknownParamRE :: rx where
  "unknownParamRE = cats
     [ci ''unknown'', blank_or_underscore, alts [ci ''parameter'', ci ''param'', ci ''field'', ci ''argument''],
      Rep 0 12 (One not_alnum), quote0, param_name]"

definition unrecognizedParamRE :: rx where
  "unrecognizedParamRE = cats
     [ci ''unrecognized'', blank_or_underscore, alts [ci ''parameter'', ci ''param'', ci ''field''],
      Rep 0 12 (One not_alnum), quote0, param_name]"

definition notSupportedRE :: rx where
  "notSupportedRE = cats
     [alts [ci ''parameter'', ci ''param'', ci ''field''], Rep 0 12 (One not_alnum), quote0, param_name, quote0,
      Rep 0 20 (One not_alnum), opt (cats [ci ''is'', One is_ws, ws0]), ci ''not'', One is_ws, ws0,
      alts [ci ''supported'', ci ''allowed'', ci ''recognized'']]"

definition jsonParamRE :: rx where
  "jsonParamRE = cats
     [lit (map of_char ''\"param\"''), ws0, lit [58], ws0, lit [34], param_name, lit [34]]"

definition neverStripParams :: "string list" where
  "neverStripParams =
     [''model'', ''messages'', ''input'', ''prompt'', ''system'', ''stream'', ''tools'', ''tool_choice'', ''response_format'']"

text \<open>A parameter name is made of ASCII characters, so its code points are its bytes.\<close>

definition strippable :: "rx \<Rightarrow> rune list \<Rightarrow> string option" where
  "strippable re peek =
     (case FindSubmatch re peek of
        None \<Rightarrow> None
      | Some m \<Rightarrow>
          (let name = map char_of (submatch 1 m) in if name \<in> set neverStripParams then None else Some name))"

fun first_some :: "('a \<Rightarrow> 'b option) \<Rightarrow> 'a list \<Rightarrow> 'b option" where
  "first_some f [] = None"
| "first_some f (x # xs) = (case f x of Some y \<Rightarrow> Some y | None \<Rightarrow> first_some f xs)"

definition ParseUnsupportedParam :: "string \<Rightarrow> string option" where
  "ParseUnsupportedParam peek =
     (let rs = runes peek
      in case first_some (\<lambda>re. strippable re rs) [unsupportedParamRE, unknownParamRE, unrecognizedParamRE, notSupportedRE] of
           Some name \<Rightarrow> Some name
         | None \<Rightarrow> if Contains (ToLower peek) ''unsupported'' then strippable jsonParamRE rs else None)"

subsection \<open>Rejected dialects\<close>

definition developerRoleRejectionREs :: "rx list" where
  "developerRoleRejectionREs =
     [cats [ci ''invalid value:'', opt (lit [32]), quote0, ci ''developer''],
      cats [ci ''unknown variant'', opt (lit [32]), quote0, ci ''developer''],
      cats [ci ''role'', opt (lit [32]), quote0, ci ''developer'', quote0, lit [32], Rep 0 24 (One (\<lambda>r. r \<noteq> 10)),
        alts [ci ''is not'', ci ''not a valid'', ci ''not valid'', ci ''not supported'', ci ''are not valid'']],
      cats [ci ''messages'', lit [46], ci ''role'', Rep 0 80 (One (\<lambda>r. r \<noteq> 10)), ci ''developer''],
      lit [35282, 33394, 20449, 24687, 19981, 27491, 30830]]"

definition requestShapeStatus :: "int \<Rightarrow> bool" where
  "requestShapeStatus status \<longleftrightarrow> status = 400 \<or> status = 422"

definition IsDeveloperRoleRejection :: "int \<Rightarrow> string \<Rightarrow> bool" where
  "IsDeveloperRoleRejection status peek =
     (if \<not> requestShapeStatus status \<or> peek = [] then False
      else list_ex (\<lambda>re. find_at re (runes peek) \<noteq> None) developerRoleRejectionREs)"

definition IsThinkingDialectRejection :: "int \<Rightarrow> string \<Rightarrow> bool" where
  "IsThinkingDialectRejection status peek =
     (if status \<noteq> 400 \<or> peek = [] then False
      else
        (let lower = ToLower peek
         in Contains lower ''thinking.type'' \<and> (Contains lower ''not supported'' \<or> Contains lower ''unsupported'') \<and>
            Contains lower ''adaptive''))"

subsection \<open>Refusals and pages\<close>

definition contentRefusalMarkers :: "string list" where
  "contentRefusalMarkers =
     [''content policy'', ''content_policy'', ''content filter'', ''content_filter'', ''content filtering'',
      ''content moderation'', ''safety system'', ''output blocked'', ''blocked by content'', ''response protection'',
      ''flagged as sensitive'', bytes [229, 134, 133, 229, 174, 185, 229, 174, 137, 229, 133, 168],
      bytes [229, 134, 133, 229, 174, 185, 229, 174, 161, 230, 160, 184],
      bytes [230, 149, 143, 230, 132, 159, 229, 134, 133, 229, 174, 185],
      bytes [229, 174, 137, 229, 133, 168, 231, 173, 150, 231, 149, 165],
      bytes [228, 184, 141, 231, 172, 166, 229, 144, 136, 231, 155, 184, 229, 133, 179, 230, 179, 149, 229, 190, 139, 230, 179, 149, 232, 167, 132]]"

definition IsContentRefusal :: "string \<Rightarrow> bool" where
  "IsContentRefusal peek = (if peek = [] then False else has_marker contentRefusalMarkers peek)"

definition htmlPrefixes :: "string list" where
  "htmlPrefixes =
     [''<!doctype'', ''<html'', ''<head'', ''<body'', ''<title'', ''<script'']"

definition IsFakeAPIReply :: "string \<Rightarrow> string \<Rightarrow> bool" where
  "IsFakeAPIReply contentType head =
     (if Contains (ToLower contentType) ''text/html'' then True
      else list_ex (HasPrefix (ToLower (TrimSpace head))) htmlPrefixes)"

text \<open>
  \<open>(?is)<title[^>]*>([^<]{0,120})\<close>: behind the first \<open><title\<close> that a \<open>>\<close> follows, up to 120 code
  points before the next \<open><\<close>; of these at most 120 bytes.
\<close>

fun take_runes :: "nat \<Rightarrow> string \<Rightarrow> string" where
  "take_runes 0 s = []"
| "take_runes (Suc n) s =
     (if s = [] then [] else let w = snd (DecodeRune s) in take w s @ take_runes n (drop w s))"

definition HTMLTitle :: "string \<Rightarrow> string" where
  "HTMLTitle body =
     (case Index (ToLower body) ''<title'' of
        None \<Rightarrow> []
      | Some i \<Rightarrow>
          (case dropWhile (\<lambda>c. c \<noteq> CHR ''>'') (drop (i + 6) body) of
             [] \<Rightarrow> []
           | _ # rest \<Rightarrow> take 120 (TrimSpace (take_runes 120 (takeWhile (\<lambda>c. c \<noteq> CHR ''<'') rest)))))"

end
