(* ===== verification/Target_Exec.thy ===== *)
theory Target_Exec
  imports Failure_Class Manager_Routing Manager_Health
begin

text \<open>
  One attempt at one target (\<open>Executor.Execute\<close>, \<open>internal/targetexec/executor.go\<close>): admission by
  model lock and half-open slot, the dispatch loop with its one-shot repairs, the classification of the
  upstream answer, and what is recorded of it. The mutable runtime is the port \<open>State\<close> of the source,
  a record of operations over a state \<open>'s\<close>; the port of the proxy (\<open>GateState\<close> over the Manager) is
  below. Everything outside is an argument of the attempt: the exchange with the upstream, the
  credential refresh, the JSON rewrites of a request body, and the delivery of an answer to the
  client; each may change the state, so other requests may act in between.
\<close>

record 's State =
  xs_ModelLocked :: "RouteTarget \<Rightarrow> gotime \<Rightarrow> 's \<Rightarrow> bool"
  xs_TakeHalfOpenSlot :: "string \<Rightarrow> 's \<Rightarrow> bool \<times> 's"
  xs_ReleaseHalfOpenSlot :: "string \<Rightarrow> 's \<Rightarrow> 's"
  xs_RecordSuccess :: "RouteTarget \<Rightarrow> 's \<Rightarrow> 's"
  xs_RecordFailure :: "string \<Rightarrow> 's \<Rightarrow> 's"
  xs_RecordModelFailure :: "RouteTarget \<Rightarrow> 's \<Rightarrow> 's"
  xs_RecordRateLimit :: "string \<Rightarrow> RateLimitDecision \<Rightarrow> 's \<Rightarrow> 's"
  xs_LearnParamBlock :: "RouteTarget \<Rightarrow> string \<Rightarrow> 's \<Rightarrow> 's"
  xs_ApplyParamBlock :: "RouteTarget \<Rightarrow> string \<Rightarrow> 's \<Rightarrow> string"
  xs_NoteWireResponsesMiss :: "RouteTarget \<Rightarrow> 's \<Rightarrow> 's"

text \<open>An upstream answer: status, header values, the whole body and what its first read returned.\<close>

record Response =
  us_StatusCode :: int
  us_Header :: "string \<Rightarrow> string"
  us_Body :: string
  us_Head :: string

datatype upstream =
    PrepareError
  | DoError bool bool string
  | Answer Response

text \<open>
  \<open>DoError clientGone fast message\<close>: the exchange failed, with the caller's context done or not, and
  with a connection error of the fast-fail kind or not.
\<close>

datatype Outcome = OutcomeNone | OutcomeFailedHard | OutcomeRateLimited | OutcomeClientGone

record Result =
  re_Committed :: bool
  re_Retried :: "RouteTarget list"
  re_Outcome :: Outcome
  re_Commit :: "string option"
  re_AttemptStatus :: int
  re_AttemptBody :: string

definition noResult :: Result where
  "noResult = \<lparr> re_Committed = False, re_Retried = [], re_Outcome = OutcomeNone, re_Commit = None,
     re_AttemptStatus = 0, re_AttemptBody = [] \<rparr>"

datatype Effect = Failover | Failure | RateLimited

record 's Attempt =
  at_Target :: RouteTarget
  at_HasProvider :: bool
  at_Scheduling :: Scheduling
  at_ViaResponsesVerdict :: bool
  at_Force :: bool
  at_LastTarget :: bool
  at_ContextRetry :: "('s \<Rightarrow> RouteTarget list \<times> 's) option"
  at_WantsStream :: bool
  at_TimeLib :: time_lib
  at_now :: "'s \<Rightarrow> gotime"
  at_RewriteRequest :: "string \<Rightarrow> string"
  at_Do :: "string \<Rightarrow> 's \<Rightarrow> upstream \<times> 's"
  at_Refresh :: "'s \<Rightarrow> bool \<times> 's"
  at_ShrinkImages :: "string \<Rightarrow> string option"
  at_StripTopLevelParam :: "string \<Rightarrow> string \<Rightarrow> string option"
  at_RenameDeveloperRole :: "string \<Rightarrow> string option"
  at_RewriteThinkingAdaptive :: "string \<Rightarrow> string option"
  at_Deliver :: "Response \<Rightarrow> 's \<Rightarrow> (int \<times> bool) option \<times> 's"

text \<open>
  \<open>at_Deliver\<close> is the copy of the answer to the client: \<open>None\<close> if it failed closed before the first
  byte, else the number of bytes and whether the stream ended cleanly with the caller present.
\<close>

record Repairs =
  rq_strippedParam :: bool
  rq_renamedRole :: bool
  rq_adaptedThinking :: bool
  rq_retriedImages :: bool
  rq_retriedConn :: bool

definition noRepairs :: Repairs where
  "noRepairs = \<lparr> rq_strippedParam = False, rq_renamedRole = False, rq_adaptedThinking = False,
     rq_retriedImages = False, rq_retriedConn = False \<rparr>"

subsection \<open>Reactions\<close>

definition at_Provider :: "'s Attempt \<Rightarrow> string" where
  "at_Provider a = rtg_Provider (at_Target a)"

definition exec_release :: "'s State \<Rightarrow> 's Attempt \<Rightarrow> 's \<Rightarrow> 's" where
  "exec_release st a s = xs_ReleaseHalfOpenSlot st (at_Provider a) s"

definition hard :: "int \<Rightarrow> string \<Rightarrow> Result" where
  "hard status body = noResult \<lparr> re_Outcome := OutcomeFailedHard, re_AttemptStatus := status, re_AttemptBody := body \<rparr>"

text \<open>What one round of the dispatch loop leads to: the end of the attempt, or another round.\<close>

datatype 's step =
    Return Result "Effect list" 's
  | Again nat Repairs string 's

definition exec_failure :: "'s State \<Rightarrow> 's Attempt \<Rightarrow> bool \<Rightarrow> int \<Rightarrow> string \<Rightarrow> 's \<Rightarrow> 's step" where
  "exec_failure st a observe status body s =
     Return (hard status body) ((if observe then [Failure] else []) @ [Failover]) (xs_RecordFailure st (at_Provider a) s)"

definition give_up :: "'s State \<Rightarrow> 's Attempt \<Rightarrow> int \<Rightarrow> string \<Rightarrow> 's \<Rightarrow> 's step" where
  "give_up st a status body s = Return (hard status body) [Failover] (exec_release st a s)"

definition contextOverflowPeek :: nat where
  "contextOverflowPeek = 65536"

definition exec_rate_limited :: "'s State \<Rightarrow> 's Attempt \<Rightarrow> RateLimitDecision \<Rightarrow> int \<Rightarrow> string \<Rightarrow> 's \<Rightarrow> 's step" where
  "exec_rate_limited st a decision status body s =
     Return (noResult \<lparr> re_Outcome := OutcomeRateLimited, re_AttemptStatus := status, re_AttemptBody := body \<rparr>)
       [RateLimited, Failover] (xs_RecordRateLimit st (at_Provider a) decision s)"

subsection \<open>Answers\<close>

definition on_401 :: "'s State \<Rightarrow> 's Attempt \<Rightarrow> nat \<Rightarrow> Repairs \<Rightarrow> string \<Rightarrow> 's \<Rightarrow> 's step" where
  "on_401 st a authAttempt rp body s =
     (if authAttempt = 0 then
        (let (ok, s) = at_Refresh a s
         in if ok then Again 1 rp body s else exec_failure st a False 401 [] s)
      else exec_failure st a False 401 [] s)"

definition on_429 :: "'s State \<Rightarrow> 's Attempt \<Rightarrow> Response \<Rightarrow> 's \<Rightarrow> 's step" where
  "on_429 st a r s =
     (let peek = take 8192 (us_Body r);
          decision = ParseRateLimit (at_TimeLib a) (Some (us_Header r ''Retry-After'')) peek (at_now a s) (at_Scheduling a)
      in exec_rate_limited st a decision (us_StatusCode r) peek s)"

definition on_5xx :: "'s State \<Rightarrow> 's Attempt \<Rightarrow> Response \<Rightarrow> 's \<Rightarrow> 's step" where
  "on_5xx st a r s =
     (let peek = take 8192 (us_Body r)
      in if IsContentRefusal peek then give_up st a (us_StatusCode r) peek s
         else exec_failure st a True (us_StatusCode r) peek s)"

text \<open>
  The reactions to a client error, in the order of the code; each either settles the round (\<open>Inl\<close>) or
  passes on a state (\<open>Inr\<close>).
\<close>

definition quota_denied :: "'s State \<Rightarrow> 's Attempt \<Rightarrow> Response \<Rightarrow> string \<Rightarrow> 's \<Rightarrow> 's step + 's" where
  "quota_denied st a r peek s =
     (if us_StatusCode r = 403 \<or> us_StatusCode r = 402 then
        (case ParseQuotaDenied (at_TimeLib a) (Some (us_Header r ''Retry-After'')) peek (at_now a s) (at_Scheduling a) of
           Some decision \<Rightarrow> Inl (exec_rate_limited st a decision 0 [] s)
         | None \<Rightarrow> Inr s)
      else Inr s)"

definition shrink_images :: "'s Attempt \<Rightarrow> nat \<Rightarrow> Repairs \<Rightarrow> string \<Rightarrow> Response \<Rightarrow> 's \<Rightarrow> 's step + 's" where
  "shrink_images a authAttempt rp body r s =
     (if us_StatusCode r = 413 \<and> \<not> rq_retriedImages rp then
        (case at_ShrinkImages a body of
           Some smaller \<Rightarrow> Inl (Again authAttempt (rp \<lparr> rq_retriedImages := True \<rparr>) smaller s)
         | None \<Rightarrow> Inr s)
      else Inr s)"

definition context_retry :: "'s State \<Rightarrow> 's Attempt \<Rightarrow> Response \<Rightarrow> string \<Rightarrow> 's \<Rightarrow> 's step + 's" where
  "context_retry st a r peek s =
     (case at_ContextRetry a of
        None \<Rightarrow> Inr s
      | Some retry \<Rightarrow>
          if IsContextOverflow (us_StatusCode r) peek then
            (let (larger, s) = retry s
             in if larger \<noteq> [] then
                  Inl (Return (noResult \<lparr> re_Retried := larger \<rparr>) [Failover] (exec_release st a s))
                else Inr s)
          else Inr s)"

definition model_denied :: "'s State \<Rightarrow> 's Attempt \<Rightarrow> Response \<Rightarrow> string \<Rightarrow> 's \<Rightarrow> 's step + 's" where
  "model_denied st a r peek s =
     (if us_StatusCode r = 404 \<or> IsModelDenied (us_StatusCode r) peek then
        (let s = (if at_ViaResponsesVerdict a \<and> us_StatusCode r = 404
                  then xs_NoteWireResponsesMiss st (at_Target a) s
                  else xs_RecordModelFailure st (at_Target a) s)
         in if \<not> at_LastTarget a then Inl (give_up st a 0 [] s) else Inr s)
      else Inr s)"

definition strip_param :: "'s State \<Rightarrow> 's Attempt \<Rightarrow> nat \<Rightarrow> Repairs \<Rightarrow> string \<Rightarrow> Response \<Rightarrow> string \<Rightarrow> 's \<Rightarrow> 's step + 's" where
  "strip_param st a authAttempt rp body r peek s =
     (if requestShapeStatus (us_StatusCode r) \<and> \<not> rq_strippedParam rp then
        (case ParseUnsupportedParam peek of
           None \<Rightarrow> Inr s
         | Some parameter \<Rightarrow>
             (let s = xs_LearnParamBlock st (at_Target a) parameter s
              in case at_StripTopLevelParam a body parameter of
                   Some shaped \<Rightarrow> Inl (Again authAttempt (rp \<lparr> rq_strippedParam := True \<rparr>) shaped s)
                 | None \<Rightarrow> Inr s))
      else Inr s)"

definition rename_role :: "'s State \<Rightarrow> 's Attempt \<Rightarrow> nat \<Rightarrow> Repairs \<Rightarrow> string \<Rightarrow> Response \<Rightarrow> string \<Rightarrow> 's \<Rightarrow> 's step + 's" where
  "rename_role st a authAttempt rp body r peek s =
     (if requestShapeStatus (us_StatusCode r) \<and> \<not> rq_renamedRole rp \<and> IsDeveloperRoleRejection (us_StatusCode r) peek then
        (case at_RenameDeveloperRole a body of
           Some shaped \<Rightarrow>
             Inl (Again authAttempt (rp \<lparr> rq_renamedRole := True \<rparr>) shaped
                    (xs_LearnParamBlock st (at_Target a) ''developer_role'' s))
         | None \<Rightarrow> Inr s)
      else Inr s)"

definition adapt_thinking :: "'s State \<Rightarrow> 's Attempt \<Rightarrow> nat \<Rightarrow> Repairs \<Rightarrow> string \<Rightarrow> Response \<Rightarrow> string \<Rightarrow> 's \<Rightarrow> 's step + 's" where
  "adapt_thinking st a authAttempt rp body r peek s =
     (if us_StatusCode r = 400 \<and> \<not> rq_adaptedThinking rp \<and> IsThinkingDialectRejection (us_StatusCode r) peek then
        (case at_RewriteThinkingAdaptive a body of
           Some shaped \<Rightarrow>
             Inl (Again authAttempt (rp \<lparr> rq_adaptedThinking := True \<rparr>) shaped
                    (xs_LearnParamBlock st (at_Target a) ''thinking_adaptive'' s))
         | None \<Rightarrow> Inr s)
      else Inr s)"

definition and_then :: "'a + 's \<Rightarrow> ('s \<Rightarrow> 'a + 's) \<Rightarrow> 'a + 's" where
  "and_then x f = (case x of Inl a \<Rightarrow> Inl a | Inr s \<Rightarrow> f s)"

definition on_4xx :: "'s State \<Rightarrow> 's Attempt \<Rightarrow> nat \<Rightarrow> Repairs \<Rightarrow> string \<Rightarrow> Response \<Rightarrow> 's \<Rightarrow> 's step + 's" where
  "on_4xx st a authAttempt rp body r s =
     (let peek = (if at_ContextRetry a \<noteq> None \<or> us_StatusCode r \<in> {400, 402, 403, 404, 422}
                  then take contextOverflowPeek (us_Body r) else [])
      in and_then (and_then (and_then (and_then (and_then (and_then
           (quota_denied st a r peek s)
           (shrink_images a authAttempt rp body r))
           (context_retry st a r peek))
           (model_denied st a r peek))
           (strip_param st a authAttempt rp body r peek))
           (rename_role st a authAttempt rp body r peek))
           (adapt_thinking st a authAttempt rp body r peek))"

text \<open>A success that is an HTML page counts as a provider failure, an empty one against the model.\<close>

definition fakeAPIReplyBody :: "string \<Rightarrow> string" where
  "fakeAPIReplyBody peek =
     ''upstream answered 200 with an HTML page: '' @ (if HTMLTitle peek = [] then ''html document'' else HTMLTitle peek)"

definition exec_commit :: "'s State \<Rightarrow> 's Attempt \<Rightarrow> string \<Rightarrow> Response \<Rightarrow> 's \<Rightarrow> 's step" where
  "exec_commit st a body r s =
     (case at_Deliver a r s of
        (None, s) \<Rightarrow> Return (noResult \<lparr> re_Committed := True \<rparr>) [] s
      | (Some (n, clean), s) \<Rightarrow>
          Return (noResult \<lparr> re_Committed := True, re_Commit := Some body \<rparr>) []
            (if us_StatusCode r < 300 \<and> n = 0 \<and> clean then xs_RecordModelFailure st (at_Target a) s else s))"

definition finish :: "'s State \<Rightarrow> 's Attempt \<Rightarrow> string \<Rightarrow> Response \<Rightarrow> 's \<Rightarrow> 's step" where
  "finish st a body r s =
     (let success = us_StatusCode r < 300
      in if success \<and> Contains (ToLower (us_Header r ''Content-Type'')) ''text/html'' then
           exec_failure st a True 502 (fakeAPIReplyBody (take 2048 (us_Body r))) s
         else if success \<and> \<not> at_WantsStream a \<and> IsFakeAPIReply [] (us_Head r) then
           exec_failure st a True 502 (fakeAPIReplyBody (us_Head r)) s
         else
           (let empty = (success \<and> us_Header r ''Content-Length'' = ''0'');
                s = (if empty then xs_RecordModelFailure st (at_Target a) s else s)
            in if empty \<and> \<not> at_LastTarget a then give_up st a 0 [] s
               else exec_commit st a body r
                      (if success then xs_RecordSuccess st (at_Target a) s else exec_release st a s)))"

definition on_answer ::
  "'s State \<Rightarrow> 's Attempt \<Rightarrow> nat \<Rightarrow> Repairs \<Rightarrow> string \<Rightarrow> Response \<Rightarrow> 's \<Rightarrow> 's step" where
  "on_answer st a authAttempt rp body r s =
     (if us_StatusCode r = 401 then on_401 st a authAttempt rp body s
      else if us_StatusCode r = 429 then on_429 st a r s
      else if us_StatusCode r \<ge> 500 then on_5xx st a r s
      else if us_StatusCode r \<ge> 400 then
        (case on_4xx st a authAttempt rp body r s of Inl step \<Rightarrow> step | Inr s \<Rightarrow> finish st a body r s)
      else finish st a body r s)"

subsection \<open>The dispatch loop\<close>

definition dispatch_round ::
  "'s State \<Rightarrow> 's Attempt \<Rightarrow> nat \<Rightarrow> Repairs \<Rightarrow> string \<Rightarrow> 's \<Rightarrow> 's step" where
  "dispatch_round st a authAttempt rp body s =
     (let body = xs_ApplyParamBlock st (at_Target a) (at_RewriteRequest a body) s;
          (up, s) = at_Do a body s
      in case up of
           PrepareError \<Rightarrow> give_up st a 0 [] s
         | DoError clientGone fast message \<Rightarrow>
             if clientGone then Return (noResult \<lparr> re_Outcome := OutcomeClientGone \<rparr>) [] (exec_release st a s)
             else if fast \<and> \<not> rq_retriedConn rp then Again authAttempt (rp \<lparr> rq_retriedConn := True \<rparr>) body s
             else exec_failure st a True 502 message s
         | Answer r \<Rightarrow> on_answer st a authAttempt rp body r s)"

definition spent :: "Repairs \<Rightarrow> nat" where
  "spent rp = length (filter id [rq_strippedParam rp, rq_renamedRole rp, rq_adaptedThinking rp, rq_retriedImages rp, rq_retriedConn rp])"

text \<open>A property of the round, where it is settled.\<close>

definition settles_with :: "('a \<Rightarrow> bool) \<Rightarrow> 'a + 's \<Rightarrow> bool" where
  "settles_with P x \<longleftrightarrow> (case x of Inl y \<Rightarrow> P y | Inr _ \<Rightarrow> True)"

lemma settles_with_simps [simp]: "settles_with P (Inl y) = P y" "settles_with P (Inr s) = True"
  by (simp_all add: settles_with_def)

lemma and_then_settles: "settles_with P x \<Longrightarrow> (\<And>s. settles_with P (f s)) \<Longrightarrow> settles_with P (and_then x f)"
  by (cases x) (simp_all add: and_then_def)

text \<open>Another round means a refreshed credential or one more repair spent.\<close>

definition advances :: "nat \<Rightarrow> Repairs \<Rightarrow> 's step \<Rightarrow> bool" where
  "advances n rp step =
     (case step of
        Return res effects s \<Rightarrow> True
      | Again n' rp' body s \<Rightarrow> n = 0 \<and> n' = 1 \<and> rp' = rp \<or> n' = n \<and> spent rp' = Suc (spent rp))"

lemma advances_Return [simp]: "advances n rp (Return res effects s)"
  by (simp add: advances_def)

lemma advances_reactions:
  "settles_with (advances n rp) (quota_denied st a r peek s)"
  "settles_with (advances n rp) (shrink_images a n rp body r s)"
  "settles_with (advances n rp) (context_retry st a r peek s)"
  "settles_with (advances n rp) (model_denied st a r peek s)"
  "settles_with (advances n rp) (strip_param st a n rp body r peek s)"
  "settles_with (advances n rp) (rename_role st a n rp body r peek s)"
  "settles_with (advances n rp) (adapt_thinking st a n rp body r peek s)"
        apply (simp add: quota_denied_def exec_rate_limited_def split: option.split)
       apply (simp add: shrink_images_def advances_def spent_def split: option.split)
      apply (simp add: context_retry_def Let_def split_beta split: option.split)
     apply (simp add: model_denied_def Let_def give_up_def)
    apply (simp add: strip_param_def Let_def advances_def spent_def split: option.split)
   apply (simp add: rename_role_def advances_def spent_def split: option.split)
  apply (simp add: adapt_thinking_def advances_def spent_def split: option.split)
  done

lemma finish_Return: "\<exists>res effects s'. finish st a body r s = Return res effects s'"
  by (auto simp: finish_def exec_commit_def exec_failure_def give_up_def Let_def split: prod.split option.split)

lemma on_4xx_advances: "settles_with (advances n rp) (on_4xx st a n rp body r s)"
  unfolding on_4xx_def Let_def by (intro and_then_settles advances_reactions)

lemma on_answer_advances: "advances n rp (on_answer st a n rp body r s)"
proof -
  have fin: "advances n rp (finish st a body r s')" for s'
    using finish_Return [of st a body r s'] by auto
  have "advances n rp (case on_4xx st a n rp body r s of Inl step \<Rightarrow> step | Inr s \<Rightarrow> finish st a body r s)"
    using on_4xx_advances [of n rp st a body r s] fin by (simp add: settles_with_def split: sum.splits)
  then show ?thesis
    using fin by (simp add: on_answer_def on_401_def on_429_def on_5xx_def exec_failure_def give_up_def exec_rate_limited_def
        Let_def split_beta) (simp add: advances_def)
qed

lemma dispatch_round_advances: "advances n rp (dispatch_round st a n rp body s)"
  using on_answer_advances
  by (auto simp: dispatch_round_def Let_def split_beta give_up_def exec_failure_def split: upstream.split)
    (simp add: advances_def spent_def)

text \<open>
  The loop from a round on. It also counts the rounds, each one exchange with the upstream. It ends
  because another round uses up the one credential refresh or one of the five repairs.
\<close>

lemma spent_le: "spent rp \<le> 5"
  by (simp add: spent_def)

function exec_loop :: "'s State \<Rightarrow> 's Attempt \<Rightarrow> nat \<Rightarrow> Repairs \<Rightarrow> string \<Rightarrow> 's \<Rightarrow> (Result \<times> Effect list \<times> nat) \<times> 's" where
  "exec_loop st a authAttempt rp body s =
     (if authAttempt < 2 then
        (case dispatch_round st a authAttempt rp body s of
           Return res effects s \<Rightarrow> ((res, effects, 1), s)
         | Again authAttempt rp body s \<Rightarrow>
             (let ((res, effects, n), s) = exec_loop st a authAttempt rp body s in ((res, effects, Suc n), s)))
      else ((hard 0 [], [Failover], 0), exec_release st a s))"
  by pat_completeness auto
termination
proof (relation "measure (\<lambda>(st, a, n, rp, body, s). (2 - n) + (5 - spent rp))")
  fix st a n rp body and s :: 's and n' rp' body' s'
  assume "n < 2" "dispatch_round st a n rp body s = Again n' rp' body' s'"
  then show "((st, a, n', rp', body', s'), (st, a, n, rp, body, s)) \<in> measure (\<lambda>(st, a, n, rp, body, s). (2 - n) + (5 - spent rp))"
    using dispatch_round_advances [of n rp st a body s] spent_le [of rp'] by (auto simp: advances_def)
qed simp

declare exec_loop.simps [simp del]

definition Execute :: "'s State \<Rightarrow> 's Attempt \<Rightarrow> string \<Rightarrow> 's \<Rightarrow> (Result \<times> Effect list \<times> nat) \<times> 's" where
  "Execute st a body s =
     (if \<not> at_HasProvider a then ((hard 0 [], [Failover], 0), s)
      else if \<not> at_Force a \<and> xs_ModelLocked st (at_Target a) (at_now a s) s then ((noResult, [], 0), s)
      else
        (let (taken, s) = (if at_Force a then (True, s) else xs_TakeHalfOpenSlot st (at_Provider a) s)
         in if \<not> taken then ((noResult, [], 0), s) else exec_loop st a 0 noRepairs body s))"

subsection \<open>The port of the proxy\<close>

text \<open>
  \<open>GateState\<close> (\<open>internal/targetexec/host.go\<close>) over the Manager: scheduling settings and generation are
  those of the attempt's snapshot, the clock is read at each call. The learned parameter blocks are
  applied to a JSON body by \<open>shape\<close>, and a missing responses endpoint is noted in the capability
  stores by \<open>miss\<close>.
\<close>

record 'c world =
  wo_manager :: Manager
  wo_now :: gotime
  wo_caps :: 'c

definition on_manager :: "(gotime \<Rightarrow> Manager \<Rightarrow> Manager) \<Rightarrow> ('c, 'z) world_scheme \<Rightarrow> ('c, 'z) world_scheme" where
  "on_manager f w = w \<lparr> wo_manager := f (wo_now w) (wo_manager w) \<rparr>"

definition GateState ::
  "Scheduling \<Rightarrow> uint64 \<Rightarrow> (RouteTarget \<Rightarrow> string \<Rightarrow> Manager \<Rightarrow> string) \<Rightarrow> (RouteTarget \<Rightarrow> 'c \<Rightarrow> 'c) \<Rightarrow> 'c world State" where
  "GateState sched g shape miss =
     \<lparr> xs_ModelLocked = (\<lambda>t now w. modelLocked (wo_manager w) (rtg_Provider t) (rtg_Model t) now),
       xs_TakeHalfOpenSlot = (\<lambda>p w.
         let (ok, m) = TakeHalfOpenSlot p (wo_now w) g (wo_manager w) in (ok, w \<lparr> wo_manager := m \<rparr>)),
       xs_ReleaseHalfOpenSlot = (\<lambda>p. on_manager (\<lambda>now. ReleaseHalfOpenSlot p g)),
       xs_RecordSuccess = (\<lambda>t. on_manager (\<lambda>now. RecordSuccess (rtg_Provider t) (rtg_Model t) now g)),
       xs_RecordFailure = (\<lambda>p. on_manager (\<lambda>now.
         RecordFailure p (Threshold sched) (Cooldown sched) (Persist sched) now g)),
       xs_RecordModelFailure = (\<lambda>t. on_manager (\<lambda>now.
         RecordModelFailure (rtg_Provider t) (rtg_Model t) (ModelLockoutDuration sched) now g)),
       xs_RecordRateLimit = (\<lambda>p d. on_manager (\<lambda>now m.
         snd (RecordRateLimit p (rl_Until d) (ParseRateLimitKind (RateLimitKind_String (rl_Kind d))) g m))),
       xs_LearnParamBlock = (\<lambda>t parameter. on_manager (\<lambda>now m.
         snd (LearnParamBlock (rtg_Provider t) (rtg_Model t) parameter g m))),
       xs_ApplyParamBlock = (\<lambda>t body w. shape t body (wo_manager w)),
       xs_NoteWireResponsesMiss = (\<lambda>t w. w \<lparr> wo_caps := miss t (wo_caps w) \<rparr>) \<rparr>"

end
