(* ===== verification/Serve_Pass.thy ===== *)
theory Serve_Pass
  imports Target_Exec Forward_Serve
begin

text \<open>
  One failover pass of the pipeline (\<open>serveOnce\<close>, \<open>internal/forward/forward.go\<close>, from the order on):
  the targets are tried one after the other until one commits, the client leaves, or the list ends; a
  context overflow replaces the list once per request by targets with a larger context window. What is
  outside the loop is an argument: whether the client has gone, the fusion engine, and the planning of
  a target (provider, protocol conversion of the body), which yields the attempt to execute.
\<close>

datatype 's prepared =
    PlanFailed
  | ConversionUnsupported
  | ConversionFailed
  | Ready "'s Attempt" string

record 's pass_env =
  pe_clientGone :: "'s \<Rightarrow> bool"
  pe_recipes :: "string fset"
  pe_runFusion :: "string \<Rightarrow> 's \<Rightarrow> bool \<times> 's"
  pe_prepare :: "RouteTarget \<Rightarrow> 's \<Rightarrow> 's prepared \<times> 's"
  pe_contextRetry :: "RouteTarget list \<Rightarrow> 's \<Rightarrow> RouteTarget list \<times> 's"

datatype disposition = Skipped | Tried

definition emptyResult :: serveResult where
  "emptyResult = \<lparr> sr_committed = False, sr_tried = {||}, sr_sawHard = False, sr_sawCooldown = False, sr_clientGone = False,
     sr_conversionErr = False, sr_planningErr = False, sr_committedBodyBytes = 0, sr_effectiveTargets = [] \<rparr>"

definition mark_tried :: "RouteTarget \<Rightarrow> serveResult \<Rightarrow> serveResult" where
  "mark_tried t res = res \<lparr> sr_tried := finsert (rtg_Provider t) (sr_tried res) \<rparr>"

definition mark_outcome :: "Outcome \<Rightarrow> serveResult \<Rightarrow> serveResult" where
  "mark_outcome out res =
     (case out of
        OutcomeFailedHard \<Rightarrow> res \<lparr> sr_sawHard := True \<rparr>
      | OutcomeRateLimited \<Rightarrow> res \<lparr> sr_sawCooldown := True \<rparr>
      | OutcomeClientGone \<Rightarrow> res \<lparr> sr_clientGone := True \<rparr>
      | OutcomeNone \<Rightarrow> res)"

text \<open>What a target leads to: the end of the pass, the next target, or a new list.\<close>

datatype 's turn =
    Stop serveResult disposition 's
  | Next serveResult disposition 's
  | Replace "RouteTarget list" serveResult 's

definition fusion_turn :: "'s pass_env \<Rightarrow> RouteTarget \<Rightarrow> serveResult \<Rightarrow> 's \<Rightarrow> 's turn" where
  "fusion_turn env t res s =
     (if rtg_Model t |\<notin>| pe_recipes env then Next res Skipped s
      else
        (let res = mark_tried t res; (committed, s) = pe_runFusion env (rtg_Model t) s
         in if committed then Stop (res \<lparr> sr_committed := True \<rparr>) Tried s else Next (res \<lparr> sr_sawHard := True \<rparr>) Tried s))"

text \<open>The larger-context retry is offered once per request, without pin, forced provider, or missing catalog.\<close>

definition execute_turn ::
  "'s State \<Rightarrow> 's pass_env \<Rightarrow> bool \<Rightarrow> bool \<Rightarrow> bool \<Rightarrow> RouteTarget list \<Rightarrow> bool \<Rightarrow> 's Attempt \<Rightarrow> string \<Rightarrow> RouteTarget \<Rightarrow>
    serveResult \<Rightarrow> 's \<Rightarrow> 's turn" where
  "execute_turn st env force retryable retried alreadyTried lastTarget a body t res s =
     (let ctxRetry = (if \<not> retried \<and> retryable then Some (pe_contextRetry env alreadyTried) else None);
          ((result, effects, n), s) =
            Execute st (a \<lparr> at_Force := force, at_LastTarget := lastTarget, at_ContextRetry := ctxRetry \<rparr>) body s;
          res = mark_outcome (re_Outcome result) (mark_tried t res)
      in if sr_clientGone res then Stop res Tried s
         else if re_Committed result then Stop (res \<lparr> sr_committed := True \<rparr>) Tried s
         else if re_Retried result \<noteq> [] then Replace (re_Retried result) res s
         else Next res Tried s)"

definition target_turn ::
  "'s State \<Rightarrow> 's pass_env \<Rightarrow> bool \<Rightarrow> string \<Rightarrow> bool \<Rightarrow> bool \<Rightarrow> RouteTarget list \<Rightarrow> bool \<Rightarrow> RouteTarget \<Rightarrow>
    serveResult \<Rightarrow> 's \<Rightarrow> 's turn" where
  "target_turn st env force forcedProvider retryable retried alreadyTried lastTarget t res s =
     (if rtg_Provider t = FusionProvider \<and> forcedProvider = [] then fusion_turn env t res s
      else
        (let (prep, s) = pe_prepare env t s
         in case prep of
              PlanFailed \<Rightarrow> Next (res \<lparr> sr_planningErr := True \<rparr>) Skipped s
            | ConversionUnsupported \<Rightarrow> Next (res \<lparr> sr_conversionErr := True \<rparr>) Skipped s
            | ConversionFailed \<Rightarrow> Next res Skipped s
            | Ready a body \<Rightarrow> execute_turn st env force retryable retried alreadyTried lastTarget a body t res s))"

subsection \<open>A replacement needs an offered retry\<close>

definition keeps_list :: "'s State \<Rightarrow> 's Attempt \<Rightarrow> 's step \<Rightarrow> bool" where
  "keeps_list st a step =
     (case step of
        Return res effects s \<Rightarrow>
          re_Retried res = [] \<or>
          (\<exists>retry s0. at_ContextRetry a = Some retry \<and> re_Retried res = fst (retry s0) \<and> s = exec_release st a (snd (retry s0)))
      | Again n rp body s \<Rightarrow> True)"

lemma keeps_list_Again [simp]: "keeps_list st a (Again n rp body s)"
  by (simp add: keeps_list_def)

lemma keeps_list_Return [simp]: "re_Retried res = [] \<Longrightarrow> keeps_list st a (Return res effects s)"
  by (simp add: keeps_list_def)

lemma hard_no_retry [simp]: "re_Retried (hard status body) = []" "re_Retried noResult = []"
  by (simp_all add: hard_def noResult_def)

lemma keeps_list_reactions:
  "settles_with (keeps_list st a) (quota_denied st a r peek s)"
  "settles_with (keeps_list st a) (shrink_images a n rp body r s)"
  "settles_with (keeps_list st a) (context_retry st a r peek s)"
  "settles_with (keeps_list st a) (model_denied st a r peek s)"
  "settles_with (keeps_list st a) (strip_param st a n rp body r peek s)"
  "settles_with (keeps_list st a) (rename_role st a n rp body r peek s)"
  "settles_with (keeps_list st a) (adapt_thinking st a n rp body r peek s)"
        apply (simp add: quota_denied_def exec_rate_limited_def split: option.split)
       apply (simp add: shrink_images_def split: option.split)
      apply (auto simp: context_retry_def keeps_list_def Let_def split_beta split: option.split) []
     apply (simp add: model_denied_def Let_def give_up_def)
    apply (simp add: strip_param_def Let_def split: option.split)
   apply (simp add: rename_role_def split: option.split)
  apply (simp add: adapt_thinking_def split: option.split)
  done

lemma keeps_list_finish: "keeps_list st' a' (finish st a body r s)"
  by (simp add: finish_def exec_commit_def exec_failure_def give_up_def Let_def split: prod.split option.split)

lemma keeps_list_round: "keeps_list st a (dispatch_round st a n rp body s)"
proof -
  have settled: "settles_with (keeps_list st a) (on_4xx st a n rp body r s)" for r s body
    unfolding on_4xx_def Let_def by (intro and_then_settles keeps_list_reactions)
  have "keeps_list st a (case on_4xx st a n rp body r s of Inl step \<Rightarrow> step | Inr s \<Rightarrow> finish st a body r s)" for r s body
    using settled [of body r s] keeps_list_finish by (simp add: settles_with_def split: sum.splits)
  then have "keeps_list st a (on_answer st a n rp body r s)" for r s body
    by (simp add: on_answer_def on_401_def on_429_def on_5xx_def exec_failure_def give_up_def exec_rate_limited_def
        keeps_list_finish Let_def split_beta)
  then show ?thesis
    by (simp add: dispatch_round_def Let_def split_beta give_up_def exec_failure_def split: upstream.split)
qed

lemma exec_loop_keeps_list:
  "re_Retried (fst (fst (exec_loop st a n rp body s))) = [] \<or>
   (\<exists>retry s0. at_ContextRetry a = Some retry \<and> re_Retried (fst (fst (exec_loop st a n rp body s))) = fst (retry s0) \<and>
      snd (exec_loop st a n rp body s) = exec_release st a (snd (retry s0)))"
proof (induction st a n rp body s rule: exec_loop.induct)
  case (1 st a n rp body s)
  show ?case
  proof (cases "n < 2")
    case True
    show ?thesis
    proof (cases "dispatch_round st a n rp body s")
      case (Return res effects s')
      with True keeps_list_round [of st a n rp body s] show ?thesis
        by (subst (1 2 3) exec_loop.simps) (simp add: keeps_list_def)
    next
      case (Again n' rp' body' s')
      with True "1.IH" [OF True Again] show ?thesis
        by (subst (1 2 3) exec_loop.simps) (simp add: split_beta)
    qed
  qed (subst exec_loop.simps, simp)
qed

lemma Execute_keeps_list:
  "re_Retried (fst (fst (Execute st a body s))) = [] \<or>
   (\<exists>retry s0. at_ContextRetry a = Some retry \<and> re_Retried (fst (fst (Execute st a body s))) = fst (retry s0) \<and>
      snd (Execute st a body s) = exec_release st a (snd (retry s0)))"
  using exec_loop_keeps_list [of st a 0 noRepairs body] by (simp add: Execute_def Let_def split_beta)

lemma execute_turn_Replace:
  assumes "execute_turn st env force retryable retried tried lst a body t res s = Replace larger res' s'"
  shows "\<not> retried \<and> retryable \<and>
    (\<exists>s0 p. larger = fst (pe_contextRetry env tried s0) \<and> s' = xs_ReleaseHalfOpenSlot st p (snd (pe_contextRetry env tried s0)))"
proof -
  define cr where "cr = (if \<not> retried \<and> retryable then Some (pe_contextRetry env tried) else None)"
  define A where "A = a \<lparr> at_Force := force, at_LastTarget := lst, at_ContextRetry := cr \<rparr>"
  have "re_Retried (fst (fst (Execute st A body s))) = larger" "larger \<noteq> []" "snd (Execute st A body s) = s'"
    using assms unfolding A_def cr_def by (auto simp: execute_turn_def Let_def split_beta split: if_splits)
  with Execute_keeps_list [of st A body s] obtain retry s0 where "at_ContextRetry A = Some retry" "larger = fst (retry s0)"
      "s' = exec_release st A (snd (retry s0))"
    by auto
  then show ?thesis
    by (auto simp: A_def cr_def exec_release_def split: if_splits)
qed

lemma target_turn_Replace:
  assumes "target_turn st env force forced retryable retried tried lst t res s = Replace larger res' s'"
  shows "\<not> retried \<and> retryable \<and>
    (\<exists>s0 p. larger = fst (pe_contextRetry env tried s0) \<and> s' = xs_ReleaseHalfOpenSlot st p (snd (pe_contextRetry env tried s0)))"
  using assms
  by (auto simp: target_turn_def fusion_turn_def Let_def split_beta dest!: execute_turn_Replace
      split: if_splits prepared.splits)

subsection \<open>The pass\<close>

text \<open>
  The loop at a position of its list: \<open>tried\<close> are the targets before it. The second result lists the
  targets met, in order, with what became of them. It ends because each turn leaves a shorter list or
  spends the one replacement of the request.
\<close>

function pass_loop ::
  "'s State \<Rightarrow> 's pass_env \<Rightarrow> bool \<Rightarrow> string \<Rightarrow> bool \<Rightarrow> bool \<Rightarrow> RouteTarget list \<Rightarrow> RouteTarget list \<Rightarrow> serveResult \<Rightarrow> 's \<Rightarrow>
    (serveResult \<times> (RouteTarget \<times> disposition) list \<times> bool) \<times> 's" where
  "pass_loop st env force forcedProvider retryable retried tried rest res s =
     (case rest of
        [] \<Rightarrow> ((res \<lparr> sr_effectiveTargets := tried \<rparr>, [], retried), s)
      | t # rest' \<Rightarrow>
          if pe_clientGone env s then ((res \<lparr> sr_clientGone := True, sr_effectiveTargets := tried @ rest \<rparr>, [], retried), s)
          else
            (case target_turn st env force forcedProvider retryable retried (tried @ [t]) (rest' = []) t res s of
               Stop res d s \<Rightarrow>
                 ((if sr_committed res then res else res \<lparr> sr_effectiveTargets := tried @ rest \<rparr>, [(t, d)], retried), s)
             | Next res d s \<Rightarrow>
                 (let ((res, trail, retried), s) =
                    pass_loop st env force forcedProvider retryable retried (tried @ [t]) rest' res s
                  in ((res, (t, d) # trail, retried), s))
             | Replace larger res s \<Rightarrow>
                 (let ((res, trail, retried), s) = pass_loop st env force forcedProvider retryable True [] larger res s
                  in ((res, (t, Tried) # trail, retried), s))))"
  by pat_completeness auto
termination
  by (relation "measures [\<lambda>(st, env, force, forced, retryable, retried, tried, rest, res, s). if retried then 0 else 1,
      \<lambda>(st, env, force, forced, retryable, retried, tried, rest, res, s). length rest]")
    (auto dest: target_turn_Replace)

declare pass_loop.simps [simp del]

text \<open>
  The whole of \<open>serveOnce\<close> over the Manager: order the targets, then run the pass. The larger-context
  list is that of the request's planner, taken at the time of the overflow. The one-shot flag of the
  request goes in and out.
\<close>

definition context_retry_list ::
  "Snapshot \<Rightarrow> string fset \<Rightarrow> bool \<Rightarrow> Clock \<Rightarrow> duration \<Rightarrow> string \<Rightarrow> string \<Rightarrow> string \<Rightarrow> RouteTarget list \<Rightarrow> 'c world \<Rightarrow>
    RouteTarget list \<times> 'c world" where
  "context_retry_list rt routeKeys stickyOff clk maxAge exposed sessionKey origBody tried w =
     (let (larger, m) = ContextOverflowRetryWithProfile (requestRoutingPlanner rt routeKeys stickyOff clk maxAge) exposed
            sessionKey tried (ProfileRequest origBody) (wo_manager w)
      in (larger, w \<lparr> wo_manager := m \<rparr>))"

definition serveOnce ::
  "decisions \<Rightarrow> Snapshot \<Rightarrow> RoutePolicy option \<Rightarrow> string \<Rightarrow> string \<Rightarrow> RouteTarget list \<Rightarrow> string fset \<Rightarrow> bool \<Rightarrow> string \<Rightarrow>
    bool \<Rightarrow> string \<Rightarrow> Clock \<Rightarrow> duration \<Rightarrow> (RouteTarget \<Rightarrow> string \<Rightarrow> Manager \<Rightarrow> string) \<Rightarrow> (RouteTarget \<Rightarrow> 'c \<Rightarrow> 'c) \<Rightarrow>
    'c world pass_env \<Rightarrow> serveState \<Rightarrow> bool \<Rightarrow> 'c world \<Rightarrow>
    (serveResult \<times> (RouteTarget \<times> disposition) list \<times> serveState \<times> bool) \<times> 'c world" where
  "serveOnce callDecisions rt policy exposed sessionKey targets routeKeys force forcedProvider stickyOff origBody clk maxAge
     shape miss env st retried w =
     (let ((ordered, decision, st), m) = serve_order callDecisions rt policy exposed sessionKey targets routeKeys force
            forcedProvider stickyOff origBody clk maxAge st (wo_manager w);
          ((res, trail, retried), w) = pass_loop
            (GateState (cf_Scheduling (fs_Cfg rt)) (fs_Generation rt) shape miss)
            (env \<lparr> pe_contextRetry := context_retry_list rt routeKeys stickyOff clk maxAge exposed sessionKey origBody \<rparr>)
            force forcedProvider (\<not> force \<and> forcedProvider = [] \<and> fs_Catalog rt \<noteq> None) retried [] ordered emptyResult
            (w \<lparr> wo_manager := m \<rparr>)
      in ((res, trail, st, retried), w))"

end
