(* ===== verification/Rate_Limit_Props.thy ===== *)
theory Rate_Limit_Props
  imports Rate_Limit Proxy_Props
begin

text \<open>
  Bounds on the deadline a rate-limit answer leads to, and its effect on the Manager.
\<close>

lemma maxResetHint_value: "maxResetHint = 604800 * second"
  by (simp add: maxResetHint_def hour_def minute_def)

lemma parseResetHint_range: "parseResetHint parse body now = Some t \<Longrightarrow> now \<le> t \<and> t \<le> now + maxResetHint"
  by (auto simp: parseResetHint_def Let_def maxResetHint_value second_def split: if_splits)

lemma retry_after_header_range: "retry_after_header lib v now = Some t \<Longrightarrow> now \<le> t \<and> t \<le> now + maxResetHint"
  by (auto simp: retry_after_header_def Let_def maxResetHint_value second_def signed_divide_int_def split: option.splits if_splits)

lemma scaled_range:
  assumes "0 < scale" "scaled number scale = Some d"
  shows "0 \<le> d \<and> d \<le> max_duration"
proof -
  have "n * scale \<le> max_duration" if "n \<le> max_duration div scale" for n
  proof -
    have "n * scale \<le> max_duration div scale * scale"
      using that assms(1) by (intro mult_right_mono) simp_all
    also have "\<dots> \<le> max_duration"
      using assms(1) pos_mod_sign [of scale max_duration] by (simp add: minus_mod_eq_div_mult [symmetric])
    finally show ?thesis .
  qed
  then show ?thesis
    using assms
    by (auto simp: scaled_def maxResetHint_value second_def max_duration_def not_less split: option.splits if_splits)
qed

text \<open>A single duration of a hint never wraps.\<close>

lemma hint_scale_pos: "0 < hint_scale u" "0 < cn_scale u"
  by (simp_all add: hint_scale_def cn_scale_def hour_def minute_def second_def)

lemma hintDuration_range:
  "hintDuration number u = Some d \<Longrightarrow> 0 \<le> d \<and> d \<le> max_duration"
  "cnHintDuration number u = Some d \<Longrightarrow> 0 \<le> d \<and> d \<le> max_duration"
  using scaled_range [OF hint_scale_pos(1)] scaled_range [OF hint_scale_pos(2)]
  by (simp_all add: hintDuration_def cnHintDuration_def)

lemma ParseRateLimit_until:
  "parseResetHint (tl_ParseRFC3339 lib) body now = Some (rl_Until (ParseRateLimit lib retryAfter body now scheduling)) \<or>
   (\<exists>v. retry_after_header lib v now = Some (rl_Until (ParseRateLimit lib retryAfter body now scheduling))) \<or>
   rl_Until (ParseRateLimit lib retryAfter body now scheduling) =
     (case classify429 body of Daily \<Rightarrow> tl_nextMidnight lib now
      | Quota \<Rightarrow> now + QuotaCooldownDuration scheduling | Transient \<Rightarrow> now + RateBackoff scheduling)"
proof (cases "parseResetHint (tl_ParseRFC3339 lib) body now")
  case None
  then show ?thesis
    by (cases retryAfter; cases "retry_after_header lib (the retryAfter) now") (auto simp: ParseRateLimit_def Let_def)
qed (simp add: ParseRateLimit_def)

text \<open>
  C9. A rate-limit answer parks the provider for a bounded time and no request before it: whatever the
  body and the Retry-After header say, also malformed, huge or in the past, the deadline is not
  before now and at most seven days, or the configured cooldown of its class, away (the next
  midnight lies ahead and at most 25 hours away); once it is recorded the provider is unavailable at
  every time before the deadline, and a provider that was available before is available again at
  every later time.
\<close>

theorem rate_limit_parks_bounded:
  fixes lib retryAfter body now scheduling
  defines "d \<equiv> ParseRateLimit lib retryAfter body now scheduling"
  assumes midnight: "now < tl_nextMidnight lib now" "tl_nextMidnight lib now \<le> now + 25 * hour"
    and config: "0 \<le> QuotaCooldownDuration scheduling" "0 \<le> RateBackoff scheduling"
    and clock: "0 \<le> now" and gen: "generationMatches m g"
  shows "now \<le> rl_Until d \<and>
    rl_Until d \<le> now + max maxResetHint (if rl_Kind d = Quota then QuotaCooldownDuration scheduling else RateBackoff scheduling) \<and>
    (t < rl_Until d \<longrightarrow> \<not> AccountHealthy (snd (RecordRateLimit p (rl_Until d) (rl_Kind d) g m)) p t) \<and>
    (AccountHealthy m p now \<longrightarrow> rl_Until d \<le> t \<longrightarrow>
      AccountHealthy (snd (RecordRateLimit p (rl_Until d) (rl_Kind d) g m)) p t)"
proof (intro conjI impI)
  have day: "25 * hour \<le> maxResetHint" "0 \<le> maxResetHint"
    by (simp_all add: maxResetHint_def hour_def minute_def second_def)
  have kind: "rl_Kind d = classify429 body"
    by (simp add: d_def ParseRateLimit_def Let_def)
  consider (hint) "parseResetHint (tl_ParseRFC3339 lib) body now = Some (rl_Until d)"
    | (header) v where "retry_after_header lib v now = Some (rl_Until d)"
    | (fallback) "rl_Until d = (case classify429 body of Daily \<Rightarrow> tl_nextMidnight lib now
         | Quota \<Rightarrow> now + QuotaCooldownDuration scheduling | Transient \<Rightarrow> now + RateBackoff scheduling)"
    using ParseRateLimit_until unfolding d_def by blast
  then have range: "now \<le> rl_Until d \<and> rl_Until d \<le> now + max maxResetHint
      (if rl_Kind d = Quota then QuotaCooldownDuration scheduling else RateBackoff scheduling)"
  proof cases
    case hint
    from parseResetHint_range [OF this] show ?thesis by (auto simp: max_def)
  next
    case header
    from retry_after_header_range [OF this] show ?thesis by (auto simp: max_def)
  next
    case fallback
    then show ?thesis
      using midnight config day kind by (auto simp: max_def split: RateLimitKind.splits)
  qed
  then show "now \<le> rl_Until d"
    "rl_Until d \<le> now + max maxResetHint (if rl_Kind d = Quota then QuotaCooldownDuration scheduling else RateBackoff scheduling)"
    by blast+
  show "t < rl_Until d \<Longrightarrow> \<not> AccountHealthy (snd (RecordRateLimit p (rl_Until d) (rl_Kind d) g m)) p t"
    using gen by (auto simp: AccountHealthy_def provider_available_def RecordRateLimit_def Let_def set_health_def available_def)
  show "AccountHealthy (snd (RecordRateLimit p (rl_Until d) (rl_Kind d) g m)) p t"
    if "AccountHealthy m p now" "rl_Until d \<le> t"
    using that gen range clock
    by (auto simp: AccountHealthy_def provider_available_def RecordRateLimit_def Let_def set_health_def available_def
        health_of_def fmget_def newHealth_def split: option.splits if_splits)
qed

definition ex_time_lib :: time_lib where
  "ex_time_lib = \<lparr> tl_ParseRFC3339 = (\<lambda>_. None), tl_ParseTime = (\<lambda>_. None), tl_nextMidnight = (\<lambda>now. now + 24 * hour) \<rparr>"

definition ex_decision :: RateLimitDecision where
  "ex_decision = ParseRateLimit ex_time_lib (Some ''120'') [] 5 ex_scheduling"

theorem rate_limit_parks_bounded_witness:
  "rl_Until ex_decision = 5 + 120 * second \<and>
   \<not> AccountHealthy (snd (RecordRateLimit ''a'' (rl_Until ex_decision) (rl_Kind ex_decision) 0 newManager)) ''a'' 6 \<and>
   AccountHealthy (snd (RecordRateLimit ''a'' (rl_Until ex_decision) (rl_Kind ex_decision) 0 newManager)) ''a'' (5 + 120 * second)"
proof -
  have midnight: "(5 :: gotime) < tl_nextMidnight ex_time_lib 5" "tl_nextMidnight ex_time_lib 5 \<le> 5 + 25 * hour"
    by (simp_all add: ex_time_lib_def hour_def minute_def second_def)
  have config: "0 \<le> QuotaCooldownDuration ex_scheduling" "0 \<le> RateBackoff ex_scheduling" "(0 :: gotime) \<le> 5"
    "generationMatches newManager 0" "AccountHealthy newManager ''a'' 5"
    by (simp_all add: ex_scheduling_def QuotaCooldownDuration_def RateBackoff_def or_default_def hour_def minute_def second_def
        generationMatches_def newManager_def AccountHealthy_def provider_available_def)
  note parks = rate_limit_parks_bounded [OF midnight config(1-4), where retryAfter = "Some ''120''" and body = "[]",
    folded ex_decision_def]
  have until: "rl_Until ex_decision = 5 + 120 * second"
    by (simp add: ex_decision_def ParseRateLimit_def parseResetHint_def retry_after_header_def Atoi64_def digits_value_def
        is_digit_def maxResetHint_value signed_divide_int_def second_def)
  then show ?thesis
    using parks [where t = 6 and p = "''a''"] parks [where t = "5 + 120 * second" and p = "''a''"] config(5) by (simp add: second_def)
qed

subsection \<open>Hints that are read differently\<close>

text \<open>
  Upper-case units: the expression that finds the phrase ignores case, the one that reads its tokens
  does not, and the fallback that reads words stops after the first number. Three hours and thirty
  minutes become three hours.
\<close>

lemma uppercase_units_truncated:
  "parseResetHint (\<lambda>_. None) ''resets in 3H30M'' 5 = Some (5 + 3 * hour) \<and>
   parseResetHint (\<lambda>_. None) ''resets in 3h30m'' 5 = Some (5 + 3 * hour + 30 * minute)"
  by code_simp

text \<open>The sum of the tokens is not guarded: three huge durations wrap to a few minutes.\<close>

lemma token_sum_wraps:
  "parseResetHint (\<lambda>_. None) ''resets in 2562047h 2562047h 2h'' 5 = Some 1526290448389"
  by code_simp

end
