(* ===== verification/Exec_Props.thy ===== *)
theory Exec_Props
  imports Target_Exec Rate_Limit_Props
begin

text \<open>
  One attempt at a target ends after a bounded number of exchanges, and settles the half-open probe it
  may hold on every path.
\<close>

subsection \<open>Bound\<close>

lemma exec_loop_count: "snd (snd (fst (exec_loop st a n rp body s))) \<le> (2 - n) + (5 - spent rp)"
proof (induction st a n rp body s rule: exec_loop.induct)
  case (1 st a n rp body s)
  show ?case
  proof (cases "n < 2")
    case True
    show ?thesis
    proof (cases "dispatch_round st a n rp body s")
      case (Return res effects s')
      with True show ?thesis
        by (subst exec_loop.simps) simp
    next
      case (Again n' rp' body' s')
      have "(2 - n') + (5 - spent rp') < (2 - n) + (5 - spent rp)"
        using dispatch_round_advances [of n rp st a body s] Again True spent_le [of rp'] by (auto simp: advances_def)
      moreover have "snd (snd (fst (exec_loop st a n' rp' body' s'))) \<le> (2 - n') + (5 - spent rp')"
        using "1.IH" [OF True Again] .
      ultimately show ?thesis
        using True Again by (subst exec_loop.simps) (simp add: split_beta)
    qed
  next
    case False
    then show ?thesis
      by (subst exec_loop.simps) simp
  qed
qed

lemma exec_loop_count_pos: "n < 2 \<Longrightarrow> 0 < snd (snd (fst (exec_loop st a n rp body s)))"
  by (subst exec_loop.simps) (simp add: Let_def split_beta split: step.split)

subsection \<open>The probe\<close>

text \<open>
  What an attempt relies on of its runtime port: releasing the slot or recording an outcome of the
  target ends the provider's probe, and the notes taken on the model start none.
\<close>

locale probe_port =
  fixes st :: "'s State" and probing :: "string \<Rightarrow> 's \<Rightarrow> bool"
  assumes release: "\<not> probing p (xs_ReleaseHalfOpenSlot st p s)"
    and success: "\<not> probing (rtg_Provider t) (xs_RecordSuccess st t s)"
    and failure: "\<not> probing p (xs_RecordFailure st p s)"
    and rate_limit: "\<not> probing p (xs_RecordRateLimit st p d s)"
    and model_failure: "\<not> probing p s \<Longrightarrow> \<not> probing p (xs_RecordModelFailure st t s)"
begin

definition settled :: "'s Attempt \<Rightarrow> 's step \<Rightarrow> bool" where
  "settled a step = (case step of Return res effects s \<Rightarrow> \<not> probing (at_Provider a) s | Again n rp body s \<Rightarrow> True)"

lemma settled_simps [simp]:
  "settled a (Return res effects s) \<longleftrightarrow> \<not> probing (at_Provider a) s"
  "settled a (Again n rp body s)"
  by (simp_all add: settled_def)

lemmas ends_probe = release failure rate_limit

lemma settled_reactions:
  "settles_with (settled a) (quota_denied st a r peek s)"
  "settles_with (settled a) (shrink_images a n rp body r s)"
  "settles_with (settled a) (context_retry st a r peek s)"
  "settles_with (settled a) (model_denied st a r peek s)"
  "settles_with (settled a) (strip_param st a n rp body r peek s)"
  "settles_with (settled a) (rename_role st a n rp body r peek s)"
  "settles_with (settled a) (adapt_thinking st a n rp body r peek s)"
        apply (simp add: quota_denied_def exec_rate_limited_def ends_probe split: option.split)
       apply (simp add: shrink_images_def split: option.split)
      apply (simp add: context_retry_def Let_def split_beta exec_release_def ends_probe split: option.split)
     apply (simp add: model_denied_def Let_def give_up_def exec_release_def ends_probe)
    apply (simp add: strip_param_def Let_def split: option.split)
   apply (simp add: rename_role_def split: option.split)
  apply (simp add: adapt_thinking_def split: option.split)
  done

lemma settled_on_4xx: "settles_with (settled a) (on_4xx st a n rp body r s)"
  unfolding on_4xx_def Let_def by (intro and_then_settles settled_reactions)

lemma settled_commit:
  assumes deliver: "\<And>r s. \<not> probing (at_Provider a) s \<Longrightarrow> \<not> probing (at_Provider a) (snd (at_Deliver a r s))"
    and "\<not> probing (at_Provider a) s"
  shows "settled a (exec_commit st a body r s)"
  using deliver [OF assms(2), of r]
  by (cases "at_Deliver a r s") (auto simp: exec_commit_def model_failure split: option.split)

lemma settled_finish:
  assumes "\<And>r s. \<not> probing (at_Provider a) s \<Longrightarrow> \<not> probing (at_Provider a) (snd (at_Deliver a r s))"
  shows "settled a (finish st a body r s)"
proof -
  have "\<not> probing (at_Provider a) (xs_RecordSuccess st (at_Target a) s')" "\<not> probing (at_Provider a) (exec_release st a s')" for s'
    using success [of "at_Target a" s'] release by (simp_all add: at_Provider_def exec_release_def)
  then show ?thesis
    using settled_commit [OF assms] failure
    by (simp add: finish_def Let_def exec_failure_def give_up_def)
qed

lemma settled_round:
  assumes "\<And>r s. \<not> probing (at_Provider a) s \<Longrightarrow> \<not> probing (at_Provider a) (snd (at_Deliver a r s))"
  shows "settled a (dispatch_round st a n rp body s)"
proof -
  have "settled a (case on_4xx st a n rp body r s of Inl step \<Rightarrow> step | Inr s \<Rightarrow> finish st a body r s)" for r s body
    using settled_on_4xx [of a n rp body r s] settled_finish [OF assms] by (simp add: settles_with_def split: sum.splits)
  then have "settled a (on_answer st a n rp body r s)" for r s body
    using settled_finish [OF assms]
    by (simp add: on_answer_def on_401_def on_429_def on_5xx_def exec_failure_def give_up_def exec_rate_limited_def
        exec_release_def ends_probe Let_def split_beta)
  then show ?thesis
    by (simp add: dispatch_round_def Let_def split_beta give_up_def exec_failure_def exec_release_def ends_probe
        split: upstream.split)
qed

lemma exec_loop_settles:
  assumes "\<And>r s. \<not> probing (at_Provider a) s \<Longrightarrow> \<not> probing (at_Provider a) (snd (at_Deliver a r s))"
  shows "\<not> probing (at_Provider a) (snd (exec_loop st a n rp body s))"
proof (induction "(2 - n) + (5 - spent rp)" arbitrary: n rp body s rule: less_induct)
  case less
  show ?case
  proof (cases "n < 2")
    case True
    show ?thesis
    proof (cases "dispatch_round st a n rp body s")
      case (Return res effects s')
      with True settled_round [OF assms, of n rp body s] show ?thesis
        by (subst exec_loop.simps) simp
    next
      case (Again n' rp' body' s')
      have "(2 - n') + (5 - spent rp') < (2 - n) + (5 - spent rp)"
        using dispatch_round_advances [of n rp st a body s] Again True spent_le [of rp'] by (auto simp: advances_def)
      from less [OF this] True Again show ?thesis
        by (subst exec_loop.simps) (simp add: split_beta)
    qed
  next
    case False
    then show ?thesis
      by (subst exec_loop.simps) (simp add: exec_release_def release)
  qed
qed

lemma Execute_settles:
  assumes "\<And>r s. \<not> probing (at_Provider a) s \<Longrightarrow> \<not> probing (at_Provider a) (snd (at_Deliver a r s))"
    and "Execute st a body s = ((res, effects, n), s')" "0 < n"
  shows "\<not> probing (at_Provider a) s'"
  using assms(2,3) exec_loop_settles [OF assms(1), where n = 0 and rp = noRepairs and body = body]
  by (auto simp: Execute_def Let_def split_beta split: if_splits) (metis snd_conv)+

end

subsection \<open>The Manager as the port\<close>

definition gate_probing :: "uint64 \<Rightarrow> string \<Rightarrow> 'c world \<Rightarrow> bool" where
  "gate_probing g p w \<longleftrightarrow> generationMatches (wo_manager w) g \<and> ph_halfOpenInFlight (health_of (wo_manager w) p)"

lemma recordQuality_health: "m_health (recordQuality p x now m) = m_health m" "m_generation (recordQuality p x now m) = m_generation m"
  by (simp_all add: recordQuality_def Let_def)

interpretation gate: probe_port "GateState sg g shape miss" "gate_probing g" for sg g shape miss
  by unfold_locales
    (auto simp: gate_probing_def GateState_def on_manager_def ReleaseHalfOpenSlot_def RecordSuccess_def RecordFailure_def
      RecordRateLimit_def RecordModelFailure_def generationMatches_def health_of_def set_health_def fmget_def Let_def
      recordQuality_health newHealth_def split: option.splits if_splits)

text \<open>
  C3. An attempt at a target always ends, after at most seven exchanges with the upstream (the
  dispatch, one repeat after a credential refresh, and one for each of the five repairs), and it never
  leaves a probe behind: if it dispatched at all, then at its end the half-open slot of the provider is
  free, on every path through answers, errors, repairs and cancellation, whatever other requests do to
  the Manager meanwhile (as long as none takes the slot while the answer is delivered). An attempt that
  did not dispatch changes nothing.
\<close>

theorem Execute_settles_probe:
  fixes a :: "'c world Attempt" and w :: "'c world"
  assumes deliver: "\<And>r w. \<not> gate_probing g (at_Provider a) w \<Longrightarrow> \<not> gate_probing g (at_Provider a) (snd (at_Deliver a r w))"
    and run: "Execute (GateState sg g shape miss) a body w = ((res, effects, n), w')"
  shows "n \<le> 7 \<and>
    (0 < n \<longrightarrow> \<not> (generationMatches (wo_manager w') g \<and> ph_halfOpenInFlight (health_of (wo_manager w') (at_Provider a)))) \<and>
    (n = 0 \<longrightarrow> w' = w \<and> \<not> re_Committed res)"
proof -
  let ?st = "GateState sg g shape miss"
  have count: "n \<le> 7"
    using run exec_loop_count [of ?st a 0 noRepairs body]
    by (auto simp: Execute_def Let_def split_beta noRepairs_def spent_def split: if_splits)
      (metis fst_conv snd_conv)+
  have settled: "\<not> (generationMatches (wo_manager w') g \<and> ph_halfOpenInFlight (health_of (wo_manager w') (at_Provider a)))"
    if "0 < n"
    using gate.Execute_settles [OF deliver run that] by (simp add: gate_probing_def)
  have refused: "w1 = w" if "xs_TakeHalfOpenSlot ?st p w = (False, w1)" for p w1
    using that by (auto simp: GateState_def TakeHalfOpenSlot_def Let_def split: option.splits if_splits prod.splits)
  have "w' = w \<and> \<not> re_Committed res" if "n = 0"
    using run that exec_loop_count_pos [of 0 ?st a noRepairs body] refused
    by (auto simp: Execute_def Let_def split_beta hard_def noResult_def split: if_splits)
      (metis fst_conv less_numeral_extra(3) snd_conv zero_less_numeral prod.collapse)+
  with count settled show ?thesis
    by blast
qed

definition ex_attempt :: "bool \<Rightarrow> upstream \<Rightarrow> unit world Attempt" where
  "ex_attempt force up =
     \<lparr> at_Target = ex_rt ''a'' ''m'' 0, at_HasProvider = True, at_Scheduling = ex_scheduling, at_ViaResponsesVerdict = False,
       at_Force = force, at_LastTarget = False, at_ContextRetry = None, at_WantsStream = False, at_TimeLib = ex_time_lib,
       at_now = wo_now, at_RewriteRequest = (\<lambda>body. body), at_Do = (\<lambda>body w. (up, w)), at_Refresh = (\<lambda>w. (True, w)),
       at_ShrinkImages = (\<lambda>body. None), at_StripTopLevelParam = (\<lambda>body p. None), at_RenameDeveloperRole = (\<lambda>body. None),
       at_RewriteThinkingAdaptive = (\<lambda>body. None), at_Deliver = (\<lambda>r w. (Some (5, True), w)) \<rparr>"

definition ex_world :: "bool \<Rightarrow> unit world" where
  "ex_world inFlight =
     \<lparr> wo_manager = set_health ''a'' (newHealth \<lparr> ph_circuitOpenUntil := 100, ph_halfOpenInFlight := inFlight \<rparr>) newManager,
       wo_now = 200, wo_caps = () \<rparr>"

definition ex_gate :: "unit world State" where
  "ex_gate = GateState ex_scheduling 0 (\<lambda>t body m. body) (\<lambda>t c. c)"

definition ex_unavailable :: upstream where
  "ex_unavailable = Answer \<lparr> us_StatusCode = 503, us_Header = (\<lambda>_. []), us_Body = [], us_Head = [] \<rparr>"

lemmas ex_attempt_eval = Execute_def exec_loop.simps dispatch_round_def on_answer_def on_5xx_def on_401_def on_429_def
  exec_failure_def exec_release_def IsContentRefusal_def at_Provider_def ex_attempt_def ex_world_def ex_gate_def
  ex_unavailable_def GateState_def on_manager_def modelLocked_def TakeHalfOpenSlot_def generationMatches_def newManager_def
  set_health_def newHealth_def ex_rt_def ReleaseHalfOpenSlot_def Let_def

theorem Execute_settles_probe_witness:
  "let ((res, effects, n), w') = Execute ex_gate (ex_attempt False ex_unavailable) ''{}'' (ex_world False)
   in n = 1 \<and> re_Outcome res = OutcomeFailedHard \<and> \<not> ph_halfOpenInFlight (health_of (wo_manager w') ''a'')"
proof -
  let ?run = "Execute ex_gate (ex_attempt False ex_unavailable) ''{}'' (ex_world False)"
  obtain res effects n w' where run: "?run = ((res, effects, n), w')"
    by (metis prod.collapse)
  then have n: "n = 1 \<and> re_Outcome res = OutcomeFailedHard"
    by (auto simp: ex_attempt_eval hard_def)
  have gen: "generationMatches (wo_manager w') 0"
    by (simp add: generationMatches_def)
  have deliver: "\<not> gate_probing 0 p w \<Longrightarrow> \<not> gate_probing 0 p (snd (at_Deliver (ex_attempt False ex_unavailable) r w))" for p r w
    by (simp add: ex_attempt_def)
  have "\<not> ph_halfOpenInFlight (health_of (wo_manager w') (at_Provider (ex_attempt False ex_unavailable)))"
    using Execute_settles_probe [OF deliver run [unfolded ex_gate_def]] n gen by simp
  with run n show ?thesis
    by (simp add: at_Provider_def ex_attempt_def ex_rt_def)
qed

text \<open>
  A forced attempt (a pinned route) takes no slot but releases it at its end, also when another request
  holds it: while that probe is still under way, the next request is admitted as a second probe.
\<close>

lemma forced_attempt_frees_foreign_probe:
  "let w = ex_world True; w' = snd (Execute ex_gate (ex_attempt True (DoError True False [])) ''{}'' w)
   in fst (TakeHalfOpenSlot ''a'' 200 0 (wo_manager w)) = False \<and> fst (TakeHalfOpenSlot ''a'' 200 0 (wo_manager w')) = True"
  by (simp add: ex_attempt_eval)

end
