(* ===== verification/Pass_Props.thy ===== *)
theory Pass_Props
  imports Serve_Pass Exec_Props Policy_Props
begin

text \<open>What one failover pass does with its targets.\<close>

definition tried_providers :: "(RouteTarget \<times> disposition) list \<Rightarrow> string fset" where
  "tried_providers trail = fset_of_list (map (\<lambda>e. rtg_Provider (fst e)) (filter (\<lambda>e. snd e = Tried) trail))"

lemma tried_providers_simps [simp]:
  "tried_providers [] = {||}"
  "tried_providers ((t, d) # trail) = (if d = Tried then finsert (rtg_Provider t) (tried_providers trail) else tried_providers trail)"
  by (simp_all add: tried_providers_def)





subsection \<open>The turns of a pass\<close>




definition turn_disposition :: "'s turn \<Rightarrow> disposition" where
  "turn_disposition turn = (case turn of Stop r d s \<Rightarrow> d | Next r d s \<Rightarrow> d | Replace larger r s \<Rightarrow> Tried)"



definition trail_of :: "(RouteTarget \<times> 's turn) list \<Rightarrow> (RouteTarget \<times> disposition) list" where
  "trail_of turns = map (\<lambda>(t, turn). (t, turn_disposition turn)) turns"

lemma trail_of_simps [simp]:
  "trail_of [] = []" "trail_of ((t, turn) # turns) = (t, turn_disposition turn) # trail_of turns"
  by (simp_all add: trail_of_def)

lemma map_fst_trail_of [simp]: "map fst (trail_of turns) = map fst turns"
  by (simp add: trail_of_def case_prod_beta comp_def)




















end
