(* ===== verification/Config_Validate.thy ===== *)
theory Config_Validate
  imports Route_Policy Regex
begin

text \<open>
  The routing part of configuration validation (\<open>validateRouting\<close> and its helpers,
  \<open>internal/config/config.go\<close>): route strategies and targets, fusion recipes, and the route policies
  with their grades, bands, escalation, selector and evaluation. An error is the place it was found loc
  with the kind of problem; \<open>None\<close> is success, and the first error is the result, as in the code. The
  texts of the messages are not modelled.
\<close>

datatype place =
    AtStrategy string
  | AtRoute string
  | AtTarget string nat
  | AtShadow string
  | AtShadowLimits
  | AtFusion string
  | AtFusionTarget string string
  | AtPolicy string
  | AtGrade string string
  | AtGradeTarget string string nat
  | AtBand string nat
  | AtEscalation string
  | AtSelector string
  | AtEval string

datatype problem =
    UnknownStrategy | NoTargets | EmptyProvider | EmptyModel | UndefinedRecipe | ProtocolOnFusion | UndefinedProvider
  | UnknownProtocol | MissingBaseURL | NestedFusion | PanelSize | MinPanelRange | MaxRunsRange | TextTooLong
  | NotDecisions | UnknownMode | ConfidenceRange | ScoreRange | TopKRange | UnknownRoute | NoBands | EmptyGradeName | EmptyGrade
  | FusionInGrade | NotARouteTarget | InSeveralGrades | UnknownFallback | NoConditions | TokensRange | NeverMatches
  | GradeAndTarget | UndeclaredGrade | NeitherGradeNorTarget | AmbiguousTarget | UngradedTarget | GradeWithoutGrades
  | RateRange | NegativeConcurrency | ProtocolOnTarget | NoSignals | UnknownSignal | ConsecutiveRange | BadDuration | FusionOnly | EvalWithoutGrades
  | SampleRange | TooFewGrades | UnknownPair

type_synonym config_error = "place \<times> problem"

definition orelse :: "'e option \<Rightarrow> 'e option \<Rightarrow> 'e option" where
  "orelse a b = (case a of Some e \<Rightarrow> Some e | None \<Rightarrow> b)"

definition check :: "bool \<Rightarrow> place \<Rightarrow> problem \<Rightarrow> config_error option" where
  "check bad loc what = (if bad then Some (loc, what) else None)"

fun first_error :: "config_error option list \<Rightarrow> config_error option" where
  "first_error [] = None"
| "first_error (e # es) = orelse e (first_error es)"

definition each :: "('a \<Rightarrow> config_error option) \<Rightarrow> 'a list \<Rightarrow> config_error option" where
  "each f xs = first_error (map f xs)"

definition each_idx :: "(nat \<Rightarrow> 'a \<Rightarrow> config_error option) \<Rightarrow> 'a list \<Rightarrow> config_error option" where
  "each_idx f xs = first_error (map (\<lambda>(i, x). f i x) (zip [0..<length xs] xs))"

subsection \<open>The sections read\<close>

text \<open>
  The selector section with the fields validation reads (\<open>Timeout\<close>: \<open>None\<close> if empty, \<open>Some None\<close> if it
  does not parse), the evaluation section, and the fusion recipe. A policy is its runtime part with the
  parsed sections; the escalation's dwell is given in the same way.
\<close>

record SelectorSection =
  ss_Target :: RouteTarget
  ss_Mode :: string
  ss_Confidence :: real
  ss_DirectScoreMax :: real
  ss_PanelTopK :: int
  ss_Timeout :: "duration option option"
  ss_Instruction :: string
  ss_DifficultyInstruction :: string

record EvalConfig =
  ev_SampleRate :: real
  ev_Pair :: string
  ev_Judge :: RouteTarget

record FusionConfig =
  fu_Panel :: "RouteTarget list"
  fu_Synthesizer :: RouteTarget
  fu_MinPanel :: int
  fu_MaxRunsPerDay :: int
  fu_Judge :: "RouteTarget option"
  fu_Instruction :: string
  fu_Selector :: "SelectorSection option"

record PolicySection =
  po_Policy :: RoutePolicy
  po_DwellText :: "duration option option"
  po_Selector :: "SelectorSection option"
  po_Eval :: "EvalConfig option"

record ShadowTarget =
  sh_Provider :: string
  sh_Model :: string
  sh_Protocol :: string

record RoutingConfig =
  ro_Config :: Config
  ro_Shadow :: "(string, ShadowTarget) fmap"
  ro_ShadowSampleRate :: "real option"
  ro_ShadowMaxConcurrent :: int
  ro_Fusion :: "(string, FusionConfig) fmap"
  ro_Policies :: "(string, PolicySection) fmap"

definition fusionInstructionMaxRunes :: nat where
  "fusionInstructionMaxRunes = 4000"

definition fusionRubricMaxRunes :: nat where
  "fusionRubricMaxRunes = 200"

definition RuneCountInString :: "string \<Rightarrow> nat" where
  "RuneCountInString s = length (runes s)"

definition ExposedModelNames :: "Config \<Rightarrow> string fset" where
  "ExposedModelNames c =
     fset_of_list (concat (map (\<lambda>name.
       case fmlookup (cf_Providers c) name of
         None \<Rightarrow> []
       | Some prov \<Rightarrow> map (ExposedModelName prov) (pv_Models prov)) (fmkeys (cf_Providers c))))"

definition RouteExposedNames :: "Config \<Rightarrow> string fset" where
  "RouteExposedNames c = ExposedModelNames c |\<union>| fmdom (cf_Routes c)"

definition PairMode :: "EvalConfig \<Rightarrow> string" where
  "PairMode e = (if ev_Pair e = [] then ''opposite'' else ev_Pair e)"

definition BandWhen_Empty :: "BandWhen \<Rightarrow> bool" where
  "BandWhen_Empty w \<longleftrightarrow>
     bw_EstimatedTokensMin w = None \<and> bw_EstimatedTokensMax w = None \<and> bw_FollowUp w = None \<and>
     bw_HasTools w = None \<and> bw_HasImage w = None"

subsection \<open>Targets\<close>

datatype wireProtocol = WireAnthropic | WireOpenAI | WireResponses | WireDecisions

definition wire_Parse :: "string \<Rightarrow> wireProtocol option" where
  "wire_Parse value =
     (if value = ''anthropic'' then Some WireAnthropic
      else if value = ''openai'' then Some WireOpenAI
      else if value = ''responses'' then Some WireResponses
      else if value = ''decisions'' then Some WireDecisions
      else None)"

definition checkTargetProtocol :: "place \<Rightarrow> RouteTarget \<Rightarrow> Provider \<Rightarrow> config_error option" where
  "checkTargetProtocol loc t prov =
     (if rtg_Protocol t = [] then None
      else
        (case wire_Parse (rtg_Protocol t) of
           None \<Rightarrow> Some (loc, UnknownProtocol)
         | Some WireAnthropic \<Rightarrow> check (pv_AnthropicBaseURL prov = []) loc MissingBaseURL
         | Some WireDecisions \<Rightarrow> check (pv_DecisionsBaseURL prov = [] \<and> pv_OpenAIBaseURL prov = []) loc MissingBaseURL
         | Some _ \<Rightarrow> check (pv_OpenAIBaseURL prov = []) loc MissingBaseURL))"

text \<open>A provider that must be defined, and what is checked of it.\<close>

definition with_provider :: "Config \<Rightarrow> place \<Rightarrow> string \<Rightarrow> (Provider \<Rightarrow> config_error option) \<Rightarrow> config_error option" where
  "with_provider c loc name f =
     (case fmlookup (cf_Providers c) name of None \<Rightarrow> Some (loc, UndefinedProvider) | Some prov \<Rightarrow> f prov)"

definition checkFusionTarget :: "Config \<Rightarrow> place \<Rightarrow> RouteTarget \<Rightarrow> config_error option" where
  "checkFusionTarget c loc t =
     first_error
       [check (rtg_Provider t = []) loc EmptyProvider,
        check (rtg_Provider t = FusionProvider) loc NestedFusion,
        with_provider c loc (rtg_Provider t) (\<lambda>prov.
          orelse (check (rtg_Model t = []) loc EmptyModel) (checkTargetProtocol loc t prov))]"

definition validate_strategy :: "Config \<Rightarrow> string \<Rightarrow> config_error option" where
  "validate_strategy c exposed =
     check (fmget [] (cf_RouteStrategies c) exposed \<notin> {''quota'', ''load_balance''}) (AtStrategy exposed) UnknownStrategy"

definition validate_target :: "RoutingConfig \<Rightarrow> string \<Rightarrow> nat \<Rightarrow> RouteTarget \<Rightarrow> config_error option" where
  "validate_target rc exposed i t =
     (let loc = AtTarget exposed i
      in orelse (check (rtg_Provider t = []) loc EmptyProvider)
         (orelse (check (rtg_Model t = []) loc EmptyModel)
           (if rtg_Provider t = FusionProvider then
              orelse (check (fmlookup (ro_Fusion rc) (rtg_Model t) = None) loc UndefinedRecipe)
                (check (rtg_Protocol t \<noteq> []) loc ProtocolOnFusion)
            else with_provider (ro_Config rc) loc (rtg_Provider t) (checkTargetProtocol loc t))))"

definition validate_route :: "RoutingConfig \<Rightarrow> string \<Rightarrow> config_error option" where
  "validate_route rc exposed =
     (let targets = fmget [] (cf_Routes (ro_Config rc)) exposed
      in orelse (check (targets = []) (AtRoute exposed) NoTargets) (each_idx (validate_target rc exposed) targets))"

subsection \<open>Shadow targets\<close>

definition validate_shadow :: "Config \<Rightarrow> string \<Rightarrow> ShadowTarget \<Rightarrow> config_error option" where
  "validate_shadow c route sh =
     (let loc = AtShadow route
      in first_error
           [check (route |\<notin>| RouteExposedNames c) loc UnknownRoute,
            check (sh_Provider sh = FusionProvider) loc NestedFusion,
            with_provider c loc (sh_Provider sh) (\<lambda>prov.
              checkTargetProtocol loc
                \<lparr> rtg_Provider = sh_Provider sh, rtg_Model = sh_Model sh, rtg_Priority = 0, rtg_Protocol = sh_Protocol sh, rtg_Rubric = [] \<rparr> prov)])"

definition validate_shadow_limits :: "RoutingConfig \<Rightarrow> config_error option" where
  "validate_shadow_limits rc =
     orelse
       (check (case ro_ShadowSampleRate rc of None \<Rightarrow> False | Some r \<Rightarrow> r < 0 \<or> r > 1) AtShadowLimits RateRange)
       (check (ro_ShadowMaxConcurrent rc < 0) AtShadowLimits NegativeConcurrency)"

subsection \<open>Fusion recipes\<close>

definition too_long :: "nat \<Rightarrow> string \<Rightarrow> bool" where
  "too_long n s \<longleftrightarrow> RuneCountInString s > n"

definition check_mode :: "place \<Rightarrow> string \<Rightarrow> config_error option" where
  "check_mode loc mode = check (mode \<notin> {[], ''shadow'', ''enforce''}) loc UnknownMode"

definition validate_fusion_selector :: "Config \<Rightarrow> string \<Rightarrow> FusionConfig \<Rightarrow> SelectorSection \<Rightarrow> config_error option" where
  "validate_fusion_selector c name f sel =
     (let loc = AtFusion name
      in first_error
           [checkFusionTarget c (AtFusionTarget name ''selector'') (ss_Target sel),
            check (rtg_Protocol (ss_Target sel) \<noteq> ''decisions'') loc NotDecisions,
            check_mode loc (ss_Mode sel),
            check (ss_Confidence sel < 0 \<or> ss_Confidence sel > 1) loc ConfidenceRange,
            check (ss_DirectScoreMax sel < 0 \<or> ss_DirectScoreMax sel > 5) loc ScoreRange,
            check (ss_PanelTopK sel < 0 \<or> ss_PanelTopK sel > int (length (fu_Panel f))) loc TopKRange,
            check (too_long fusionInstructionMaxRunes (ss_Instruction sel)) loc TextTooLong,
            check (too_long fusionInstructionMaxRunes (ss_DifficultyInstruction sel)) loc TextTooLong])"

definition validate_fusion :: "Config \<Rightarrow> string \<Rightarrow> FusionConfig \<Rightarrow> config_error option" where
  "validate_fusion c name f =
     (let loc = AtFusion name
      in first_error
           [check (length (fu_Panel f) < 2 \<or> length (fu_Panel f) > 4) loc PanelSize,
            check (fu_MinPanel f < 0 \<or> fu_MinPanel f > int (length (fu_Panel f))) loc MinPanelRange,
            check (fu_MaxRunsPerDay f < 0) loc MaxRunsRange,
            check (too_long fusionInstructionMaxRunes (fu_Instruction f)) loc TextTooLong,
            each (checkFusionTarget c (AtFusionTarget name ''panel'')) (fu_Panel f),
            checkFusionTarget c (AtFusionTarget name ''synthesizer'') (fu_Synthesizer f),
            (case fu_Judge f of None \<Rightarrow> None | Some j \<Rightarrow> checkFusionTarget c (AtFusionTarget name ''judge'') j),
            (case fu_Selector f of None \<Rightarrow> None | Some sel \<Rightarrow> validate_fusion_selector c name f sel),
            each (\<lambda>m. check (too_long fusionRubricMaxRunes (rtg_Rubric m)) loc TextTooLong) (fu_Panel f)])"

subsection \<open>Route policies\<close>

definition targetKey :: "RouteTarget \<Rightarrow> string" where
  "targetKey t = rtg_Provider t @ ''/'' @ rtg_Model t"

definition routeTargetKeySet :: "Config \<Rightarrow> string \<Rightarrow> string fset" where
  "routeTargetKeySet c route =
     (if fmget [] (cf_Routes c) route \<noteq> [] then fset_of_list (map targetKey (fmget [] (cf_Routes c) route))
      else
        fset_of_list (concat (map (\<lambda>name.
          case fmlookup (cf_Providers c) name of
            None \<Rightarrow> []
          | Some prov \<Rightarrow> map (\<lambda>m. name @ ''/'' @ m) (filter (\<lambda>m. ExposedModelName prov m = route) (pv_Models prov)))
          (fmkeys (cf_Providers c)))))"

text \<open>The scan over grades and targets, with the grade first seen for each target name.\<close>

fun grade_targets ::
  "Config \<Rightarrow> string \<Rightarrow> string fset \<Rightarrow> string \<Rightarrow> nat \<Rightarrow> RouteTarget list \<Rightarrow> (string, string) fmap \<Rightarrow>
    config_error + (string, string) fmap" where
  "grade_targets c route routeTargets name i [] gradeOf = Inr gradeOf"
| "grade_targets c route routeTargets name i (t # ts) gradeOf =
     (let loc = AtGradeTarget route name i; key = targetKey t;
          first = fmlookup gradeOf key
      in case first_error
           [check (rtg_Provider t = [] \<or> rtg_Model t = []) loc EmptyProvider,
            check (rtg_Provider t = FusionProvider) loc FusionInGrade,
            check (fmlookup (cf_Providers c) (rtg_Provider t) = None) loc UndefinedProvider,
            check (routeTargets \<noteq> {||} \<and> key |\<notin>| routeTargets) loc NotARouteTarget,
            check (first \<noteq> None \<and> first \<noteq> Some name) loc InSeveralGrades] of
           Some e \<Rightarrow> Inl e
         | None \<Rightarrow> grade_targets c route routeTargets name (Suc i) ts (fmupd key name gradeOf))"

fun scan_grades ::
  "Config \<Rightarrow> string \<Rightarrow> string fset \<Rightarrow> (string, RouteTarget list) fmap \<Rightarrow> string list \<Rightarrow> (string, string) fmap \<Rightarrow>
    config_error option" where
  "scan_grades c route routeTargets grades [] gradeOf = None"
| "scan_grades c route routeTargets grades (name # names) gradeOf =
     (let targets = fmget [] grades name
      in orelse (check (name = []) (AtPolicy route) EmptyGradeName)
         (orelse (check (targets = []) (AtGrade route name) EmptyGrade)
           (case grade_targets c route routeTargets name 0 targets gradeOf of
              Inl e \<Rightarrow> Some e
            | Inr gradeOf \<Rightarrow> scan_grades c route routeTargets grades names gradeOf)))"

definition validateRoutePolicyGrades :: "Config \<Rightarrow> string \<Rightarrow> RoutePolicy \<Rightarrow> config_error option" where
  "validateRoutePolicyGrades c route policy =
     (if rp_Grades policy = fmempty then None
      else orelse
        (scan_grades c route (routeTargetKeySet c route) (rp_Grades policy) (fmkeys (rp_Grades policy)) fmempty)
        (check (rp_Fallback policy \<notin> {[], ''any'', ''next_grade'', ''strict''}) (AtPolicy route) UnknownFallback))"

text \<open>The copy of \<open>GradeForTarget\<close> in the configuration package.\<close>

definition gradeForTarget :: "RouteTarget \<Rightarrow> (string, RouteTarget list) fmap \<Rightarrow> string \<times> bool" where
  "gradeForTarget target grades = grade_scan target grades (fmkeys grades) []"

text \<open>A band or an escalation names a grade or a target; the check is written out twice in the code.\<close>

definition check_reference :: "RoutingConfig \<Rightarrow> place \<Rightarrow> RoutePolicy \<Rightarrow> string \<Rightarrow> RouteTarget \<Rightarrow> config_error option" where
  "check_reference rc loc policy grade target =
     (let nameless = (rtg_Provider target = [] \<or> rtg_Model target = [])
      in if grade \<noteq> [] \<and> (rtg_Provider target \<noteq> [] \<or> rtg_Model target \<noteq> []) then Some (loc, GradeAndTarget)
         else if HasGrades policy then
           (if grade \<noteq> [] then check (fmlookup (rp_Grades policy) grade = None) loc UndeclaredGrade
            else if nameless then Some (loc, NeitherGradeNorTarget)
            else
              (let (g, ambiguous) = gradeForTarget target (rp_Grades policy)
               in if ambiguous then Some (loc, AmbiguousTarget) else check (g = []) loc UngradedTarget))
         else if grade \<noteq> [] then Some (loc, GradeWithoutGrades)
         else if nameless then Some (loc, EmptyProvider)
         else if rtg_Protocol target \<noteq> [] then Some (loc, ProtocolOnTarget)
         else if rtg_Provider target = FusionProvider then
           check (fmlookup (ro_Fusion rc) (rtg_Model target) = None) loc UndefinedRecipe
         else check (fmlookup (cf_Providers (ro_Config rc)) (rtg_Provider target) = None) loc UndefinedProvider)"

definition validateRoutePolicyBandTarget :: "RoutingConfig \<Rightarrow> string \<Rightarrow> nat \<Rightarrow> RoutePolicy \<Rightarrow> RouteBand \<Rightarrow> config_error option" where
  "validateRoutePolicyBandTarget rc route i policy band =
     check_reference rc (AtBand route i) policy (rb_Grade band) (rb_Target band)"

definition validateRoutePolicyEscalationTarget :: "RoutingConfig \<Rightarrow> string \<Rightarrow> RoutePolicy \<Rightarrow> EscalationConfig \<Rightarrow> config_error option" where
  "validateRoutePolicyEscalationTarget rc route policy esc =
     check_reference rc (AtEscalation route) policy (ec_Grade esc) (ec_Target esc)"

definition validate_band :: "RoutingConfig \<Rightarrow> string \<Rightarrow> RoutePolicy \<Rightarrow> nat \<Rightarrow> RouteBand \<Rightarrow> config_error option" where
  "validate_band rc route policy i band =
     (let loc = AtBand route i; w = rb_When band
      in first_error
           [check (BandWhen_Empty w) loc NoConditions,
            check (case bw_EstimatedTokensMin w of None \<Rightarrow> False | Some n \<Rightarrow> n < 0) loc TokensRange,
            check (case bw_EstimatedTokensMax w of None \<Rightarrow> False | Some n \<Rightarrow> n < 0) loc TokensRange,
            check (case (bw_EstimatedTokensMin w, bw_EstimatedTokensMax w) of (Some a, Some b) \<Rightarrow> a > b | _ \<Rightarrow> False) loc NeverMatches,
            validateRoutePolicyBandTarget rc route i policy band])"

definition validate_escalation ::
  "RoutingConfig \<Rightarrow> string \<Rightarrow> RoutePolicy \<Rightarrow> duration option option \<Rightarrow> EscalationConfig \<Rightarrow> config_error option" where
  "validate_escalation rc route policy dwell esc =
     (let loc = AtEscalation route
      in first_error
           [check (ec_BadSignals esc = []) loc NoSignals,
            each (\<lambda>sig. check (sig \<notin> {''upstream_error'', ''empty_ok'', ''repeat_turn''}) loc UnknownSignal) (ec_BadSignals esc),
            check (ec_Consecutive esc < 1) loc ConsecutiveRange,
            validateRoutePolicyEscalationTarget rc route policy esc,
            check (dwell = Some None) loc BadDuration])"

definition validate_policy_selector :: "Config \<Rightarrow> string \<Rightarrow> SelectorSection \<Rightarrow> config_error option" where
  "validate_policy_selector c route sel =
     (let loc = AtSelector route; t = ss_Target sel
      in first_error
           [check (rtg_Provider t = [] \<or> rtg_Model t = []) loc EmptyProvider,
            check (rtg_Provider t = FusionProvider) loc NestedFusion,
            with_provider c loc (rtg_Provider t) (\<lambda>prov.
              orelse (check (rtg_Protocol t \<noteq> ''decisions'') loc NotDecisions) (checkTargetProtocol loc t prov)),
            check_mode loc (ss_Mode sel),
            check (ss_Confidence sel < 0 \<or> ss_Confidence sel > 1) loc ConfidenceRange,
            check (ss_Timeout sel = Some None) loc BadDuration,
            check (ss_DirectScoreMax sel \<noteq> 0) loc FusionOnly,
            check (ss_PanelTopK sel \<noteq> 0) loc FusionOnly,
            check (too_long fusionInstructionMaxRunes (ss_Instruction sel)) loc TextTooLong,
            check (too_long fusionInstructionMaxRunes (ss_DifficultyInstruction sel)) loc TextTooLong])"

definition validateRoutePolicyEval :: "Config \<Rightarrow> string \<Rightarrow> RoutePolicy \<Rightarrow> EvalConfig \<Rightarrow> config_error option" where
  "validateRoutePolicyEval c route policy eval =
     (let loc = AtEval route; j = ev_Judge eval; pair = PairMode eval
      in first_error
           [check (\<not> HasGrades policy) loc EvalWithoutGrades,
            check (ev_SampleRate eval < 0 \<or> ev_SampleRate eval > 1 / 2) loc SampleRange,
            check (rtg_Provider j = [] \<or> rtg_Model j = []) loc EmptyProvider,
            check (rtg_Provider j = FusionProvider) loc NestedFusion,
            with_provider c loc (rtg_Provider j) (\<lambda>prov.
              orelse (check (rtg_Protocol j \<noteq> ''decisions'') loc NotDecisions) (checkTargetProtocol loc j prov)),
            (if pair = ''opposite'' then check (fcard (fmdom (rp_Grades policy)) < 2) loc TooFewGrades
             else if HasPrefix pair ''grade:'' then
               check (fmlookup (rp_Grades policy) (drop 6 pair) = None) loc UndeclaredGrade
             else Some (loc, UnknownPair))])"

definition validate_policy :: "RoutingConfig \<Rightarrow> string \<Rightarrow> PolicySection \<Rightarrow> config_error option" where
  "validate_policy rc route po =
     (let policy = po_Policy po; c = ro_Config rc
      in first_error
           [check (route |\<notin>| RouteExposedNames c) (AtPolicy route) UnknownRoute,
            check (rp_Bands policy = []) (AtPolicy route) NoBands,
            validateRoutePolicyGrades c route policy,
            each_idx (validate_band rc route policy) (rp_Bands policy),
            (case rp_Escalation policy of None \<Rightarrow> None | Some esc \<Rightarrow> validate_escalation rc route policy (po_DwellText po) esc),
            (case po_Selector po of None \<Rightarrow> None | Some sel \<Rightarrow> validate_policy_selector c route sel),
            (case po_Eval po of None \<Rightarrow> None | Some eval \<Rightarrow> validateRoutePolicyEval c route policy eval)])"

text \<open>
  The checks of \<open>validateRouting\<close> in its order, up to the limits of shadowing; the sections it checks after
  them (mcp, guard, data paths, budgets, durations) are not modelled.
\<close>

definition validateRouting :: "RoutingConfig \<Rightarrow> config_error option" where
  "validateRouting rc =
     (let c = ro_Config rc
      in first_error
           [each (validate_strategy c) (fmkeys (cf_RouteStrategies c)),
            each (validate_route rc) (fmkeys (cf_Routes c)),
            each (\<lambda>route. case fmlookup (ro_Shadow rc) route of None \<Rightarrow> None | Some sh \<Rightarrow> validate_shadow c route sh) (fmkeys (ro_Shadow rc)),
            each (\<lambda>name. case fmlookup (ro_Fusion rc) name of None \<Rightarrow> None | Some f \<Rightarrow> validate_fusion c name f) (fmkeys (ro_Fusion rc)),
            each (\<lambda>route. case fmlookup (ro_Policies rc) route of None \<Rightarrow> None | Some po \<Rightarrow> validate_policy rc route po)
              (fmkeys (ro_Policies rc)),
            validate_shadow_limits rc])"

end
