(* ===== verification/Config_Validate_Props.thy ===== *)
theory Config_Validate_Props
  imports Config_Validate Policy_Props
begin

text \<open>
  What an accepted configuration guarantees to the parts that run on it: the choice of a grade is
  independent of the order in which the grades are visited and always leads to servable targets, and
  routes and recipes refer only to what is defined.
\<close>

subsection \<open>Success of a list of checks\<close>

lemma orelse_None [simp]: "orelse a b = None \<longleftrightarrow> a = None \<and> b = None"
  by (simp add: orelse_def split: option.split)

lemma check_None [simp]: "check bad loc what = None \<longleftrightarrow> \<not> bad"
  by (simp add: check_def)

lemma first_error_None [simp]: "first_error es = None \<longleftrightarrow> (\<forall>e \<in> set es. e = None)"
  by (induction es) simp_all

lemma each_None [simp]: "each f xs = None \<longleftrightarrow> (\<forall>x \<in> set xs. f x = None)"
  by (simp add: each_def)

lemma each_idx_None: "each_idx f xs = None \<Longrightarrow> i < length xs \<Longrightarrow> f i (xs ! i) = None"
  by (fastforce simp: each_idx_def set_zip)

lemma with_provider_None [simp]:
  "with_provider c loc name f = None \<longleftrightarrow> (\<exists>prov. fmlookup (cf_Providers c) name = Some prov \<and> f prov = None)"
  by (simp add: with_provider_def split: option.split)

subsection \<open>Every target belongs to one grade\<close>

definition has_target :: "(string, RouteTarget list) fmap \<Rightarrow> RouteTarget \<Rightarrow> string \<Rightarrow> bool" where
  "has_target grades target name \<longleftrightarrow> list_ex (\<lambda>t. same_target t target) (fmget [] grades name)"

lemma has_target_grade: "has_target grades t name \<Longrightarrow> name |\<in>| fmdom grades"
  by (auto simp: has_target_def fmget_def fmdomI split: option.splits)

definition extends :: "(string \<Rightarrow> string option) \<Rightarrow> (string \<Rightarrow> string option) \<Rightarrow> bool" where
  "extends f g \<longleftrightarrow> (\<forall>k v. f k = Some v \<longrightarrow> g k = Some v)"

lemma extendsD: "extends f g \<Longrightarrow> f k = Some v \<Longrightarrow> g k = Some v"
  by (simp add: extends_def)

lemma extends_trans: "extends f g \<Longrightarrow> extends g h \<Longrightarrow> extends f h"
  by (simp add: extends_def)

lemma grade_targets_Inr:
  assumes "grade_targets c route rts name i ts g = Inr g'"
  shows "extends (fmlookup g) (fmlookup g')" "\<And>t. t \<in> set ts \<Longrightarrow> fmlookup g' (targetKey t) = Some name"
    "\<And>t. t \<in> set ts \<Longrightarrow> rtg_Provider t |\<in>| fmdom (cf_Providers c) \<and> rtg_Provider t \<noteq> FusionProvider"
proof -
  have "extends (fmlookup g) (fmlookup g') \<and> (\<forall>t \<in> set ts. fmlookup g' (targetKey t) = Some name \<and>
      rtg_Provider t |\<in>| fmdom (cf_Providers c) \<and> rtg_Provider t \<noteq> FusionProvider)"
    using assms
  proof (induction c route rts name i ts g rule: grade_targets.induct)
    case (2 c route rts name i t ts g)
    let ?errs = "first_error
       [check (rtg_Provider t = [] \<or> rtg_Model t = []) (AtGradeTarget route name i) EmptyProvider,
        check (rtg_Provider t = FusionProvider) (AtGradeTarget route name i) FusionInGrade,
        check (fmlookup (cf_Providers c) (rtg_Provider t) = None) (AtGradeTarget route name i) UndefinedProvider,
        check (rts \<noteq> {||} \<and> targetKey t |\<notin>| rts) (AtGradeTarget route name i) NotARouteTarget,
        check (fmlookup g (targetKey t) \<noteq> None \<and> fmlookup g (targetKey t) \<noteq> Some name)
          (AtGradeTarget route name i) InSeveralGrades]"
    have none: "?errs = None" and run: "grade_targets c route rts name (Suc i) ts (fmupd (targetKey t) name g) = Inr g'"
      using "2.prems" by (auto simp: Let_def simp del: first_error_None split: option.splits)
    have IH: "extends (fmlookup (fmupd (targetKey t) name g)) (fmlookup g') \<and> (\<forall>t \<in> set ts. fmlookup g' (targetKey t) = Some name \<and>
      rtg_Provider t |\<in>| fmdom (cf_Providers c) \<and> rtg_Provider t \<noteq> FusionProvider)"
      using "2.IH" [OF refl refl refl none run] .
    then have "fmlookup g' (targetKey t) = Some name"
      by (auto elim!: extendsD)
    moreover have "extends (fmlookup g) (fmlookup (fmupd (targetKey t) name g))"
      using none by (auto simp: extends_def)
    ultimately show ?case
      using IH none by (auto intro: extends_trans fmdomI)
  qed (simp add: extends_def)
  then show "extends (fmlookup g) (fmlookup g')" "\<And>t. t \<in> set ts \<Longrightarrow> fmlookup g' (targetKey t) = Some name"
    "\<And>t. t \<in> set ts \<Longrightarrow> rtg_Provider t |\<in>| fmdom (cf_Providers c) \<and> rtg_Provider t \<noteq> FusionProvider"
    by auto
qed

lemma scan_grades_None:
  assumes "scan_grades c route rts grades names g = None"
  shows "\<exists>f. extends (fmlookup g) (f) \<and> (\<forall>name \<in> set names. name \<noteq> [] \<and> fmget [] grades name \<noteq> [] \<and>
    (\<forall>t \<in> set (fmget [] grades name). f (targetKey t) = Some name \<and> rtg_Provider t |\<in>| fmdom (cf_Providers c)))"
  using assms
proof (induction c route rts grades names g rule: scan_grades.induct)
  case (2 c route rts grades name names g)
  obtain g' where head: "grade_targets c route rts name 0 (fmget [] grades name) g = Inr g'"
    and run: "scan_grades c route rts grades names g' = None" and name: "name \<noteq> []" "fmget [] grades name \<noteq> []"
    using "2.prems" by (auto simp: Let_def split: sum.splits)
  from "2.IH" [OF refl head run] obtain f where f: "extends (fmlookup g') (f)"
    and rest: "\<forall>name \<in> set names. name \<noteq> [] \<and> fmget [] grades name \<noteq> [] \<and>
      (\<forall>t \<in> set (fmget [] grades name). f (targetKey t) = Some name \<and> rtg_Provider t |\<in>| fmdom (cf_Providers c))"
    by blast
  have "f (targetKey t) = Some name \<and> rtg_Provider t |\<in>| fmdom (cf_Providers c)" if "t \<in> set (fmget [] grades name)" for t
    using grade_targets_Inr(2,3) [OF head that] f by (auto elim: extendsD)
  with rest name extends_trans [OF grade_targets_Inr(1) [OF head] f] show ?case
    by (intro exI [of _ f]) auto
qed (auto simp: extends_def)

lemma same_target_key: "same_target t u \<Longrightarrow> targetKey t = targetKey u"
  by (simp add: same_target_def targetKey_def)

lemma validated_grades:
  assumes "validateRoutePolicyGrades c route policy = None"
  shows "name |\<in>| fmdom (rp_Grades policy) \<Longrightarrow> name \<noteq> [] \<and> fmget [] (rp_Grades policy) name \<noteq> [] \<and>
      (\<forall>t \<in> set (fmget [] (rp_Grades policy) name). rtg_Provider t |\<in>| fmdom (cf_Providers c))"
    and "has_target (rp_Grades policy) t name \<Longrightarrow> has_target (rp_Grades policy) t name' \<Longrightarrow> name = name'"
proof -
  let ?gs = "rp_Grades policy"
  have "\<exists>f. \<forall>name \<in> fset (fmdom ?gs). name \<noteq> [] \<and> fmget [] ?gs name \<noteq> [] \<and>
    (\<forall>t \<in> set (fmget [] ?gs name). f (targetKey t) = Some name \<and> rtg_Provider t |\<in>| fmdom (cf_Providers c))"
  proof (cases "?gs = fmempty")
    case False
    with assms have "scan_grades c route (routeTargetKeySet c route) ?gs (fmkeys ?gs) fmempty = None"
      by (simp add: validateRoutePolicyGrades_def)
    from scan_grades_None [OF this] show ?thesis
      by (simp add: fmdom'_alt_def) blast
  qed simp
  then obtain f where f: "\<And>name. name |\<in>| fmdom ?gs \<Longrightarrow> name \<noteq> [] \<and> fmget [] ?gs name \<noteq> [] \<and>
    (\<forall>t \<in> set (fmget [] ?gs name). f (targetKey t) = Some name \<and> rtg_Provider t |\<in>| fmdom (cf_Providers c))"
    by blast
  from f show "name |\<in>| fmdom ?gs \<Longrightarrow> name \<noteq> [] \<and> fmget [] ?gs name \<noteq> [] \<and>
      (\<forall>t \<in> set (fmget [] ?gs name). rtg_Provider t |\<in>| fmdom (cf_Providers c))"
    by blast
  have key: "f (targetKey t) = Some name" if has: "has_target ?gs t name" for name
  proof -
    obtain u where u: "u \<in> set (fmget [] ?gs name)" "same_target u t"
      using has by (auto simp: has_target_def list_ex_iff)
    have "name |\<in>| fmdom ?gs"
      using has by (rule has_target_grade)
    with f u same_target_key show ?thesis
      by metis
  qed
  show "name = name'" if "has_target ?gs t name" "has_target ?gs t name'"
    using key [OF that(1)] key [OF that(2)] by simp
qed

subsection \<open>Grades do not depend on the order\<close>

lemma grade_scan_none: "\<forall>n \<in> set names. \<not> has_target grades t n \<Longrightarrow> grade_scan t grades names found = (found, False)"
  by (induction names) (simp_all add: has_target_def)

lemma grade_scan_unique:
  assumes "\<And>n'. has_target grades t n' \<Longrightarrow> n' = n" "n \<in> set names" "has_target grades t n" "found = [] \<or> found = n"
  shows "grade_scan t grades names found = (n, False)"
  using assms(2,4)
proof (induction names arbitrary: found)
  case (Cons m names)
  show ?case
  proof (cases "has_target grades t m")
    case True
    then have "m = n"
      by (rule assms(1))
    moreover have "grade_scan t grades names n = (n, False)"
      using Cons.IH [of n] grade_scan_none [of names grades t n] assms(1) by blast
    ultimately show ?thesis
      using Cons.prems(2) True by (auto simp: has_target_def)
  next
    case False
    then show ?thesis
      using Cons assms(3) by (auto simp: has_target_def)
  qed
qed simp


lemma GradeForTarget_unique:
  assumes ok: "validateRoutePolicyGrades c route policy = None" and names: "set names = fmdom' (rp_Grades policy)"
  shows "grade_scan t (rp_Grades policy) names [] = GradeForTarget t (rp_Grades policy)"
    and "\<not> snd (GradeForTarget t (rp_Grades policy))"
    and "fst (GradeForTarget t (rp_Grades policy)) \<noteq> [] \<Longrightarrow> has_target (rp_Grades policy) t (fst (GradeForTarget t (rp_Grades policy)))"
proof -
  let ?gs = "rp_Grades policy"
  note unique = validated_grades(2) [OF ok]
  have "\<exists>g. (g \<noteq> [] \<longrightarrow> has_target ?gs t g) \<and> (\<forall>ns. set ns = fmdom' ?gs \<longrightarrow> grade_scan t ?gs ns [] = (g, False))"
  proof (cases "\<exists>n. has_target ?gs t n")
    case True
    then obtain n where n: "has_target ?gs t n" ..
    then have "n \<in> fmdom' ?gs"
      by (auto simp: has_target_def fmget_def fmdom'I split: option.splits)
    with n grade_scan_unique [of ?gs t n _ "[]"] unique show ?thesis
      by (intro exI [of _ n]) blast
  qed (auto intro: grade_scan_none)
  then obtain g where "g \<noteq> [] \<longrightarrow> has_target ?gs t g" "\<And>ns. set ns = fmdom' ?gs \<Longrightarrow> grade_scan t ?gs ns [] = (g, False)"
    by blast
  then show "grade_scan t ?gs names [] = GradeForTarget t ?gs" "\<not> snd (GradeForTarget t ?gs)"
    "fst (GradeForTarget t ?gs) \<noteq> [] \<Longrightarrow> has_target ?gs t (fst (GradeForTarget t ?gs))"
    using names by (simp_all add: GradeForTarget_def)
qed

definition reference_grade :: "RoutePolicy \<Rightarrow> string \<Rightarrow> RouteTarget \<Rightarrow> string" where
  "reference_grade policy grade target = (if grade \<noteq> [] then grade else fst (GradeForTarget target (rp_Grades policy)))"

lemma reference_declared:
  assumes "validateRoutePolicyGrades c route policy = None" "HasGrades policy" "check_reference rc loc policy grade target = None"
  shows "reference_grade policy grade target |\<in>| fmdom (rp_Grades policy)" "reference_grade policy grade target \<noteq> []"
proof -
  let ?g = "GradeForTarget target (rp_Grades policy)"
  have "grade \<noteq> [] \<and> fmlookup (rp_Grades policy) grade \<noteq> None \<or> grade = [] \<and> fst ?g \<noteq> []"
    using assms(2,3)
    by (simp add: check_reference_def gradeForTarget_def GradeForTarget_def Let_def split_beta split: if_splits)
  with has_target_grade [OF GradeForTarget_unique(3) [OF assms(1) set_fmkeys]]
  show "reference_grade policy grade target |\<in>| fmdom (rp_Grades policy)" "reference_grade policy grade target \<noteq> []"
    by (auto simp: reference_grade_def intro: fmdomI)
qed

lemma validated_band_grade:
  assumes ok: "validateRoutePolicyGrades c route policy = None" and graded: "HasGrades policy"
    and bands: "\<forall>band \<in> set bands. \<exists>loc. check_reference rc loc policy (rb_Grade band) (rb_Target band) = None"
    and match: "\<exists>band \<in> set bands. bandMatches (rb_When band) profile"
  shows "\<exists>grade. band_grade policy profile bands = (grade, True) \<and> grade |\<in>| fmdom (rp_Grades policy)"
  using bands match
proof (induction bands)
  case (Cons band bands)
  show ?case
  proof (cases "bandMatches (rb_When band) profile")
    case True
    obtain loc where "check_reference rc loc policy (rb_Grade band) (rb_Target band) = None"
      using Cons.prems(1) by auto
    note ref = reference_declared [OF ok graded this]
    have "band_grade policy profile (band # bands) = (reference_grade policy (rb_Grade band) (rb_Target band), True)"
      using ref True GradeForTarget_unique(2) [OF ok set_fmkeys]
      by (auto simp: reference_grade_def Let_def split_beta split: if_splits)
    with ref(1) show ?thesis
      by blast
  qed (use Cons in auto)
qed simp

lemma validated_sections:
  assumes "validateRouting rc = None"
  shows "fmlookup (ro_Policies rc) route = Some po \<Longrightarrow> validate_policy rc route po = None"
    and "fmlookup (ro_Fusion rc) name = Some f \<Longrightarrow> validate_fusion (ro_Config rc) name f = None"
    and "fmlookup (cf_Routes (ro_Config rc)) exposed = Some ts \<Longrightarrow> validate_route rc exposed = None"
proof -
  have "each (\<lambda>route. case fmlookup (ro_Policies rc) route of None \<Rightarrow> None | Some po \<Rightarrow> validate_policy rc route po) (fmkeys (ro_Policies rc)) = None"
    "each (\<lambda>name. case fmlookup (ro_Fusion rc) name of None \<Rightarrow> None | Some f \<Rightarrow> validate_fusion (ro_Config rc) name f) (fmkeys (ro_Fusion rc)) = None"
    "each (validate_route rc) (fmkeys (cf_Routes (ro_Config rc))) = None"
    using assms by (simp_all add: validateRouting_def Let_def del: each_None)
  note sections = this [unfolded each_None]
  show "validate_policy rc route po = None" if "fmlookup (ro_Policies rc) route = Some po"
    using bspec [OF sections(1), of route] that by (simp add: fmdom'I)
  show "validate_fusion (ro_Config rc) name f = None" if "fmlookup (ro_Fusion rc) name = Some f"
    using bspec [OF sections(2), of name] that by (simp add: fmdom'I)
  show "validate_route rc exposed = None" if "fmlookup (cf_Routes (ro_Config rc)) exposed = Some ts"
    using bspec [OF sections(3), of exposed] that by (simp add: fmdom'I)
qed

lemma validated_policy:
  assumes "validateRouting rc = None" "fmlookup (ro_Policies rc) route = Some po"
  shows "validateRoutePolicyGrades (ro_Config rc) route (po_Policy po) = None"
    and "\<forall>band \<in> set (rp_Bands (po_Policy po)). \<exists>loc. check_reference rc loc (po_Policy po) (rb_Grade band) (rb_Target band) = None"
    and "rp_Escalation (po_Policy po) = Some esc \<Longrightarrow>
      \<exists>loc. check_reference rc loc (po_Policy po) (ec_Grade esc) (ec_Target esc) = None"
proof -
  have pol: "validate_policy rc route po = None"
    by (rule validated_sections(1) [OF assms])
  then show "validateRoutePolicyGrades (ro_Config rc) route (po_Policy po) = None"
    by (simp add: validate_policy_def Let_def)
  show "\<forall>band \<in> set (rp_Bands (po_Policy po)). \<exists>loc. check_reference rc loc (po_Policy po) (rb_Grade band) (rb_Target band) = None"
  proof
    fix band
    assume "band \<in> set (rp_Bands (po_Policy po))"
    then obtain i where i: "i < length (rp_Bands (po_Policy po))" "rp_Bands (po_Policy po) ! i = band"
      by (auto simp: in_set_conv_nth)
    have "each_idx (validate_band rc route (po_Policy po)) (rp_Bands (po_Policy po)) = None"
      using pol by (simp add: validate_policy_def Let_def)
    from each_idx_None [OF this i(1)] i(2) show "\<exists>loc. check_reference rc loc (po_Policy po) (rb_Grade band) (rb_Target band) = None"
      by (auto simp: validate_band_def validateRoutePolicyBandTarget_def Let_def)
  qed
  show "\<exists>loc. check_reference rc loc (po_Policy po) (ec_Grade esc) (ec_Target esc) = None"
    if "rp_Escalation (po_Policy po) = Some esc"
    using pol that by (auto simp: validate_policy_def validate_escalation_def validateRoutePolicyEscalationTarget_def Let_def)
qed

text \<open>
  C15. What an accepted graded policy guarantees at request time: which grade a target belongs to does
  not depend on the order in which the map of grades is visited, and no target is ambiguous; whenever a
  band matches the request (or a latch or a selector names a declared grade), a declared grade is
  selected, which holds at least one target, all of defined providers; and the grade an escalation
  refers to is a declared one.
\<close>

theorem validated_grades_resolve:
  assumes ok: "validateRouting rc = None" and po: "fmlookup (ro_Policies rc) route = Some po"
    and graded: "HasGrades (po_Policy po)"
  shows "(set names = fmdom' (rp_Grades (po_Policy po)) \<longrightarrow>
      grade_scan t (rp_Grades (po_Policy po)) names [] = GradeForTarget t (rp_Grades (po_Policy po)) \<and>
      \<not> snd (GradeForTarget t (rp_Grades (po_Policy po)))) \<and>
    ((\<exists>band \<in> set (rp_Bands (po_Policy po)). bandMatches (rb_When band) profile) \<longrightarrow>
      (\<exists>grade targets. SelectGrade (po_Policy po) profile latched choice = (grade, True) \<and>
        fmlookup (rp_Grades (po_Policy po)) grade = Some targets \<and> targets \<noteq> [] \<and>
        (\<forall>t \<in> set targets. rtg_Provider t |\<in>| fmdom (cf_Providers (ro_Config rc))))) \<and>
    (rp_Escalation (po_Policy po) = Some esc \<longrightarrow>
      reference_grade (po_Policy po) (ec_Grade esc) (ec_Target esc) |\<in>| fmdom (rp_Grades (po_Policy po)))"
proof -
  note grades = validated_policy(1) [OF ok po]
  have order: "grade_scan t (rp_Grades (po_Policy po)) names [] = GradeForTarget t (rp_Grades (po_Policy po)) \<and>
      \<not> snd (GradeForTarget t (rp_Grades (po_Policy po)))" if "set names = fmdom' (rp_Grades (po_Policy po))"
    using GradeForTarget_unique(1,2) [OF grades that] by simp
  have select: "\<exists>grade targets. SelectGrade (po_Policy po) profile latched choice = (grade, True) \<and>
        fmlookup (rp_Grades (po_Policy po)) grade = Some targets \<and> targets \<noteq> [] \<and>
        (\<forall>t \<in> set targets. rtg_Provider t |\<in>| fmdom (cf_Providers (ro_Config rc)))"
    if match: "\<exists>band \<in> set (rp_Bands (po_Policy po)). bandMatches (rb_When band) profile"
  proof -
    obtain grade where grade: "SelectGrade (po_Policy po) profile latched choice = (grade, True)"
      "grade |\<in>| fmdom (rp_Grades (po_Policy po))"
    proof (cases "latched \<noteq> [] \<and> fmlookup (rp_Grades (po_Policy po)) latched \<noteq> None \<or>
        choice \<noteq> [] \<and> fmlookup (rp_Grades (po_Policy po)) choice \<noteq> None")
      case True
      then show thesis
        using that by (cases "latched \<noteq> [] \<and> fmlookup (rp_Grades (po_Policy po)) latched \<noteq> None") (auto simp: SelectGrade_def fmlookup_dom_iff)
    next
      case False
      then show thesis
        using validated_band_grade [OF grades graded validated_policy(2) [OF ok po] match] that by (auto simp: SelectGrade_def)
    qed
    then obtain targets where "fmlookup (rp_Grades (po_Policy po)) grade = Some targets"
      by (auto dest: fmdom_notI simp: fmlookup_dom_iff)
    with grade validated_grades(1) [OF grades grade(2)] show ?thesis
      by auto
  qed
  have "reference_grade (po_Policy po) (ec_Grade esc) (ec_Target esc) |\<in>| fmdom (rp_Grades (po_Policy po))"
    if "rp_Escalation (po_Policy po) = Some esc"
    using validated_policy(3) [OF ok po that] reference_declared(1) [OF grades graded] by auto
  with order select show ?thesis
    by blast
qed

definition ex_routing :: RoutingConfig where
  "ex_routing =
     \<lparr> ro_Config = ex_config \<lparr> cf_Routes := fmap_of_list
           [(''q'', [ex_rt ''b'' ''big'' 2, ex_rt ''a'' ''small'' 1, ex_rt FusionProvider ''duo'' 3])] \<rparr>,
       ro_Shadow = fmempty, ro_ShadowSampleRate = None, ro_ShadowMaxConcurrent = 0,
       ro_Fusion = fmap_of_list [(''duo'', \<lparr> fu_Panel = [ex_rt ''a'' ''small'' 1, ex_rt ''b'' ''big'' 2],
         fu_Synthesizer = ex_rt ''b'' ''big'' 2, fu_MinPanel = 0, fu_MaxRunsPerDay = 0, fu_Judge = None, fu_Instruction = [],
         fu_Selector = None \<rparr>)],
       ro_Policies = fmap_of_list [(''q'', \<lparr> po_Policy = ex_policy ex_grades [], po_DwellText = None, po_Selector = None, po_Eval = None \<rparr>)] \<rparr>"

lemma ex_routing_valid: "validateRouting ex_routing = None"
  by code_simp

theorem validated_grades_resolve_witness:
  "GradeForTarget (ex_rt ''a'' ''small'' 1) ex_grades = grade_scan (ex_rt ''a'' ''small'' 1) ex_grades [''strong'', ''cheap''] [] \<and>
   snd (SelectGrade (ex_policy ex_grades []) ex_profile [] [])"
proof -
  have pol: "fmlookup (ro_Policies ex_routing) ''q'' =
      Some \<lparr> po_Policy = ex_policy ex_grades [], po_DwellText = None, po_Selector = None, po_Eval = None \<rparr>"
    by (simp add: ex_routing_def)
  have graded: "HasGrades (po_Policy \<lparr> po_Policy = ex_policy ex_grades [], po_DwellText = None, po_Selector = None, po_Eval = None \<rparr>)"
    by code_simp
  have names: "set [''strong'', ''cheap''] = fmdom' (rp_Grades (ex_policy ex_grades []))"
    by (auto simp: ex_policy_def ex_grades_def fmdom'_alt_def)
  have match: "\<exists>band \<in> set (rp_Bands (ex_policy ex_grades [])). bandMatches (rb_When band) ex_profile"
    by code_simp
  have grades: "rp_Grades (ex_policy ex_grades []) = ex_grades"
    by (simp add: ex_policy_def)
  have "GradeForTarget (ex_rt ''a'' ''small'' 1) ex_grades = grade_scan (ex_rt ''a'' ''small'' 1) ex_grades [''strong'', ''cheap''] []"
    using validated_grades_resolve [OF ex_routing_valid pol graded, unfolded PolicySection.simps, THEN conjunct1, rule_format, OF names]
    unfolding grades by (rule conjunct1 [THEN sym])
  moreover have "snd (SelectGrade (ex_policy ex_grades []) ex_profile [] [])"
    using validated_grades_resolve [OF ex_routing_valid pol graded, unfolded PolicySection.simps, THEN conjunct2, THEN conjunct1,
        rule_format, OF match, of "[]" "[]"]
    by (elim exE conjE) (simp only: snd_conv)
  ultimately show ?thesis
    by blast
qed

subsection \<open>Routes and recipes refer to what is defined\<close>

definition has_base_url :: "Provider \<Rightarrow> string \<Rightarrow> bool" where
  "has_base_url prov protocol \<longleftrightarrow>
     (if protocol = ''anthropic'' then pv_AnthropicBaseURL prov \<noteq> []
      else if protocol = ''decisions'' then pv_DecisionsBaseURL prov \<noteq> [] \<or> pv_OpenAIBaseURL prov \<noteq> []
      else protocol \<in> {''openai'', ''responses''} \<and> pv_OpenAIBaseURL prov \<noteq> [])"

definition callable_target :: "Config \<Rightarrow> RouteTarget \<Rightarrow> bool" where
  "callable_target c t \<longleftrightarrow>
     rtg_Provider t \<noteq> FusionProvider \<and> rtg_Model t \<noteq> [] \<and>
     (\<exists>prov. fmlookup (cf_Providers c) (rtg_Provider t) = Some prov \<and> (rtg_Protocol t = [] \<or> has_base_url prov (rtg_Protocol t)))"

lemma checkTargetProtocol_None: "checkTargetProtocol loc t prov = None \<Longrightarrow> rtg_Protocol t = [] \<or> has_base_url prov (rtg_Protocol t)"
  by (auto simp: checkTargetProtocol_def wire_Parse_def has_base_url_def split: if_splits)

lemma checkFusionTarget_None: "checkFusionTarget c loc t = None \<Longrightarrow> callable_target c t"
  by (auto simp: checkFusionTarget_def callable_target_def dest: checkTargetProtocol_None)

lemma validate_fusion_None:
  assumes "validate_fusion c name f = None"
  shows "2 \<le> length (fu_Panel f) \<and> length (fu_Panel f) \<le> 4"
    and "t \<in> set (fu_Panel f) \<union> {fu_Synthesizer f} \<union> set_option (fu_Judge f) \<Longrightarrow> callable_target c t"
  using assms by (auto simp: validate_fusion_def Let_def intro: checkFusionTarget_None)

text \<open>
  C33. Every target of an explicit route of an accepted configuration can be called: it names a model of a
  defined provider that has a base URL for the protocol the target declares, or a defined fusion recipe
  of two to four panel members, whose members, synthesizer and judge are themselves callable and never
  another recipe.
\<close>

theorem validated_routes_callable:
  assumes ok: "validateRouting rc = None" and route: "fmlookup (cf_Routes (ro_Config rc)) exposed = Some ts"
  shows "ts \<noteq> [] \<and> (\<forall>t \<in> set ts. callable_target (ro_Config rc) t \<or>
    rtg_Provider t = FusionProvider \<and>
    (\<exists>f. fmlookup (ro_Fusion rc) (rtg_Model t) = Some f \<and> length (fu_Panel f) \<in> {2..4} \<and>
      (\<forall>u \<in> set (fu_Panel f) \<union> {fu_Synthesizer f} \<union> set_option (fu_Judge f). callable_target (ro_Config rc) u)))"
proof -
  have valid: "ts \<noteq> []" "each_idx (validate_target rc exposed) ts = None"
    using validated_sections(3) [OF ok route] route by (simp_all add: validate_route_def Let_def)
  have "callable_target (ro_Config rc) t \<or> rtg_Provider t = FusionProvider \<and> (\<exists>f. fmlookup (ro_Fusion rc) (rtg_Model t) = Some f)"
    if mem: "t \<in> set ts" for t
  proof -
    obtain i where i: "i < length ts" "ts ! i = t"
      using mem by (auto simp: in_set_conv_nth)
    from each_idx_None [OF valid(2) i(1)] i(2) show ?thesis
      by (auto simp: validate_target_def callable_target_def Let_def dest: checkTargetProtocol_None split: if_splits)
  qed
  with valid(1) validate_fusion_None [OF validated_sections(2) [OF ok]] show ?thesis
    by (metis atLeastAtMost_iff)
qed

theorem validated_routes_callable_witness:
  "callable_target (ro_Config ex_routing) (ex_rt ''b'' ''big'' 2) \<and>
   (\<exists>f. fmlookup (ro_Fusion ex_routing) ''duo'' = Some f \<and> length (fu_Panel f) \<in> {2..4})"
proof -
  have "fmlookup (cf_Routes (ro_Config ex_routing)) ''q'' =
      Some [ex_rt ''b'' ''big'' 2, ex_rt ''a'' ''small'' 1, ex_rt FusionProvider ''duo'' 3]"
    by (simp add: ex_routing_def)
  from validated_routes_callable [OF ex_routing_valid this] show ?thesis
    by (auto simp: ex_rt_def FusionProvider_def callable_target_def)
qed

end
