(* ===== verification/Guard_Matcher.thy ===== *)
theory Guard_Matcher
  imports Prelude
begin

text \<open>
  The literal prefilter of the guard (\<open>internal/guard/matcher.go\<close>): an Aho-Corasick automaton over all
  needles, built once and run once over a body. States are indices into the node slice, as in the code.
  The three loops whose end depends on the failure links (the walk along them, the breadth-first
  queue, the chain of dictionary links) are partial functions: a result \<open>None\<close> would mean that they do
  not end. Where the code ranges over a transition map the order is that of the bytes.
\<close>

subsection \<open>Building the trie\<close>

record acBuilder =
  bd_next :: "(char, nat) fmap list"
  bd_out :: "nat list list"

definition newACBuilder :: acBuilder where
  "newACBuilder = \<lparr> bd_next = [fmempty], bd_out = [[]] \<rparr>"

text \<open>One step of the walk along a needle, with a new state where there is no transition.\<close>

definition ac_child :: "char \<Rightarrow> nat \<times> acBuilder \<Rightarrow> nat \<times> acBuilder" where
  "ac_child c vb =
     (let (v, b) = vb
      in case fmlookup (bd_next b ! v) c of
           Some n \<Rightarrow> (n, b)
         | None \<Rightarrow>
             (let n = length (bd_next b)
              in (n, \<lparr> bd_next = (bd_next b @ [fmempty])[v := fmupd c n (bd_next b ! v)], bd_out = bd_out b @ [[]] \<rparr>)))"

definition ac_add :: "string \<Rightarrow> nat \<Rightarrow> acBuilder \<Rightarrow> acBuilder" where
  "ac_add needle i b =
     (let (v, b) = fold ac_child needle (0, b)
      in b \<lparr> bd_out := (bd_out b)[v := bd_out b ! v @ [i]] \<rparr>)"

subsection \<open>Failure and dictionary links\<close>

record acNode =
  nd_edges :: "(char \<times> nat) list"
  nd_fail :: nat
  nd_out :: "nat list"
  nd_dict :: "nat option"

record acMatcher =
  mt_nodes :: "acNode list"
  mt_root :: "char \<Rightarrow> nat"

definition transitions :: "(char, nat) fmap \<Rightarrow> (char \<times> nat) list" where
  "transitions m = map (\<lambda>c. (c, fmget 0 m c)) (fmkeys m)"

text \<open>
  The breadth-first traversal behind the root's children: the first state of the queue is handled and
  its children are queued behind the others.
\<close>

partial_function (option) bfs ::
  "(nat \<Rightarrow> nat list) \<Rightarrow> (nat \<Rightarrow> 's \<Rightarrow> 's option) \<Rightarrow> nat list \<Rightarrow> 's \<Rightarrow> 's option" where
  "bfs children visit queue s =
     (case queue of
        [] \<Rightarrow> Some s
      | v # queue \<Rightarrow>
          (case visit v s of
             None \<Rightarrow> None
           | Some s \<Rightarrow> bfs children visit (queue @ children v) s))"

text \<open>The walk along the failure links from \<open>f\<close> to the first state with a transition for \<open>c\<close>.\<close>

partial_function (option) find_fail :: "(char, nat) fmap list \<Rightarrow> nat list \<Rightarrow> char \<Rightarrow> nat \<Rightarrow> nat \<Rightarrow> nat option" where
  "find_fail nxt fail c u f =
     (if fmlookup (nxt ! f) c \<noteq> None \<and> fmlookup (nxt ! f) c \<noteq> Some u then fmlookup (nxt ! f) c
      else if f = 0 then Some 0
      else find_fail nxt fail c u (fail ! f))"

fun link_children :: "(char, nat) fmap list \<Rightarrow> nat \<Rightarrow> (char \<times> nat) list \<Rightarrow> nat list \<Rightarrow> nat list option" where
  "link_children nxt v [] fail = Some fail"
| "link_children nxt v ((c, u) # cs) fail =
     (case find_fail nxt fail c u (fail ! v) of
        None \<Rightarrow> None
      | Some found \<Rightarrow> link_children nxt v cs (fail[u := found]))"

definition children :: "(char, nat) fmap list \<Rightarrow> nat \<Rightarrow> nat list" where
  "children nxt v = map snd (transitions (nxt ! v))"

definition compile_fail :: "acBuilder \<Rightarrow> nat list option" where
  "compile_fail b =
     bfs (children (bd_next b)) (\<lambda>v. link_children (bd_next b) v (transitions (bd_next b ! v)))
       (children (bd_next b) 0) (replicate (length (bd_next b)) 0)"

definition link_dict :: "acBuilder \<Rightarrow> nat list \<Rightarrow> nat \<Rightarrow> nat option list \<Rightarrow> nat option list option" where
  "link_dict b fail v dict =
     (let f = fail ! v
      in Some (dict[v := (if bd_out b ! f \<noteq> [] then Some f else dict ! f)]))"

definition compile_dict :: "acBuilder \<Rightarrow> nat list \<Rightarrow> nat option list option" where
  "compile_dict b fail =
     bfs (children (bd_next b)) (link_dict b fail) (children (bd_next b) 0) (replicate (length (bd_next b)) None)"

definition ac_compile :: "acBuilder \<Rightarrow> acMatcher option" where
  "ac_compile b =
     (case compile_fail b of
        None \<Rightarrow> None
      | Some fail \<Rightarrow>
          (case compile_dict b fail of
             None \<Rightarrow> None
           | Some dict \<Rightarrow>
               Some \<lparr> mt_nodes = map (\<lambda>v. \<lparr> nd_edges = transitions (bd_next b ! v), nd_fail = fail ! v,
                                         nd_out = bd_out b ! v, nd_dict = dict ! v \<rparr>) [0..<length (bd_next b)],
                      mt_root = (\<lambda>c. fmget 0 (bd_next b ! 0) c) \<rparr>))"

subsection \<open>The search\<close>

definition edge :: "acNode \<Rightarrow> char \<Rightarrow> nat option" where
  "edge nd c = map_of (nd_edges nd) c"

text \<open>The next state, 0 for staying at the root.\<close>

partial_function (option) advance :: "acMatcher \<Rightarrow> char \<Rightarrow> nat \<Rightarrow> nat option" where
  "advance m c v =
     (if v = 0 then Some (mt_root m c)
      else
        (case edge (mt_nodes m ! v) c of
           Some to \<Rightarrow> Some to
         | None \<Rightarrow> advance m c (nd_fail (mt_nodes m ! v))))"

text \<open>The ids along the dictionary links from \<open>d\<close>.\<close>

partial_function (option) dict_ids :: "acMatcher \<Rightarrow> nat option \<Rightarrow> nat list option" where
  "dict_ids m d =
     (case d of
        None \<Rightarrow> Some []
      | Some v \<Rightarrow>
          Option.bind (dict_ids m (nd_dict (mt_nodes m ! v))) (\<lambda>ids. Some (nd_out (mt_nodes m ! v) @ ids)))"

text \<open>\<open>search\<close> as the list of its calls of \<open>fn(id, end)\<close>.\<close>

fun search_from :: "acMatcher \<Rightarrow> nat \<Rightarrow> nat \<Rightarrow> string \<Rightarrow> (nat \<times> nat) list option" where
  "search_from m v i [] = Some []"
| "search_from m v i (c # body) =
     (case advance m c v of
        None \<Rightarrow> None
      | Some v \<Rightarrow>
          if v = 0 then search_from m 0 (Suc i) body
          else
            (case dict_ids m (nd_dict (mt_nodes m ! v)) of
               None \<Rightarrow> None
             | Some ids \<Rightarrow>
                 map_option (\<lambda>hits. map (\<lambda>id. (id, Suc i)) (nd_out (mt_nodes m ! v) @ ids) @ hits)
                   (search_from m v (Suc i) body)))"

definition ac_search :: "acMatcher \<Rightarrow> string \<Rightarrow> (nat \<times> nat) list option" where
  "ac_search m body = search_from m 0 0 body"

text \<open>The automaton over a list of needles with their ids.\<close>

definition ac_build :: "(string \<times> nat) list \<Rightarrow> acMatcher option" where
  "ac_build needles = ac_compile (fold (\<lambda>(needle, i). ac_add needle i) needles newACBuilder)"

end
