(* ===== verification/Guard_Matcher_Props.thy ===== *)
theory Guard_Matcher_Props
  imports Guard_Matcher
begin

text \<open>
  Correctness of the literal prefilter: the automaton reports exactly the occurrences that a search
  for each needle on its own would report. The states are compared with their labels, the words that
  lead to them; the failure link of a state is the longest proper suffix of its label that is a
  label, and the state after reading a text is the longest suffix of the text that is a label.
\<close>

subsection \<open>Longest suffixes in a set of words\<close>

fun lps :: "string set \<Rightarrow> string \<Rightarrow> string" where
  "lps S [] = []"
| "lps S (a # x) = (if a # x \<in> S then a # x else lps S x)"

text \<open>The non-empty suffixes in the set, the longest first.\<close>

fun sufs :: "string set \<Rightarrow> string \<Rightarrow> string list" where
  "sufs S [] = []"
| "sufs S (a # x) = (if a # x \<in> S then (a # x) # sufs S x else sufs S x)"

definition prefix_closed :: "string set \<Rightarrow> bool" where
  "prefix_closed S \<longleftrightarrow> [] \<in> S \<and> (\<forall>x c. x @ [c] \<in> S \<longrightarrow> x \<in> S)"

lemma lps_in: "[] \<in> S \<Longrightarrow> lps S x \<in> S"
  by (induction x) auto

lemma lps_suffix: "suffix (lps S x) x"
  by (induction x) (auto simp: suffix_ConsI)

lemma lps_id: "x \<in> S \<Longrightarrow> lps S x = x"
  by (cases x) auto

lemma lps_length: "length (lps S x) \<le> length x"
  using lps_suffix suffix_length_le by blast

lemma lps_greatest: "y \<in> S \<Longrightarrow> suffix y x \<Longrightarrow> suffix y (lps S x)"
  by (induction x) (auto simp: suffix_Cons)

lemma lps_unique:
  assumes "z \<in> S" "suffix z x" "\<And>y. y \<in> S \<Longrightarrow> suffix y x \<Longrightarrow> suffix y z" "[] \<in> S"
  shows "lps S x = z"
  using assms lps_greatest lps_in lps_suffix suffix_order.antisym by metis

lemma lps_snoc:
  assumes "prefix_closed S"
  shows "lps S (x @ [c]) = lps S (lps S x @ [c])"
proof (rule lps_unique)
  have nil: "[] \<in> S" using assms by (simp add: prefix_closed_def)
  then show "lps S (lps S x @ [c]) \<in> S" by (rule lps_in)
  show "[] \<in> S" by (fact nil)
  show "suffix (lps S (lps S x @ [c])) (x @ [c])"
    using lps_suffix [of S "lps S x @ [c]"] lps_suffix [of S x]
    by (meson same_suffix_suffix suffix_order.trans suffix_snoc)
  fix y assume y: "y \<in> S" "suffix y (x @ [c])"
  show "suffix y (lps S (lps S x @ [c]))"
  proof (cases y rule: rev_cases)
    case (snoc y' d)
    with y have "suffix y' x" "d = c" "y' \<in> S"
      using assms by (auto simp: prefix_closed_def)
    then have "suffix y (lps S x @ [c])" using snoc lps_greatest by simp
    then show ?thesis using y(1) by (simp add: lps_greatest)
  qed simp
qed

lemma sufs_lps: "sufs S (lps S x) = sufs S x"
  by (induction x) auto

lemma sufs_nonempty: "x \<in> S \<Longrightarrow> x \<noteq> [] \<Longrightarrow> sufs S x = x # sufs S (tl x)"
  by (cases x) auto

lemma set_sufs: "set (sufs S x) = {y \<in> S. y \<noteq> [] \<and> suffix y x}"
  by (induction x) (auto simp: suffix_Cons)

lemma distinct_sufs: "distinct (sufs S x)"
  by (induction x) (auto simp: set_sufs dest: suffix_length_le)

subsection \<open>Labelled tries\<close>

text \<open>\<open>L\<close> gives the label of every state and \<open>O\<close> the ids on the state with a label.\<close>

definition trie_ok :: "acBuilder \<Rightarrow> string list \<Rightarrow> (string \<Rightarrow> nat list) \<Rightarrow> bool" where
  "trie_ok b L out \<longleftrightarrow>
     length (bd_next b) = length L \<and> length (bd_out b) = length L \<and> distinct L \<and> L \<noteq> [] \<and> L ! 0 = [] \<and>
     prefix_closed (set L) \<and>
     (\<forall>v<length L. \<forall>c u. fmlookup (bd_next b ! v) c = Some u \<longleftrightarrow> u < length L \<and> L ! u = L ! v @ [c]) \<and>
     (\<forall>v<length L. bd_out b ! v = out (L ! v)) \<and> (\<forall>w. w \<notin> set L \<longrightarrow> out w = [])"

lemma trie_okD:
  assumes "trie_ok b L out"
  shows "length (bd_next b) = length L" "length (bd_out b) = length L" "distinct L" "0 < length L" "L ! 0 = []"
    "prefix_closed (set L)" "[] \<in> set L"
    "\<And>v c u. v < length L \<Longrightarrow> fmlookup (bd_next b ! v) c = Some u \<longleftrightarrow> u < length L \<and> L ! u = L ! v @ [c]"
    "\<And>v. v < length L \<Longrightarrow> bd_out b ! v = out (L ! v)" "\<And>w. w \<notin> set L \<Longrightarrow> out w = []"
  using assms by (auto simp: trie_ok_def prefix_closed_def)

lemma trie_label_0: "trie_ok b L out \<Longrightarrow> v < length L \<Longrightarrow> L ! v = [] \<longleftrightarrow> v = 0"
  using trie_okD(3,4,5) nth_eq_iff_index_eq by metis

lemma trie_no_edge:
  assumes "trie_ok b L out" "v < length L" "fmlookup (bd_next b ! v) c = None"
  shows "L ! v @ [c] \<notin> set L"
  using trie_okD(8) [OF assms(1,2), of c] assms(3) by (auto simp: in_set_conv_nth)

lemma trie_new:
  "trie_ok newACBuilder [[]] (\<lambda>_. [])"
  by (auto simp: trie_ok_def newACBuilder_def prefix_closed_def nth_Cons')

lemma trie_child:
  assumes ok: "trie_ok b L out" and v: "v < length L"
  shows "\<exists>u b' L'. ac_child c (v, b) = (u, b') \<and> trie_ok b' L' out \<and> u < length L' \<and> L' ! u = L ! v @ [c]"
proof (cases "fmlookup (bd_next b ! v) c")
  case (Some n)
  then show ?thesis using trie_okD(8) [OF ok v, of c n] ok by (force simp: ac_child_def)
next
  case None
  note D = trie_okD [OF ok]
  define n where "n = length L"
  define nx where "nx = (bd_next b @ [fmempty])[v := fmupd c n (bd_next b ! v)]"
  define L' where "L' = L @ [L ! v @ [c]]"
  have new: "L ! v @ [c] \<notin> set L" using trie_no_edge [OF ok v None] .
  have eq: "ac_child c (v, b) = (n, \<lparr> bd_next = nx, bd_out = bd_out b @ [[]] \<rparr>)"
    using None D(1) by (simp add: ac_child_def n_def nx_def Let_def)
  have nxt: "fmlookup (nx ! w) d = Some u \<longleftrightarrow> u < length L' \<and> L' ! u = L' ! w @ [d]"
    if w: "w < length L'" for w d u
  proof -
    consider "w = v" | "w < n" "w \<noteq> v" | "w = n" using w by (force simp: L'_def n_def)
    then show ?thesis
    proof cases
      case 1
      then have "nx ! w = fmupd c n (bd_next b ! v)" using v D(1) by (simp add: nx_def)
      then show ?thesis using D(8) [OF v, of d u] 1 v new
        by (auto simp: L'_def nth_append n_def in_set_conv_nth less_Suc_eq split: if_splits)
    next
      case 2
      then have "nx ! w = bd_next b ! w" using D(1) by (simp add: nx_def nth_append n_def)
      moreover have "L ! v @ [c] \<noteq> L ! w @ [d]"
        using 2 v D(3) by (simp add: nth_eq_iff_index_eq n_def)
      ultimately show ?thesis using D(8) [of w d u] 2 v new
        by (auto simp: L'_def nth_append n_def less_Suc_eq)
    next
      case 3
      then have "nx ! w = fmempty" using v D(1) by (simp add: nx_def nth_append n_def)
      moreover have "(L ! v @ [c]) @ [d] \<notin> set L" using new D(6) unfolding prefix_closed_def by blast
      moreover have "L ! v @ [c] \<noteq> (L ! v @ [c]) @ [d]" by simp
      ultimately show ?thesis using 3
        by (auto simp: L'_def nth_append n_def less_Suc_eq in_set_conv_nth)
    qed
  qed
  have "trie_ok \<lparr> bd_next = nx, bd_out = bd_out b @ [[]] \<rparr> L' out"
    unfolding trie_ok_def
  proof (intro conjI)
    show "prefix_closed (set L')"
      using D(6) v by (auto simp: prefix_closed_def L'_def)
    show "\<forall>w<length L'. bd_out \<lparr> bd_next = nx, bd_out = bd_out b @ [[]] \<rparr> ! w = out (L' ! w)"
      using D(2,9) D(10) [OF new] by (auto simp: L'_def nth_append less_Suc_eq)
  qed (use D new nxt in \<open>auto simp: L'_def nx_def nth_append\<close>)
  then show ?thesis using eq v by (auto simp: L'_def n_def intro!: exI [of _ L'])
qed

lemma trie_walk:
  "trie_ok b L out \<Longrightarrow> v < length L \<Longrightarrow>
   \<exists>u b' L'. fold ac_child needle (v, b) = (u, b') \<and> trie_ok b' L' out \<and> u < length L' \<and> L' ! u = L ! v @ needle"
proof (induction needle arbitrary: v b L)
  case Nil
  then show ?case by auto
next
  case (Cons c needle)
  obtain u b' L' where 1: "ac_child c (v, b) = (u, b')" "trie_ok b' L' out" "u < length L'" "L' ! u = L ! v @ [c]"
    using trie_child [OF Cons.prems] by blast
  obtain u2 b2 L2 where "fold ac_child needle (u, b') = (u2, b2)" "trie_ok b2 L2 out" "u2 < length L2"
      "L2 ! u2 = L' ! u @ needle"
    using Cons.IH [OF 1(2,3)] by blast
  then show ?case using 1 by auto
qed

definition ids_of :: "(string \<times> nat) list \<Rightarrow> string \<Rightarrow> nat list" where
  "ids_of needles w = map snd (filter (\<lambda>p. fst p = w) needles)"

lemma trie_add:
  assumes "trie_ok b L (ids_of ns)"
  shows "\<exists>L'. trie_ok (ac_add needle i b) L' (ids_of (ns @ [(needle, i)]))"
proof -
  have v: "0 < length L" using trie_okD(4) [OF assms] .
  obtain u b' L' where 1: "fold ac_child needle (0, b) = (u, b')" "trie_ok b' L' (ids_of ns)" "u < length L'"
      "L' ! u = L ! 0 @ needle"
    using trie_walk [OF assms v] by blast
  note D = trie_okD [OF 1(2)]
  have lab: "L' ! u = needle" using 1(4) trie_okD(5) [OF assms] by simp
  have "trie_ok (b' \<lparr> bd_out := (bd_out b')[u := bd_out b' ! u @ [i]] \<rparr>) L' (ids_of (ns @ [(needle, i)]))"
    using D 1(3) lab
    by (auto simp: trie_ok_def ids_of_def nth_list_update nth_eq_iff_index_eq)
  then show ?thesis using 1(1) by (auto simp: ac_add_def)
qed

lemma trie_adds:
  "trie_ok b L (ids_of ns) \<Longrightarrow>
   \<exists>L'. trie_ok (fold (\<lambda>(needle, i). ac_add needle i) ms b) L' (ids_of (ns @ ms))"
proof (induction ms arbitrary: b L ns)
  case (Cons p ms)
  obtain needle i where p: "p = (needle, i)" by fastforce
  obtain L1 where "trie_ok (ac_add needle i b) L1 (ids_of (ns @ [(needle, i)]))"
    using trie_add [OF Cons.prems] by blast
  from Cons.IH [OF this] show ?case by (simp add: p)
qed auto

lemma trie_built: "\<exists>L. trie_ok (fold (\<lambda>(needle, i). ac_add needle i) ns newACBuilder) L (ids_of ns)"
proof -
  have "trie_ok newACBuilder [[]] (ids_of [])" using trie_new by (simp add: ids_of_def [abs_def])
  from trie_adds [OF this] show ?thesis by simp
qed

subsection \<open>The breadth-first traversal\<close>

fun visit_all :: "(nat \<Rightarrow> 's \<Rightarrow> 's option) \<Rightarrow> nat list \<Rightarrow> 's \<Rightarrow> 's option" where
  "visit_all visit [] s = Some s"
| "visit_all visit (v # vs) s = (case visit v s of None \<Rightarrow> None | Some s \<Rightarrow> visit_all visit vs s)"

lemma bfs_level:
  "bfs ch visit (xs @ ys) s =
     (case visit_all visit xs s of None \<Rightarrow> None | Some s \<Rightarrow> bfs ch visit (ys @ concat (map ch xs)) s)"
proof (induction xs arbitrary: ys s)
  case (Cons x xs)
  show ?case
    by (subst bfs.simps) (auto simp: Cons.IH split: option.splits)
qed simp

text \<open>A traversal by levels keeps an invariant indexed by the level.\<close>

lemma bfs_levels:
  assumes step: "\<And>k s. I k s \<Longrightarrow> k < K \<Longrightarrow> \<exists>s'. visit_all visit (lev k) s = Some s' \<and> I (Suc k) s'"
    and lev: "\<And>k. lev (Suc k) = concat (map ch (lev k))" "lev K = []" and start: "I 0 s"
  shows "\<exists>s'. bfs ch visit (lev 0) s = Some s' \<and> I K s'"
proof -
  have "\<exists>s'. bfs ch visit (lev 0) s = bfs ch visit (lev k) s' \<and> I k s'" if "k \<le> K" for k
    using that
  proof (induction k)
    case 0
    then show ?case using start by blast
  next
    case (Suc k)
    then obtain s1 where 1: "bfs ch visit (lev 0) s = bfs ch visit (lev k) s1" "I k s1" by auto
    obtain s2 where "visit_all visit (lev k) s1 = Some s2" "I (Suc k) s2"
      using step [OF 1(2)] Suc.prems by auto
    then show ?case using 1 bfs_level [of ch visit "lev k" "[]" s1] lev(1) by auto
  qed
  from this [of K] show ?thesis by (auto simp: lev(2) bfs.simps)
qed

lemma visit_all_rule:
  assumes start: "Q [] s"
    and step: "\<And>vs v s. set (vs @ [v]) \<subseteq> set xs \<Longrightarrow> Q vs s \<Longrightarrow> \<exists>s'. visit v s = Some s' \<and> Q (vs @ [v]) s'"
  shows "\<exists>s'. visit_all visit xs s = Some s' \<and> Q xs s'"
proof -
  have "\<exists>s'. visit_all visit ys s = Some s' \<and> Q (vs @ ys) s'" if "set (vs @ ys) \<subseteq> set xs" "Q vs s" for vs ys s
    using that
  proof (induction ys arbitrary: vs s)
    case (Cons y ys)
    then obtain s1 where "visit y s = Some s1" "Q (vs @ [y]) s1" using step [of vs y s] by auto
    then show ?case using Cons.IH [of "vs @ [y]" s1] Cons.prems by auto
  qed simp
  from this [of "[]" xs s] start show ?thesis by simp
qed

text \<open>The states at depth \<open>k + 1\<close>, as the traversal meets them.\<close>

fun level :: "(nat \<Rightarrow> nat list) \<Rightarrow> nat \<Rightarrow> nat list" where
  "level ch 0 = ch 0"
| "level ch (Suc k) = concat (map ch (level ch k))"

lemma set_transitions: "(c, u) \<in> set (transitions m) \<longleftrightarrow> fmlookup m c = Some u"
  by (force simp: transitions_def fmlookup_dom'_iff)

lemma set_children:
  assumes "trie_ok b L out" "v < length L"
  shows "set (children (bd_next b) v) = {u. u < length L \<and> (\<exists>c. L ! u = L ! v @ [c])}"
proof -
  have "u \<in> set (children (bd_next b) v) \<longleftrightarrow> (\<exists>c. (c, u) \<in> set (transitions (bd_next b ! v)))" for u
    by (force simp: children_def)
  then show ?thesis using trie_okD(8) [OF assms] by (auto simp: set_transitions)
qed

lemma trie_parent:
  assumes "trie_ok b L out" "u < length L" "u \<noteq> 0"
  shows "\<exists>v c. v < length L \<and> L ! u = L ! v @ [c]"
proof -
  have "L ! u \<noteq> []" using assms trie_label_0 by blast
  then obtain w c where w: "L ! u = w @ [c]" by (cases "L ! u" rule: rev_cases) auto
  then have "w \<in> set L" using trie_okD(6) [OF assms(1)] assms(2) nth_mem [of u L]
    unfolding prefix_closed_def by metis
  then show ?thesis using w by (auto simp: in_set_conv_nth)
qed

lemma set_level:
  assumes ok: "trie_ok b L out"
  shows "set (level (children (bd_next b)) k) = {v. v < length L \<and> length (L ! v) = Suc k}"
proof (induction k)
  case 0
  have "0 < length L" "L ! 0 = []" using trie_okD [OF ok] by auto
  then show ?case using set_children [OF ok, of 0] by (auto simp: length_Suc_conv)
next
  case (Suc k)
  have "u \<in> set (level (children (bd_next b)) (Suc k)) \<longleftrightarrow> u < length L \<and> length (L ! u) = Suc (Suc k)" for u
  proof
    assume "u \<in> set (level (children (bd_next b)) (Suc k))"
    then show "u < length L \<and> length (L ! u) = Suc (Suc k)"
      using Suc set_children [OF ok] by auto
  next
    assume u: "u < length L \<and> length (L ! u) = Suc (Suc k)"
    then have "u \<noteq> 0" using trie_okD(5) [OF ok] by (cases "u = 0") auto
    then obtain v c where v: "v < length L" "L ! u = L ! v @ [c]" using trie_parent [OF ok] u by blast
    then have "v \<in> set (level (children (bd_next b)) k)" using u Suc by auto
    then show "u \<in> set (level (children (bd_next b)) (Suc k))" using set_children [OF ok v(1)] v u by auto
  qed
  then show ?case by blast
qed

lemma level_empty:
  assumes "trie_ok b L out"
  shows "\<exists>K. level (children (bd_next b)) K = [] \<and> (\<forall>v<length L. length (L ! v) \<le> K)"
proof -
  define K where "K = Max (length ` set L)"
  have short: "length (L ! v) \<le> K" if "v < length L" for v using that by (simp add: K_def)
  have "set (level (children (bd_next b)) K) = {}"
    unfolding set_level [OF assms] using short by fastforce
  then have "level (children (bd_next b)) K = []" by simp
  then show ?thesis using short by blast
qed

subsection \<open>The failure links\<close>

text \<open>The failure link of a state leads to the longest proper suffix of its label.\<close>

definition fail_good :: "string list \<Rightarrow> nat list \<Rightarrow> nat \<Rightarrow> bool" where
  "fail_good L fail v \<longleftrightarrow> fail ! v < length L \<and> L ! (fail ! v) = lps (set L) (tl (L ! v))"

lemma fail_shorter: "fail_good L fail v \<Longrightarrow> L ! v \<noteq> [] \<Longrightarrow> length (L ! (fail ! v)) < length (L ! v)"
  using lps_length [of "set L" "tl (L ! v)"] by (cases "L ! v") (auto simp: fail_good_def)

lemma lps_fail_step:
  assumes "prefix_closed (set L)" "fail_good L fail v" "L ! v \<noteq> []" "L ! v @ [c] \<notin> set L"
  shows "lps (set L) (L ! v @ [c]) = lps (set L) (L ! (fail ! v) @ [c])"
proof -
  obtain a x where ax: "L ! v = a # x" using assms(3) by (cases "L ! v") auto
  then have "lps (set L) (L ! v @ [c]) = lps (set L) (x @ [c])" using assms(4) by auto
  also have "\<dots> = lps (set L) (lps (set L) x @ [c])" by (rule lps_snoc [OF assms(1)])
  also have "lps (set L) x = L ! (fail ! v)" using assms(2) ax by (simp add: fail_good_def)
  finally show ?thesis .
qed

lemma find_fail_good:
  assumes ok: "trie_ok b L out"
  shows "f < length L \<Longrightarrow> Suc (length (L ! f)) < length (L ! u) \<Longrightarrow>
    (\<And>w. w < length L \<Longrightarrow> w \<noteq> 0 \<Longrightarrow> length (L ! w) \<le> length (L ! f) \<Longrightarrow> fail_good L fail w) \<Longrightarrow>
    \<exists>g. find_fail (bd_next b) fail c u f = Some g \<and> g < length L \<and> L ! g = lps (set L) (L ! f @ [c])"
proof (induction "length (L ! f)" arbitrary: f rule: less_induct)
  case less
  note D = trie_okD [OF ok]
  show ?case
  proof (cases "fmlookup (bd_next b ! f) c")
    case (Some g)
    then have g: "g < length L" "L ! g = L ! f @ [c]" using D(8) [OF less.prems(1)] by auto
    then have "g \<noteq> u" using less.prems(2) by auto
    moreover have "lps (set L) (L ! f @ [c]) = L ! f @ [c]" using g by (metis lps_id nth_mem)
    ultimately show ?thesis using Some g by (subst find_fail.simps) simp
  next
    case None
    note no = trie_no_edge [OF ok less.prems(1) None]
    show ?thesis
    proof (cases "f = 0")
      case True
      then show ?thesis using None no D(4,5) by (subst find_fail.simps) simp
    next
      case False
      then have ne: "L ! f \<noteq> []" using trie_label_0 [OF ok less.prems(1)] by simp
      have good: "fail_good L fail f" using less.prems(1,3) False by simp
      note sh = fail_shorter [OF good ne]
      have "\<exists>g. find_fail (bd_next b) fail c u (fail ! f) = Some g \<and> g < length L \<and>
          L ! g = lps (set L) (L ! (fail ! f) @ [c])"
        using less.hyps [OF sh] less.prems sh good by (simp add: fail_good_def)
      then show ?thesis using lps_fail_step [OF D(6) good ne no] None False
        by (subst find_fail.simps) simp
    qed
  qed
qed

text \<open>All states above depth \<open>k + 1\<close> have their link, and so have the states in \<open>D\<close>.\<close>

definition fails_to :: "string list \<Rightarrow> nat \<Rightarrow> nat set \<Rightarrow> nat list \<Rightarrow> bool" where
  "fails_to L k D fail \<longleftrightarrow>
     length fail = length L \<and> (\<forall>w<length L. w \<noteq> 0 \<longrightarrow> length (L ! w) \<le> Suc k \<or> w \<in> D \<longrightarrow> fail_good L fail w)"

lemma link_children_good:
  assumes ok: "trie_ok b L out" and v: "v < length L" "length (L ! v) = Suc k"
  shows "set cs \<subseteq> set (transitions (bd_next b ! v)) \<Longrightarrow> fails_to L k D fail \<Longrightarrow>
    \<exists>fail'. link_children (bd_next b) v cs fail = Some fail' \<and> fails_to L k (D \<union> snd ` set cs) fail'"
proof (induction cs arbitrary: fail D)
  case (Cons e cs)
  obtain c u where e: "e = (c, u)" by fastforce
  have u: "u < length L" "L ! u = L ! v @ [c]"
    using Cons.prems(1) trie_okD(8) [OF ok v(1)] by (auto simp: e set_transitions)
  have v0: "v \<noteq> 0" "L ! v \<noteq> []" using v trie_okD(5) [OF ok] by (cases "v = 0"; auto)+
  have good: "fail_good L fail v" using Cons.prems(2) v v0 by (auto simp: fails_to_def)
  note sh = fail_shorter [OF good v0(2)]
  have "\<exists>g. find_fail (bd_next b) fail c u (fail ! v) = Some g \<and> g < length L \<and>
      L ! g = lps (set L) (L ! (fail ! v) @ [c])"
    using find_fail_good [OF ok, of "fail ! v" u fail c] good sh u v Cons.prems(2)
    by (auto simp: fail_good_def fails_to_def)
  then obtain g where g: "find_fail (bd_next b) fail c u (fail ! v) = Some g" "g < length L"
      "L ! g = lps (set L) (L ! (fail ! v) @ [c])" by blast
  have "L ! g = lps (set L) (tl (L ! u))"
    using g(3) good v0(2) u(2) lps_snoc [OF trie_okD(6) [OF ok], of "tl (L ! v)" c]
    by (simp add: fail_good_def)
  then have "fails_to L k (insert u D) (fail[u := g])"
    using Cons.prems(2) g(2) u(1) by (auto simp: fails_to_def fail_good_def nth_list_update)
  from Cons.IH [OF _ this] show ?case using Cons.prems(1) g(1) by (auto simp: e)
qed simp

lemma fails_to_level:
  assumes ok: "trie_ok b L out" and "fails_to L k (set (level (children (bd_next b)) (Suc k))) fail"
  shows "fails_to L (Suc k) {} fail"
  using assms(2) unfolding fails_to_def set_level [OF ok] by (auto simp: le_Suc_eq)

lemma fail_level:
  assumes ok: "trie_ok b L out" and I: "fails_to L k {} fail"
  shows "\<exists>fail'. visit_all (\<lambda>v. link_children (bd_next b) v (transitions (bd_next b ! v)))
      (level (children (bd_next b)) k) fail = Some fail' \<and> fails_to L (Suc k) {} fail'"
proof -
  let ?ch = "children (bd_next b)"
  let ?Q = "\<lambda>vs. fails_to L k (\<Union>v\<in>set vs. set (?ch v))"
  have "\<exists>fail'. visit_all (\<lambda>v. link_children (bd_next b) v (transitions (bd_next b ! v))) (level ?ch k) fail =
      Some fail' \<and> ?Q (level ?ch k) fail'"
  proof (rule visit_all_rule)
    fix vs v s
    assume sub: "set (vs @ [v]) \<subseteq> set (level ?ch k)" and Q: "?Q vs s"
    then have v: "v < length L" "length (L ! v) = Suc k" using set_level [OF ok] by auto
    show "\<exists>s'. link_children (bd_next b) v (transitions (bd_next b ! v)) s = Some s' \<and> ?Q (vs @ [v]) s'"
      using link_children_good [OF ok v order_refl Q] by (simp add: children_def Un_commute)
  qed (use I in simp)
  then show ?thesis using fails_to_level [OF ok] by auto
qed

lemma compile_fail_good:
  assumes ok: "trie_ok b L out"
  shows "\<exists>fail. compile_fail b = Some fail \<and> length fail = length L \<and>
    (\<forall>v<length L. v \<noteq> 0 \<longrightarrow> fail_good L fail v)"
proof -
  let ?ch = "children (bd_next b)"
  note D = trie_okD [OF ok]
  obtain K where K: "level ?ch K = []" "\<forall>v<length L. length (L ! v) \<le> K" using level_empty [OF ok] by blast
  have start: "fails_to L 0 {} (replicate (length (bd_next b)) 0)"
    using D(1,4,5) trie_label_0 [OF ok]
    by (auto simp: fails_to_def fail_good_def le_Suc_eq length_Suc_conv)
  have "\<exists>fail. bfs ?ch (\<lambda>v. link_children (bd_next b) v (transitions (bd_next b ! v))) (level ?ch 0)
      (replicate (length (bd_next b)) 0) = Some fail \<and> fails_to L K {} fail"
    using fail_level [OF ok] K(1) start
    by (intro bfs_levels [where I = "\<lambda>k. fails_to L k {}"]) auto
  then show ?thesis using K(2) by (auto simp: compile_fail_def fails_to_def le_SucI)
qed

subsection \<open>The dictionary links\<close>

text \<open>The ids on the states whose labels are suffixes of \<open>x\<close>, those with the longest labels first.\<close>

definition suffix_ids :: "string list \<Rightarrow> (string \<Rightarrow> nat list) \<Rightarrow> string \<Rightarrow> nat list" where
  "suffix_ids L out x = concat (map out (sufs (set L) x))"

lemma suffix_ids_lps: "suffix_ids L out (lps (set L) x) = suffix_ids L out x"
  by (simp add: suffix_ids_def sufs_lps)

lemma suffix_ids_label:
  "v < length L \<Longrightarrow> L ! v \<noteq> [] \<Longrightarrow> suffix_ids L out (L ! v) = out (L ! v) @ suffix_ids L out (tl (L ! v))"
  by (simp add: suffix_ids_def sufs_nonempty)

lemma suffix_ids_Nil [simp]: "suffix_ids L out [] = []"
  by (simp add: suffix_ids_def)

definition dict_good :: "string list \<Rightarrow> (string \<Rightarrow> nat list) \<Rightarrow> nat option list \<Rightarrow> nat \<Rightarrow> bool" where
  "dict_good L out dict v \<longleftrightarrow>
     (case dict ! v of
        None \<Rightarrow> suffix_ids L out (tl (L ! v)) = []
      | Some d \<Rightarrow> d < length L \<and> L ! d \<noteq> [] \<and> length (L ! d) < length (L ! v) \<and>
                  suffix_ids L out (tl (L ! v)) = suffix_ids L out (L ! d))"

definition dicts_to :: "string list \<Rightarrow> (string \<Rightarrow> nat list) \<Rightarrow> nat \<Rightarrow> nat set \<Rightarrow> nat option list \<Rightarrow> bool" where
  "dicts_to L out k D dict \<longleftrightarrow>
     length dict = length L \<and> dict ! 0 = None \<and>
     (\<forall>w<length L. w \<noteq> 0 \<longrightarrow> length (L ! w) \<le> k \<or> w \<in> D \<longrightarrow> dict_good L out dict w)"

lemma link_dict_good:
  assumes ok: "trie_ok b L out" and v: "v < length L" "length (L ! v) = Suc k" and nil: "out [] = []"
    and good: "fail_good L fail v" and I: "dicts_to L out k D dict"
  shows "\<exists>dict'. link_dict b fail v dict = Some dict' \<and> dicts_to L out k (insert v D) dict'"
proof -
  note T = trie_okD [OF ok]
  define f where "f = fail ! v"
  have v0: "v \<noteq> 0" "L ! v \<noteq> []" using v T(5) by (cases "v = 0"; auto)+
  have f: "f < length L" "L ! f = lps (set L) (tl (L ! v))" using good by (simp_all add: fail_good_def f_def)
  have sh: "length (L ! f) < length (L ! v)" using fail_shorter [OF good v0(2)] by (simp add: f_def)
  have ids: "suffix_ids L out (tl (L ! v)) = suffix_ids L out (L ! f)" using f(2) suffix_ids_lps by simp
  define d where "d = (if bd_out b ! f \<noteq> [] then Some f else dict ! f)"
  have "dict_good L out (dict[v := d]) v"
  proof (cases "bd_out b ! f = []")
    case False
    then have "L ! f \<noteq> []" using T(9) [OF f(1)] nil by auto
    then show ?thesis using False f(1) sh ids v(1) I by (simp add: dict_good_def d_def dicts_to_def)
  next
    case out: True
    show ?thesis
    proof (cases "f = 0")
      case True
      then show ?thesis using out v(1) I T(5) ids by (simp add: dict_good_def d_def dicts_to_def)
    next
      case False
      then have fne: "L ! f \<noteq> []" using trie_label_0 [OF ok f(1)] by simp
      have "dict_good L out dict f" using I False f(1) sh v(2) by (simp add: dicts_to_def)
      moreover have "suffix_ids L out (L ! f) = suffix_ids L out (tl (L ! f))"
        using suffix_ids_label [OF f(1) fne] out T(9) [OF f(1)] by simp
      ultimately show ?thesis using out v(1) I ids sh
        by (auto simp: dict_good_def d_def dicts_to_def split: option.splits)
    qed
  qed
  moreover have "dict_good L out (dict[v := d]) w = dict_good L out dict w" if "w \<noteq> v" for w
    using that by (simp add: dict_good_def)
  ultimately have "dict_good L out (dict[v := d]) w" if "w = v \<or> dict_good L out dict w" for w
    using that by (cases "w = v") auto
  then have "dicts_to L out k (insert v D) (dict[v := d])"
    using I v0(1) by (auto simp: dicts_to_def)
  then show ?thesis by (auto simp: link_dict_def d_def f_def Let_def)
qed

lemma dict_level:
  assumes ok: "trie_ok b L out" and nil: "out [] = []" and I: "dicts_to L out k {} dict"
    and fails: "\<forall>v<length L. v \<noteq> 0 \<longrightarrow> fail_good L fail v"
  shows "\<exists>dict'. visit_all (link_dict b fail) (level (children (bd_next b)) k) dict = Some dict' \<and>
      dicts_to L out (Suc k) {} dict'"
proof -
  let ?lev = "level (children (bd_next b)) k"
  have "\<exists>dict'. visit_all (link_dict b fail) ?lev dict = Some dict' \<and> dicts_to L out k (set ?lev) dict'"
  proof (rule visit_all_rule)
    fix vs v s
    assume sub: "set (vs @ [v]) \<subseteq> set ?lev" and Q: "dicts_to L out k (set vs) s"
    then have v: "v < length L" "length (L ! v) = Suc k" using set_level [OF ok] by auto
    moreover have "v \<noteq> 0" using v trie_okD(5) [OF ok] by (cases "v = 0") auto
    ultimately show "\<exists>s'. link_dict b fail v s = Some s' \<and> dicts_to L out k (set (vs @ [v])) s'"
      using link_dict_good [OF ok v nil _ Q] fails by simp
  qed (use I in simp)
  then show ?thesis unfolding set_level [OF ok] by (fastforce simp: dicts_to_def le_Suc_eq)
qed

lemma compile_dict_good:
  assumes ok: "trie_ok b L out" and nil: "out [] = []"
    and fails: "\<forall>v<length L. v \<noteq> 0 \<longrightarrow> fail_good L fail v"
  shows "\<exists>dict. compile_dict b fail = Some dict \<and> length dict = length L \<and>
    (\<forall>v<length L. v \<noteq> 0 \<longrightarrow> dict_good L out dict v)"
proof -
  let ?ch = "children (bd_next b)"
  note D = trie_okD [OF ok]
  obtain K where K: "level ?ch K = []" "\<forall>v<length L. length (L ! v) \<le> K" using level_empty [OF ok] by blast
  have start: "dicts_to L out 0 {} (replicate (length (bd_next b)) None)"
    using D(1,4) trie_label_0 [OF ok] by (auto simp: dicts_to_def)
  have "\<exists>dict. bfs ?ch (link_dict b fail) (level ?ch 0) (replicate (length (bd_next b)) None) = Some dict \<and>
      dicts_to L out K {} dict"
    using dict_level [OF ok nil _ fails] K(1) start
    by (intro bfs_levels [where I = "\<lambda>k. dicts_to L out k {}"]) auto
  then show ?thesis using K(2) by (auto simp: compile_dict_def dicts_to_def)
qed

subsection \<open>The search\<close>

definition matcher_ok :: "acBuilder \<Rightarrow> string list \<Rightarrow> (string \<Rightarrow> nat list) \<Rightarrow> acMatcher \<Rightarrow> bool" where
  "matcher_ok b L out m \<longleftrightarrow>
     trie_ok b L out \<and> length (mt_nodes m) = length L \<and> mt_root m = fmget 0 (bd_next b ! 0) \<and>
     (\<forall>v<length L. edge (mt_nodes m ! v) = fmlookup (bd_next b ! v) \<and> nd_out (mt_nodes m ! v) = out (L ! v)) \<and>
     (\<forall>v<length L. v \<noteq> 0 \<longrightarrow>
        fail_good L (map nd_fail (mt_nodes m)) v \<and> dict_good L out (map nd_dict (mt_nodes m)) v)"

lemma map_of_transitions: "map_of (transitions m) c = fmlookup m c"
proof (cases "c \<in> set (fmkeys m)")
  case True
  then obtain u where "fmlookup m c = Some u" unfolding fmkeys_mem by blast
  then show ?thesis using True
    unfolding transitions_def map_of_map_restrict restrict_map_def by (simp del: set_fmkeys)
next
  case False
  then have "fmlookup m c = None" unfolding fmkeys_mem by blast
  then show ?thesis using False
    unfolding transitions_def map_of_map_restrict restrict_map_def by (simp del: set_fmkeys)
qed

lemma ac_compile_good:
  assumes ok: "trie_ok b L out" and nil: "out [] = []"
  shows "\<exists>m. ac_compile b = Some m \<and> matcher_ok b L out m"
proof -
  obtain fail where fail: "compile_fail b = Some fail" "length fail = length L"
      "\<forall>v<length L. v \<noteq> 0 \<longrightarrow> fail_good L fail v" using compile_fail_good [OF ok] by blast
  obtain dict where dict: "compile_dict b fail = Some dict" "length dict = length L"
      "\<forall>v<length L. v \<noteq> 0 \<longrightarrow> dict_good L out dict v" using compile_dict_good [OF ok nil fail(3)] by blast
  let ?nodes = "map (\<lambda>v. \<lparr> nd_edges = transitions (bd_next b ! v), nd_fail = fail ! v, nd_out = bd_out b ! v,
      nd_dict = dict ! v \<rparr>) [0..<length (bd_next b)]"
  have "map nd_fail ?nodes = fail" "map nd_dict ?nodes = dict"
    unfolding trie_okD(1) [OF ok] using fail(2) dict(2) by (auto intro!: nth_equalityI)
  note maps = this
  define m where "m = \<lparr> mt_nodes = ?nodes, mt_root = (\<lambda>c. fmget 0 (bd_next b ! 0) c) \<rparr>"
  have nodes: "mt_nodes m = ?nodes" "mt_root m = fmget 0 (bd_next b ! 0)" by (simp_all add: m_def)
  have "matcher_ok b L out m"
    unfolding matcher_ok_def nodes maps
  proof (intro conjI)
    show "\<forall>v<length L. edge (?nodes ! v) = fmlookup (bd_next b ! v) \<and> nd_out (?nodes ! v) = out (L ! v)"
      using trie_okD(1,9) [OF ok] by (auto simp: edge_def map_of_transitions)
  qed (use ok fail(3) dict(3) trie_okD(1) [OF ok] in auto)
  then show ?thesis using fail(1) dict(1) by (simp add: ac_compile_def m_def)
qed

lemma advance_good:
  assumes ok: "matcher_ok b L out m"
  shows "v < length L \<Longrightarrow> \<exists>u. advance m c v = Some u \<and> u < length L \<and> L ! u = lps (set L) (L ! v @ [c])"
proof (induction "length (L ! v)" arbitrary: v rule: less_induct)
  case less
  have trie: "trie_ok b L out" using ok by (simp add: matcher_ok_def)
  note D = trie_okD [OF trie]
  have some: ?case if nx: "fmlookup (bd_next b ! v) c = Some g" "advance m c v = Some g" for g
  proof -
    have "g < length L" "L ! g = L ! v @ [c]" using nx(1) D(8) [OF less.prems] by auto
    then show ?thesis using nx(2) by (metis lps_id nth_mem)
  qed
  show ?case
  proof (cases "fmlookup (bd_next b ! v) c")
    case (Some g)
    have "advance m c v = Some g"
      using Some ok less.prems by (subst advance.simps) (auto simp: matcher_ok_def)
    then show ?thesis using some Some by blast
  next
    case None
    note no = trie_no_edge [OF trie less.prems None]
    show ?thesis
    proof (cases "v = 0")
      case True
      have "advance m c v = Some 0" using True None ok by (subst advance.simps) (simp add: matcher_ok_def)
      then show ?thesis using True no D(4,5) by simp
    next
      case False
      then have ne: "L ! v \<noteq> []" using trie_label_0 [OF trie less.prems] by simp
      have good: "fail_good L (map nd_fail (mt_nodes m)) v" using ok less.prems False by (simp add: matcher_ok_def)
      have fl: "map nd_fail (mt_nodes m) ! v = nd_fail (mt_nodes m ! v)"
        using ok less.prems by (simp add: matcher_ok_def)
      have adv: "advance m c v = advance m c (nd_fail (mt_nodes m ! v))"
        using False None ok less.prems by (subst advance.simps) (simp add: matcher_ok_def)
      have "nd_fail (mt_nodes m ! v) < length L" using good fl by (simp add: fail_good_def)
      with less.hyps [OF fail_shorter [OF good ne]] fl show ?thesis
        using lps_fail_step [OF D(6) good ne no] adv by simp
    qed
  qed
qed

lemma dict_ids_good:
  assumes ok: "matcher_ok b L out m"
  shows "v < length L \<Longrightarrow> v \<noteq> 0 \<Longrightarrow>
    dict_ids m (nd_dict (mt_nodes m ! v)) = Some (suffix_ids L out (tl (L ! v)))"
proof (induction "length (L ! v)" arbitrary: v rule: less_induct)
  case less
  have len: "length (mt_nodes m) = length L" using ok by (simp add: matcher_ok_def)
  have good: "dict_good L out (map nd_dict (mt_nodes m)) v" using ok less.prems by (simp add: matcher_ok_def)
  show ?case
  proof (cases "nd_dict (mt_nodes m ! v)")
    case None
    then show ?thesis using good less.prems len by (subst dict_ids.simps) (simp add: dict_good_def)
  next
    case (Some d)
    then have d: "d < length L" "L ! d \<noteq> []" "length (L ! d) < length (L ! v)"
        "suffix_ids L out (tl (L ! v)) = suffix_ids L out (L ! d)"
      using good less.prems len by (simp_all add: dict_good_def)
    have "trie_ok b L out" using ok by (simp add: matcher_ok_def)
    then have d0: "d \<noteq> 0" using d(2) trie_okD(5) by metis
    have "nd_out (mt_nodes m ! d) = out (L ! d)" using ok d(1) by (simp add: matcher_ok_def)
    then show ?thesis using Some d(4) less.hyps [OF d(3,1) d0] suffix_ids_label [OF d(1,2)]
      by (subst dict_ids.simps) simp
  qed
qed

lemma search_from_good:
  assumes ok: "matcher_ok b L out m"
  shows "v < length L \<Longrightarrow> L ! v = lps (set L) seen \<Longrightarrow>
    search_from m v (length seen) body =
      Some (concat (map (\<lambda>e. map (\<lambda>i. (i, e)) (suffix_ids L out (take e (seen @ body))))
        [Suc (length seen)..<Suc (length seen + length body)]))"
proof (induction body arbitrary: v seen)
  case (Cons c body)
  have trie: "trie_ok b L out" using ok by (simp add: matcher_ok_def)
  note D = trie_okD [OF trie]
  obtain u where u: "advance m c v = Some u" "u < length L" "L ! u = lps (set L) (L ! v @ [c])"
    using advance_good [OF ok Cons.prems(1)] by blast
  have lab: "L ! u = lps (set L) (seen @ [c])"
    using u(3) Cons.prems(2) lps_snoc [OF D(6), of seen c] by simp
  have ids: "suffix_ids L out (L ! u) = suffix_ids L out (seen @ [c])" using lab suffix_ids_lps by metis
  note IH = Cons.IH [OF u(2) lab]
  have range: "[Suc (length seen)..<Suc (length seen + length (c # body))] =
      Suc (length seen) # [Suc (Suc (length seen))..<Suc (length (seen @ [c]) + length body)]"
    by (simp add: upt_conv_Cons del: upt_Suc)
  show ?case
  proof (cases "u = 0")
    case True
    then have "suffix_ids L out (seen @ [c]) = []" using ids D(5) by simp
    then show ?thesis using u(1) True IH unfolding range by simp
  next
    case False
    then have "L ! u \<noteq> []" using trie_label_0 [OF trie u(2)] by simp
    then have "out (L ! u) @ suffix_ids L out (tl (L ! u)) = suffix_ids L out (seen @ [c])"
      using suffix_ids_label [OF u(2)] ids by simp
    moreover have "nd_out (mt_nodes m ! u) = out (L ! u)" using ok u(2) by (simp add: matcher_ok_def)
    ultimately show ?thesis using u(1) False IH dict_ids_good [OF ok u(2) False] unfolding range by simp
  qed
qed simp

subsection \<open>The reference: every needle searched for on its own\<close>

fun tails :: "string \<Rightarrow> string list" where
  "tails [] = []"
| "tails (a # x) = (a # x) # tails x"

text \<open>
  All occurrences \<open>(id, end)\<close>, by end offset, those of the longer needles first, and for equal
  needles in the order they were added.
\<close>

definition naive_search :: "(string \<times> nat) list \<Rightarrow> string \<Rightarrow> (nat \<times> nat) list" where
  "naive_search needles body =
     concat (map (\<lambda>e. map (\<lambda>i. (i, e)) (concat (map (ids_of needles) (tails (take e body)))))
       [1..<Suc (length body)])"

lemma suffix_ids_tails:
  assumes "\<And>w. w \<notin> set L \<Longrightarrow> out w = []"
  shows "suffix_ids L out x = concat (map out (tails x))"
  by (induction x) (auto simp: suffix_ids_def assms)

lemma set_tails: "set (tails x) = {y. y \<noteq> [] \<and> suffix y x}"
  by (induction x) (auto simp: suffix_Cons)

theorem ac_search_naive:
  assumes "\<forall>p\<in>set needles. fst p \<noteq> []"
  shows "\<exists>m. ac_build needles = Some m \<and> ac_search m body = Some (naive_search needles body)"
proof -
  obtain L where L: "trie_ok (fold (\<lambda>(needle, i). ac_add needle i) needles newACBuilder) L (ids_of needles)"
    using trie_built by blast
  have "ids_of needles [] = []" using assms by (auto simp: ids_of_def filter_empty_conv)
  from ac_compile_good [OF L this] obtain m where
    m: "ac_build needles = Some m" "matcher_ok (fold (\<lambda>(needle, i). ac_add needle i) needles newACBuilder) L (ids_of needles) m"
    by (auto simp: ac_build_def)
  note D = trie_okD [OF L]
  have "ac_search m body = Some (naive_search needles body)"
    using search_from_good [OF m(2), of 0 "[]" body] D(4,5)
    by (simp add: ac_search_def naive_search_def suffix_ids_tails [OF D(10)])
  then show ?thesis using m(1) by blast
qed

lemma tagged_iff: "(i, e) \<in> set (concat (map (\<lambda>e. map (\<lambda>i. (i, e)) (f e)) es)) \<longleftrightarrow> e \<in> set es \<and> i \<in> set (f e)"
  by auto

lemma naive_search_iff:
  "(i, e) \<in> set (naive_search needles body) \<longleftrightarrow>
     (\<exists>needle. (needle, i) \<in> set needles \<and> needle \<noteq> [] \<and> e \<le> length body \<and> suffix needle (take e body))"
  (is "?l \<longleftrightarrow> ?r")
proof -
  have "?l \<longleftrightarrow> 0 < e \<and> e \<le> length body \<and> (\<exists>w. w \<noteq> [] \<and> suffix w (take e body) \<and> (w, i) \<in> set needles)"
  proof -
    have "?l \<longleftrightarrow> e \<in> {1..<Suc (length body)} \<and> i \<in> set (concat (map (ids_of needles) (tails (take e body))))"
      unfolding naive_search_def by (simp only: tagged_iff set_upt)
    also have "\<dots> \<longleftrightarrow> 0 < e \<and> e \<le> length body \<and> (\<exists>w. w \<noteq> [] \<and> suffix w (take e body) \<and> (w, i) \<in> set needles)"
      by (force simp: set_tails ids_of_def)
    finally show ?thesis .
  qed
  also have "\<dots> \<longleftrightarrow> ?r" by (cases "e = 0") auto
  finally show ?thesis .
qed

lemma naive_search_sorted: "sorted (map snd (naive_search needles body))"
proof -
  have "sorted (map snd (concat (map (\<lambda>e. map (\<lambda>i. (i, e)) (f e)) es)))" if "sorted es" for f :: "nat \<Rightarrow> nat list" and es
    using that by (induction es) (auto simp: sorted_append o_def map_replicate_const)
  then show ?thesis by (simp add: naive_search_def del: upt_Suc)
qed

lemma distinct_tails: "distinct (tails x)"
  by (induction x) (auto simp: set_tails dest: suffix_length_le)

lemma naive_search_distinct:
  assumes "distinct (map snd needles)"
  shows "distinct (naive_search needles body)"
proof -
  have tagged: "distinct (concat (map (\<lambda>e. map (\<lambda>i. (i, e)) (f e)) es))"
    if "distinct es" "\<And>e. distinct (f e)" for f :: "nat \<Rightarrow> nat list" and es
    using that by (induction es) (auto simp: distinct_map inj_on_def)
  have one: "w = w'" if "i \<in> set (ids_of needles w)" "i \<in> set (ids_of needles w')" for i w w'
    using that assms by (auto simp: ids_of_def distinct_map dest: inj_onD)
  have "distinct (concat (map (ids_of needles) ws))" if "distinct ws" for ws
    using that
  proof (induction ws)
    case (Cons w ws)
    have 1: "distinct (ids_of needles w)" using assms by (simp add: ids_of_def distinct_map_filter)
    have 2: "set (ids_of needles w) \<inter> set (ids_of needles w') = {}" if "w' \<in> set ws" for w'
      using that Cons.prems one [of _ w w'] by auto
    have "distinct (concat (map (ids_of needles) ws))" using Cons by simp
    then show ?case using 1 2 by auto
  qed simp
  then show ?thesis unfolding naive_search_def by (intro tagged) (auto simp: distinct_tails)
qed

subsection \<open>The contract of a multi-pattern search\<close>

text \<open>
  What the scanner needs of its prefilter: it can be built over non-empty needles, and a search with it
  reports what the reference reports.
\<close>

locale multi_search =
  fixes build :: "(string \<times> nat) list \<Rightarrow> 'm option"
    and search :: "'m \<Rightarrow> string \<Rightarrow> (nat \<times> nat) list option"
  assumes finds: "\<forall>p\<in>set needles. fst p \<noteq> [] \<Longrightarrow>
    \<exists>m. build needles = Some m \<and> search m body = Some (naive_search needles body)"
begin

lemma total: "\<forall>p\<in>set needles. fst p \<noteq> [] \<Longrightarrow> \<exists>m. build needles = Some m"
  using finds by blast

lemma search_eq:
  "build needles = Some m \<Longrightarrow> \<forall>p\<in>set needles. fst p \<noteq> [] \<Longrightarrow> search m body = Some (naive_search needles body)"
  using finds by force

lemma hit_iff:
  assumes "build needles = Some m" "\<forall>p\<in>set needles. fst p \<noteq> []" "search m body = Some hits"
  shows "(i, e) \<in> set hits \<longleftrightarrow>
    (\<exists>needle. (needle, i) \<in> set needles \<and> e \<le> length body \<and> suffix needle (take e body))"
  using assms search_eq [OF assms(1,2)] by (fastforce simp: naive_search_iff)

lemma found_iff:
  assumes "build needles = Some m" "\<forall>p\<in>set needles. fst p \<noteq> []" "search m body = Some hits"
  shows "i \<in> fst ` set hits \<longleftrightarrow> (\<exists>needle. (needle, i) \<in> set needles \<and> sublist needle body)"
proof -
  have sub: "sublist w body \<longleftrightarrow> (\<exists>e\<le>length body. suffix w (take e body))" for w
  proof
    assume "sublist w body"
    then obtain xs ys where "body = xs @ w @ ys" by (auto simp: sublist_def)
    then show "\<exists>e\<le>length body. suffix w (take e body)"
      by (intro exI [of _ "length (xs @ w)"]) (auto simp: suffix_def)
  next
    assume "\<exists>e\<le>length body. suffix w (take e body)"
    then obtain e zs where "take e body = zs @ w" by (auto simp: suffix_def)
    then have "body = zs @ w @ drop e body" by (metis append.assoc append_take_drop_id)
    then show "sublist w body" unfolding sublist_def by blast
  qed
  have "i \<in> fst ` set hits \<longleftrightarrow> (\<exists>e. (i, e) \<in> set hits)" by force
  also have "\<dots> \<longleftrightarrow> (\<exists>needle. (needle, i) \<in> set needles \<and> (\<exists>e\<le>length body. suffix needle (take e body)))"
    unfolding hit_iff [OF assms] by blast
  finally show ?thesis unfolding sub .
qed

end

interpretation ac: multi_search ac_build ac_search
  by unfold_locales (rule ac_search_naive)

text \<open>
  C12. The prefilter is exact: over any list of non-empty needles the automaton can be built and its
  search ends, it reports a pair of an id and an end offset exactly if a needle with this id ends
  there, the pairs come in the order of their end offsets, and with distinct ids none comes twice.
\<close>

theorem ac_search_exact:
  assumes "\<forall>p\<in>set needles. fst p \<noteq> []"
  shows "\<exists>m hits. ac_build needles = Some m \<and> ac_search m body = Some hits \<and>
    (\<forall>i e. (i, e) \<in> set hits \<longleftrightarrow>
      (\<exists>needle. (needle, i) \<in> set needles \<and> e \<le> length body \<and> suffix needle (take e body))) \<and>
    sorted (map snd hits) \<and> (distinct (map snd needles) \<longrightarrow> distinct hits)"
proof -
  obtain m where m: "ac_build needles = Some m" "ac_search m body = Some (naive_search needles body)"
    using ac_search_naive [OF assms] by blast
  show ?thesis
    using m ac.hit_iff [OF m(1) assms m(2)] naive_search_sorted naive_search_distinct by blast
qed

lemma ac_search_exact_witness:
  "\<exists>m hits. ac_build [(''he'', 0), (''she'', 1), (''hers'', 2)] = Some m \<and> ac_search m ''ushers'' = Some hits \<and>
    (1, 4) \<in> set hits \<and> (0, 4) \<in> set hits \<and> (2, 6) \<in> set hits \<and> (0, 6) \<notin> set hits"
proof -
  have "\<forall>p\<in>set [(''he'', 0), (''she'', 1), (''hers'', 2 :: nat)]. fst p \<noteq> []" by simp
  from ac_search_exact [OF this, of "''ushers''"] obtain m hits where
    m: "ac_build [(''he'', 0), (''she'', 1), (''hers'', 2)] = Some m" "ac_search m ''ushers'' = Some hits" and
    i: "\<And>i e. (i, e) \<in> set hits \<longleftrightarrow> (\<exists>needle. (needle, i) \<in> set [(''he'', 0), (''she'', 1), (''hers'', 2)] \<and>
      e \<le> length ''ushers'' \<and> suffix needle (take e ''ushers''))" by blast
  have "(1, 4) \<in> set hits" "(0, 4) \<in> set hits" "(2, 6) \<in> set hits" "(0, 6) \<notin> set hits"
    unfolding i by (auto simp: suffix_def)
  then show ?thesis using m by blast
qed

end
