(* ===== verification/Guard_Codec.thy ===== *)
theory Guard_Codec
  imports Prelude
begin

text \<open>
  The encodings the guard looks through: base64 in its two alphabets with and without padding,
  hexadecimal and the query escaping of \<open>net/url\<close> (standard-library functions, on bytes), the encoded
  variants of a secret and of a rule literal, and the bounded decoding of a token span
  (\<open>internal/guard/scanner.go\<close>).
\<close>

subsection \<open>Base64, hexadecimal and query escaping\<close>

definition b64_std :: string where
  "b64_std = ''ABCDEFGHIJKLMNOPQRSTUVWXYZabcdefghijklmnopqrstuvwxyz0123456789+/''"

definition b64_url :: string where
  "b64_url = ''ABCDEFGHIJKLMNOPQRSTUVWXYZabcdefghijklmnopqrstuvwxyz0123456789-_''"

record Encoding =
  enc_alphabet :: string
  enc_pad :: bool

definition StdEncoding :: Encoding where
  "StdEncoding = \<lparr> enc_alphabet = b64_std, enc_pad = True \<rparr>"

definition RawStdEncoding :: Encoding where
  "RawStdEncoding = \<lparr> enc_alphabet = b64_std, enc_pad = False \<rparr>"

definition URLEncoding :: Encoding where
  "URLEncoding = \<lparr> enc_alphabet = b64_url, enc_pad = True \<rparr>"

definition RawURLEncoding :: Encoding where
  "RawURLEncoding = \<lparr> enc_alphabet = b64_url, enc_pad = False \<rparr>"

abbreviation byte :: "char \<Rightarrow> nat" where
  "byte c \<equiv> of_char c"

fun EncodeToString :: "Encoding \<Rightarrow> string \<Rightarrow> string" where
  "EncodeToString enc [] = []"
| "EncodeToString enc [a] =
     [enc_alphabet enc ! (byte a div 4), enc_alphabet enc ! (byte a mod 4 * 16)] @ (if enc_pad enc then ''=='' else [])"
| "EncodeToString enc [a, b] =
     [enc_alphabet enc ! (byte a div 4), enc_alphabet enc ! (byte a mod 4 * 16 + byte b div 16),
      enc_alphabet enc ! (byte b mod 16 * 4)] @ (if enc_pad enc then ''='' else [])"
| "EncodeToString enc (a # b # c # r) =
     [enc_alphabet enc ! (byte a div 4), enc_alphabet enc ! (byte a mod 4 * 16 + byte b div 16),
      enc_alphabet enc ! (byte b mod 16 * 4 + byte c div 64), enc_alphabet enc ! (byte c mod 64)] @ EncodeToString enc r"

fun position :: "string \<Rightarrow> char \<Rightarrow> nat option" where
  "position [] c = None"
| "position (a # alphabet) c = (if a = c then Some 0 else map_option Suc (position alphabet c))"

text \<open>
  The decoder of an encoding without padding: line breaks are skipped, a byte outside the alphabet is
  an error and so is a last group of one; left-over bits are not checked.
\<close>

fun decode_digits :: "nat list \<Rightarrow> string option" where
  "decode_digits [] = Some []"
| "decode_digits [p] = None"
| "decode_digits [p, q] = Some [char_of (p * 4 + q div 16)]"
| "decode_digits [p, q, r] = Some [char_of (p * 4 + q div 16), char_of (q mod 16 * 16 + r div 4)]"
| "decode_digits (p # q # r # s # ds) =
     (case decode_digits ds of
        None \<Rightarrow> None
      | Some out \<Rightarrow>
          Some ([char_of (p * 4 + q div 16), char_of (q mod 16 * 16 + r div 4), char_of (r mod 4 * 64 + s)] @ out))"

definition DecodeString :: "Encoding \<Rightarrow> string \<Rightarrow> string option" where
  "DecodeString enc s =
     (let ps = map (position (enc_alphabet enc)) (filter (\<lambda>c. c \<noteq> CHR 0x0D \<and> c \<noteq> CHR 0x0A) s)
      in if None \<in> set ps then None else decode_digits (map the ps))"

definition hex_digits :: string where
  "hex_digits = ''0123456789abcdef''"

definition hex_upper :: string where
  "hex_upper = ''0123456789ABCDEF''"

definition hex_EncodeToString :: "string \<Rightarrow> string" where
  "hex_EncodeToString s = concat (map (\<lambda>c. [hex_digits ! (byte c div 16), hex_digits ! (byte c mod 16)]) s)"

definition fromHexChar :: "char \<Rightarrow> nat option" where
  "fromHexChar c = (case position hex_digits c of Some d \<Rightarrow> Some d | None \<Rightarrow> position hex_upper c)"

fun hex_DecodeString :: "string \<Rightarrow> string option" where
  "hex_DecodeString [] = Some []"
| "hex_DecodeString [c] = None"
| "hex_DecodeString (c # d # r) =
     (case (fromHexChar c, fromHexChar d, hex_DecodeString r) of
        (Some h, Some l, Some out) \<Rightarrow> Some (char_of (h * 16 + l) # out)
      | _ \<Rightarrow> None)"

definition is_lower :: "char \<Rightarrow> bool" where
  "is_lower c \<longleftrightarrow> 97 \<le> byte c \<and> byte c \<le> 122"

definition is_upper :: "char \<Rightarrow> bool" where
  "is_upper c \<longleftrightarrow> 65 \<le> byte c \<and> byte c \<le> 90"

definition is_digit :: "char \<Rightarrow> bool" where
  "is_digit c \<longleftrightarrow> 48 \<le> byte c \<and> byte c \<le> 57"

definition QueryEscape :: "string \<Rightarrow> string" where
  "QueryEscape s = concat (map (\<lambda>c.
     if is_lower c \<or> is_upper c \<or> is_digit c \<or> c \<in> set ''-_.~'' then [c]
     else if c = CHR '' '' then ''+''
     else [CHR ''%'', hex_upper ! (byte c div 16), hex_upper ! (byte c mod 16)]) s)"

subsection \<open>Variants of secrets and literals\<close>

record knownSecretSet =
  ks_raw :: string
  ks_rawID :: nat
  ks_encoded :: "string list"
  ks_encodedIDs :: "nat list"

definition add_variant :: "string \<Rightarrow> string set \<times> string list \<Rightarrow> string set \<times> string list" where
  "add_variant v se = (let (seen, encoded) = se in if v \<notin> seen then (insert v seen, encoded @ [v]) else (seen, encoded))"

definition buildSecretSet :: "string \<Rightarrow> bool \<Rightarrow> knownSecretSet" where
  "buildSecretSet secret dec =
     \<lparr> ks_raw = secret, ks_rawID = 0,
       ks_encoded =
         (if \<not> dec then []
          else snd (fold add_variant
            (map (\<lambda>enc. EncodeToString enc secret) [StdEncoding, RawStdEncoding, URLEncoding, RawURLEncoding] @
              [hex_EncodeToString secret, QueryEscape secret])
            ({secret}, []))),
       ks_encodedIDs = [] \<rparr>"

definition b64Interior :: "Encoding \<Rightarrow> string \<Rightarrow> nat \<Rightarrow> string" where
  "b64Interior enc lit align =
     (let full = EncodeToString enc (replicate align (CHR 0x00) @ lit);
          start = (8 * align + 5) div 6;
          stop = (8 * align + 8 * length lit) div 6
      in if int stop - int start < 3 then [] else take (stop - start) (drop start full))"

record encodedProbe =
  pr_ruleIdxs :: "nat list"
  pr_variant :: string
  pr_hexForm :: bool

text \<open>A variant belongs to one probe, which collects the rules that have it.\<close>

definition add_probe :: "string \<times> bool \<times> nat \<Rightarrow> (string \<rightharpoonup> nat) \<times> encodedProbe list \<Rightarrow> (string \<rightharpoonup> nat) \<times> encodedProbe list" where
  "add_probe p op =
     (let (variant, hexForm, ruleIdx) = p; (owner, probes) = op
      in case owner variant of
           Some i \<Rightarrow>
             if ruleIdx \<in> set (pr_ruleIdxs (probes ! i)) then (owner, probes)
             else (owner, probes[i := (probes ! i)\<lparr> pr_ruleIdxs := pr_ruleIdxs (probes ! i) @ [ruleIdx] \<rparr>])
         | None \<Rightarrow>
             (owner(variant \<mapsto> length probes),
              probes @ [\<lparr> pr_ruleIdxs = [ruleIdx], pr_variant = variant, pr_hexForm = hexForm \<rparr>]))"

definition literal_variants :: "nat \<Rightarrow> string \<Rightarrow> (string \<times> bool \<times> nat) list" where
  "literal_variants i lit =
     map (\<lambda>v. (v, False, i))
       (filter (\<lambda>v. v \<noteq> [])
         (concat (map (\<lambda>enc. map (b64Interior enc lit) [0..<3]) [RawStdEncoding, RawURLEncoding]))) @
     [(hex_EncodeToString lit, True, i)]"

text \<open>\<open>buildProbes\<close>, from the literals of the rules in table order.\<close>

definition buildProbes :: "string list list \<Rightarrow> encodedProbe list" where
  "buildProbes rules =
     snd (fold add_probe (concat (map (\<lambda>(i, literals). concat (map (literal_variants i) literals)) (enumerate 0 rules)))
       (Map.empty, []))"

subsection \<open>Decoding a token span\<close>

definition isB64TokenByte :: "char \<Rightarrow> bool" where
  "isB64TokenByte c \<longleftrightarrow> is_lower c \<or> is_upper c \<or> is_digit c \<or> c \<in> set ''+/=_-''"

definition isHexTokenByte :: "char \<Rightarrow> bool" where
  "isHexTokenByte c \<longleftrightarrow> is_digit c \<or> (97 \<le> byte c \<and> byte c \<le> 102) \<or> (65 \<le> byte c \<and> byte c \<le> 70)"

definition maxEncodedSpan :: nat where
  "maxEncodedSpan = 8 * 2 ^ 10"

fun expand_left :: "string \<Rightarrow> (char \<Rightarrow> bool) \<Rightarrow> nat \<Rightarrow> nat \<Rightarrow> nat" where
  "expand_left body tok stop 0 = 0"
| "expand_left body tok stop (Suc start) =
     (if stop - Suc start < maxEncodedSpan \<and> tok (body ! start) then expand_left body tok stop start else Suc start)"

function expand_right :: "string \<Rightarrow> (char \<Rightarrow> bool) \<Rightarrow> nat \<Rightarrow> nat \<Rightarrow> nat" where
  "expand_right body tok start stop =
     (if stop < length body \<and> stop - start < maxEncodedSpan \<and> tok (body ! stop)
      then expand_right body tok start (Suc stop) else stop)"
  by pat_completeness auto
termination by (relation "measure (\<lambda>(body, tok, start, stop). length body - stop)") auto

declare expand_right.simps [simp del]

definition expandSpan :: "string \<Rightarrow> nat \<Rightarrow> nat \<Rightarrow> (char \<Rightarrow> bool) \<Rightarrow> nat \<times> nat" where
  "expandSpan body start stop tok =
     (let start = expand_left body tok stop start in (start, expand_right body tok start stop))"

definition decodeB64Span :: "string \<Rightarrow> string option" where
  "decodeB64Span sp =
     (let s = rev (dropWhile (\<lambda>c. c = CHR ''='') (rev sp))
      in if s = [] \<or> CHR ''='' \<in> set s then None
         else
           (let encs = (if CHR ''-'' \<in> set s \<or> CHR ''_'' \<in> set s then [RawURLEncoding, RawStdEncoding]
                        else [RawStdEncoding, RawURLEncoding])
            in case DecodeString (encs ! 0) s of
                 Some out \<Rightarrow> Some out
               | None \<Rightarrow> DecodeString (encs ! 1) s))"

definition decodeHexSpan :: "string \<Rightarrow> string option" where
  "decodeHexSpan sp =
     (if length sp = 0 \<or> length sp mod 2 \<noteq> 0 then None else hex_DecodeString sp)"

subsection \<open>Lemmas\<close>

lemma EncodeToString_nonempty: "s \<noteq> [] \<Longrightarrow> EncodeToString enc s \<noteq> []"
  by (cases "(enc, s)" rule: EncodeToString.cases) auto

lemma hex_EncodeToString_nonempty: "s \<noteq> [] \<Longrightarrow> hex_EncodeToString s \<noteq> []"
  by (cases s) (auto simp: hex_EncodeToString_def)

lemma QueryEscape_nonempty: "s \<noteq> [] \<Longrightarrow> QueryEscape s \<noteq> []"
  by (cases s) (auto simp: QueryEscape_def)

lemma set_add_variants:
  "set (snd (fold add_variant vs (seen, encoded))) = set encoded \<union> (set vs - seen)"
proof (induction vs arbitrary: seen encoded)
  case (Cons v vs)
  show ?case
  proof (cases "v \<in> seen")
    case True
    then show ?thesis using Cons.IH [of seen encoded] by (auto simp: add_variant_def)
  next
    case False
    then show ?thesis using Cons.IH [of "insert v seen" "encoded @ [v]"] by (auto simp: add_variant_def)
  qed
qed simp

text \<open>The encoded forms of a secret: those of the six that differ from it.\<close>

definition encoded_forms :: "string \<Rightarrow> string set" where
  "encoded_forms secret =
     {EncodeToString StdEncoding secret, EncodeToString RawStdEncoding secret, EncodeToString URLEncoding secret,
      EncodeToString RawURLEncoding secret, hex_EncodeToString secret, QueryEscape secret} - {secret}"

lemma set_ks_encoded: "set (ks_encoded (buildSecretSet secret dec)) = (if dec then encoded_forms secret else {})"
proof -
  have "set (snd (fold add_variant vs ({secret}, []))) = set vs - {secret}" for vs
    by (simp add: set_add_variants)
  note this [of "map (\<lambda>enc. EncodeToString enc secret) [StdEncoding, RawStdEncoding, URLEncoding, RawURLEncoding] @
      [hex_EncodeToString secret, QueryEscape secret]"]
  then show ?thesis unfolding buildSecretSet_def encoded_forms_def by simp
qed

lemma ks_encoded_nonempty: "secret \<noteq> [] \<Longrightarrow> v \<in> set (ks_encoded (buildSecretSet secret dec)) \<Longrightarrow> v \<noteq> []"
  by (auto simp: set_ks_encoded encoded_forms_def EncodeToString_nonempty [THEN not_sym]
      hex_EncodeToString_nonempty [THEN not_sym] QueryEscape_nonempty [THEN not_sym] split: if_splits)

lemma probes_nonempty:
  "(\<forall>v\<in>set vs. fst v \<noteq> []) \<Longrightarrow> (\<forall>p\<in>set probes. pr_variant p \<noteq> []) \<Longrightarrow>
   \<forall>p\<in>set (snd (fold add_probe vs (owner, probes))). pr_variant p \<noteq> []"
proof (induction vs arbitrary: owner probes)
  case (Cons v vs)
  obtain variant hexForm ruleIdx where v: "v = (variant, hexForm, ruleIdx)" by (cases v) auto
  obtain owner' probes' where s: "add_probe v (owner, probes) = (owner', probes')" by fastforce
  have "\<forall>p\<in>set probes'. pr_variant p \<noteq> []"
  proof (cases "owner variant")
    case None
    then show ?thesis using s Cons.prems by (auto simp: v add_probe_def)
  next
    case (Some i)
    show ?thesis
    proof (cases "i < length probes")
      case True
      then show ?thesis using Some s Cons.prems
        by (auto simp: v add_probe_def split: if_splits dest!: subsetD [OF set_update_subset_insert])
    next
      case False
      then show ?thesis using Some s Cons.prems by (auto simp: v add_probe_def list_update_beyond split: if_splits)
    qed
  qed
  then show ?case using Cons.IH [of probes' owner'] Cons.prems s by simp
qed simp

lemma literal_variants_nonempty: "lit \<noteq> [] \<Longrightarrow> v \<in> set (literal_variants i lit) \<Longrightarrow> fst v \<noteq> []"
  by (auto simp: literal_variants_def hex_EncodeToString_nonempty)

lemma buildProbes_nonempty:
  assumes "\<forall>ls\<in>set rules. \<forall>lit\<in>set ls. lit \<noteq> []" "p \<in> set (buildProbes rules)"
  shows "pr_variant p \<noteq> []"
proof -
  let ?vs = "concat (map (\<lambda>(i, literals). concat (map (literal_variants i) literals)) (enumerate 0 rules))"
  have "fst v \<noteq> []" if v: "v \<in> set ?vs" for v
  proof -
    obtain i ls lit where "(i, ls) \<in> set (enumerate 0 rules)" "lit \<in> set ls" "v \<in> set (literal_variants i lit)"
      using v by auto
    moreover from this have "lit \<noteq> []" using assms(1) by (metis enumerate_eq_zip in_set_zipE)
    ultimately show ?thesis using literal_variants_nonempty by blast
  qed
  then show ?thesis using probes_nonempty [of ?vs "[]" "Map.empty"] assms(2) unfolding buildProbes_def by auto
qed

text \<open>The owners of a probe are indices of rules.\<close>

lemma probes_owners:
  "(\<forall>v\<in>set vs. snd (snd v) < n) \<Longrightarrow> (\<forall>p\<in>set probes. \<forall>ri\<in>set (pr_ruleIdxs p). ri < n) \<Longrightarrow>
   \<forall>p\<in>set (snd (fold add_probe vs (owner, probes))). \<forall>ri\<in>set (pr_ruleIdxs p). ri < n"
proof (induction vs arbitrary: owner probes)
  case (Cons v vs)
  obtain variant hexForm ruleIdx where v: "v = (variant, hexForm, ruleIdx)" by (cases v) auto
  obtain owner' probes' where s: "add_probe v (owner, probes) = (owner', probes')" by fastforce
  have "\<forall>p\<in>set probes'. \<forall>ri\<in>set (pr_ruleIdxs p). ri < n"
  proof (cases "owner variant")
    case None
    then show ?thesis using s Cons.prems by (auto simp: v add_probe_def)
  next
    case (Some i)
    show ?thesis
    proof (cases "i < length probes")
      case True
      then have "\<forall>ri\<in>set (pr_ruleIdxs (probes ! i)). ri < n" using Cons.prems(2) nth_mem by blast
      then show ?thesis using Some s Cons.prems
        by (auto simp: v add_probe_def split: if_splits dest!: subsetD [OF set_update_subset_insert])
    next
      case False
      then show ?thesis using Some s Cons.prems by (auto simp: v add_probe_def list_update_beyond split: if_splits)
    qed
  qed
  then show ?case using Cons.IH [of probes' owner'] Cons.prems s by simp
qed simp

lemma buildProbes_owners:
  assumes "p \<in> set (buildProbes rules)" "ri \<in> set (pr_ruleIdxs p)"
  shows "ri < length rules"
proof -
  let ?vs = "concat (map (\<lambda>(i, literals). concat (map (literal_variants i) literals)) (enumerate 0 rules))"
  have "snd (snd v) < length rules" if v: "v \<in> set ?vs" for v
  proof -
    obtain i ls lit where "(i, ls) \<in> set (enumerate 0 rules)" "v \<in> set (literal_variants i lit)" using v by auto
    moreover from this have "i < length rules" by (simp add: in_set_enumerate_eq)
    ultimately show ?thesis by (auto simp: literal_variants_def)
  qed
  then have "\<forall>v\<in>set ?vs. snd (snd v) < length rules" by blast
  from probes_owners [OF this, of "[]" Map.empty]
  have "\<forall>p\<in>set (buildProbes rules). \<forall>ri\<in>set (pr_ruleIdxs p). ri < length rules"
    unfolding buildProbes_def by simp
  then show ?thesis using assms by blast
qed

lemma expand_left_le: "expand_left body tok stop start \<le> start"
  by (induction start) auto

lemma expand_right_ge: "stop \<le> expand_right body tok start stop"
  by (induction body tok start stop rule: expand_right.induct) (subst expand_right.simps, auto)

lemma expand_right_le: "stop \<le> length body \<Longrightarrow> expand_right body tok start stop \<le> length body"
  by (induction body tok start stop rule: expand_right.induct) (subst expand_right.simps, auto)

lemma expandSpan_bounds:
  assumes "expandSpan body start stop tok = (s, e)"
  shows "s \<le> start" "stop \<le> e" "stop \<le> length body \<Longrightarrow> e \<le> length body"
  using assms expand_left_le expand_right_ge expand_right_le by (auto simp: expandSpan_def Let_def)

subsection \<open>Decoding inverts encoding\<close>

fun b64_digits :: "string \<Rightarrow> nat list" where
  "b64_digits [] = []"
| "b64_digits [a] = [byte a div 4, byte a mod 4 * 16]"
| "b64_digits [a, b] = [byte a div 4, byte a mod 4 * 16 + byte b div 16, byte b mod 16 * 4]"
| "b64_digits (a # b # c # r) =
     [byte a div 4, byte a mod 4 * 16 + byte b div 16, byte b mod 16 * 4 + byte c div 64, byte c mod 64] @ b64_digits r"

lemma byte_less: "byte c < 256"
  by (metis mod_less_divisor of_char_mod_256 zero_less_numeral)

lemma byte_div_less: "byte c div 4 < 64" "byte c div 16 < 16" "byte c div 64 < 4"
  using byte_less [of c] by (simp_all add: less_mult_imp_div_less)

lemma char_of_byte: "n = byte c \<Longrightarrow> char_of n = c"
  by simp

lemma EncodeToString_digits:
  "\<exists>k. EncodeToString enc s = map ((!) (enc_alphabet enc)) (b64_digits s) @ replicate k (CHR ''='')"
proof (induction enc s rule: EncodeToString.induct)
  case (2 enc a)
  show ?case by (auto intro: exI [of _ "2::nat"] exI [of _ "0::nat"] simp: numeral_2_eq_2)
next
  case (3 enc a b)
  show ?case by (auto intro: exI [of _ "1::nat"] exI [of _ "0::nat"])
next
  case (4 enc a b c r)
  then show ?case by auto
qed (auto intro: exI [of _ 0])

lemma digits_div_mod: "y < n \<Longrightarrow> (x * n + y) div n = x" "y < n \<Longrightarrow> (x * n + y) mod n = (y :: nat)"
  by simp_all

lemma b64_sextets:
  fixes a b c :: nat
  assumes "a < 256" "b < 256" "c < 256"
  shows "a mod 4 * 16 + b div 16 < 64" "b mod 16 * 4 + c div 64 < 64" "a mod 4 * 16 < 64" "b mod 16 * 4 < 64" "a div 4 < 64"
    "a div 4 * 4 + (a mod 4 * 16 + b div 16) div 16 = a" "a div 4 * 4 + a mod 4 * 16 div 16 = a"
    "(a mod 4 * 16 + b div 16) mod 16 * 16 + b mod 16 * 4 div 4 = b"
    "(a mod 4 * 16 + b div 16) mod 16 * 16 + (b mod 16 * 4 + c div 64) div 4 = b"
    "(b mod 16 * 4 + c div 64) mod 4 * 64 + c mod 64 = c"
proof -
  have 1: "b div 16 < 16" "c div 64 < 4" and m: "a mod 4 < 4" "b mod 16 < 16"
    using assms by (simp_all add: less_mult_imp_div_less)
  show "a div 4 < 64" using assms by (simp add: less_mult_imp_div_less)
  show "a mod 4 * 16 + b div 16 < 64" "b mod 16 * 4 + c div 64 < 64" "a mod 4 * 16 < 64" "b mod 16 * 4 < 64"
    using 1 m by linarith+
  show "a div 4 * 4 + (a mod 4 * 16 + b div 16) div 16 = a" "a div 4 * 4 + a mod 4 * 16 div 16 = a"
    "(a mod 4 * 16 + b div 16) mod 16 * 16 + b mod 16 * 4 div 4 = b"
    "(a mod 4 * 16 + b div 16) mod 16 * 16 + (b mod 16 * 4 + c div 64) div 4 = b"
    "(b mod 16 * 4 + c div 64) mod 4 * 64 + c mod 64 = c"
    unfolding digits_div_mod [OF 1(1)] digits_div_mod [OF 1(2)] by simp_all
qed

lemma b64_digits_less: "d \<in> set (b64_digits s) \<Longrightarrow> d < 64"
  by (induction s rule: b64_digits.induct) (use b64_sextets [OF byte_less byte_less byte_less] in auto)

lemma decode_digits_Cons:
  "decode_digits ds = Some out \<Longrightarrow>
   decode_digits (p # q # r # s # ds) =
     Some ([char_of (p * 4 + q div 16), char_of (q mod 16 * 16 + r div 4), char_of (r mod 4 * 64 + s)] @ out)"
  by simp

lemma decode_b64_digits: "decode_digits (b64_digits s) = Some s"
proof (induction s rule: b64_digits.induct)
  case (4 a b c r)
  then show ?case using decode_digits_Cons [OF 4]
    by (simp only: b64_digits.simps append_Cons append_Nil b64_sextets [OF byte_less byte_less byte_less] char_of_char)
qed (simp_all only: b64_digits.simps decode_digits.simps b64_sextets [OF byte_less byte_less byte_less] char_of_char)

lemma position_nth: "distinct alphabet \<Longrightarrow> k < length alphabet \<Longrightarrow> position alphabet (alphabet ! k) = Some k"
proof (induction alphabet arbitrary: k)
  case (Cons a alphabet)
  then show ?case by (cases k) auto
qed simp

lemma alphabet_facts:
  "distinct b64_std" "distinct b64_url" "length b64_std = 64" "length b64_url = 64"
  "set b64_std \<inter> {CHR ''='', CHR 0x0D, CHR 0x0A, CHR ''-'', CHR ''_''} = {}"
  "set b64_url \<inter> {CHR ''='', CHR 0x0D, CHR 0x0A} = {}"
  "take 62 b64_std = take 62 b64_url" "drop 62 b64_url = ''-_''"
  by (simp_all add: b64_std_def b64_url_def)

lemma DecodeString_digits:
  assumes "distinct (enc_alphabet enc)" "length (enc_alphabet enc) = 64"
    "set (enc_alphabet enc) \<inter> {CHR 0x0D, CHR 0x0A} = {}"
  shows "DecodeString enc (map ((!) (enc_alphabet enc)) (b64_digits s)) = Some s"
proof -
  let ?t = "map ((!) (enc_alphabet enc)) (b64_digits s)"
  have "c \<in> set (enc_alphabet enc)" if "c \<in> set ?t" for c
    using that b64_digits_less assms(2) by fastforce
  then have "\<forall>c\<in>set ?t. c \<noteq> CHR 0x0D \<and> c \<noteq> CHR 0x0A" using assms(3) by blast
  then have f: "filter (\<lambda>c. c \<noteq> CHR 0x0D \<and> c \<noteq> CHR 0x0A) ?t = ?t"
    by (simp only: filter_id_conv)
  have p: "map (position (enc_alphabet enc)) ?t = map Some (b64_digits s)"
    using position_nth [OF assms(1)] b64_digits_less assms(2) by auto
  show ?thesis
    unfolding DecodeString_def Let_def f p by (auto simp: decode_b64_digits o_def)
qed

lemma trim_right_pad: "(\<forall>c\<in>set x. c \<noteq> p) \<Longrightarrow> rev (dropWhile (\<lambda>c. c = p) (rev (x @ replicate k p))) = x"
proof (induction k)
  case 0
  then show ?case by (cases x rule: rev_cases) auto
next
  case (Suc k)
  have "rev (x @ replicate (Suc k) p) = p # rev (x @ replicate k p)" by (simp flip: replicate_append_same)
  then show ?case using Suc by simp
qed

lemma url_digits_std:
  assumes "CHR ''-'' \<notin> set (map ((!) b64_url) ds)" "CHR ''_'' \<notin> set (map ((!) b64_url) ds)" "\<forall>d\<in>set ds. d < 64"
  shows "map ((!) b64_url) ds = map ((!) b64_std) ds"
proof -
  have "b64_url ! d = b64_std ! d" if "d \<in> set ds" for d
  proof -
    have "b64_url ! 62 = CHR ''-''" "b64_url ! 63 = CHR ''_''" by (simp_all add: b64_url_def)
    then have "d \<noteq> 62" "d \<noteq> 63" using assms(1,2) that by force+
    then have "d < 62" using assms(3) that by force
    then show ?thesis using alphabet_facts(7) by (metis nth_take)
  qed
  then show ?thesis by simp
qed

lemma decodeB64Span_encode:
  assumes "s \<noteq> []" "enc \<in> {StdEncoding, RawStdEncoding, URLEncoding, RawURLEncoding}"
  shows "decodeB64Span (EncodeToString enc s) = Some s"
proof -
  let ?t = "map ((!) (enc_alphabet enc)) (b64_digits s)"
  have enc: "enc_alphabet enc = b64_std \<or> enc_alphabet enc = b64_url"
    using assms(2) by (auto simp: StdEncoding_def RawStdEncoding_def URLEncoding_def RawURLEncoding_def)
  obtain k where k: "EncodeToString enc s = ?t @ replicate k (CHR ''='')" using EncodeToString_digits by blast
  have in_alph: "c \<in> set (enc_alphabet enc)" if "c \<in> set ?t" for c
    using that b64_digits_less [of _ s] enc alphabet_facts(3,4) by auto
  have "CHR ''='' \<notin> set b64_std" "CHR ''='' \<notin> set b64_url" using alphabet_facts(5,6) by (simp_all only: disjoint_iff insert_iff) blast+
  then have "CHR ''='' \<notin> set (enc_alphabet enc)" using enc by metis
  then have noeq: "\<forall>c\<in>set ?t. c \<noteq> CHR ''=''" using in_alph by metis
  then have trim: "rev (dropWhile (\<lambda>c. c = CHR ''='') (rev (EncodeToString enc s))) = ?t"
    unfolding k by (rule trim_right_pad)
  have ne: "?t \<noteq> []" using assms(1) by (cases s rule: b64_digits.cases) auto
  have std: "DecodeString RawStdEncoding (map ((!) b64_std) (b64_digits s)) = Some s"
    using DecodeString_digits [of RawStdEncoding s] alphabet_facts by (auto simp: RawStdEncoding_def)
  have url: "DecodeString RawURLEncoding (map ((!) b64_url) (b64_digits s)) = Some s"
    using DecodeString_digits [of RawURLEncoding s] alphabet_facts by (auto simp: RawURLEncoding_def)
  have go: "(?t = [] \<or> CHR ''='' \<in> set ?t) = False" using ne noeq by blast
  have head: "decodeB64Span (EncodeToString enc s) =
      (let encs = (if CHR ''-'' \<in> set ?t \<or> CHR ''_'' \<in> set ?t then [RawURLEncoding, RawStdEncoding]
          else [RawStdEncoding, RawURLEncoding])
       in case DecodeString (encs ! 0) ?t of Some out \<Rightarrow> Some out | None \<Rightarrow> DecodeString (encs ! 1) ?t)"
    by (simp only: decodeB64Span_def trim Let_def go if_False)
  show ?thesis
  proof (cases "CHR ''-'' \<in> set ?t \<or> CHR ''_'' \<in> set ?t")
    case True
    moreover have "CHR ''-'' \<notin> set b64_std" "CHR ''_'' \<notin> set b64_std"
      using alphabet_facts(5) by (simp_all only: disjoint_iff insert_iff) blast+
    ultimately have "enc_alphabet enc = b64_url" using enc in_alph by metis
    then show ?thesis unfolding head using True url by simp
  next
    case False
    have t: "?t = map ((!) b64_std) (b64_digits s)"
    proof (cases "enc_alphabet enc = b64_std")
      case url: False
      then have "enc_alphabet enc = b64_url" using enc by blast
      then show ?thesis using url_digits_std [of "b64_digits s"] False b64_digits_less by metis
    qed simp
    have "(CHR ''-'' \<in> set ?t \<or> CHR ''_'' \<in> set ?t) = False" using False by blast
    then show ?thesis using std t unfolding head Let_def by (simp only: if_False nth_Cons_0 option.case)
  qed
qed

lemma hex_digit_value: "d < 16 \<Longrightarrow> fromHexChar (hex_digits ! d) = Some d"
  using position_nth [of hex_digits d] by (simp add: fromHexChar_def hex_digits_def)

lemma decodeHexSpan_encode:
  assumes "s \<noteq> []"
  shows "decodeHexSpan (hex_EncodeToString s) = Some s"
proof -
  have "hex_DecodeString (hex_EncodeToString s) = Some s"
  proof (induction s)
    case (Cons c s)
    have "byte c div 16 < 16" "byte c mod 16 < 16" using byte_div_less [of c] by auto
    moreover have "byte c div 16 * 16 + byte c mod 16 = byte c" by simp
    ultimately show ?case using Cons hex_digit_value by (simp add: hex_EncodeToString_def del: div_mult_mod_eq)
  qed (simp add: hex_EncodeToString_def)
  moreover have "length (hex_EncodeToString s) = 2 * length s"
    by (induction s) (auto simp: hex_EncodeToString_def)
  ultimately show ?thesis using assms by (simp add: decodeHexSpan_def)
qed

end
