(* ===== verification/Guard_Paths.thy ===== *)
theory Guard_Paths
  imports Prelude
begin

text \<open>
  The sensitive-path table of the guard and its scan by literals (\<open>internal/guard/paths.go\<close>, and the
  occurrence iterator of \<open>pathctx.go\<close>). A callback over occurrences is the list of its arguments.
\<close>

text \<open>
  \<open>forEachOccurrence\<close>: every occurrence, overlapping ones included, in increasing order. The test of
  \<open>i\<close> against the length stands for the slice expression, which is in range for a non-empty needle.
\<close>

function forEachOccurrence :: "string \<Rightarrow> string \<Rightarrow> nat \<Rightarrow> (nat \<times> nat) list" where
  "forEachOccurrence body needle i =
     (if length body < i then []
      else
        (case Index (drop i body) needle of
           None \<Rightarrow> []
         | Some j \<Rightarrow> (j + i, j + i + length needle) # forEachOccurrence body needle (j + i + 1)))"
  by pat_completeness auto
termination by (relation "measure (\<lambda>(body, needle, i). Suc (length body) - i)") auto

declare forEachOccurrence.simps [simp del]

record pathRule =
  pa_category :: string
  pa_literals :: "string list"
  pa_boundary :: bool

definition path_rule :: "string \<Rightarrow> string list \<Rightarrow> bool \<Rightarrow> pathRule" where
  "path_rule category literals boundary = \<lparr> pa_category = category, pa_literals = literals, pa_boundary = boundary \<rparr>"

definition builtinPaths :: "pathRule list" where
  "builtinPaths =
     [path_rule ''ssh'' [''~/.ssh''] False,
      path_rule ''ssh'' [''id_rsa'', ''id_ed25519''] True,
      path_rule ''aws_creds'' [''~/.aws/credentials''] False,
      path_rule ''gnupg'' [''~/.gnupg''] False,
      path_rule ''kube'' [''~/.kube/config''] False,
      path_rule ''docker'' [''~/.docker/config.json''] False,
      path_rule ''gcloud'' [''~/.config/gcloud''] False,
      path_rule ''dotenv'' [''.env''] True]"

definition isPathChar :: "char \<Rightarrow> bool" where
  "isPathChar c \<longleftrightarrow>
     (let n = (of_char c :: nat)
      in (97 \<le> n \<and> n \<le> 122) \<or> (65 \<le> n \<and> n \<le> 90) \<or> (48 \<le> n \<and> n \<le> 57)) \<or> c = CHR ''_'' \<or> c = CHR ''-''"

text \<open>No path character on either side of \<open>[start, stop)\<close>.\<close>

definition bounded_by :: "string \<Rightarrow> nat \<Rightarrow> nat \<Rightarrow> bool" where
  "bounded_by body start stop \<longleftrightarrow>
     (start = 0 \<or> \<not> isPathChar (body ! (start - 1))) \<and> (stop = length body \<or> \<not> isPathChar (body ! stop))"

definition eachOccurrence :: "pathRule \<Rightarrow> string \<Rightarrow> (nat \<times> nat) list" where
  "eachOccurrence p body =
     concat (map (\<lambda>lit.
       if \<not> pa_boundary p then forEachOccurrence body lit 0
       else filter (\<lambda>(start, stop). bounded_by body start stop) (forEachOccurrence body lit 0)) (pa_literals p))"

definition path_hit :: "pathRule \<Rightarrow> string \<Rightarrow> bool" where
  "path_hit p body \<longleftrightarrow>
     list_ex (\<lambda>lit.
       if \<not> pa_boundary p then Contains body lit
       else list_ex (\<lambda>(start, stop). bounded_by body start stop) (forEachOccurrence body lit 0)) (pa_literals p)"

definition scan_path :: "string \<Rightarrow> pathRule \<Rightarrow> string list \<Rightarrow> string list" where
  "scan_path body p names =
     (if path_hit p body \<and> (names = [] \<or> last names \<noteq> pa_category p) then names @ [pa_category p] else names)"

definition ScanPaths :: "string list \<Rightarrow> string \<Rightarrow> string list" where
  "ScanPaths extraPaths body =
     (let names = fold (scan_path body) builtinPaths []
      in if list_ex (Contains body) extraPaths then names @ [''custom_path''] else names)"

text \<open>The gate of \<open>ScanPathsContext\<close>.\<close>

definition path_gate :: "string list \<Rightarrow> string \<Rightarrow> bool" where
  "path_gate extraPaths body \<longleftrightarrow> list_ex (\<lambda>p. path_hit p body) builtinPaths \<or> list_ex (Contains body) extraPaths"

subsection \<open>Lemmas\<close>

text \<open>An occurrence of a word, by its end offset.\<close>

definition occurs_at :: "string \<Rightarrow> string \<Rightarrow> nat \<Rightarrow> bool" where
  "occurs_at needle body stop \<longleftrightarrow> stop \<le> length body \<and> suffix needle (take stop body)"

lemma occurs_at_prefix:
  "occurs_at needle body stop \<longleftrightarrow>
     (\<exists>start. stop = start + length needle \<and> start \<le> length body \<and> prefix needle (drop start body))"
proof
  assume l: "occurs_at needle body stop"
  then obtain zs where zs: "take stop body = zs @ needle" "stop \<le> length body" by (auto simp: occurs_at_def suffix_def)
  then have len: "stop = length zs + length needle" by (metis length_append length_take min.absorb2)
  have "body = zs @ needle @ drop stop body" using zs(1) by (metis append.assoc append_take_drop_id)
  then have "drop (length zs) body = needle @ drop stop body" by (metis append_eq_conv_conj)
  then show "\<exists>start. stop = start + length needle \<and> start \<le> length body \<and> prefix needle (drop start body)"
    using len zs(2) by (intro exI [of _ "length zs"]) (auto simp: prefix_def)
next
  assume "\<exists>start. stop = start + length needle \<and> start \<le> length body \<and> prefix needle (drop start body)"
  then obtain start zs where s: "stop = start + length needle" "start \<le> length body" "drop start body = needle @ zs"
    by (auto simp: prefix_def)
  then have body: "body = take start body @ needle @ zs" by (metis append_take_drop_id)
  then have "take stop body = take start body @ needle" using s(1,2)
    by (metis append.assoc append_eq_conv_conj length_append length_take min.absorb2)
  moreover have "stop \<le> length body" using s(1,2) s(3) by (metis add_le_cancel_left body length_append length_take le_add1 min.absorb2 add.assoc)
  ultimately show "occurs_at needle body stop" by (auto simp: occurs_at_def suffix_def)
qed

lemma occurs_iff_sublist: "(\<exists>stop. occurs_at needle body stop) \<longleftrightarrow> sublist needle body"
proof
  assume "\<exists>stop. occurs_at needle body stop"
  then obtain start where "prefix needle (drop start body)" by (auto simp: occurs_at_prefix)
  then obtain zs where "drop start body = needle @ zs" by (auto simp: prefix_def)
  then have "body = take start body @ needle @ zs" by (metis append_take_drop_id)
  then show "sublist needle body" unfolding sublist_def by blast
next
  assume "sublist needle body"
  then obtain xs ys where "body = xs @ needle @ ys" by (auto simp: sublist_def)
  then have "occurs_at needle body (length xs + length needle)"
    unfolding occurs_at_prefix by (intro exI [of _ "length xs"]) auto
  then show "\<exists>stop. occurs_at needle body stop" by blast
qed

lemma set_forEachOccurrence:
  "needle \<noteq> [] \<Longrightarrow>
   set (forEachOccurrence body needle i) = {(j, j + length needle) | j. i \<le> j \<and> prefix needle (drop j body)}"
proof (induction body needle i rule: forEachOccurrence.induct)
  case (1 body needle i)
  show ?case
  proof (cases "length body < i")
    case True
    then have "drop j body = []" if "i \<le> j" for j using that by simp
    then show ?thesis using True 1(2) by (subst forEachOccurrence.simps) auto
  next
    case False
    show ?thesis
    proof (cases "Index (drop i body) needle")
      case None
      have "\<not> prefix needle (drop j body)" if "i \<le> j" for j
        using Index_None [OF None, of "j - i"] that by simp
      then show ?thesis using False None by (subst forEachOccurrence.simps) auto
    next
      case (Some k)
      have hit: "prefix needle (drop (k + i) body)" using Index_SomeD [OF Some] by (simp add: add.commute)
      have least: "\<not> prefix needle (drop j body)" if "i \<le> j" "j < k + i" for j
        using Index_least [OF Some, of "j - i"] that by auto
      have "set (forEachOccurrence body needle i) =
          insert (k + i, k + i + length needle) (set (forEachOccurrence body needle (k + i + 1)))"
        using False Some by (subst forEachOccurrence.simps) simp
      also have "\<dots> = {(j, j + length needle) | j. i \<le> j \<and> prefix needle (drop j body)}"
        unfolding 1(1) [OF False Some 1(2)]
      proof (rule set_eqI, clarsimp, intro iffI)
        fix a b
        assume "a = k + i \<and> b = k + i + length needle \<or> b = a + length needle \<and> Suc (k + i) \<le> a \<and> prefix needle (drop a body)"
        then show "b = a + length needle \<and> i \<le> a \<and> prefix needle (drop a body)" using hit by auto
      next
        fix a b
        assume a: "b = a + length needle \<and> i \<le> a \<and> prefix needle (drop a body)"
        then have "k + i \<le> a" using least by (meson not_le)
        then show "a = k + i \<and> b = k + i + length needle \<or> b = a + length needle \<and> Suc (k + i) \<le> a \<and> prefix needle (drop a body)"
          using a by auto
      qed
      finally show ?thesis .
    qed
  qed
qed

lemma builtin_literals_nonempty: "p \<in> set builtinPaths \<Longrightarrow> lit \<in> set (pa_literals p) \<Longrightarrow> lit \<noteq> []"
  by (auto simp: builtinPaths_def path_rule_def)

lemma path_hit_occurs:
  assumes "\<forall>lit\<in>set (pa_literals p). lit \<noteq> []"
  shows "path_hit p body \<longleftrightarrow>
    (\<exists>lit\<in>set (pa_literals p). \<exists>stop. occurs_at lit body stop \<and> (pa_boundary p \<longrightarrow> bounded_by body (stop - length lit) stop))"
proof -
  have 1: "list_ex (\<lambda>(start, stop). bounded_by body start stop) (forEachOccurrence body lit 0) \<longleftrightarrow>
      (\<exists>stop. occurs_at lit body stop \<and> bounded_by body (stop - length lit) stop)" if "lit \<noteq> []" for lit
  proof -
    have "prefix lit (drop j body) \<Longrightarrow> j \<le> length body" for j using that by (cases "j \<le> length body") auto
    then show ?thesis unfolding list_ex_iff set_forEachOccurrence [OF that] occurs_at_prefix by fastforce
  qed
  have 2: "Contains body lit \<longleftrightarrow> (\<exists>stop. occurs_at lit body stop)" for lit
    by (simp add: Contains_def occurs_iff_sublist)
  show ?thesis using assms 1 2 by (auto simp: path_hit_def list_ex_iff)
qed

lemma scan_path_nonempty: "fold (scan_path body) ps names = [] \<longleftrightarrow> names = [] \<and> (\<forall>p\<in>set ps. \<not> path_hit p body)"
  by (induction ps arbitrary: names) (auto simp: scan_path_def)

lemma ScanPaths_gate: "ScanPaths extraPaths body \<noteq> [] \<longleftrightarrow> path_gate extraPaths body"
  by (auto simp: ScanPaths_def path_gate_def scan_path_nonempty list_ex_iff Let_def)

end
