(* ===== verification/Guard_Scanner.thy ===== *)
theory Guard_Scanner
  imports Guard_Matcher_Props Guard_Codec Guard_Paths
begin

text \<open>
  The secret scanner (\<open>internal/guard/scanner.go\<close>, rules of \<open>rules.go\<close>): its construction, the claimed
  spans of a scan, redaction, and the known-secret channels. A compiled \<open>regexp.Regexp\<close> is the value
  of its two search methods on a text, so the embedded rule table is an argument of the constructor.
  A scan returns \<open>None\<close> only where a loop of the automaton would not end.
\<close>

subsection \<open>Rules\<close>

text \<open>A location: the span of the match and that of its first group, if it took part.\<close>

type_synonym loc = "(nat \<times> nat) \<times> (nat \<times> nat) option"

record regexp =
  re_subexp :: nat
  re_FindSubmatchIndex :: "string \<Rightarrow> loc option"
  re_FindAllSubmatchIndex :: "string \<Rightarrow> loc list"

record rule =
  ru_name :: string
  ru_re :: regexp
  ru_regex :: string
  ru_source :: string
  ru_literals :: "string list"
  ru_entropy :: "real option"
  ru_group :: bool

definition shannon :: "string \<Rightarrow> real" where
  "shannon b =
     (if b = [] then 0
      else foldl (\<lambda>h c. let f = count_list b c in
             if 0 < f then (let p = real f / real (length b) in h - p * log 2 p) else h)
        0 (map char_of [0..<(256 :: nat)]))"

definition substr :: "string \<Rightarrow> nat \<Rightarrow> nat \<Rightarrow> string" where
  "substr s i j = take (j - i) (drop i s)"

definition passes_entropy :: "rule \<Rightarrow> string \<Rightarrow> bool" where
  "passes_entropy r s \<longleftrightarrow> (case ru_entropy r of None \<Rightarrow> True | Some e \<Rightarrow> e \<le> shannon s)"

text \<open>The claim span of a location: the first group where the rule has one, else the match.\<close>

definition claim_span :: "rule \<Rightarrow> loc \<Rightarrow> nat \<times> nat" where
  "claim_span r loc = (case (ru_group r, snd loc) of (True, Some g) \<Rightarrow> g | _ \<Rightarrow> fst loc)"

definition findIn :: "rule \<Rightarrow> string \<Rightarrow> (nat \<times> nat) list" where
  "findIn r body =
     (if \<not> ru_group r \<and> ru_entropy r = None then map fst (re_FindAllSubmatchIndex (ru_re r) body)
      else filter (\<lambda>(gs, ge). passes_entropy r (substr body gs ge))
             (map (claim_span r) (re_FindAllSubmatchIndex (ru_re r) body)))"

text \<open>The spans that \<open>findEach\<close> streams to its callback.\<close>

function findEach :: "rule \<Rightarrow> string \<Rightarrow> nat \<Rightarrow> (nat \<times> nat) list" where
  "findEach r body pos =
     (if length body < pos then []
      else
        (case re_FindSubmatchIndex (ru_re r) (drop pos body) of
           None \<Rightarrow> []
         | Some loc \<Rightarrow>
             (let (ms, me) = fst loc; (gs, ge) = claim_span r loc;
                  rest = findEach r body (if pos + ms < pos + me then pos + me else pos + ms + 1)
              in if passes_entropy r (substr body (pos + gs) (pos + ge)) then (pos + gs, pos + ge) # rest else rest)))"
  by pat_completeness auto
termination by (relation "measure (\<lambda>(r, body, pos). Suc (length body) - pos)") auto

declare findEach.simps [simp del]

subsection \<open>The scanner\<close>

definition minSecretLen :: nat where
  "minSecretLen = 12"

definition minKnownFrag :: nat where
  "minKnownFrag = 8"

definition maxDecodesPerScan :: nat where
  "maxDecodesPerScan = 256"

definition maxMatchesPerScan :: nat where
  "maxMatchesPerScan = 2 ^ 18"

definition maxFragNeedles :: nat where
  "maxFragNeedles = 2 ^ 15"

definition knownSecret :: string where
  "knownSecret = ''known_secret''"

definition knownSecretEncoded :: string where
  "knownSecretEncoded = ''known_secret_encoded''"

record CustomPattern =
  cp_Name :: string
  cp_RE :: "regexp option"
  cp_Literal :: string

record customRule =
  cr_name :: string
  cr_re :: regexp
  cr_literal :: string

record KnownSecret =
  kn_Value :: string
  kn_Label :: string

datatype needleKind =
    needleRuleLiteral | needleProbe | needleSecretRaw | needleSecretEncoded | needleSecretFrag
  | needlePath | needlePathExtra

record needleRef =
  nr_kind :: needleKind
  nr_idx :: nat
  nr_vidx :: int

record Scanner =
  sn_rules :: "rule list"
  sn_probes :: "encodedProbe list"
  sn_custom :: "customRule list"
  sn_secrets :: "knownSecretSet list"
  sn_labels :: "string list"
  sn_extraPaths :: "string list"
  sn_maxKnownNeedle :: nat
  sn_ac :: acMatcher
  sn_refs :: "needleRef list"

subsection \<open>The prefilter over all literals\<close>

type_synonym refs_builder = "needleRef list \<times> acBuilder"

text \<open>\<open>addRef\<close> returns the id; \<open>add_refs\<close> is a loop of calls.\<close>

definition addRef :: "needleKind \<Rightarrow> nat \<Rightarrow> int \<Rightarrow> string \<Rightarrow> refs_builder \<Rightarrow> nat \<times> refs_builder" where
  "addRef kind idx vidx needle rb =
     (let (refs, b) = rb; i = length refs
      in (i, (refs @ [\<lparr> nr_kind = kind, nr_idx = idx, nr_vidx = vidx \<rparr>], ac_add needle i b)))"

fun add_refs :: "(needleKind \<times> nat \<times> int \<times> string) list \<Rightarrow> refs_builder \<Rightarrow> nat list \<times> refs_builder" where
  "add_refs [] rb = ([], rb)"
| "add_refs ((kind, idx, vidx, needle) # ns) rb =
     (let (i, rb) = addRef kind idx vidx needle rb; (ids, rb) = add_refs ns rb in (i # ids, rb))"

definition frag_needles :: "nat \<Rightarrow> string \<Rightarrow> (needleKind \<times> nat \<times> int \<times> string) list" where
  "frag_needles si raw =
     map (\<lambda>k. (needleSecretFrag, si, int k, substr raw k (k + minKnownFrag))) [0..<length raw - minKnownFrag + 1]"

definition compile_secret :: "nat \<Rightarrow> knownSecretSet \<Rightarrow> nat \<times> refs_builder \<Rightarrow> knownSecretSet \<times> nat \<times> refs_builder" where
  "compile_secret si sec st =
     (let (fragBudget, rb) = st;
          (rawID, rb) = addRef needleSecretRaw si (-1) (ks_raw sec) rb;
          n = length (ks_raw sec);
          (fragBudget, rb) =
            (if 2 * minKnownFrag \<le> n \<and> n - minKnownFrag + 1 \<le> fragBudget
             then (fragBudget - (n - minKnownFrag + 1), snd (add_refs (frag_needles si (ks_raw sec)) rb))
             else (fragBudget, rb));
          (ids, rb) = add_refs (map (\<lambda>(vi, v). (needleSecretEncoded, si, int vi, v)) (enumerate 0 (ks_encoded sec))) rb
      in (sec\<lparr> ks_rawID := rawID, ks_encodedIDs := ids \<rparr>, fragBudget, rb))"

fun compile_secrets :: "nat \<Rightarrow> knownSecretSet list \<Rightarrow> nat \<times> refs_builder \<Rightarrow> knownSecretSet list \<times> refs_builder" where
  "compile_secrets si [] st = ([], snd st)"
| "compile_secrets si (sec # secs) st =
     (let (sec, st) = compile_secret si sec st; (secs, rb) = compile_secrets (Suc si) secs st in (sec # secs, rb))"

definition rule_needles :: "rule list \<Rightarrow> (needleKind \<times> nat \<times> int \<times> string) list" where
  "rule_needles rules =
     concat (map (\<lambda>(i, r). map (\<lambda>lit. (needleRuleLiteral, i, -1, lit)) (ru_literals r)) (enumerate 0 rules))"

definition probe_needles :: "encodedProbe list \<Rightarrow> (needleKind \<times> nat \<times> int \<times> string) list" where
  "probe_needles probes = map (\<lambda>(i, p). (needleProbe, i, -1, pr_variant p)) (enumerate 0 probes)"

definition path_needles :: "(needleKind \<times> nat \<times> int \<times> string) list" where
  "path_needles =
     concat (map (\<lambda>(i, p). map (\<lambda>(li, lit). (needlePath, i, int li, lit)) (enumerate 0 (pa_literals p)))
       (enumerate 0 builtinPaths))"

definition extra_needles :: "string list \<Rightarrow> (needleKind \<times> nat \<times> int \<times> string) list" where
  "extra_needles extraPaths = map (\<lambda>(i, lit). (needlePathExtra, i, -1, lit)) (enumerate 0 extraPaths)"

definition compilePrefilter :: "Scanner \<Rightarrow> Scanner option" where
  "compilePrefilter s =
     (let (_, rb) = add_refs (rule_needles (sn_rules s)) ([], newACBuilder);
          (_, rb) = add_refs (probe_needles (sn_probes s)) rb;
          (secrets, rb) = compile_secrets 0 (sn_secrets s) (maxFragNeedles, rb);
          (_, rb) = add_refs path_needles rb;
          (_, rb) = add_refs (extra_needles (sn_extraPaths s)) rb
      in map_option (\<lambda>m. s\<lparr> sn_secrets := secrets, sn_ac := m, sn_refs := fst rb \<rparr>) (ac_compile (snd rb)))"

datatype guardError = EmptyPatternName | NilRegexp string | DuplicatePatternName string

fun add_custom :: "CustomPattern list \<Rightarrow> string set \<Rightarrow> customRule list \<Rightarrow> guardError + customRule list" where
  "add_custom [] seenNames acc = Inr acc"
| "add_custom (c # cs) seenNames acc =
     (if cp_Name c = [] then Inl EmptyPatternName
      else
        (case cp_RE c of
           None \<Rightarrow> Inl (NilRegexp (cp_Name c))
         | Some re \<Rightarrow>
             if cp_Name c \<in> seenNames then Inl (DuplicatePatternName (cp_Name c))
             else add_custom cs (insert (cp_Name c) seenNames)
                    (acc @ [\<lparr> cr_name = cp_Name c, cr_re = re, cr_literal = cp_Literal c \<rparr>])))"

fun add_secrets :: "bool \<Rightarrow> KnownSecret list \<Rightarrow> string set \<Rightarrow> Scanner \<Rightarrow> Scanner" where
  "add_secrets dec [] seenSecrets s = s"
| "add_secrets dec (sec # secs) seenSecrets s =
     (if length (kn_Value sec) < minSecretLen \<or> kn_Value sec \<in> seenSecrets then add_secrets dec secs seenSecrets s
      else
        (let ks = buildSecretSet (kn_Value sec) dec;
             longest = foldl (\<lambda>m v. if m < length v then length v else m)
               (if sn_maxKnownNeedle s < length (ks_raw ks) then length (ks_raw ks) else sn_maxKnownNeedle s) (ks_encoded ks)
         in add_secrets dec secs (insert (kn_Value sec) seenSecrets)
              (s\<lparr> sn_maxKnownNeedle := longest, sn_secrets := sn_secrets s @ [ks],
                  sn_labels := sn_labels s @ [kn_Label sec] \<rparr>)))"

fun add_paths :: "string list \<Rightarrow> string set \<Rightarrow> string list \<Rightarrow> string list" where
  "add_paths [] seenPaths acc = acc"
| "add_paths (p # ps) seenPaths acc =
     (let p = TrimSpace p
      in if p = [] \<or> p \<in> seenPaths then add_paths ps seenPaths acc else add_paths ps (insert p seenPaths) (acc @ [p]))"

definition NewScannerWithOptions ::
  "rule list \<Rightarrow> CustomPattern list \<Rightarrow> KnownSecret list \<Rightarrow> string list \<Rightarrow> bool \<Rightarrow> (guardError + Scanner) option" where
  "NewScannerWithOptions embeddedRules custom secrets extraPaths dec =
     (case add_custom custom {} [] of
        Inl e \<Rightarrow> Some (Inl e)
      | Inr cs \<Rightarrow>
          map_option Inr (compilePrefilter
            ((add_secrets dec secrets {}
               \<lparr> sn_rules = embeddedRules,
                 sn_probes = (if dec then buildProbes (map ru_literals embeddedRules) else []),
                 sn_custom = cs, sn_secrets = [], sn_labels = [], sn_extraPaths = [], sn_maxKnownNeedle = 0,
                 sn_ac = \<lparr> mt_nodes = [], mt_root = (\<lambda>_. 0) \<rparr>, sn_refs = [] \<rparr>)
             \<lparr> sn_extraPaths := add_paths extraPaths {} [] \<rparr>)))"

definition NewScanner ::
  "rule list \<Rightarrow> CustomPattern list \<Rightarrow> KnownSecret list \<Rightarrow> string list \<Rightarrow> (guardError + Scanner) option" where
  "NewScanner embeddedRules custom secrets extraPaths =
     NewScannerWithOptions embeddedRules custom secrets extraPaths True"

subsection \<open>Claimed spans\<close>

text \<open>\<open>sort.Search\<close>: the binary search for the least index with \<open>f\<close>.\<close>

function search_loop :: "(nat \<Rightarrow> bool) \<Rightarrow> nat \<Rightarrow> nat \<Rightarrow> nat" where
  "search_loop f i j =
     (if i < j then (let h = (i + j) div 2 in if \<not> f h then search_loop f (Suc h) j else search_loop f i h) else i)"
  by pat_completeness auto
termination by (relation "measure (\<lambda>(f, i, j). j - i)") auto

declare search_loop.simps [simp del]

definition sort_Search :: "nat \<Rightarrow> (nat \<Rightarrow> bool) \<Rightarrow> nat" where
  "sort_Search n f = search_loop f 0 n"

record gmatch =
  gm_name :: string
  gm_start :: nat
  gm_end :: nat

record claimSet =
  cs_starts :: "nat list"
  cs_ends :: "nat list"

definition overlaps :: "claimSet \<Rightarrow> nat \<Rightarrow> nat \<Rightarrow> bool" where
  "overlaps c start stop \<longleftrightarrow>
     (let i = sort_Search (length (cs_ends c)) (\<lambda>i. start < cs_ends c ! i)
      in i < length (cs_starts c) \<and> cs_starts c ! i < stop)"

definition insert_at :: "'a list \<Rightarrow> nat \<Rightarrow> 'a \<Rightarrow> 'a list" where
  "insert_at xs i x = take i xs @ x # drop i xs"

definition claim_interval :: "claimSet \<Rightarrow> nat \<Rightarrow> nat \<Rightarrow> claimSet" where
  "claim_interval c start stop =
     (let i = sort_Search (length (cs_starts c)) (\<lambda>i. start < cs_starts c ! i)
      in \<lparr> cs_starts = insert_at (cs_starts c) i start, cs_ends = insert_at (cs_ends c) i stop \<rparr>)"

record scanState =
  ss_found :: "gmatch list"
  ss_claimed :: claimSet

definition capped :: "scanState \<Rightarrow> bool" where
  "capped st \<longleftrightarrow> maxMatchesPerScan \<le> length (ss_found st)"

definition claim :: "string \<Rightarrow> nat \<times> nat \<Rightarrow> scanState \<Rightarrow> scanState" where
  "claim name sp st =
     (let (start, stop) = sp
      in if capped st \<or> overlaps (ss_claimed st) start stop then st
         else \<lparr> ss_found = ss_found st @ [\<lparr> gm_name = name, gm_start = start, gm_end = stop \<rparr>],
                ss_claimed = claim_interval (ss_claimed st) start stop \<rparr>)"

text \<open>A source whose stream is cut off once the table is full.\<close>

fun claim_stream :: "string \<Rightarrow> (nat \<times> nat) list \<Rightarrow> scanState \<Rightarrow> scanState" where
  "claim_stream name [] st = st"
| "claim_stream name (sp # spans) st =
     (let st = claim name sp st in if capped st then st else claim_stream name spans st)"

subsection \<open>Phase 1: the hits of the prefilter\<close>

record phase1 =
  p1_ruleHit :: "bool list"
  p1_probeHits :: "(nat, nat list) fmap"
  p1_secretHits :: "(nat, nat list) fmap"
  p1_probePositions :: nat
  p1_rawPositions :: nat
  p1_encodedPositions :: nat
  p1_pathGate :: bool

definition pathNeedleHit :: "string \<Rightarrow> needleRef \<Rightarrow> nat \<Rightarrow> bool" where
  "pathNeedleHit body ref stop =
     (case nr_kind ref of
        needlePath \<Rightarrow>
          (let p = builtinPaths ! nr_idx ref
           in if \<not> pa_boundary p then True
              else bounded_by body (stop - length (pa_literals p ! nat (nr_vidx ref))) stop)
      | needlePathExtra \<Rightarrow> True
      | _ \<Rightarrow> False)"

definition phase1_hit :: "Scanner \<Rightarrow> string \<Rightarrow> nat \<times> nat \<Rightarrow> phase1 \<Rightarrow> phase1" where
  "phase1_hit s body hit p =
     (let (i, stop) = hit; ref = sn_refs s ! i
      in case nr_kind ref of
           needleRuleLiteral \<Rightarrow> p\<lparr> p1_ruleHit := (p1_ruleHit p)[nr_idx ref := True] \<rparr>
         | needleProbe \<Rightarrow>
             if maxMatchesPerScan \<le> p1_probePositions p then p
             else p\<lparr> p1_probeHits := fmupd (nr_idx ref) (fmget [] (p1_probeHits p) (nr_idx ref) @ [stop]) (p1_probeHits p),
                     p1_probePositions := Suc (p1_probePositions p) \<rparr>
         | needleSecretRaw \<Rightarrow>
             if maxMatchesPerScan \<le> p1_rawPositions p then p
             else p\<lparr> p1_secretHits := fmupd i (fmget [] (p1_secretHits p) i @ [stop]) (p1_secretHits p),
                     p1_rawPositions := Suc (p1_rawPositions p) \<rparr>
         | needleSecretEncoded \<Rightarrow>
             if maxMatchesPerScan \<le> p1_encodedPositions p then p
             else p\<lparr> p1_secretHits := fmupd i (fmget [] (p1_secretHits p) i @ [stop]) (p1_secretHits p),
                     p1_encodedPositions := Suc (p1_encodedPositions p) \<rparr>
         | needleSecretFrag \<Rightarrow> p
         | _ \<Rightarrow>
             if \<not> p1_pathGate p \<and> pathNeedleHit body ref stop then p\<lparr> p1_pathGate := True \<rparr> else p)"

definition phase1_init :: "Scanner \<Rightarrow> phase1" where
  "phase1_init s =
     \<lparr> p1_ruleHit = replicate (length (sn_rules s)) False, p1_probeHits = fmempty, p1_secretHits = fmempty,
       p1_probePositions = 0, p1_rawPositions = 0, p1_encodedPositions = 0, p1_pathGate = False \<rparr>"

subsection \<open>Phase 2: claiming in priority order\<close>

fun claim_raw :: "phase1 \<Rightarrow> knownSecretSet list \<Rightarrow> scanState \<Rightarrow> scanState" where
  "claim_raw p [] st = st"
| "claim_raw p (sec # secs) st =
     (if capped st then st
      else claim_raw p secs
             (fold (\<lambda>stop. claim knownSecret (stop - length (ks_raw sec), stop)) (fmget [] (p1_secretHits p) (ks_rawID sec)) st))"

fun claim_encoded :: "phase1 \<Rightarrow> knownSecretSet list \<Rightarrow> scanState \<Rightarrow> scanState" where
  "claim_encoded p [] st = st"
| "claim_encoded p (sec # secs) st =
     (if capped st then st
      else claim_encoded p secs
             (fold (\<lambda>(i, v). fold (\<lambda>stop. claim knownSecretEncoded (stop - length v, stop)) (fmget [] (p1_secretHits p) i))
               (zip (ks_encodedIDs sec) (ks_encoded sec)) st))"

fun claim_rules :: "string \<Rightarrow> phase1 \<Rightarrow> (nat \<times> rule) list \<Rightarrow> scanState \<Rightarrow> scanState" where
  "claim_rules body p [] st = st"
| "claim_rules body p ((i, r) # rs) st =
     (if capped st then st
      else if \<not> p1_ruleHit p ! i then claim_rules body p rs st
      else claim_rules body p rs (claim_stream (ru_name r) (findEach r body 0) st))"

text \<open>One probe: its hits in order, with the span it last looked at.\<close>

fun probe_ends ::
  "Scanner \<Rightarrow> string \<Rightarrow> encodedProbe \<Rightarrow> nat list \<Rightarrow> nat \<times> nat \<Rightarrow> nat \<times> scanState \<Rightarrow> nat \<times> scanState" where
  "probe_ends s body p [] lastSpan ds = ds"
| "probe_ends s body p (stop # ends) lastSpan ds =
     (if maxDecodesPerScan \<le> fst ds then ds
      else
        (let (spanStart, spanEnd) =
               expandSpan body (stop - length (pr_variant p)) stop (if pr_hexForm p then isHexTokenByte else isB64TokenByte)
         in if fst lastSpan \<le> spanStart \<and> spanEnd \<le> snd lastSpan then probe_ends s body p ends lastSpan ds
            else if overlaps (ss_claimed (snd ds)) spanStart spanEnd then probe_ends s body p ends (spanStart, spanEnd) ds
            else
              (let decoded = (if pr_hexForm p then decodeHexSpan (substr body spanStart spanEnd)
                              else decodeB64Span (substr body spanStart spanEnd));
                   st = (case decoded of
                           None \<Rightarrow> snd ds
                         | Some out \<Rightarrow>
                             (case find (\<lambda>ri. findIn (sn_rules s ! ri) out \<noteq> []) (pr_ruleIdxs p) of
                                None \<Rightarrow> snd ds
                              | Some ri \<Rightarrow> claim (ru_name (sn_rules s ! ri)) (spanStart, spanEnd) (snd ds)))
               in probe_ends s body p ends (spanStart, spanEnd) (Suc (fst ds), st))))"

fun claim_probes ::
  "Scanner \<Rightarrow> string \<Rightarrow> phase1 \<Rightarrow> (nat \<times> encodedProbe) list \<Rightarrow> nat \<times> scanState \<Rightarrow> nat \<times> scanState" where
  "claim_probes s body p1 [] ds = ds"
| "claim_probes s body p1 ((i, p) # ps) ds =
     (if capped (snd ds) \<or> maxDecodesPerScan \<le> fst ds then ds
      else claim_probes s body p1 ps (probe_ends s body p (fmget [] (p1_probeHits p1) i) (0, 0) ds))"

function custom_spans :: "customRule \<Rightarrow> string \<Rightarrow> nat \<Rightarrow> (nat \<times> nat) list" where
  "custom_spans c body pos =
     (if length body < pos then []
      else
        (case re_FindSubmatchIndex (cr_re c) (drop pos body) of
           None \<Rightarrow> []
         | Some loc \<Rightarrow>
             (let (ms, me) = fst loc
              in (pos + ms, pos + me) # custom_spans c body (if pos + ms < pos + me then pos + me else pos + ms + 1))))"
  by pat_completeness auto
termination by (relation "measure (\<lambda>(c, body, pos). Suc (length body) - pos)") auto

declare custom_spans.simps [simp del]

fun claim_custom :: "string \<Rightarrow> customRule list \<Rightarrow> scanState \<Rightarrow> scanState" where
  "claim_custom body [] st = st"
| "claim_custom body (c # cs) st =
     (if capped st then st
      else if cr_literal c \<noteq> [] \<and> \<not> Contains body (cr_literal c) then claim_custom body cs st
      else claim_custom body cs (claim_stream (cr_name c) (custom_spans c body 0) st))"

definition phase2 :: "Scanner \<Rightarrow> string \<Rightarrow> phase1 \<Rightarrow> nat \<times> scanState" where
  "phase2 s body p =
     (let st = claim_raw p (sn_secrets s) \<lparr> ss_found = [], ss_claimed = \<lparr> cs_starts = [], cs_ends = [] \<rparr> \<rparr>;
          st = claim_encoded p (sn_secrets s) st;
          st = claim_rules body p (enumerate 0 (sn_rules s)) st;
          (decodes, st) = claim_probes s body p (enumerate 0 (sn_probes s)) (0, st)
      in (decodes, claim_custom body (sn_custom s) st))"

record scanResult =
  sr_found :: "gmatch list"
  sr_decodes :: nat
  sr_phase1 :: phase1
  sr_pathGate :: bool

definition findAllGated :: "Scanner \<Rightarrow> string \<Rightarrow> scanResult option" where
  "findAllGated s body =
     (case ac_search (sn_ac s) body of
        None \<Rightarrow> None
      | Some hits \<Rightarrow>
          (let p = fold (phase1_hit s body) hits (phase1_init s); (decodes, st) = phase2 s body p
           in Some \<lparr> sr_found = ss_found st, sr_decodes = decodes, sr_phase1 = p, sr_pathGate = p1_pathGate p \<rparr>))"

definition findAll :: "Scanner \<Rightarrow> string \<Rightarrow> gmatch list option" where
  "findAll s body = map_option sr_found (findAllGated s body)"

subsection \<open>Results of a scan\<close>

definition matchNames :: "Scanner \<Rightarrow> gmatch list \<Rightarrow> string list" where
  "matchNames s found =
     (let hit = gm_name ` set found
      in (if knownSecret \<in> hit then [knownSecret] else []) @
         (if knownSecretEncoded \<in> hit then [knownSecretEncoded] else []) @
         filter (\<lambda>n. n \<in> hit) (map ru_name (sn_rules s)) @
         filter (\<lambda>n. n \<in> hit) (map cr_name (sn_custom s)))"

definition Scan :: "Scanner \<Rightarrow> string \<Rightarrow> string list option" where
  "Scan s body = map_option (matchNames s) (findAll s body)"

definition RedactPlaceholder :: string where
  "RedactPlaceholder = ''[REDACTED]''"

text \<open>
  The slice expressions panic when a span starts before the position reached (\<open>None\<close>). A stable sort
  stands for \<open>sort.Slice\<close>, which is one up to twelve elements and may order equal starts in any way
  beyond.
\<close>

fun redact_from :: "string \<Rightarrow> nat \<Rightarrow> gmatch list \<Rightarrow> string option" where
  "redact_from body pos [] = (if pos \<le> length body then Some (drop pos body) else None)"
| "redact_from body pos (m # ms) =
     (if pos \<le> gm_start m \<and> gm_start m \<le> length body
      then map_option (\<lambda>rest. substr body pos (gm_start m) @ RedactPlaceholder @ rest) (redact_from body (gm_end m) ms)
      else None)"

definition redactSpans :: "gmatch list \<Rightarrow> string \<Rightarrow> string option" where
  "redactSpans found body = (if found = [] then Some body else redact_from body 0 (sort_key gm_start found))"

definition Redact :: "Scanner \<Rightarrow> string \<Rightarrow> string option" where
  "Redact s body = (case findAll s body of None \<Rightarrow> None | Some found \<Rightarrow> redactSpans found body)"

definition ScanAndRedact :: "Scanner \<Rightarrow> string \<Rightarrow> (string list \<times> string) option" where
  "ScanAndRedact s body =
     (case findAll s body of
        None \<Rightarrow> None
      | Some found \<Rightarrow> map_option (\<lambda>out. (matchNames s found, out)) (redactSpans found body))"

subsection \<open>The known-secret channels\<close>

definition HasKnownSecrets :: "Scanner \<Rightarrow> bool" where
  "HasKnownSecrets s \<longleftrightarrow> sn_secrets s \<noteq> []"

definition MaxKnownNeedleLen :: "Scanner \<Rightarrow> nat" where
  "MaxKnownNeedleLen s = sn_maxKnownNeedle s"

definition known_seen :: "Scanner \<Rightarrow> nat \<times> nat \<Rightarrow> bool \<times> bool \<Rightarrow> bool \<times> bool" where
  "known_seen s hit re =
     (case nr_kind (sn_refs s ! fst hit) of
        needleSecretRaw \<Rightarrow> (True, snd re)
      | needleSecretEncoded \<Rightarrow> (fst re, True)
      | _ \<Rightarrow> re)"

definition ScanKnown :: "Scanner \<Rightarrow> string \<Rightarrow> string list option" where
  "ScanKnown s body =
     (if sn_secrets s = [] then Some []
      else
        (case ac_search (sn_ac s) body of
           None \<Rightarrow> None
         | Some hits \<Rightarrow>
             (let (raw, encoded) = fold (known_seen s) hits (False, False)
              in Some ((if raw then [knownSecret] else []) @ (if encoded then [knownSecretEncoded] else [])))))"

definition maskSecretBytes :: "string \<Rightarrow> string" where
  "maskSecretBytes b =
     (if length b < 8 then ''***''
      else take 4 b @ [CHR 0xE2, CHR 0x80, CHR 0xA6] @ drop (length b - 2) b)"

definition known_needle :: "Scanner \<Rightarrow> needleRef \<Rightarrow> string option" where
  "known_needle s ref =
     (case nr_kind ref of
        needleSecretRaw \<Rightarrow> Some (ks_raw (sn_secrets s ! nr_idx ref))
      | needleSecretEncoded \<Rightarrow> Some (ks_encoded (sn_secrets s ! nr_idx ref) ! nat (nr_vidx ref))
      | _ \<Rightarrow> None)"

fun first_known :: "Scanner \<Rightarrow> string \<Rightarrow> (nat \<times> nat) list \<Rightarrow> string \<times> string \<times> bool" where
  "first_known s body [] = ([], [], False)"
| "first_known s body ((i, stop) # hits) =
     (case known_needle s (sn_refs s ! i) of
        None \<Rightarrow> first_known s body hits
      | Some needle \<Rightarrow>
          (sn_labels s ! nr_idx (sn_refs s ! i), maskSecretBytes (substr body (stop - length needle) stop), True))"

text \<open>\<open>KnownIdentity\<close>; the nil scanner is \<open>None\<close>.\<close>

definition KnownIdentity :: "Scanner option \<Rightarrow> string \<Rightarrow> (string \<times> string \<times> bool) option" where
  "KnownIdentity so body =
     (case so of
        None \<Rightarrow> Some ([], [], False)
      | Some s \<Rightarrow>
          if sn_secrets s = [] then Some ([], [], False)
          else map_option (first_known s body) (ac_search (sn_ac s) body))"

end
