(* ===== verification/Guard_Scanner_Props.thy ===== *)
theory Guard_Scanner_Props
  imports Guard_Scanner
begin

text \<open>
  What the scanner finds. Its prefilter carries every literal of every channel under the id its owner
  knows (\<open>scanner_ok\<close>, established by the constructor), so the exactness of the automaton carries over:
  the known-secret channel reports a configured credential exactly if the body contains it or one of its
  encoded forms, the path gate is that of the scan by literals, and the claimed spans are disjoint
  and meet every occurrence of a known secret.
\<close>

subsection \<open>The prefilter carries every needle\<close>

type_synonym entry = "needleKind \<times> nat \<times> int \<times> string"

fun ref_of :: "entry \<Rightarrow> needleRef" where
  "ref_of (k, i, v, w) = \<lparr> nr_kind = k, nr_idx = i, nr_vidx = v \<rparr>"

abbreviation needle :: "entry \<Rightarrow> string" where
  "needle n \<equiv> snd (snd (snd n))"

definition numbered :: "entry list \<Rightarrow> (string \<times> nat) list" where
  "numbered ns = zip (map needle ns) [0..<length ns]"

definition built :: "refs_builder \<Rightarrow> entry list \<Rightarrow> bool" where
  "built rb ns \<longleftrightarrow>
     fst rb = map ref_of ns \<and> snd rb = fold (\<lambda>(w, i). ac_add w i) (numbered ns) newACBuilder"

lemma numbered_snoc: "numbered (ns @ [n]) = numbered ns @ [(needle n, length ns)]"
  by (simp add: numbered_def)

lemma numbered_mem: "(w, i) \<in> set (numbered ns) \<longleftrightarrow> i < length ns \<and> w = needle (ns ! i)"
  by (auto simp: numbered_def in_set_zip intro!: exI [of _ i])

lemma built_start: "built ([], newACBuilder) []"
  by (simp add: built_def numbered_def)

lemma built_addRef:
  assumes "built rb ns"
  shows "\<exists>rb'. addRef k i v w rb = (length ns, rb') \<and> built rb' (ns @ [(k, i, v, w)])"
proof -
  obtain refs b where "rb = (refs, b)" by fastforce
  then show ?thesis using assms by (auto simp: addRef_def built_def numbered_snoc Let_def)
qed

lemma built_add_refs:
  "built rb ns \<Longrightarrow> \<exists>rb'. add_refs ms rb = ([length ns..<length ns + length ms], rb') \<and> built rb' (ns @ ms)"
proof (induction ms arbitrary: rb ns)
  case (Cons m ms)
  obtain k i v w where m: "m = (k, i, v, w)" by (cases m)
  obtain rb1 where 1: "addRef k i v w rb = (length ns, rb1)" "built rb1 (ns @ [m])"
    using built_addRef [OF Cons.prems] unfolding m by blast
  obtain rb2 where "add_refs ms rb1 = ([length (ns @ [m])..<length (ns @ [m]) + length ms], rb2)"
      "built rb2 ((ns @ [m]) @ ms)" using Cons.IH [OF 1(2)] by blast
  then show ?case using 1(1) by (simp add: m upt_conv_Cons del: upt_Suc)
qed simp

text \<open>What the needles of the secrets say of their owners, the first of which has the index \<open>si\<close>.\<close>

definition secret_entry :: "nat \<Rightarrow> knownSecretSet list \<Rightarrow> nat \<Rightarrow> entry \<Rightarrow> bool" where
  "secret_entry si secs j n \<longleftrightarrow>
     (case n of (k, i, v, w) \<Rightarrow>
        si \<le> i \<and> i < si + length secs \<and>
        (let sec = secs ! (i - si)
         in (k = needleSecretRaw \<and> ks_rawID sec = j \<and> w = ks_raw sec) \<or>
            (k = needleSecretEncoded \<and> 0 \<le> v \<and> nat v < length (ks_encoded sec) \<and> ks_encodedIDs sec ! nat v = j \<and>
             w = ks_encoded sec ! nat v) \<or>
            (k = needleSecretFrag \<and> 0 \<le> v \<and> nat v + minKnownFrag \<le> length (ks_raw sec) \<and>
             w = substr (ks_raw sec) (nat v) (nat v + minKnownFrag))))"

definition secret_carried :: "entry list \<Rightarrow> nat \<Rightarrow> knownSecretSet \<Rightarrow> bool" where
  "secret_carried ns i sec \<longleftrightarrow>
     ks_rawID sec < length ns \<and> ns ! ks_rawID sec = (needleSecretRaw, i, -1, ks_raw sec) \<and>
     length (ks_encodedIDs sec) = length (ks_encoded sec) \<and>
     (\<forall>vi<length (ks_encoded sec). ks_encodedIDs sec ! vi < length ns \<and>
        ns ! (ks_encodedIDs sec ! vi) = (needleSecretEncoded, i, int vi, ks_encoded sec ! vi))"

lemma secret_carried_append: "secret_carried ns i sec \<Longrightarrow> secret_carried (ns @ ms) i sec"
  by (auto simp: secret_carried_def nth_append)

lemma secret_entry_Cons: "secret_entry (Suc si) secs j n \<Longrightarrow> secret_entry si (sec # secs) j n"
  by (auto simp: secret_entry_def nth_Cons' Let_def Suc_diff_le split: prod.splits)

lemma compile_secret_built:
  assumes "built rb ns" "compile_secret si sec (budget, rb) = (sec', budget', rb')"
  shows "\<exists>ms. built rb' (ns @ ms) \<and> ks_raw sec' = ks_raw sec \<and> ks_encoded sec' = ks_encoded sec \<and>
    secret_carried (ns @ ms) si sec' \<and>
    (\<forall>j. length ns \<le> j \<longrightarrow> j < length (ns @ ms) \<longrightarrow> secret_entry si (sec' # rest) j ((ns @ ms) ! j))"
proof -
  let ?raw = "(needleSecretRaw, si, -1 :: int, ks_raw sec)"
  let ?enc = "map (\<lambda>(vi, v). (needleSecretEncoded, si, int vi, v)) (enumerate 0 (ks_encoded sec))"
  obtain rb1 where 1: "addRef needleSecretRaw si (-1) (ks_raw sec) rb = (length ns, rb1)" "built rb1 (ns @ [?raw])"
    using built_addRef [OF assms(1)] by blast
  define go where "go \<longleftrightarrow> 2 * minKnownFrag \<le> length (ks_raw sec) \<and> length (ks_raw sec) - minKnownFrag + 1 \<le> budget"
  define fr where "fr = (if go then frag_needles si (ks_raw sec) else [])"
  define rb2 where "rb2 = (if go then snd (add_refs (frag_needles si (ks_raw sec)) rb1) else rb1)"
  have 2: "built rb2 (ns @ ?raw # fr)"
    using built_add_refs [OF 1(2), of "frag_needles si (ks_raw sec)"] 1(2) by (auto simp: rb2_def fr_def)
  define n where "n = length (ns @ ?raw # fr)"
  obtain rb3 where 3: "add_refs ?enc rb2 = ([n..<n + length ?enc], rb3)" "built rb3 ((ns @ ?raw # fr) @ ?enc)"
    using built_add_refs [OF 2] unfolding n_def by blast
  have eq: "compile_secret si sec (budget, rb) =
      (sec\<lparr> ks_rawID := length ns, ks_encodedIDs := [n..<n + length (ks_encoded sec)] \<rparr>,
       (if go then budget - (length (ks_raw sec) - minKnownFrag + 1) else budget), rb3)"
  proof (cases go)
    case True
    then have "compile_secret si sec (budget, rb) =
        (let (ids, rb) = add_refs ?enc rb2
         in (sec\<lparr> ks_rawID := length ns, ks_encodedIDs := ids \<rparr>, budget - (length (ks_raw sec) - minKnownFrag + 1), rb))"
      using 1(1) unfolding compile_secret_def rb2_def go_def by (simp only: Let_def prod.case if_True simp_thms)
    then show ?thesis using 3(1) True by simp
  next
    case False
    then have "compile_secret si sec (budget, rb) =
        (let (ids, rb) = add_refs ?enc rb2 in (sec\<lparr> ks_rawID := length ns, ks_encodedIDs := ids \<rparr>, budget, rb))"
      using 1(1) unfolding compile_secret_def rb2_def go_def by (simp only: Let_def prod.case if_False)
    then show ?thesis using 3(1) False by simp
  qed
  then have sec': "sec' = sec\<lparr> ks_rawID := length ns, ks_encodedIDs := [n..<n + length (ks_encoded sec)] \<rparr>" "rb' = rb3"
    using assms(2) by simp_all
  have enc_nth: "?enc ! vi = (needleSecretEncoded, si, int vi, ks_encoded sec ! vi)" if "vi < length (ks_encoded sec)" for vi
    using that by (simp add: nth_enumerate_eq)
  let ?ms = "?raw # fr @ ?enc"
  have nms: "ns @ ?ms = (ns @ ?raw # fr) @ ?enc" by simp
  have at_enc: "(ns @ ?ms) ! (n + vi) = (needleSecretEncoded, si, int vi, ks_encoded sec ! vi)"
    if "vi < length (ks_encoded sec)" for vi
    unfolding nms n_def nth_append_length_plus using enc_nth [OF that] .
  have len: "length (ns @ ?ms) = n + length (ks_encoded sec)" by (simp add: n_def)
  have carried: "secret_carried (ns @ ?ms) si sec'"
  proof -
    have "length ns < length (ns @ ?ms)" "(ns @ ?ms) ! length ns = ?raw" by simp_all
    moreover have "\<forall>vi<length (ks_encoded sec). [n..<n + length (ks_encoded sec)] ! vi = n + vi" by simp
    ultimately show ?thesis unfolding secret_carried_def using at_enc len by (simp add: sec' del: upt_Suc)
  qed
  have "secret_entry si (sec' # rest) j ((ns @ ?ms) ! j)" if j: "length ns \<le> j" "j < length (ns @ ?ms)" for j
  proof -
    consider "j = length ns" | "length ns < j" "j < n" | vi where "j = n + vi" "vi < length (ks_encoded sec)"
      using j len by (metis add_less_cancel_left le_add_diff_inverse le_neq_implies_less not_less)
    then show ?thesis
    proof cases
      case 1
      then show ?thesis by (simp add: secret_entry_def sec')
    next
      case 2
      define k where "k = j - length ns - 1"
      have k: "k < length fr" "(ns @ ?ms) ! j = fr ! k"
        using 2 by (auto simp: k_def n_def nth_append nth_Cons')
      then have go: "go" "fr = frag_needles si (ks_raw sec)" by (auto simp: fr_def split: if_splits)
      then have "fr ! k = (needleSecretFrag, si, int k, substr (ks_raw sec) k (k + minKnownFrag))"
        "k + minKnownFrag \<le> length (ks_raw sec)"
        using k(1) by (auto simp: frag_needles_def go_def minKnownFrag_def simp del: upt_Suc)
      then show ?thesis unfolding k(2) by (simp add: secret_entry_def sec')
    next
      case (3 vi)
      then show ?thesis using at_enc by (simp add: secret_entry_def sec')
    qed
  qed
  then show ?thesis using 3(2) carried by (intro exI [of _ ?ms]) (simp add: sec')
qed

lemma compile_secrets_built:
  "built (snd st) ns \<Longrightarrow> compile_secrets si secs st = (secs', rb') \<Longrightarrow>
   \<exists>ms. built rb' (ns @ ms) \<and> map ks_raw secs' = map ks_raw secs \<and> map ks_encoded secs' = map ks_encoded secs \<and>
     (\<forall>k<length secs'. secret_carried (ns @ ms) (si + k) (secs' ! k)) \<and>
     (\<forall>j. length ns \<le> j \<longrightarrow> j < length (ns @ ms) \<longrightarrow> secret_entry si secs' j ((ns @ ms) ! j))"
proof (induction si secs st arbitrary: ns secs' rule: compile_secrets.induct)
  case (1 si st)
  then show ?case by (intro exI [of _ "[]"]) auto
next
  case (2 si sec secs st)
  obtain budget rb where st: "st = (budget, rb)" by (cases st)
  obtain sec1 budget1 rb1 where c: "compile_secret si sec (budget, rb) = (sec1, budget1, rb1)" by (metis prod_cases3)
  obtain secs1 rb2 where r: "compile_secrets (Suc si) secs (budget1, rb1) = (secs1, rb2)"
    by (cases "compile_secrets (Suc si) secs (budget1, rb1)")
  have res: "secs' = sec1 # secs1" "rb' = rb2" using 2(3) c r by (simp_all add: st)
  have b: "built rb ns" using 2(2) by (simp add: st)
  obtain ms where ms: "built rb1 (ns @ ms)" "ks_raw sec1 = ks_raw sec" "ks_encoded sec1 = ks_encoded sec"
      "secret_carried (ns @ ms) si sec1"
      "\<forall>j. length ns \<le> j \<longrightarrow> j < length (ns @ ms) \<longrightarrow> secret_entry si (sec1 # secs1) j ((ns @ ms) ! j)"
    using compile_secret_built [OF b c] by blast
  have "\<exists>ms2. built rb2 ((ns @ ms) @ ms2) \<and> map ks_raw secs1 = map ks_raw secs \<and>
      map ks_encoded secs1 = map ks_encoded secs \<and>
      (\<forall>k<length secs1. secret_carried ((ns @ ms) @ ms2) (Suc si + k) (secs1 ! k)) \<and>
      (\<forall>j. length (ns @ ms) \<le> j \<longrightarrow> j < length ((ns @ ms) @ ms2) \<longrightarrow> secret_entry (Suc si) secs1 j (((ns @ ms) @ ms2) ! j))"
    using 2(1) [of "(sec1, budget1, rb1)" sec1 "(budget1, rb1)" "ns @ ms" secs1] c r ms(1) res by (simp add: st)
  then obtain ms2 where m2: "built rb2 ((ns @ ms) @ ms2)" "map ks_raw secs1 = map ks_raw secs"
      "map ks_encoded secs1 = map ks_encoded secs"
      "\<forall>k<length secs1. secret_carried ((ns @ ms) @ ms2) (Suc si + k) (secs1 ! k)"
      "\<forall>j. length (ns @ ms) \<le> j \<longrightarrow> j < length ((ns @ ms) @ ms2) \<longrightarrow> secret_entry (Suc si) secs1 j (((ns @ ms) @ ms2) ! j)"
    by blast
  have all: "ns @ ms @ ms2 = (ns @ ms) @ ms2" by simp
  have carried: "secret_carried (ns @ ms @ ms2) (si + k) (secs' ! k)" if "k < length secs'" for k
    unfolding all res using that ms(4) m2(4) secret_carried_append [of "ns @ ms" si sec1 ms2] by (cases k) (auto simp: res)
  have entry: "secret_entry si secs' j ((ns @ ms @ ms2) ! j)" if j: "length ns \<le> j" "j < length (ns @ ms @ ms2)" for j
  proof (cases "j < length (ns @ ms)")
    case True
    then show ?thesis using ms(5) j unfolding all res by (simp only: nth_append if_True)
  next
    case False
    then show ?thesis using m2(5) j unfolding all res by (intro secret_entry_Cons) simp
  qed
  show ?case using m2(1-3) ms(2,3) carried entry unfolding res by (intro exI [of _ "ms @ ms2"]) simp
qed

definition entry_ok :: "Scanner \<Rightarrow> nat \<Rightarrow> entry \<Rightarrow> bool" where
  "entry_ok s j n \<longleftrightarrow>
     n \<in> set (rule_needles (sn_rules s)) \<or> n \<in> set (probe_needles (sn_probes s)) \<or> n \<in> set path_needles \<or>
     n \<in> set (extra_needles (sn_extraPaths s)) \<or> secret_entry 0 (sn_secrets s) j n"

definition prefilter_of :: "Scanner \<Rightarrow> entry list \<Rightarrow> bool" where
  "prefilter_of s ns \<longleftrightarrow>
     sn_refs s = map ref_of ns \<and> ac_build (numbered ns) = Some (sn_ac s) \<and> (\<forall>n\<in>set ns. needle n \<noteq> []) \<and>
     (\<forall>i<length (sn_secrets s). secret_carried ns i (sn_secrets s ! i)) \<and>
     (\<forall>j<length ns. entry_ok s j (ns ! j)) \<and>
     set (rule_needles (sn_rules s)) \<union> set path_needles \<union> set (extra_needles (sn_extraPaths s)) \<subseteq> set ns"

text \<open>The embedded table as it is checked when it is loaded: every rule has literals, none empty.\<close>

definition table_ok :: "rule list \<Rightarrow> bool" where
  "table_ok rules \<longleftrightarrow> (\<forall>r\<in>set rules. ru_literals r \<noteq> [] \<and> (\<forall>lit\<in>set (ru_literals r). lit \<noteq> []))"

definition needles_ok :: "Scanner \<Rightarrow> bool" where
  "needles_ok s \<longleftrightarrow>
     table_ok (sn_rules s) \<and> (\<forall>p\<in>set (sn_probes s). pr_variant p \<noteq> []) \<and>
     (\<forall>sec\<in>set (sn_secrets s). ks_raw sec \<noteq> [] \<and> (\<forall>v\<in>set (ks_encoded sec). v \<noteq> [])) \<and>
     (\<forall>p\<in>set (sn_extraPaths s). p \<noteq> [])"

lemma set_enumerate_nth: "(i, x) \<in> set (enumerate 0 xs) \<longleftrightarrow> i < length xs \<and> x = xs ! i"
  by (auto simp: in_set_enumerate_eq)

lemma concat_map_pair: "x \<in> set (concat (map (\<lambda>(i, p). f i p) ps)) \<longleftrightarrow> (\<exists>i p. (i, p) \<in> set ps \<and> x \<in> set (f i p))"
  by auto

lemma map_pair: "x \<in> set (map (\<lambda>(i, p). g i p) ps) \<longleftrightarrow> (\<exists>i p. (i, p) \<in> set ps \<and> x = g i p)"
  by auto

lemma rule_needles_mem:
  "(k, i, v, w) \<in> set (rule_needles rules) \<longleftrightarrow>
     k = needleRuleLiteral \<and> v = -1 \<and> i < length rules \<and> w \<in> set (ru_literals (rules ! i))"
proof -
  have "(k, i, v, w) \<in> set (rule_needles rules) \<longleftrightarrow>
      (\<exists>j r. (j, r) \<in> set (enumerate 0 rules) \<and> (k, i, v, w) \<in> (\<lambda>lit. (needleRuleLiteral, j, -1, lit)) ` set (ru_literals r))"
    unfolding rule_needles_def by auto
  then show ?thesis unfolding set_enumerate_nth by auto
qed

lemma probe_needles_mem:
  "(k, i, v, w) \<in> set (probe_needles probes) \<longleftrightarrow>
     k = needleProbe \<and> v = -1 \<and> i < length probes \<and> w = pr_variant (probes ! i)"
proof -
  have "(k, i, v, w) \<in> set (probe_needles probes) \<longleftrightarrow>
      (\<exists>j p. (j, p) \<in> set (enumerate 0 probes) \<and> (k, i, v, w) = (needleProbe, j, -1, pr_variant p))"
    unfolding probe_needles_def by auto
  then show ?thesis unfolding set_enumerate_nth by auto
qed

lemma path_needles_mem:
  "(k, i, v, w) \<in> set path_needles \<longleftrightarrow>
     k = needlePath \<and> 0 \<le> v \<and> i < length builtinPaths \<and> nat v < length (pa_literals (builtinPaths ! i)) \<and>
     w = pa_literals (builtinPaths ! i) ! nat v"
proof -
  have "(k, i, v, w) \<in> set path_needles \<longleftrightarrow>
      (\<exists>j p. (j, p) \<in> set (enumerate 0 builtinPaths) \<and>
        (\<exists>li lit. (li, lit) \<in> set (enumerate 0 (pa_literals p)) \<and> (k, i, v, w) = (needlePath, j, int li, lit)))"
    unfolding path_needles_def concat_map_pair map_pair ..
  also have "\<dots> \<longleftrightarrow> (\<exists>li. k = needlePath \<and> v = int li \<and> i < length builtinPaths \<and>
      li < length (pa_literals (builtinPaths ! i)) \<and> w = pa_literals (builtinPaths ! i) ! li)"
    unfolding set_enumerate_nth by auto
  also have "\<dots> \<longleftrightarrow> k = needlePath \<and> 0 \<le> v \<and> i < length builtinPaths \<and>
      nat v < length (pa_literals (builtinPaths ! i)) \<and> w = pa_literals (builtinPaths ! i) ! nat v"
    by (metis int_nat_eq nat_int of_nat_0_le_iff)
  finally show ?thesis .
qed

lemma extra_needles_mem:
  "(k, i, v, w) \<in> set (extra_needles ps) \<longleftrightarrow> k = needlePathExtra \<and> v = -1 \<and> i < length ps \<and> w = ps ! i"
proof -
  have "(k, i, v, w) \<in> set (extra_needles ps) \<longleftrightarrow>
      (\<exists>j p. (j, p) \<in> set (enumerate 0 ps) \<and> (k, i, v, w) = (needlePathExtra, j, -1, p))"
    unfolding extra_needles_def by auto
  then show ?thesis unfolding set_enumerate_nth by auto
qed

lemma secret_entry_nonempty:
  assumes "secret_entry 0 secs j (k, i, v, w)"
    "\<forall>sec\<in>set secs. ks_raw sec \<noteq> [] \<and> (\<forall>v\<in>set (ks_encoded sec). v \<noteq> [])"
  shows "w \<noteq> []"
proof -
  have "i < length secs" using assms(1) by (simp add: secret_entry_def)
  then have "ks_raw (secs ! i) \<noteq> []" "\<forall>v\<in>set (ks_encoded (secs ! i)). v \<noteq> []" using assms(2) by auto
  then have "u < length (ks_encoded (secs ! i)) \<Longrightarrow> [] \<noteq> ks_encoded (secs ! i) ! u" "[] \<noteq> ks_raw (secs ! i)" for u
    by (metis nth_mem)+
  then show ?thesis using assms(1) by (auto simp: secret_entry_def Let_def substr_def minKnownFrag_def)
qed

lemma entry_nonempty:
  assumes ok: "needles_ok s" and entry: "entry_ok s j n"
  shows "needle n \<noteq> []"
proof -
  obtain k i v w where n: "n = (k, i, v, w)" by (cases n)
  consider "(k, i, v, w) \<in> set (rule_needles (sn_rules s))" | "(k, i, v, w) \<in> set (probe_needles (sn_probes s))"
    | "(k, i, v, w) \<in> set path_needles" | "(k, i, v, w) \<in> set (extra_needles (sn_extraPaths s))"
    | "secret_entry 0 (sn_secrets s) j (k, i, v, w)"
    using entry by (auto simp: entry_ok_def n)
  then have "w \<noteq> []"
  proof cases
    case 3
    then have "builtinPaths ! i \<in> set builtinPaths" "w \<in> set (pa_literals (builtinPaths ! i))"
      unfolding path_needles_mem by simp_all
    then show ?thesis by (rule builtin_literals_nonempty)
  next
    case 5
    then show ?thesis by (rule secret_entry_nonempty) (use ok in \<open>simp add: needles_ok_def\<close>)
  next
    case 1
    then have "sn_rules s ! i \<in> set (sn_rules s)" "w \<in> set (ru_literals (sn_rules s ! i))"
      by (simp_all add: rule_needles_mem)
    then show ?thesis using ok unfolding needles_ok_def table_ok_def by blast
  next
    case 2
    then have "sn_probes s ! i \<in> set (sn_probes s)" "w = pr_variant (sn_probes s ! i)"
      by (simp_all add: probe_needles_mem)
    moreover have "\<forall>p\<in>set (sn_probes s). pr_variant p \<noteq> []" using ok by (simp add: needles_ok_def)
    ultimately show ?thesis by simp
  next
    case 4
    then have "i < length (sn_extraPaths s)" "w = sn_extraPaths s ! i" by (simp_all add: extra_needles_mem)
    then have "w \<in> set (sn_extraPaths s)" by simp
    moreover have "\<forall>p\<in>set (sn_extraPaths s). p \<noteq> []" using ok by (simp add: needles_ok_def)
    ultimately show ?thesis by simp
  qed
  then show ?thesis by (simp add: n)
qed

lemma needles_ok_secrets:
  assumes "needles_ok s" "map ks_raw secs = map ks_raw (sn_secrets s)" "map ks_encoded secs = map ks_encoded (sn_secrets s)"
  shows "needles_ok (s\<lparr> sn_secrets := secs \<rparr>)"
proof -
  have "ks_raw sec \<noteq> [] \<and> (\<forall>v\<in>set (ks_encoded sec). v \<noteq> [])" if "sec \<in> set secs" for sec
  proof -
    have "ks_raw sec \<in> ks_raw ` set (sn_secrets s)" "ks_encoded sec \<in> ks_encoded ` set (sn_secrets s)"
      using that assms(2,3) by (metis image_eqI list.set_map)+
    then obtain x y where "ks_raw sec = ks_raw x" "x \<in> set (sn_secrets s)" "ks_encoded sec = ks_encoded y"
        "y \<in> set (sn_secrets s)" by blast
    then show ?thesis using assms(1) unfolding needles_ok_def by metis
  qed
  then show ?thesis using assms(1) by (simp add: needles_ok_def)
qed

lemma compilePrefilter_ok:
  assumes "needles_ok s"
  shows "\<exists>secs m refs ns. compilePrefilter s = Some (s\<lparr> sn_secrets := secs, sn_ac := m, sn_refs := refs \<rparr>) \<and>
    map ks_raw secs = map ks_raw (sn_secrets s) \<and> map ks_encoded secs = map ks_encoded (sn_secrets s) \<and>
    prefilter_of (s\<lparr> sn_secrets := secs, sn_ac := m, sn_refs := refs \<rparr>) ns"
proof -
  let ?n1 = "rule_needles (sn_rules s)" and ?n2 = "probe_needles (sn_probes s)"
    and ?n4 = "path_needles" and ?n5 = "extra_needles (sn_extraPaths s)"
  obtain rb1 where 1: "snd (add_refs ?n1 ([], newACBuilder)) = rb1" "built rb1 ?n1"
    using built_add_refs [OF built_start, of ?n1] by auto
  obtain rb2 where 2: "snd (add_refs ?n2 rb1) = rb2" "built rb2 (?n1 @ ?n2)"
    using built_add_refs [OF 1(2), of ?n2] by auto
  obtain secs rb3 where 3: "compile_secrets 0 (sn_secrets s) (maxFragNeedles, rb2) = (secs, rb3)"
    by (cases "compile_secrets 0 (sn_secrets s) (maxFragNeedles, rb2)")
  obtain n3 where n3: "built rb3 ((?n1 @ ?n2) @ n3)" "map ks_raw secs = map ks_raw (sn_secrets s)"
      "map ks_encoded secs = map ks_encoded (sn_secrets s)"
      "\<forall>k<length secs. secret_carried ((?n1 @ ?n2) @ n3) (0 + k) (secs ! k)"
      "\<forall>j. length (?n1 @ ?n2) \<le> j \<longrightarrow> j < length ((?n1 @ ?n2) @ n3) \<longrightarrow> secret_entry 0 secs j (((?n1 @ ?n2) @ n3) ! j)"
    using compile_secrets_built [OF _ 3, unfolded snd_conv, OF 2(2)] by (elim exE conjE) (rule that)
  obtain rb4 where 4: "snd (add_refs ?n4 rb3) = rb4" "built rb4 (((?n1 @ ?n2) @ n3) @ ?n4)"
    using built_add_refs [OF n3(1), of ?n4] by auto
  obtain rb5 where 5: "snd (add_refs ?n5 rb4) = rb5" "built rb5 ((((?n1 @ ?n2) @ n3) @ ?n4) @ ?n5)"
    using built_add_refs [OF 4(2), of ?n5] by auto
  define ns where "ns = (((?n1 @ ?n2) @ n3) @ ?n4) @ ?n5"
  define refs where "refs = map ref_of ns"
  have ns_split: "ns = ((?n1 @ ?n2) @ n3) @ (?n4 @ ?n5)" by (simp add: ns_def)
  have compile: "compilePrefilter s = map_option (\<lambda>m. s\<lparr> sn_secrets := secs, sn_ac := m, sn_refs := refs \<rparr>) (ac_build (numbered ns))"
    using 1(1) 2(1) 3 4(1) 5 unfolding compilePrefilter_def Let_def
    by (simp add: case_prod_beta ac_build_def built_def refs_def ns_def)
  define s0 where "s0 = s\<lparr> sn_secrets := secs \<rparr>"
  have ok0: "needles_ok s0" unfolding s0_def by (rule needles_ok_secrets [OF assms n3(2,3)])
  have entry: "entry_ok s0 j (ns ! j)" if j: "j < length ns" for j
  proof (cases "length (?n1 @ ?n2) \<le> j \<and> j < length ((?n1 @ ?n2) @ n3)")
    case True
    then have "secret_entry 0 secs j (((?n1 @ ?n2) @ n3) ! j)" using n3(5) by blast
    moreover have "ns ! j = ((?n1 @ ?n2) @ n3) ! j"
      unfolding ns_split using True by (simp only: nth_append if_True)
    ultimately show ?thesis by (simp add: entry_ok_def s0_def)
  next
    case False
    then consider "j < length (?n1 @ ?n2)" | "length ((?n1 @ ?n2) @ n3) \<le> j" by linarith
    then have "ns ! j \<in> set ?n1 \<union> set ?n2 \<union> set ?n4 \<union> set ?n5"
    proof cases
      case 1
      moreover have "ns = (?n1 @ ?n2) @ (n3 @ ?n4 @ ?n5)" by (simp add: ns_def)
      ultimately have "ns ! j = (?n1 @ ?n2) ! j" by (simp only: nth_append [of "?n1 @ ?n2"] if_True)
      then show ?thesis using nth_mem [OF 1] by auto
    next
      case 2
      define k where "k = j - length ((?n1 @ ?n2) @ n3)"
      have "\<not> j < length ((?n1 @ ?n2) @ n3)" using 2 by linarith
      then have "ns ! j = (?n4 @ ?n5) ! k"
        unfolding ns_split k_def nth_append [of "(?n1 @ ?n2) @ n3"] by (simp only: if_False)
      moreover have "k < length (?n4 @ ?n5)" using 2 j unfolding ns_split k_def length_append by linarith
      ultimately show ?thesis using nth_mem [of k "?n4 @ ?n5"] by auto
    qed
    then show ?thesis by (auto simp: entry_ok_def s0_def)
  qed
  have nonempty: "\<forall>n\<in>set ns. needle n \<noteq> []"
    using entry entry_nonempty [OF ok0] by (metis in_set_conv_nth)
  then have "\<forall>p\<in>set (numbered ns). fst p \<noteq> []" by (auto simp: numbered_mem)
  then obtain m where m: "ac_build (numbered ns) = Some m" using ac.total by blast
  have "secret_carried ns k (secs ! k)" if "k < length secs" for k
    unfolding ns_split by (rule secret_carried_append) (use n3(4) that in simp)
  then have "prefilter_of (s\<lparr> sn_secrets := secs, sn_ac := m, sn_refs := refs \<rparr>) ns"
    using m nonempty entry unfolding prefilter_of_def by (auto simp: refs_def entry_ok_def s0_def ns_def)
  then show ?thesis using compile m n3(2,3) by auto
qed

subsection \<open>The constructor\<close>

text \<open>The secrets that enter the scan set: long enough, the first of each value.\<close>

fun accepted :: "KnownSecret list \<Rightarrow> string set \<Rightarrow> KnownSecret list" where
  "accepted [] seen = []"
| "accepted (k # ks) seen =
     (if length (kn_Value k) < minSecretLen \<or> kn_Value k \<in> seen then accepted ks seen
      else k # accepted ks (insert (kn_Value k) seen))"

lemma accepted_values: "kn_Value ` set (accepted ks seen) = {v \<in> kn_Value ` set ks. minSecretLen \<le> length v} - seen"
  by (induction ks arbitrary: seen) auto

definition longest_variant :: "bool \<Rightarrow> nat \<Rightarrow> KnownSecret \<Rightarrow> nat" where
  "longest_variant dec m k =
     (let ks = buildSecretSet (kn_Value k) dec
      in foldl (\<lambda>m v. if m < length v then length v else m)
           (if m < length (ks_raw ks) then length (ks_raw ks) else m) (ks_encoded ks))"

lemma add_secrets_eq:
  "add_secrets dec ks seen s =
     s\<lparr> sn_maxKnownNeedle := foldl (longest_variant dec) (sn_maxKnownNeedle s) (accepted ks seen),
        sn_secrets := sn_secrets s @ map (\<lambda>k. buildSecretSet (kn_Value k) dec) (accepted ks seen),
        sn_labels := sn_labels s @ map kn_Label (accepted ks seen) \<rparr>"
  by (induction ks arbitrary: seen s) (simp_all add: longest_variant_def Let_def)

lemma foldl_longest: "foldl (\<lambda>m v. if m < length v then length v else m) m vs = Max (insert m (length ` set vs))"
proof (induction vs arbitrary: m)
  case (Cons v vs)
  have "Max (insert (max m (length v)) (length ` set vs)) = Max (insert m (insert (length v) (length ` set vs)))"
  proof (cases "vs = []")
    case False
    then show ?thesis by (simp add: max.assoc)
  qed simp
  moreover have "(if m < length v then length v else m) = max m (length v)" by simp
  ultimately show ?case by (simp only: foldl_Cons Cons.IH list.set image_insert)
qed simp

lemma longest_variant_ge:
  "m \<le> longest_variant dec m k" "length (kn_Value k) \<le> longest_variant dec m k"
  "v \<in> set (ks_encoded (buildSecretSet (kn_Value k) dec)) \<Longrightarrow> length v \<le> longest_variant dec m k"
  unfolding longest_variant_def Let_def foldl_longest by (auto simp: buildSecretSet_def intro!: Max_ge_iff [THEN iffD2])

lemma longest_bound:
  "m \<le> foldl (longest_variant dec) m ks \<and>
   (\<forall>k\<in>set ks. length (kn_Value k) \<le> foldl (longest_variant dec) m ks \<and>
      (\<forall>v\<in>set (ks_encoded (buildSecretSet (kn_Value k) dec)). length v \<le> foldl (longest_variant dec) m ks))"
proof (induction ks arbitrary: m)
  case (Cons k ks)
  have m: "m \<le> longest_variant dec m k" "length (kn_Value k) \<le> longest_variant dec m k"
    "\<And>v. v \<in> set (ks_encoded (buildSecretSet (kn_Value k) dec)) \<Longrightarrow> length v \<le> longest_variant dec m k"
    by (rule longest_variant_ge | assumption)+
  have ih: "longest_variant dec m k \<le> foldl (longest_variant dec) (longest_variant dec m k) ks" using Cons by blast
  show ?case using Cons [of "longest_variant dec m k"] m le_trans [OF _ ih] by (auto intro: le_trans)
qed simp

lemma set_add_paths:
  "(\<forall>p\<in>set acc. p \<noteq> []) \<Longrightarrow> p \<in> set (add_paths ps seen acc) \<Longrightarrow> p \<noteq> []"
  by (induction ps seen acc rule: add_paths.induct) (auto simp: Let_def split: if_splits)

text \<open>
  What a constructed scanner is: its prefilter carries every needle, its secrets are the variants of the
  accepted values, no variant is longer than the advertised bound.
\<close>

definition scanner_for :: "bool \<Rightarrow> KnownSecret list \<Rightarrow> Scanner \<Rightarrow> entry list \<Rightarrow> bool" where
  "scanner_for dec secrets s ns \<longleftrightarrow>
     prefilter_of s ns \<and> needles_ok s \<and>
     map ks_raw (sn_secrets s) = map kn_Value (accepted secrets {}) \<and>
     map ks_encoded (sn_secrets s) = map (\<lambda>k. ks_encoded (buildSecretSet (kn_Value k) dec)) (accepted secrets {}) \<and>
     sn_labels s = map kn_Label (accepted secrets {}) \<and>
     (\<forall>sec\<in>set (sn_secrets s). minSecretLen \<le> length (ks_raw sec) \<and> length (ks_raw sec) \<le> MaxKnownNeedleLen s \<and>
        (\<forall>v\<in>set (ks_encoded sec). length v \<le> MaxKnownNeedleLen s))"

lemma NewScanner_for:
  assumes table: "table_ok rules" and custom: "add_custom custom {} [] = Inr cs"
  shows "\<exists>s ns. NewScannerWithOptions rules custom secrets extraPaths dec = Some (Inr s) \<and>
    scanner_for dec secrets s ns \<and> sn_rules s = rules \<and> sn_custom s = cs \<and>
    sn_extraPaths s = add_paths extraPaths {} [] \<and>
    sn_probes s = (if dec then buildProbes (map ru_literals rules) else [])"
proof -
  let ?acc = "accepted secrets {}"
  define s0 where "s0 =
    (add_secrets dec secrets {}
       \<lparr> sn_rules = rules, sn_probes = (if dec then buildProbes (map ru_literals rules) else []),
         sn_custom = cs, sn_secrets = [], sn_labels = [], sn_extraPaths = [], sn_maxKnownNeedle = 0,
         sn_ac = \<lparr> mt_nodes = [], mt_root = (\<lambda>_. 0) \<rparr>, sn_refs = [] \<rparr>)
    \<lparr> sn_extraPaths := add_paths extraPaths {} [] \<rparr>"
  define mx where "mx = foldl (longest_variant dec) 0 ?acc"
  have f: "sn_rules s0 = rules" "sn_custom s0 = cs" "sn_extraPaths s0 = add_paths extraPaths {} []"
    "sn_probes s0 = (if dec then buildProbes (map ru_literals rules) else [])"
    "sn_secrets s0 = map (\<lambda>k. buildSecretSet (kn_Value k) dec) ?acc" "sn_labels s0 = map kn_Label ?acc"
    "sn_maxKnownNeedle s0 = mx"
    by (simp_all add: s0_def add_secrets_eq mx_def)
  have len: "minSecretLen \<le> length (kn_Value k)" if "k \<in> set ?acc" for k
    using that accepted_values [of secrets "{}"] by blast
  have raw: "ks_raw (buildSecretSet v dec) = v" for v by (simp add: buildSecretSet_def)
  have probes: "\<forall>p\<in>set (sn_probes s0). pr_variant p \<noteq> []"
    using buildProbes_nonempty [of "map ru_literals rules"] table unfolding f(4) table_ok_def by auto
  have "needles_ok s0"
    unfolding needles_ok_def
  proof (intro conjI)
    show "\<forall>sec\<in>set (sn_secrets s0). ks_raw sec \<noteq> [] \<and> (\<forall>v\<in>set (ks_encoded sec). v \<noteq> [])"
    proof
      fix sec assume "sec \<in> set (sn_secrets s0)"
      then obtain k where k: "k \<in> set ?acc" "sec = buildSecretSet (kn_Value k) dec" unfolding f(5) by auto
      then have "kn_Value k \<noteq> []" using len [OF k(1)] by (auto simp: minSecretLen_def)
      then show "ks_raw sec \<noteq> [] \<and> (\<forall>v\<in>set (ks_encoded sec). v \<noteq> [])"
        using ks_encoded_nonempty unfolding k(2) raw by blast
    qed
    show "\<forall>p\<in>set (sn_extraPaths s0). p \<noteq> []" unfolding f(3) using set_add_paths [of "[]"] by simp
  qed (use table probes f in simp_all)
  note ok = this
  from compilePrefilter_ok [OF ok] obtain secs m refs ns where
    c: "compilePrefilter s0 = Some (s0\<lparr> sn_secrets := secs, sn_ac := m, sn_refs := refs \<rparr>)"
      "map ks_raw secs = map ks_raw (sn_secrets s0)" "map ks_encoded secs = map ks_encoded (sn_secrets s0)"
      "prefilter_of (s0\<lparr> sn_secrets := secs, sn_ac := m, sn_refs := refs \<rparr>) ns" by blast
  define s where "s = s0\<lparr> sn_secrets := secs, sn_ac := m, sn_refs := refs \<rparr>"
  have g: "sn_rules s = rules" "sn_custom s = cs" "sn_extraPaths s = add_paths extraPaths {} []" "sn_secrets s = secs"
    "sn_labels s = map kn_Label ?acc" "MaxKnownNeedleLen s = mx"
    "sn_probes s = (if dec then buildProbes (map ru_literals rules) else [])"
    using f by (simp_all add: s_def MaxKnownNeedleLen_def)
  have raws: "map ks_raw secs = map kn_Value ?acc"
    and encs: "map ks_encoded secs = map (\<lambda>k. ks_encoded (buildSecretSet (kn_Value k) dec)) ?acc"
    using c(2,3) unfolding f(5) by (simp_all add: raw o_def)
  have "needles_ok s" using needles_ok_secrets [OF ok c(2,3)] by (simp add: s_def needles_ok_def)
  moreover have "minSecretLen \<le> length (ks_raw sec) \<and> length (ks_raw sec) \<le> mx \<and> (\<forall>v\<in>set (ks_encoded sec). length v \<le> mx)"
    if "sec \<in> set secs" for sec
  proof -
    obtain i where i: "i < length secs" "sec = secs ! i" using \<open>sec \<in> set secs\<close> by (auto simp: in_set_conv_nth)
    have len_eq: "length secs = length ?acc" using raws by (metis length_map)
    then have k: "?acc ! i \<in> set ?acc" using i(1) by simp
    have "ks_raw sec = kn_Value (?acc ! i)" using raws i len_eq by (metis nth_map)
    moreover have "ks_encoded sec = ks_encoded (buildSecretSet (kn_Value (?acc ! i)) dec)"
      using arg_cong [OF encs, of "\<lambda>l. l ! i"] i len_eq by simp
    ultimately show ?thesis using len [OF k] longest_bound [of 0 dec ?acc] k unfolding mx_def by metis
  qed
  ultimately have "scanner_for dec secrets s ns"
    using c(4) raws encs g by (simp add: scanner_for_def s_def)
  moreover have "NewScannerWithOptions rules custom secrets extraPaths dec = Some (Inr s)"
    using c(1) by (simp add: NewScannerWithOptions_def custom s_def s0_def)
  ultimately show ?thesis using g by blast
qed

end
