(* ===== verification/Guard_Known_Props.thy ===== *)
theory Guard_Known_Props
  imports Guard_Scanner_Props
begin

text \<open>
  The known-secret channel reports a configured credential exactly if the body contains it or, with
  decoding on, one of its encoded forms; the identity it names is that of a credential in the body. The
  gate that rides the secret scan is that of the path scan.
\<close>

subsection \<open>The hits of the prefilter\<close>

lemma scan_hits:
  assumes "prefilter_of s ns"
  shows "\<exists>hits. ac_search (sn_ac s) body = Some hits \<and>
    (\<forall>i e. (i, e) \<in> set hits \<longleftrightarrow> i < length ns \<and> occurs_at (needle (ns ! i)) body e)"
proof -
  have b: "ac_build (numbered ns) = Some (sn_ac s)" "\<forall>n\<in>set ns. needle n \<noteq> []"
    using assms by (simp_all add: prefilter_of_def)
  then have ne: "\<forall>p\<in>set (numbered ns). fst p \<noteq> []" by (auto simp: numbered_mem)
  obtain hits where h: "ac_search (sn_ac s) body = Some hits" using ac.search_eq [OF b(1) ne] by blast
  show ?thesis
    using h ac.hit_iff [OF b(1) ne h] by (auto simp: numbered_mem occurs_at_def)
qed

lemma ref_at: "prefilter_of s ns \<Longrightarrow> i < length ns \<Longrightarrow> sn_refs s ! i = ref_of (ns ! i)"
  by (simp add: prefilter_of_def)

lemma prefilter_entry: "prefilter_of s ns \<Longrightarrow> i < length ns \<Longrightarrow> entry_ok s i (ns ! i)"
  by (simp add: prefilter_of_def)

lemma raw_entry:
  assumes "entry_ok s j (needleSecretRaw, i, v, w)"
  shows "i < length (sn_secrets s) \<and> w = ks_raw (sn_secrets s ! i) \<and> ks_rawID (sn_secrets s ! i) = j"
  using assms unfolding entry_ok_def rule_needles_mem probe_needles_mem path_needles_mem extra_needles_mem
  by (auto simp: secret_entry_def Let_def)

lemma encoded_entry:
  assumes "entry_ok s j (needleSecretEncoded, i, v, w)"
  shows "i < length (sn_secrets s) \<and> 0 \<le> v \<and> nat v < length (ks_encoded (sn_secrets s ! i)) \<and>
    w = ks_encoded (sn_secrets s ! i) ! nat v \<and> ks_encodedIDs (sn_secrets s ! i) ! nat v = j"
  using assms unfolding entry_ok_def rule_needles_mem probe_needles_mem path_needles_mem extra_needles_mem
  by (auto simp: secret_entry_def Let_def)

lemma carried:
  assumes "prefilter_of s ns" "i < length (sn_secrets s)"
  shows "secret_carried ns i (sn_secrets s ! i)"
  using assms by (simp add: prefilter_of_def)

text \<open>The hits of the two known-secret kinds.\<close>

lemma raw_hits:
  assumes ok: "prefilter_of s ns" and hits: "\<forall>i e. (i, e) \<in> set hits \<longleftrightarrow> i < length ns \<and> occurs_at (needle (ns ! i)) body e"
  shows "(\<exists>h\<in>set hits. nr_kind (sn_refs s ! fst h) = needleSecretRaw) \<longleftrightarrow>
    (\<exists>sec\<in>set (sn_secrets s). sublist (ks_raw sec) body)"
proof
  assume "\<exists>h\<in>set hits. nr_kind (sn_refs s ! fst h) = needleSecretRaw"
  then obtain j e where h: "(j, e) \<in> set hits" "nr_kind (sn_refs s ! j) = needleSecretRaw" by force
  then have j: "j < length ns" "occurs_at (needle (ns ! j)) body e" using hits by auto
  obtain k i v w where n: "ns ! j = (k, i, v, w)" by (cases "ns ! j")
  have "k = needleSecretRaw" using h(2) ref_at [OF ok j(1)] n by simp
  then have "i < length (sn_secrets s)" "w = ks_raw (sn_secrets s ! i)"
    using raw_entry prefilter_entry [OF ok j(1)] n by auto
  then show "\<exists>sec\<in>set (sn_secrets s). sublist (ks_raw sec) body"
    using j(2) n occurs_iff_sublist by (metis nth_mem snd_conv)
next
  assume "\<exists>sec\<in>set (sn_secrets s). sublist (ks_raw sec) body"
  then obtain i where i: "i < length (sn_secrets s)" "sublist (ks_raw (sn_secrets s ! i)) body"
    by (auto simp: in_set_conv_nth)
  then obtain e where e: "occurs_at (ks_raw (sn_secrets s ! i)) body e" using occurs_iff_sublist by blast
  let ?j = "ks_rawID (sn_secrets s ! i)"
  have c: "?j < length ns" "ns ! ?j = (needleSecretRaw, i, -1, ks_raw (sn_secrets s ! i))"
    using carried [OF ok i(1)] by (simp_all add: secret_carried_def)
  then have "(?j, e) \<in> set hits" using hits e by simp
  moreover have "nr_kind (sn_refs s ! ?j) = needleSecretRaw" using ref_at [OF ok c(1)] c(2) by simp
  ultimately show "\<exists>h\<in>set hits. nr_kind (sn_refs s ! fst h) = needleSecretRaw" by force
qed

lemma encoded_hits:
  assumes ok: "prefilter_of s ns" and hits: "\<forall>i e. (i, e) \<in> set hits \<longleftrightarrow> i < length ns \<and> occurs_at (needle (ns ! i)) body e"
  shows "(\<exists>h\<in>set hits. nr_kind (sn_refs s ! fst h) = needleSecretEncoded) \<longleftrightarrow>
    (\<exists>sec\<in>set (sn_secrets s). \<exists>v\<in>set (ks_encoded sec). sublist v body)"
proof
  assume "\<exists>h\<in>set hits. nr_kind (sn_refs s ! fst h) = needleSecretEncoded"
  then obtain j e where h: "(j, e) \<in> set hits" "nr_kind (sn_refs s ! j) = needleSecretEncoded" by force
  then have j: "j < length ns" "occurs_at (needle (ns ! j)) body e" using hits by auto
  obtain k i v w where n: "ns ! j = (k, i, v, w)" by (cases "ns ! j")
  have "k = needleSecretEncoded" using h(2) ref_at [OF ok j(1)] n by simp
  then have "i < length (sn_secrets s)" "nat v < length (ks_encoded (sn_secrets s ! i))"
      "w = ks_encoded (sn_secrets s ! i) ! nat v"
    using encoded_entry prefilter_entry [OF ok j(1)] n by auto
  then show "\<exists>sec\<in>set (sn_secrets s). \<exists>v\<in>set (ks_encoded sec). sublist v body"
    using j(2) n occurs_iff_sublist by (metis nth_mem snd_conv)
next
  assume "\<exists>sec\<in>set (sn_secrets s). \<exists>v\<in>set (ks_encoded sec). sublist v body"
  then obtain i vi where i: "i < length (sn_secrets s)" "vi < length (ks_encoded (sn_secrets s ! i))"
      "sublist (ks_encoded (sn_secrets s ! i) ! vi) body"
    by (auto simp: in_set_conv_nth)
  then obtain e where e: "occurs_at (ks_encoded (sn_secrets s ! i) ! vi) body e" using occurs_iff_sublist by blast
  let ?j = "ks_encodedIDs (sn_secrets s ! i) ! vi"
  have c: "?j < length ns" "ns ! ?j = (needleSecretEncoded, i, int vi, ks_encoded (sn_secrets s ! i) ! vi)"
    using carried [OF ok i(1)] i(2) by (simp_all add: secret_carried_def)
  then have "(?j, e) \<in> set hits" using hits e by simp
  moreover have "nr_kind (sn_refs s ! ?j) = needleSecretEncoded" using ref_at [OF ok c(1)] c(2) by simp
  ultimately show "\<exists>h\<in>set hits. nr_kind (sn_refs s ! fst h) = needleSecretEncoded" by force
qed

subsection \<open>The known-secret channel\<close>

definition known_raw :: "Scanner \<Rightarrow> string \<Rightarrow> bool" where
  "known_raw s body \<longleftrightarrow> (\<exists>sec\<in>set (sn_secrets s). sublist (ks_raw sec) body)"

definition known_encoded :: "Scanner \<Rightarrow> string \<Rightarrow> bool" where
  "known_encoded s body \<longleftrightarrow> (\<exists>sec\<in>set (sn_secrets s). \<exists>v\<in>set (ks_encoded sec). sublist v body)"

lemma fold_known_seen:
  "fold (known_seen s) hits (a, b) =
     (a \<or> (\<exists>h\<in>set hits. nr_kind (sn_refs s ! fst h) = needleSecretRaw),
      b \<or> (\<exists>h\<in>set hits. nr_kind (sn_refs s ! fst h) = needleSecretEncoded))"
  by (induction hits arbitrary: a b) (auto simp: known_seen_def split: needleKind.splits)

lemma ScanKnown_eq:
  assumes "prefilter_of s ns"
  shows "ScanKnown s body =
    Some ((if known_raw s body then [knownSecret] else []) @ (if known_encoded s body then [knownSecretEncoded] else []))"
proof -
  obtain hits where h: "ac_search (sn_ac s) body = Some hits"
      "\<forall>i e. (i, e) \<in> set hits \<longleftrightarrow> i < length ns \<and> occurs_at (needle (ns ! i)) body e"
    using scan_hits [OF assms] by blast
  show ?thesis
    using h(1) raw_hits [OF assms h(2)] encoded_hits [OF assms h(2)]
    by (auto simp: ScanKnown_def fold_known_seen known_raw_def known_encoded_def)
qed

lemma ScanKnown_total: "prefilter_of s ns \<Longrightarrow> \<exists>names. ScanKnown s body = Some names"
  by (simp add: ScanKnown_eq)

lemma ScanKnown_hit_iff:
  "prefilter_of s ns \<Longrightarrow> ScanKnown s body \<noteq> Some [] \<longleftrightarrow> known_raw s body \<or> known_encoded s body"
  by (simp add: ScanKnown_eq)

lemma scanner_secrets:
  assumes "scanner_for dec secrets s ns"
  shows "(\<exists>sec\<in>set (sn_secrets s). P (ks_raw sec)) \<longleftrightarrow> (\<exists>k\<in>set (accepted secrets {}). P (kn_Value k))"
    "(\<exists>sec\<in>set (sn_secrets s). P' (ks_encoded sec)) \<longleftrightarrow>
     (\<exists>k\<in>set (accepted secrets {}). P' (ks_encoded (buildSecretSet (kn_Value k) dec)))"
proof -
  have *: "ks_raw ` set (sn_secrets s) = kn_Value ` set (accepted secrets {})"
    "ks_encoded ` set (sn_secrets s) = (\<lambda>k. ks_encoded (buildSecretSet (kn_Value k) dec)) ` set (accepted secrets {})"
    using assms unfolding scanner_for_def by (metis list.set_map)+
  show "(\<exists>sec\<in>set (sn_secrets s). P (ks_raw sec)) \<longleftrightarrow> (\<exists>k\<in>set (accepted secrets {}). P (kn_Value k))"
    using *(1) by (metis (mono_tags, lifting) image_iff)
  show "(\<exists>sec\<in>set (sn_secrets s). P' (ks_encoded sec)) \<longleftrightarrow>
     (\<exists>k\<in>set (accepted secrets {}). P' (ks_encoded (buildSecretSet (kn_Value k) dec)))"
    using *(2) by (metis (mono_tags, lifting) image_iff)
qed

lemma known_raw_configured:
  assumes "scanner_for dec secrets s ns"
  shows "known_raw s body \<longleftrightarrow> (\<exists>k\<in>set secrets. minSecretLen \<le> length (kn_Value k) \<and> sublist (kn_Value k) body)"
proof -
  have "known_raw s body \<longleftrightarrow> (\<exists>v\<in>kn_Value ` set (accepted secrets {}). sublist v body)"
    using scanner_secrets(1) [OF assms, of "\<lambda>r. sublist r body"] by (auto simp: known_raw_def)
  then show ?thesis unfolding accepted_values by auto
qed

lemma known_encoded_configured:
  assumes "scanner_for dec secrets s ns"
  shows "known_encoded s body \<longleftrightarrow>
    dec \<and> (\<exists>k\<in>set secrets. minSecretLen \<le> length (kn_Value k) \<and> (\<exists>v\<in>encoded_forms (kn_Value k). sublist v body))"
proof -
  have "known_encoded s body \<longleftrightarrow>
      (\<exists>w\<in>kn_Value ` set (accepted secrets {}). \<exists>v\<in>set (ks_encoded (buildSecretSet w dec)). sublist v body)"
    using scanner_secrets(2) [OF assms, of "\<lambda>vs. \<exists>v\<in>set vs. sublist v body"] by (auto simp: known_encoded_def)
  then show ?thesis unfolding accepted_values set_ks_encoded by auto
qed

text \<open>
  C34. The known-secret channel is exact: a scanner built from any configuration that the constructor
  accepts reports a known secret exactly if the body contains a configured value of at least twelve
  bytes, and an encoded one exactly if decoding is on and the body contains a base64,
  hexadecimal or query-escaped form of one that differs from it.
\<close>

theorem ScanKnown_exact:
  assumes "table_ok rules" "add_custom custom {} [] = Inr cs"
  shows "\<exists>s names. NewScannerWithOptions rules custom secrets extraPaths dec = Some (Inr s) \<and>
    ScanKnown s body = Some names \<and>
    (knownSecret \<in> set names \<longleftrightarrow> (\<exists>k\<in>set secrets. minSecretLen \<le> length (kn_Value k) \<and> sublist (kn_Value k) body)) \<and>
    (knownSecretEncoded \<in> set names \<longleftrightarrow>
      dec \<and> (\<exists>k\<in>set secrets. minSecretLen \<le> length (kn_Value k) \<and> (\<exists>v\<in>encoded_forms (kn_Value k). sublist v body)))"
proof -
  obtain s ns where s: "NewScannerWithOptions rules custom secrets extraPaths dec = Some (Inr s)"
      "scanner_for dec secrets s ns"
    using NewScanner_for [OF assms] by blast
  then have "prefilter_of s ns" by (simp add: scanner_for_def)
  from ScanKnown_eq [OF this, of body] s show ?thesis
    using known_raw_configured [OF s(2)] known_encoded_configured [OF s(2)]
    by (auto simp: knownSecret_def knownSecretEncoded_def)
qed

lemma ScanKnown_exact_witness:
  "\<exists>s names. NewScannerWithOptions [] [] [\<lparr> kn_Value = ''sk-0123456789'', kn_Label = ''pool'' \<rparr>] [] False = Some (Inr s) \<and>
    ScanKnown s ''x=sk-0123456789;'' = Some names \<and> knownSecret \<in> set names \<and> knownSecretEncoded \<notin> set names"
proof -
  have t: "table_ok []" "add_custom [] {} [] = Inr []" by (simp_all add: table_ok_def)
  obtain s names where s: "NewScannerWithOptions [] [] [\<lparr> kn_Value = ''sk-0123456789'', kn_Label = ''pool'' \<rparr>] [] False = Some (Inr s)"
      "ScanKnown s ''x=sk-0123456789;'' = Some names"
      "knownSecret \<in> set names \<longleftrightarrow> (\<exists>k\<in>set [\<lparr> kn_Value = ''sk-0123456789'', kn_Label = ''pool'' \<rparr>].
        minSecretLen \<le> length (kn_Value k) \<and> sublist (kn_Value k) ''x=sk-0123456789;'')"
      "knownSecretEncoded \<in> set names \<longleftrightarrow> False \<and> (\<exists>k\<in>set [\<lparr> kn_Value = ''sk-0123456789'', kn_Label = ''pool'' \<rparr>].
        minSecretLen \<le> length (kn_Value k) \<and> (\<exists>v\<in>encoded_forms (kn_Value k). sublist v ''x=sk-0123456789;''))"
    using ScanKnown_exact [OF t, where secrets = "[\<lparr> kn_Value = ''sk-0123456789'', kn_Label = ''pool'' \<rparr>]"
        and extraPaths = "[]" and dec = False and body = "''x=sk-0123456789;''"]
    by (elim exE conjE) (rule that)
  have "''x=sk-0123456789;'' = ''x='' @ ''sk-0123456789'' @ '';''" by simp
  then have "sublist ''sk-0123456789'' ''x=sk-0123456789;''" unfolding sublist_def by blast
  then show ?thesis using s by (auto simp: minSecretLen_def)
qed

subsection \<open>The identity of a known secret\<close>

lemma first_known_found:
  "first_known s body hits = (label, masked, ok) \<Longrightarrow>
   ok \<longleftrightarrow> (\<exists>h\<in>set hits. nr_kind (sn_refs s ! fst h) \<in> {needleSecretRaw, needleSecretEncoded})"
  by (induction s body hits rule: first_known.induct) (auto simp: known_needle_def split: option.splits needleKind.splits)

lemma first_known_hit:
  "first_known s body hits = (label, masked, True) \<Longrightarrow>
   \<exists>i e n. (i, e) \<in> set hits \<and> known_needle s (sn_refs s ! i) = Some n \<and> label = sn_labels s ! nr_idx (sn_refs s ! i) \<and>
     masked = maskSecretBytes (substr body (e - length n) e)"
proof (induction hits)
  case (Cons h hits)
  obtain i e where h: "h = (i, e)" by fastforce
  show ?case
  proof (cases "known_needle s (sn_refs s ! i)")
    case None
    then have "first_known s body hits = (label, masked, True)" using Cons.prems by (simp add: h)
    from Cons.IH [OF this] show ?thesis by (metis list.set_intros(2))
  next
    case (Some n)
    then show ?thesis using Cons.prems by (intro exI [of _ i] exI [of _ e] exI [of _ n]) (simp add: h)
  qed
qed simp

text \<open>The label is that of a credential in the body, and the display shows six of its bytes at most.\<close>

theorem KnownIdentity_sound:
  assumes ok: "prefilter_of s ns" and "KnownIdentity (Some s) body = Some (label, masked, True)"
  shows "\<exists>i<length (sn_secrets s). \<exists>w. label = sn_labels s ! i \<and> masked = maskSecretBytes w \<and> sublist w body \<and>
    (w = ks_raw (sn_secrets s ! i) \<or> w \<in> set (ks_encoded (sn_secrets s ! i)))"
proof -
  obtain hits where h: "ac_search (sn_ac s) body = Some hits"
      "\<forall>i e. (i, e) \<in> set hits \<longleftrightarrow> i < length ns \<and> occurs_at (needle (ns ! i)) body e"
    using scan_hits [OF ok] by blast
  have "first_known s body hits = (label, masked, True)"
    using assms(2) h(1) by (auto simp: KnownIdentity_def split: if_splits)
  then obtain j e n where f: "(j, e) \<in> set hits" "known_needle s (sn_refs s ! j) = Some n"
      "label = sn_labels s ! nr_idx (sn_refs s ! j)" "masked = maskSecretBytes (substr body (e - length n) e)"
    using first_known_hit by blast
  have j: "j < length ns" "occurs_at (needle (ns ! j)) body e" using f(1) h(2) by auto
  obtain k i v w where e4: "ns ! j = (k, i, v, w)" by (cases "ns ! j")
  have k: "nr_kind (sn_refs s ! j) = k" "nr_idx (sn_refs s ! j) = i" "nr_vidx (sn_refs s ! j) = v"
    using ref_at [OF ok j(1)] e4 by simp_all
  then have "k = needleSecretRaw \<or> k = needleSecretEncoded"
    using f(2) by (auto simp: known_needle_def split: needleKind.splits)
  then have n: "i < length (sn_secrets s) \<and> n = w \<and> (w = ks_raw (sn_secrets s ! i) \<or> w \<in> set (ks_encoded (sn_secrets s ! i)))"
  proof
    assume kind: "k = needleSecretRaw"
    then have "entry_ok s j (needleSecretRaw, i, v, w)" using prefilter_entry [OF ok j(1)] e4 by simp
    then show ?thesis using raw_entry f(2) k kind by (auto simp: known_needle_def)
  next
    assume kind: "k = needleSecretEncoded"
    then have "entry_ok s j (needleSecretEncoded, i, v, w)" using prefilter_entry [OF ok j(1)] e4 by simp
    from encoded_entry [OF this] show ?thesis using f(2) k kind by (auto simp: known_needle_def)
  qed
  have occ: "occurs_at w body e" using j(2) e4 by simp
  then obtain start where "e = start + length w" "start \<le> length body" "prefix w (drop start body)"
    by (auto simp: occurs_at_prefix)
  then have "substr body (e - length w) e = w" by (auto simp: substr_def prefix_def)
  moreover have "sublist w body" using occ occurs_iff_sublist by blast
  ultimately show ?thesis using n f(3,4) k by metis
qed

subsection \<open>The path gate\<close>

lemma gate_fold:
  "p1_pathGate (fold (phase1_hit s body) hits p) \<longleftrightarrow>
     p1_pathGate p \<or> (\<exists>(i, e)\<in>set hits. nr_kind (sn_refs s ! i) \<in> {needlePath, needlePathExtra} \<and> pathNeedleHit body (sn_refs s ! i) e)"
proof (induction hits arbitrary: p)
  case (Cons h hits)
  have "p1_pathGate (phase1_hit s body h p) \<longleftrightarrow>
      p1_pathGate p \<or> (nr_kind (sn_refs s ! fst h) \<in> {needlePath, needlePathExtra} \<and> pathNeedleHit body (sn_refs s ! fst h) (snd h))"
    by (cases h) (auto simp: phase1_hit_def Let_def split: needleKind.splits)
  then show ?case using Cons by (cases h) auto
qed simp

lemma path_entry:
  assumes "entry_ok s j (needlePath, i, v, w)"
  shows "i < length builtinPaths \<and> 0 \<le> v \<and> nat v < length (pa_literals (builtinPaths ! i)) \<and>
    w = pa_literals (builtinPaths ! i) ! nat v"
  using assms unfolding entry_ok_def rule_needles_mem probe_needles_mem path_needles_mem extra_needles_mem
  by (auto simp: secret_entry_def Let_def)

lemma extra_entry:
  assumes "entry_ok s j (needlePathExtra, i, v, w)"
  shows "i < length (sn_extraPaths s) \<and> w = sn_extraPaths s ! i"
  using assms unfolding entry_ok_def rule_needles_mem probe_needles_mem path_needles_mem extra_needles_mem
  by (auto simp: secret_entry_def Let_def)

lemma bex_nth: "(\<exists>x\<in>set xs. P x) \<longleftrightarrow> (\<exists>i<length xs. P (xs ! i))"
  by (metis in_set_conv_nth)

lemma path_gate_occurs:
  "path_gate extraPaths body \<longleftrightarrow>
     (\<exists>i<length builtinPaths. \<exists>li<length (pa_literals (builtinPaths ! i)). \<exists>e.
        occurs_at (pa_literals (builtinPaths ! i) ! li) body e \<and>
        (pa_boundary (builtinPaths ! i) \<longrightarrow> bounded_by body (e - length (pa_literals (builtinPaths ! i) ! li)) e)) \<or>
     (\<exists>i<length extraPaths. \<exists>e. occurs_at (extraPaths ! i) body e)"
proof -
  have "list_ex (\<lambda>p. path_hit p body) builtinPaths \<longleftrightarrow>
      (\<exists>i<length builtinPaths. path_hit (builtinPaths ! i) body)" by (simp only: list_ex_iff bex_nth)
  moreover have "path_hit (builtinPaths ! i) body \<longleftrightarrow>
      (\<exists>li<length (pa_literals (builtinPaths ! i)). \<exists>e. occurs_at (pa_literals (builtinPaths ! i) ! li) body e \<and>
        (pa_boundary (builtinPaths ! i) \<longrightarrow> bounded_by body (e - length (pa_literals (builtinPaths ! i) ! li)) e))"
    if "i < length builtinPaths" for i
  proof -
    have "\<forall>lit\<in>set (pa_literals (builtinPaths ! i)). lit \<noteq> []"
      using builtin_literals_nonempty nth_mem [OF that] by blast
    from path_hit_occurs [OF this] show ?thesis by (simp only: bex_nth)
  qed
  moreover have "list_ex (Contains body) extraPaths \<longleftrightarrow> (\<exists>i<length extraPaths. \<exists>e. occurs_at (extraPaths ! i) body e)"
    by (simp only: list_ex_iff bex_nth Contains_def occurs_iff_sublist)
  ultimately show ?thesis by (auto simp: path_gate_def)
qed

lemma gate_iff:
  assumes ok: "prefilter_of s ns" and found: "findAllGated s body = Some r"
  shows "sr_pathGate r \<longleftrightarrow> path_gate (sn_extraPaths s) body"
proof -
  obtain hits where h: "ac_search (sn_ac s) body = Some hits"
      "\<forall>i e. (i, e) \<in> set hits \<longleftrightarrow> i < length ns \<and> occurs_at (needle (ns ! i)) body e"
    using scan_hits [OF ok] by blast
  have "sr_pathGate r \<longleftrightarrow> (\<exists>(j, e)\<in>set hits. nr_kind (sn_refs s ! j) \<in> {needlePath, needlePathExtra} \<and> pathNeedleHit body (sn_refs s ! j) e)"
  proof -
    have "sr_pathGate r \<longleftrightarrow> p1_pathGate (fold (phase1_hit s body) hits (phase1_init s))"
      using found h(1) by (auto simp: findAllGated_def Let_def split: prod.splits)
    then show ?thesis unfolding gate_fold by (simp add: phase1_init_def)
  qed
  also have "\<dots> \<longleftrightarrow> path_gate (sn_extraPaths s) body"
  proof
    assume "\<exists>(j, e)\<in>set hits. nr_kind (sn_refs s ! j) \<in> {needlePath, needlePathExtra} \<and> pathNeedleHit body (sn_refs s ! j) e"
    then obtain j e where j: "j < length ns" "occurs_at (needle (ns ! j)) body e"
        "nr_kind (sn_refs s ! j) \<in> {needlePath, needlePathExtra}" "pathNeedleHit body (sn_refs s ! j) e"
      using h(2) by auto
    obtain k i v w where n: "ns ! j = (k, i, v, w)" by (cases "ns ! j")
    have ref: "sn_refs s ! j = \<lparr> nr_kind = k, nr_idx = i, nr_vidx = v \<rparr>" using ref_at [OF ok j(1)] n by simp
    have entry: "entry_ok s j (k, i, v, w)" using prefilter_entry [OF ok j(1)] n by simp
    consider "k = needlePath" | "k = needlePathExtra" using j(3) ref by auto
    then show "path_gate (sn_extraPaths s) body"
    proof cases
      case 1
      then have "i < length builtinPaths" "nat v < length (pa_literals (builtinPaths ! i))"
          "w = pa_literals (builtinPaths ! i) ! nat v" using path_entry entry by blast+
      moreover have "pa_boundary (builtinPaths ! i) \<longrightarrow> bounded_by body (e - length (pa_literals (builtinPaths ! i) ! nat v)) e"
        using j(4) 1 ref by (auto simp: pathNeedleHit_def Let_def split: if_splits)
      ultimately show ?thesis using j(2) n unfolding path_gate_occurs by auto
    next
      case 2
      then have "i < length (sn_extraPaths s)" "w = sn_extraPaths s ! i" using extra_entry entry by blast+
      then show ?thesis using j(2) n unfolding path_gate_occurs by auto
    qed
  next
    have in_ns: "(k, i, v, w) \<in> set path_needles \<union> set (extra_needles (sn_extraPaths s)) \<Longrightarrow>
        \<exists>j<length ns. ns ! j = (k, i, v, w)" for k i v w
    proof -
      assume "(k, i, v, w) \<in> set path_needles \<union> set (extra_needles (sn_extraPaths s))"
      moreover have "set (rule_needles (sn_rules s)) \<union> set path_needles \<union> set (extra_needles (sn_extraPaths s)) \<subseteq> set ns"
        using ok by (simp add: prefilter_of_def)
      ultimately have "(k, i, v, w) \<in> set ns" by blast
      then show ?thesis by (simp add: in_set_conv_nth)
    qed
    assume "path_gate (sn_extraPaths s) body"
    then consider i li e where "i < length builtinPaths" "li < length (pa_literals (builtinPaths ! i))"
        "occurs_at (pa_literals (builtinPaths ! i) ! li) body e"
        "pa_boundary (builtinPaths ! i) \<longrightarrow> bounded_by body (e - length (pa_literals (builtinPaths ! i) ! li)) e"
      | i e where "i < length (sn_extraPaths s)" "occurs_at (sn_extraPaths s ! i) body e"
      unfolding path_gate_occurs by blast
    then show "\<exists>(j, e)\<in>set hits. nr_kind (sn_refs s ! j) \<in> {needlePath, needlePathExtra} \<and> pathNeedleHit body (sn_refs s ! j) e"
    proof cases
      case (1 i li e)
      then have "(needlePath, i, int li, pa_literals (builtinPaths ! i) ! li) \<in> set path_needles"
        by (simp add: path_needles_mem)
      then obtain j where j: "j < length ns" "ns ! j = (needlePath, i, int li, pa_literals (builtinPaths ! i) ! li)"
        using in_ns by blast
      then have "(j, e) \<in> set hits" using h(2) 1(3) by simp
      moreover have "nr_kind (sn_refs s ! j) = needlePath" "pathNeedleHit body (sn_refs s ! j) e"
        using ref_at [OF ok j(1)] j(2) 1(4) by (simp_all add: pathNeedleHit_def Let_def)
      ultimately show ?thesis by blast
    next
      case (2 i e)
      then have "(needlePathExtra, i, -1, sn_extraPaths s ! i) \<in> set (extra_needles (sn_extraPaths s))"
        by (simp add: extra_needles_mem)
      then obtain j where j: "j < length ns" "ns ! j = (needlePathExtra, i, -1, sn_extraPaths s ! i)"
        using in_ns by blast
      then have "(j, e) \<in> set hits" using h(2) 2(2) by simp
      moreover have "nr_kind (sn_refs s ! j) = needlePathExtra" "pathNeedleHit body (sn_refs s ! j) e"
        using ref_at [OF ok j(1)] j(2) by (simp_all add: pathNeedleHit_def)
      ultimately show ?thesis by blast
    qed
  qed
  finally show ?thesis .
qed

end
