(* ===== verification/Guard_Fragment.thy ===== *)
theory Guard_Fragment
  imports Guard_Known_Props
begin

text \<open>
  Fragments of a known secret across requests (\<open>ScanKnownFragment\<close> of \<open>internal/guard/scanner.go\<close>):
  per secret, how long a prefix has been seen in order. An anchor is the offset in the secret whose
  occurrences in the body are extended; a nil anchor is \<open>None\<close>, a nil slice the empty list.
\<close>

record anchor =
  an_k :: nat
  an_best :: nat

record fragState =
  fg_k0 :: "anchor option list"
  fg_kp :: "anchor option list"
  fg_full :: "bool list"
  fg_budget :: int
  fg_exhausted :: bool

definition frag_k0 :: "knownSecretSet \<Rightarrow> anchor option" where
  "frag_k0 sec = (if length (ks_raw sec) < 2 * minKnownFrag then None else Some \<lparr> an_k = 0, an_best = 0 \<rparr>)"

definition frag_kp :: "nat list \<Rightarrow> nat \<Rightarrow> knownSecretSet \<Rightarrow> anchor option" where
  "frag_kp progress i sec =
     (if length (ks_raw sec) < 2 * minKnownFrag then None
      else
        (let p = (if i < length progress then progress ! i else 0)
         in if 0 < p \<and> p + minKnownFrag \<le> length (ks_raw sec) then Some \<lparr> an_k = p, an_best = 0 \<rparr> else None))"

definition frag_init :: "Scanner \<Rightarrow> string \<Rightarrow> nat list \<Rightarrow> fragState" where
  "frag_init s body progress =
     \<lparr> fg_k0 = map frag_k0 (sn_secrets s),
       fg_kp = map (\<lambda>(i, sec). frag_kp progress i sec) (enumerate 0 (sn_secrets s)),
       fg_full = replicate (length (sn_secrets s)) False,
       fg_budget = int (if length body < 2 ^ 16 then 2 ^ 16 else length body), fg_exhausted = False \<rparr>"

text \<open>The longest extension, along the same alignment, of an occurrence that ends at \<open>stop\<close>.\<close>

function frag_extend :: "string \<Rightarrow> nat \<Rightarrow> string \<Rightarrow> nat \<Rightarrow> nat \<Rightarrow> nat" where
  "frag_extend raw k body stop j =
     (if k + j < length raw \<and> stop + j - minKnownFrag < length body \<and> raw ! (k + j) = body ! (stop + j - minKnownFrag)
      then frag_extend raw k body stop (Suc j) else j)"
  by pat_completeness auto
termination by (relation "measure (\<lambda>(raw, k, body, stop, j). length raw - j)") auto

declare frag_extend.simps [simp del]

definition improve :: "nat \<Rightarrow> anchor option \<Rightarrow> anchor option" where
  "improve j a = map_option (\<lambda>a. if an_best a < j then a\<lparr> an_best := j \<rparr> else a) a"

definition frag_hit :: "Scanner \<Rightarrow> string \<Rightarrow> nat \<times> nat \<Rightarrow> fragState \<Rightarrow> fragState" where
  "frag_hit s body hit st =
     (let (i, stop) = hit; ref = sn_refs s ! i; si = nr_idx ref
      in case nr_kind ref of
           needleSecretRaw \<Rightarrow> st\<lparr> fg_full := (fg_full st)[si := True] \<rparr>
         | needleSecretFrag \<Rightarrow>
             if fg_exhausted st then st
             else
               (let k = nat (nr_vidx ref);
                    at_k0 = (k = 0);
                    at_kp = (k \<noteq> 0 \<and> fg_kp st ! si \<noteq> None \<and> an_k (the (fg_kp st ! si)) = k);
                    a = (if at_k0 then fg_k0 st ! si else if at_kp then fg_kp st ! si else None)
                in if a = None \<or> fg_full st ! si then st
                   else
                     (let j = frag_extend (ks_raw (sn_secrets s ! si)) k body stop minKnownFrag;
                          budget = fg_budget st - (int j - int minKnownFrag + 1);
                          st = st\<lparr> fg_budget := budget, fg_exhausted := fg_exhausted st \<or> budget < 0 \<rparr>
                      in if at_k0 then st\<lparr> fg_k0 := (fg_k0 st)[si := improve j a] \<rparr>
                         else st\<lparr> fg_kp := (fg_kp st)[si := improve j a] \<rparr>))
         | _ \<Rightarrow> st)"

text \<open>Per secret: whether it fired, the progress to store, whether this progress is a reset.\<close>

definition frag_result :: "Scanner \<Rightarrow> fragState \<Rightarrow> nat \<Rightarrow> bool \<times> nat \<times> bool" where
  "frag_result s st i =
     (let n = length (ks_raw (sn_secrets s ! i));
          from_start =
            (case fg_k0 st ! i of
               Some a \<Rightarrow> if 0 < an_best a \<and> an_best a < n then an_best a else 0
             | None \<Rightarrow> 0)
      in if n < 2 * minKnownFrag then (False, 0, False)
         else if fg_full st ! i then (False, 0, True)
         else
           (case fg_kp st ! i of
              Some a \<Rightarrow>
                if 0 < an_best a then
                  (if an_k a + an_best a = n then (True, 0, True) else (False, an_k a + an_best a, False))
                else (False, from_start, False)
            | None \<Rightarrow> (False, from_start, False)))"

text \<open>\<open>ScanKnownFragment\<close>: fragmented, next, reset; the reset slice is nil unless something was reset.\<close>

definition ScanKnownFragment :: "Scanner \<Rightarrow> string \<Rightarrow> nat list \<Rightarrow> (bool \<times> nat list \<times> bool list) option" where
  "ScanKnownFragment s body progress =
     (if sn_secrets s = [] then Some (False, [], [])
      else
        (case ac_search (sn_ac s) body of
           None \<Rightarrow> None
         | Some hits \<Rightarrow>
             (let st = fold (frag_hit s body) hits (frag_init s body progress);
                  rs = map (frag_result s st) [0..<length (sn_secrets s)];
                  resets = map (\<lambda>(_, _, r). r) rs
              in Some (list_ex fst rs, map (\<lambda>(_, n, _). n) rs, if list_ex id resets then resets else []))))"

subsection \<open>What the anchors mean\<close>

lemma frag_extend_ge: "j \<le> frag_extend raw k body stop j"
  by (induction raw k body stop j rule: frag_extend.induct) (subst frag_extend.simps, auto)

text \<open>The extension matches the secret byte by byte, and is maximal.\<close>

lemma frag_extend_match:
  "k + j \<le> length raw \<Longrightarrow> minKnownFrag \<le> stop \<Longrightarrow> stop + j \<le> length body + minKnownFrag \<Longrightarrow>
   (\<forall>t<j. raw ! (k + t) = body ! (stop + t - minKnownFrag)) \<Longrightarrow>
   k + frag_extend raw k body stop j \<le> length raw \<and> stop + frag_extend raw k body stop j \<le> length body + minKnownFrag \<and>
   (\<forall>t<frag_extend raw k body stop j. raw ! (k + t) = body ! (stop + t - minKnownFrag))"
proof (induction raw k body stop j rule: frag_extend.induct)
  case (1 raw k body stop j)
  show ?case
  proof (cases "k + j < length raw \<and> stop + j - minKnownFrag < length body \<and> raw ! (k + j) = body ! (stop + j - minKnownFrag)")
    case True
    have "k + Suc j \<le> length raw" "stop + Suc j \<le> length body + minKnownFrag" using True 1(3) by auto
    moreover have "\<forall>t<Suc j. raw ! (k + t) = body ! (stop + t - minKnownFrag)" using 1(5) True by (auto simp: less_Suc_eq)
    ultimately have "k + frag_extend raw k body stop (Suc j) \<le> length raw \<and>
        stop + frag_extend raw k body stop (Suc j) \<le> length body + minKnownFrag \<and>
        (\<forall>t<frag_extend raw k body stop (Suc j). raw ! (k + t) = body ! (stop + t - minKnownFrag))"
      using 1(1) True 1(3) by blast
    then show ?thesis using True by (subst (1 2 3) frag_extend.simps) simp
  next
    case False
    have "frag_extend raw k body stop j = j" by (subst frag_extend.simps) (simp only: False if_False)
    then show ?thesis using 1(2-) by simp
  qed
qed

lemma frag_extend_reaches:
  "j \<le> m \<Longrightarrow> k + m \<le> length raw \<Longrightarrow> minKnownFrag \<le> stop \<Longrightarrow> stop + m \<le> length body + minKnownFrag \<Longrightarrow>
   (\<forall>t<m. raw ! (k + t) = body ! (stop + t - minKnownFrag)) \<Longrightarrow> m \<le> frag_extend raw k body stop j"
proof (induction raw k body stop j rule: frag_extend.induct)
  case (1 raw k body stop j)
  show ?case
  proof (cases "j = m")
    case False
    then have "k + j < length raw \<and> stop + j - minKnownFrag < length body \<and> raw ! (k + j) = body ! (stop + j - minKnownFrag)"
      using 1(2-6) by auto
    then show ?thesis using 1(1) [OF _ _ 1(3-6)] 1(2) False by (subst frag_extend.simps) auto
  qed (use frag_extend_ge in simp)
qed

lemma occurs_at_substr:
  assumes "occurs_at w body e"
  shows "length w \<le> e \<and> e \<le> length body \<and> (\<forall>t<length w. body ! (e - length w + t) = w ! t)"
proof -
  obtain start where s: "e = start + length w" "start \<le> length body" "prefix w (drop start body)"
    using assms by (auto simp: occurs_at_prefix)
  then obtain zs where z: "drop start body = w @ zs" by (auto simp: prefix_def)
  have e: "e \<le> length body" using assms by (simp add: occurs_at_def)
  have "body ! (start + t) = w ! t" if "t < length w" for t
    using arg_cong [OF z, of "\<lambda>l. l ! t"] that s(2) by (simp add: nth_append)
  then show ?thesis using s(1) e by simp
qed

text \<open>A piece of the secret read off the body at an aligned position is a substring of it.\<close>

lemma aligned_sublist:
  assumes "k + m \<le> length raw" "start + m \<le> length body" "\<forall>t<m. raw ! (k + t) = body ! (start + t)"
  shows "sublist (substr raw k (k + m)) body"
proof -
  have "substr raw k (k + m) = take m (drop start body)"
    using assms by (intro nth_equalityI) (auto simp: substr_def)
  then have "body = take start body @ substr raw k (k + m) @ drop m (drop start body)" by (metis append_take_drop_id)
  then show ?thesis unfolding sublist_def by blast
qed

definition anchor_ok :: "string \<Rightarrow> string \<Rightarrow> anchor \<Rightarrow> bool" where
  "anchor_ok raw body a \<longleftrightarrow>
     an_best a = 0 \<or>
     (minKnownFrag \<le> an_best a \<and> an_k a + an_best a \<le> length raw \<and> sublist (substr raw (an_k a) (an_k a + an_best a)) body)"

definition frag_inv :: "Scanner \<Rightarrow> string \<Rightarrow> nat list \<Rightarrow> fragState \<Rightarrow> bool" where
  "frag_inv s body progress st \<longleftrightarrow>
     length (fg_k0 st) = length (sn_secrets s) \<and> length (fg_kp st) = length (sn_secrets s) \<and>
     length (fg_full st) = length (sn_secrets s) \<and>
     (\<forall>i<length (sn_secrets s).
        (\<forall>a. fg_k0 st ! i = Some a \<longrightarrow> an_k a = 0 \<and> anchor_ok (ks_raw (sn_secrets s ! i)) body a) \<and>
        (\<forall>a. fg_kp st ! i = Some a \<longrightarrow>
           i < length progress \<and> an_k a = progress ! i \<and> 0 < an_k a \<and> an_k a + minKnownFrag \<le> length (ks_raw (sn_secrets s ! i)) \<and>
           anchor_ok (ks_raw (sn_secrets s ! i)) body a))"

lemma frag_init_inv: "frag_inv s body progress (frag_init s body progress)"
  by (auto simp: frag_inv_def frag_init_def frag_k0_def frag_kp_def anchor_ok_def nth_enumerate_eq Let_def split: if_splits)

lemma frag_entry:
  assumes "entry_ok s j (needleSecretFrag, i, v, w)"
  shows "i < length (sn_secrets s) \<and> 0 \<le> v \<and> nat v + minKnownFrag \<le> length (ks_raw (sn_secrets s ! i)) \<and>
    w = substr (ks_raw (sn_secrets s ! i)) (nat v) (nat v + minKnownFrag)"
  using assms unfolding entry_ok_def rule_needles_mem probe_needles_mem path_needles_mem extra_needles_mem
  by (auto simp: secret_entry_def Let_def)

lemma improve_ok:
  assumes "anchor_ok raw body a" "minKnownFrag \<le> j" "an_k a + j \<le> length raw" "sublist (substr raw (an_k a) (an_k a + j)) body"
    "improve j (Some a) = Some b"
  shows "an_k b = an_k a \<and> anchor_ok raw body b \<and> j \<le> an_best b \<and> an_best a \<le> an_best b"
  using assms by (auto simp: improve_def anchor_ok_def split: if_splits)

text \<open>The extension of a hit of a fragment needle.\<close>

lemma frag_needle_extension:
  assumes i: "k + minKnownFrag \<le> length raw" and occ: "occurs_at (substr raw k (k + minKnownFrag)) body e"
  shows "minKnownFrag \<le> frag_extend raw k body e minKnownFrag \<and> k + frag_extend raw k body e minKnownFrag \<le> length raw \<and>
    sublist (substr raw k (k + frag_extend raw k body e minKnownFrag)) body"
proof -
  have len: "length (substr raw k (k + minKnownFrag)) = minKnownFrag" using i by (simp add: substr_def)
  have o: "minKnownFrag \<le> e" "e \<le> length body"
    "\<forall>t<minKnownFrag. body ! (e - minKnownFrag + t) = substr raw k (k + minKnownFrag) ! t"
    using occurs_at_substr [OF occ] unfolding len by auto
  have start: "\<forall>t<minKnownFrag. raw ! (k + t) = body ! (e + t - minKnownFrag)"
    using o i by (auto simp: substr_def)
  let ?j = "frag_extend raw k body e minKnownFrag"
  have m: "k + ?j \<le> length raw" "e + ?j \<le> length body + minKnownFrag"
    "\<forall>t<?j. raw ! (k + t) = body ! (e + t - minKnownFrag)"
    using frag_extend_match [OF i o(1) _ start] o(2) by auto
  have "sublist (substr raw k (k + ?j)) body"
  proof (rule aligned_sublist [OF m(1), of "e - minKnownFrag"])
    show "e - minKnownFrag + ?j \<le> length body" using m(2) o(1) by linarith
    show "\<forall>t<?j. raw ! (k + t) = body ! (e - minKnownFrag + t)" using m(3) o(1) by simp
  qed
  then show ?thesis using m(1) frag_extend_ge by blast
qed

text \<open>The step of one hit of the prefilter, for each kind of needle.\<close>

lemma list_update_inv: "i < length xs \<Longrightarrow> (xs[k := v]) ! i = (if i = k then v else xs ! i)"
  by simp

lemma frag_hit_lengths:
  "length (fg_k0 (frag_hit s body h st)) = length (fg_k0 st) \<and> length (fg_kp (frag_hit s body h st)) = length (fg_kp st) \<and>
   length (fg_full (frag_hit s body h st)) = length (fg_full st)"
  by (cases h) (simp add: frag_hit_def Let_def split: needleKind.split)

lemma frag_hit_other:
  "nr_kind (sn_refs s ! j) \<noteq> needleSecretFrag \<Longrightarrow>
   fg_k0 (frag_hit s body (j, e) st) = fg_k0 st \<and> fg_kp (frag_hit s body (j, e) st) = fg_kp st"
  by (simp add: frag_hit_def Let_def split: needleKind.split)

lemma frag_hit_frag:
  assumes kind: "nr_kind (sn_refs s ! j) = needleSecretFrag" and si: "nr_idx (sn_refs s ! j) = si"
    and k: "nat (nr_vidx (sn_refs s ! j)) = k"
    and fk: "x = frag_extend (ks_raw (sn_secrets s ! si)) k body e minKnownFrag"
  shows "(fg_k0 (frag_hit s body (j, e) st) = fg_k0 st \<or>
      (k = 0 \<and> fg_k0 (frag_hit s body (j, e) st) = (fg_k0 st)[si := improve x (fg_k0 st ! si)])) \<and>
    (fg_kp (frag_hit s body (j, e) st) = fg_kp st \<or>
      (fg_kp st ! si \<noteq> None \<and> an_k (the (fg_kp st ! si)) = k \<and>
       fg_kp (frag_hit s body (j, e) st) = (fg_kp st)[si := improve x (fg_kp st ! si)]))"
  using assms by (auto simp: frag_hit_def Let_def)

lemma frag_hit_inv:
  assumes inv: "frag_inv s body progress st" and ref: "sn_refs s ! j = ref_of n" and entry: "entry_ok s j n"
    and occ: "occurs_at (needle n) body e"
  shows "frag_inv s body progress (frag_hit s body (j, e) st)"
proof (cases "nr_kind (sn_refs s ! j) = needleSecretFrag")
  case False
  note same = frag_hit_other [OF False, of body e st]
  show ?thesis
    using inv unfolding frag_inv_def same [THEN conjunct1] same [THEN conjunct2] frag_hit_lengths [THEN conjunct2, THEN conjunct2]
    by blast
next
  case True
  obtain kd si v w where n: "n = (kd, si, v, w)" by (cases n)
  have kd: "kd = needleSecretFrag" "nr_idx (sn_refs s ! j) = si" "nr_vidx (sn_refs s ! j) = v" using True ref n by simp_all
  let ?k = "nat v" and ?raw = "ks_raw (sn_secrets s ! si)"
  have fe: "si < length (sn_secrets s)" "?k + minKnownFrag \<le> length ?raw" "w = substr ?raw ?k (?k + minKnownFrag)"
    using frag_entry entry n kd(1) by blast+
  define x where "x = frag_extend ?raw ?k body e minKnownFrag"
  have x: "minKnownFrag \<le> x" "?k + x \<le> length ?raw" "sublist (substr ?raw ?k (?k + x)) body"
    using frag_needle_extension [OF fe(2)] occ fe(3) n unfolding x_def by simp_all
  have imp: "an_k b = an_k a \<and> anchor_ok ?raw body b" if "anchor_ok ?raw body a" "an_k a = ?k" "improve x (Some a) = Some b" for a b
    using improve_ok [OF that(1) x(1) _ _ that(3)] x(2,3) that(2) by simp
  let ?st = "frag_hit s body (j, e) st"
  note st = frag_hit_frag [OF True kd(2) _ x_def, where st = st, unfolded kd(3), OF refl]
  have k0: "an_k a = 0 \<and> anchor_ok (ks_raw (sn_secrets s ! i)) body a" if i: "i < length (sn_secrets s)" "fg_k0 ?st ! i = Some a" for i a
  proof (cases "fg_k0 ?st = fg_k0 st \<or> i \<noteq> si")
    case True
    then have "fg_k0 st ! i = Some a" using i st by auto
    then show ?thesis using inv i(1) by (simp add: frag_inv_def)
  next
    case False
    then have z: "?k = 0" "improve x (fg_k0 st ! si) = Some a" "i = si" using i st inv by (auto simp: frag_inv_def)
    then obtain a0 where a0: "fg_k0 st ! si = Some a0" by (auto simp: improve_def)
    then have "an_k a0 = 0" "anchor_ok ?raw body a0" using inv fe(1) by (simp_all add: frag_inv_def)
    then show ?thesis using imp [of a0 a] z a0 by simp
  qed
  have kp: "i < length progress \<and> an_k a = progress ! i \<and> 0 < an_k a \<and>
      an_k a + minKnownFrag \<le> length (ks_raw (sn_secrets s ! i)) \<and> anchor_ok (ks_raw (sn_secrets s ! i)) body a"
    if i: "i < length (sn_secrets s)" "fg_kp ?st ! i = Some a" for i a
  proof (cases "fg_kp ?st = fg_kp st \<or> i \<noteq> si")
    case True
    then have "fg_kp st ! i = Some a" using i st by auto
    then show ?thesis using inv i(1) unfolding frag_inv_def by blast
  next
    case False
    then have z: "an_k (the (fg_kp st ! si)) = ?k" "improve x (fg_kp st ! si) = Some a" "i = si"
      using i st inv by (auto simp: frag_inv_def)
    then obtain a0 where a0: "fg_kp st ! si = Some a0" by (auto simp: improve_def)
    then have "si < length progress" "an_k a0 = progress ! si" "0 < an_k a0" "an_k a0 + minKnownFrag \<le> length ?raw"
        "anchor_ok ?raw body a0" using inv fe(1) unfolding frag_inv_def by blast+
    then show ?thesis using imp [of a0 a] z a0 by simp
  qed
  have "length (fg_k0 ?st) = length (sn_secrets s)" "length (fg_kp ?st) = length (sn_secrets s)"
    "length (fg_full ?st) = length (sn_secrets s)"
    using inv frag_hit_lengths [of s body "(j, e)" st] by (simp_all add: frag_inv_def)
  then show ?thesis using k0 kp unfolding frag_inv_def by blast
qed

lemma fold_frag_inv:
  "frag_inv s body progress st \<Longrightarrow>
   (\<forall>(j, e)\<in>set hits. \<exists>n. sn_refs s ! j = ref_of n \<and> entry_ok s j n \<and> occurs_at (needle n) body e) \<Longrightarrow>
   frag_inv s body progress (fold (frag_hit s body) hits st)"
proof (induction hits arbitrary: st)
  case (Cons h hits)
  obtain j e where h: "h = (j, e)" by fastforce
  then obtain n where "sn_refs s ! j = ref_of n" "entry_ok s j n" "occurs_at (needle n) body e"
    using Cons.prems(2) by (simp only: list.set ball_simps prod.case) blast
  then have "frag_inv s body progress (frag_hit s body h st)" using frag_hit_inv Cons.prems(1) h by simp
  moreover have "\<forall>(j, e)\<in>set hits. \<exists>n. sn_refs s ! j = ref_of n \<and> entry_ok s j n \<and> occurs_at (needle n) body e"
    using Cons.prems(2) by (meson list.set_intros(2))
  ultimately show ?case using Cons.IH by (simp only: fold_simps)
qed simp

lemma frag_hit_full:
  "fg_full (frag_hit s body h st) =
     (if nr_kind (sn_refs s ! fst h) = needleSecretRaw then (fg_full st)[nr_idx (sn_refs s ! fst h) := True] else fg_full st)"
  by (cases h) (simp add: frag_hit_def Let_def split: needleKind.split)

text \<open>A secret counts as complete in the body exactly if it occurs there.\<close>

lemma fold_frag_full:
  "i < length (fg_full st) \<Longrightarrow>
   fg_full (fold (frag_hit s body) hits st) ! i \<longleftrightarrow>
     fg_full st ! i \<or> (\<exists>h\<in>set hits. nr_kind (sn_refs s ! fst h) = needleSecretRaw \<and> nr_idx (sn_refs s ! fst h) = i)"
proof (induction hits arbitrary: st)
  case (Cons h hits)
  have "fg_full (frag_hit s body h st) ! i \<longleftrightarrow>
      fg_full st ! i \<or> (nr_kind (sn_refs s ! fst h) = needleSecretRaw \<and> nr_idx (sn_refs s ! fst h) = i)"
    using Cons.prems by (cases "nr_idx (sn_refs s ! fst h) = i") (auto simp: frag_hit_full)
  then show ?case using Cons.IH [of "frag_hit s body h st"] Cons.prems by (auto simp: frag_hit_lengths)
qed simp

definition frag_final :: "Scanner \<Rightarrow> string \<Rightarrow> nat list \<Rightarrow> fragState \<Rightarrow> bool" where
  "frag_final s body progress st \<longleftrightarrow>
     frag_inv s body progress st \<and> (\<forall>i<length (sn_secrets s). fg_full st ! i \<longleftrightarrow> sublist (ks_raw (sn_secrets s ! i)) body)"

lemma frag_scan:
  assumes ok: "prefilter_of s ns"
  shows "\<exists>hits. ac_search (sn_ac s) body = Some hits \<and>
    frag_final s body progress (fold (frag_hit s body) hits (frag_init s body progress))"
proof -
  obtain hits where h: "ac_search (sn_ac s) body = Some hits"
      "\<forall>i e. (i, e) \<in> set hits \<longleftrightarrow> i < length ns \<and> occurs_at (needle (ns ! i)) body e"
    using scan_hits [OF ok] by blast
  let ?st = "fold (frag_hit s body) hits (frag_init s body progress)"
  have "frag_inv s body progress ?st"
  proof (rule fold_frag_inv [OF frag_init_inv], clarify)
    fix j e
    assume "(j, e) \<in> set hits"
    then have j: "j < length ns" "occurs_at (needle (ns ! j)) body e" using h(2) by auto
    show "\<exists>n. sn_refs s ! j = ref_of n \<and> entry_ok s j n \<and> occurs_at (needle n) body e"
      using ref_at [OF ok j(1)] prefilter_entry [OF ok j(1)] j(2) by blast
  qed
  moreover have "fg_full ?st ! i \<longleftrightarrow> sublist (ks_raw (sn_secrets s ! i)) body" if i: "i < length (sn_secrets s)" for i
  proof -
    have "fg_full ?st ! i \<longleftrightarrow>
        (\<exists>h\<in>set hits. nr_kind (sn_refs s ! fst h) = needleSecretRaw \<and> nr_idx (sn_refs s ! fst h) = i)"
      using i by (subst fold_frag_full) (simp_all add: frag_init_def)
    also have "\<dots> \<longleftrightarrow> sublist (ks_raw (sn_secrets s ! i)) body"
    proof
      assume "\<exists>h\<in>set hits. nr_kind (sn_refs s ! fst h) = needleSecretRaw \<and> nr_idx (sn_refs s ! fst h) = i"
      then obtain j e where m: "(j, e) \<in> set hits" "nr_kind (sn_refs s ! j) = needleSecretRaw" "nr_idx (sn_refs s ! j) = i" by force
      then have j: "j < length ns" "occurs_at (needle (ns ! j)) body e" using h(2) by auto
      obtain k i' v w where n: "ns ! j = (k, i', v, w)" by (cases "ns ! j")
      have "k = needleSecretRaw" "i' = i" using m(2,3) ref_at [OF ok j(1)] n by simp_all
      then have "w = ks_raw (sn_secrets s ! i)" using raw_entry prefilter_entry [OF ok j(1)] n by auto
      then show "sublist (ks_raw (sn_secrets s ! i)) body" using j(2) n occurs_iff_sublist by (metis snd_conv)
    next
      assume "sublist (ks_raw (sn_secrets s ! i)) body"
      then obtain e where e: "occurs_at (ks_raw (sn_secrets s ! i)) body e" using occurs_iff_sublist by blast
      let ?j = "ks_rawID (sn_secrets s ! i)"
      have c: "?j < length ns" "ns ! ?j = (needleSecretRaw, i, -1, ks_raw (sn_secrets s ! i))"
        using carried [OF ok i] by (simp_all add: secret_carried_def)
      then have "(?j, e) \<in> set hits" using h(2) e by simp
      moreover have "nr_kind (sn_refs s ! ?j) = needleSecretRaw" "nr_idx (sn_refs s ! ?j) = i"
        using ref_at [OF ok c(1)] c(2) by simp_all
      ultimately show "\<exists>h\<in>set hits. nr_kind (sn_refs s ! fst h) = needleSecretRaw \<and> nr_idx (sn_refs s ! fst h) = i" by force
    qed
    finally show ?thesis .
  qed
  ultimately show ?thesis using h(1) unfolding frag_final_def by blast
qed

subsection \<open>Progress across requests\<close>

text \<open>The pieces \<open>ws\<close>, of at least eight bytes each, occur in successive bodies, in this order.\<close>

definition pieces_in :: "string list \<Rightarrow> string list \<Rightarrow> bool" where
  "pieces_in ws bodies \<longleftrightarrow>
     (\<exists>bs. subseq bs bodies \<and> list_all2 sublist ws bs) \<and> (\<forall>w\<in>set ws. minKnownFrag \<le> length w)"

lemma pieces_in_snoc: "pieces_in ws bodies \<Longrightarrow> pieces_in ws (bodies @ [b])"
  unfolding pieces_in_def using list_emb_prefix by blast

lemma pieces_in_extend:
  assumes "pieces_in ws bodies" "sublist w b" "minKnownFrag \<le> length w"
  shows "pieces_in (ws @ [w]) (bodies @ [b])"
proof -
  obtain bs where "subseq bs bodies" "list_all2 sublist ws bs" using assms(1) by (auto simp: pieces_in_def)
  then have "subseq (bs @ [b]) (bodies @ [b])" "list_all2 sublist (ws @ [w]) (bs @ [b])"
    using assms(2) by (simp_all add: list_all2_appendI)
  moreover have "\<forall>v\<in>set (ws @ [w]). minKnownFrag \<le> length v" using assms(1,3) by (simp add: pieces_in_def)
  ultimately show ?thesis unfolding pieces_in_def by blast
qed

definition progress_sound :: "Scanner \<Rightarrow> string list \<Rightarrow> nat list \<Rightarrow> bool" where
  "progress_sound s bodies progress \<longleftrightarrow>
     (\<forall>i<length progress. 0 < progress ! i \<longrightarrow>
        i < length (sn_secrets s) \<and> progress ! i < length (ks_raw (sn_secrets s ! i)) \<and>
        (\<exists>ws. pieces_in ws bodies \<and> concat ws = take (progress ! i) (ks_raw (sn_secrets s ! i))))"

text \<open>A secret that the bodies carry in at least two pieces, and that the last of them does not carry whole.\<close>

definition split_across :: "string \<Rightarrow> string list \<Rightarrow> string \<Rightarrow> bool" where
  "split_across raw bodies body \<longleftrightarrow>
     (\<exists>ws. 2 \<le> length ws \<and> pieces_in ws (bodies @ [body]) \<and> concat ws = raw) \<and> \<not> sublist raw body"

lemma take_substr: "p + m \<le> length raw \<Longrightarrow> take p raw @ substr raw p (p + m) = take (p + m) raw"
  by (simp add: substr_def take_drop [symmetric] take_add)

lemma frag_result_sound:
  assumes fin: "frag_final s body progress st" and snd: "progress_sound s bodies progress" and i: "i < length (sn_secrets s)"
    and r: "frag_result s st i = (fired, n, res)"
  shows "(0 < n \<longrightarrow> n < length (ks_raw (sn_secrets s ! i)) \<and>
      (\<exists>ws. pieces_in ws (bodies @ [body]) \<and> concat ws = take n (ks_raw (sn_secrets s ! i)))) \<and>
    (fired \<longrightarrow> split_across (ks_raw (sn_secrets s ! i)) bodies body) \<and>
    (res \<longrightarrow> n = 0 \<and> (fired \<or> sublist (ks_raw (sn_secrets s ! i)) body))"
proof -
  let ?raw = "ks_raw (sn_secrets s ! i)"
  have inv: "\<And>a. fg_k0 st ! i = Some a \<Longrightarrow> an_k a = 0 \<and> anchor_ok ?raw body a"
    "\<And>a. fg_kp st ! i = Some a \<Longrightarrow> i < length progress \<and> an_k a = progress ! i \<and> 0 < an_k a \<and> anchor_ok ?raw body a"
    "fg_full st ! i \<longleftrightarrow> sublist ?raw body"
    using fin i unfolding frag_final_def frag_inv_def by blast+
  define start where "start = (case fg_k0 st ! i of
      Some a \<Rightarrow> if 0 < an_best a \<and> an_best a < length ?raw then an_best a else 0 | None \<Rightarrow> 0)"
  have from_start: "start < length ?raw \<and> (\<exists>ws. pieces_in ws (bodies @ [body]) \<and> concat ws = take start ?raw)" if pos: "0 < start"
  proof -
    obtain a where a: "fg_k0 st ! i = Some a" "start = an_best a" "an_best a < length ?raw"
      using pos unfolding start_def by (auto split: option.splits if_splits)
    have "minKnownFrag \<le> start" "sublist (take start ?raw) body"
      using inv(1) [OF a(1)] a(2) pos by (auto simp: anchor_ok_def substr_def)
    then have "pieces_in ([] @ [take start ?raw]) (bodies @ [body])"
      using a by (intro pieces_in_extend) (auto simp: pieces_in_def)
    then show ?thesis using a by (intro conjI exI [of _ "[take start ?raw]"]) simp_all
  qed
  have extend: "\<exists>ws. 2 \<le> length ws \<and> pieces_in ws (bodies @ [body]) \<and> concat ws = take (an_k a + an_best a) ?raw"
    "an_k a + an_best a \<le> length ?raw" "0 < an_k a" if a: "fg_kp st ! i = Some a" "0 < an_best a" for a
  proof -
    have k: "i < length progress" "an_k a = progress ! i" "0 < an_k a" "minKnownFrag \<le> an_best a"
      "an_k a + an_best a \<le> length ?raw" "sublist (substr ?raw (an_k a) (an_k a + an_best a)) body"
      using inv(2) [OF a(1)] a(2) by (auto simp: anchor_ok_def)
    then obtain ws where ws: "pieces_in ws bodies" "concat ws = take (an_k a) ?raw"
      using snd unfolding progress_sound_def by metis
    let ?w = "substr ?raw (an_k a) (an_k a + an_best a)"
    have "pieces_in (ws @ [?w]) (bodies @ [body])"
      using pieces_in_extend [OF ws(1) k(6)] k(4,5) by (simp add: substr_def)
    moreover have "concat (ws @ [?w]) = take (an_k a + an_best a) ?raw" using ws(2) take_substr k(5) by simp
    moreover have "ws \<noteq> []" using ws(2) k(3,5) by (cases ws) auto
    then have "2 \<le> length (ws @ [?w])" by (cases ws) simp_all
    ultimately show "\<exists>ws. 2 \<le> length ws \<and> pieces_in ws (bodies @ [body]) \<and> concat ws = take (an_k a + an_best a) ?raw" by blast
    show "an_k a + an_best a \<le> length ?raw" "0 < an_k a" using k by blast+
  qed
  have res_eq: "frag_result s st i =
      (if length ?raw < 2 * minKnownFrag then (False, 0, False)
       else if fg_full st ! i then (False, 0, True)
       else (case fg_kp st ! i of
          Some a \<Rightarrow> if 0 < an_best a then
              (if an_k a + an_best a = length ?raw then (True, 0, True) else (False, an_k a + an_best a, False))
            else (False, start, False)
        | None \<Rightarrow> (False, start, False)))"
    unfolding frag_result_def start_def Let_def by (rule refl)
  consider (short) "(fired, n, res) = (False, 0, False)" | (full) "sublist ?raw body" "(fired, n, res) = (False, 0, True)"
    | (start) "(fired, n, res) = (False, start, False)"
    | (completed) a where "fg_kp st ! i = Some a" "0 < an_best a" "an_k a + an_best a = length ?raw" "\<not> sublist ?raw body"
        "(fired, n, res) = (True, 0, True)"
    | (more) a where "fg_kp st ! i = Some a" "0 < an_best a" "an_k a + an_best a \<noteq> length ?raw"
        "(fired, n, res) = (False, an_k a + an_best a, False)"
    using r unfolding res_eq inv(3) by (auto split: if_splits option.splits)
  then show ?thesis
  proof cases
    case start
    then show ?thesis using from_start by simp
  next
    case (completed a)
    then show ?thesis using extend(1) [OF completed(1,2)] unfolding split_across_def by simp
  next
    case (more a)
    then show ?thesis using extend [OF more(1,2)] by auto
  qed simp_all
qed

lemma list_ex_map: "list_ex P (map f xs) \<longleftrightarrow> (\<exists>x\<in>set xs. P (f x))"
  by (auto simp: list_ex_iff)

text \<open>
  One call, of which the progress is sound for the bodies before: it fires only for a secret that arrived
  in pieces, the progress it returns is sound with the new body, and it resets only what fired or is whole
  in the new body.
\<close>

lemma fragment_sound:
  assumes ok: "prefilter_of s ns" and sound: "progress_sound s bodies progress"
  shows "\<exists>fired ps resets. ScanKnownFragment s body progress = Some (fired, ps, resets) \<and>
    progress_sound s (bodies @ [body]) ps \<and>
    (fired \<longrightarrow> (\<exists>sec\<in>set (sn_secrets s). split_across (ks_raw sec) bodies body)) \<and>
    length ps = length (sn_secrets s) \<and> (\<forall>i<length resets. resets ! i \<longrightarrow> i < length ps \<and> ps ! i = 0)"
proof (cases "sn_secrets s = []")
  case True
  then show ?thesis by (intro exI [of _ False] exI [of _ "[]"]) (simp add: ScanKnownFragment_def progress_sound_def)
next
  case False
  obtain hits where h: "ac_search (sn_ac s) body = Some hits"
      "frag_final s body progress (fold (frag_hit s body) hits (frag_init s body progress))"
    using frag_scan [OF ok] by blast
  define st where "st = fold (frag_hit s body) hits (frag_init s body progress)"
  define rs where "rs = map (frag_result s st) [0..<length (sn_secrets s)]"
  let ?resets = "map (\<lambda>(_, _, r). r) rs"
  have eq: "ScanKnownFragment s body progress =
      Some (list_ex fst rs, map (\<lambda>(_, n, _). n) rs, if list_ex id ?resets then ?resets else [])"
    using False h(1) by (simp add: ScanKnownFragment_def Let_def rs_def st_def)
  have res: "(0 < fst (snd (rs ! i)) \<longrightarrow> fst (snd (rs ! i)) < length (ks_raw (sn_secrets s ! i)) \<and>
      (\<exists>ws. pieces_in ws (bodies @ [body]) \<and> concat ws = take (fst (snd (rs ! i))) (ks_raw (sn_secrets s ! i)))) \<and>
    (fst (rs ! i) \<longrightarrow> split_across (ks_raw (sn_secrets s ! i)) bodies body) \<and>
    (snd (snd (rs ! i)) \<longrightarrow> fst (snd (rs ! i)) = 0)" if i: "i < length (sn_secrets s)" for i
  proof -
    obtain f n r where r: "frag_result s st i = (f, n, r)" by (cases "frag_result s st i")
    then have "rs ! i = (f, n, r)" using i by (simp add: rs_def)
    then show ?thesis using frag_result_sound [OF h(2) [folded st_def] sound i r] by simp
  qed
  have len: "length rs = length (sn_secrets s)" by (simp add: rs_def)
  have nxt: "map (\<lambda>(_, n, _). n) rs ! i = fst (snd (rs ! i))" "?resets ! i = snd (snd (rs ! i))" if "i < length rs" for i
    using that by (simp_all add: case_prod_beta)
  have "progress_sound s (bodies @ [body]) (map (\<lambda>(_, n, _). n) rs)"
    unfolding progress_sound_def using res nxt len by (simp add: case_prod_beta)
  moreover have "\<exists>sec\<in>set (sn_secrets s). split_across (ks_raw sec) bodies body" if fired: "list_ex fst rs"
  proof -
    from fired obtain i where i: "i < length (sn_secrets s)" "fst (rs ! i)"
      using len by (auto simp: list_ex_iff in_set_conv_nth)
    then have "split_across (ks_raw (sn_secrets s ! i)) bodies body" using res by blast
    then show ?thesis using i(1) by (metis nth_mem)
  qed
  moreover have "i < length rs \<and> map (\<lambda>(_, n, _). n) rs ! i = 0" if "i < length ?resets" "?resets ! i" for i
    using that res nxt len by simp
  ultimately show ?thesis unfolding eq using len by simp
qed

end
