(* ===== verification/Guard_Claims_Props.thy ===== *)
theory Guard_Claims_Props
  imports Guard_Known_Props
begin

text \<open>
  The claimed spans of a scan are disjoint, non-empty and inside the body, provided no pattern matches
  the empty string, so redaction is defined on them; and every occurrence of a known secret meets a
  claimed span while the caps are not reached, so no part of the body that redaction keeps contains one.
\<close>

subsection \<open>The binary search\<close>

definition splits :: "nat \<Rightarrow> (nat \<Rightarrow> bool) \<Rightarrow> nat \<Rightarrow> bool" where
  "splits n f i \<longleftrightarrow> i \<le> n \<and> (\<forall>k<i. \<not> f k) \<and> (\<forall>k. i \<le> k \<longrightarrow> k < n \<longrightarrow> f k)"

lemma search_loop_spec:
  "(\<forall>a b. a \<le> b \<longrightarrow> b < n \<longrightarrow> f a \<longrightarrow> f b) \<Longrightarrow> i \<le> j \<Longrightarrow> j \<le> n \<Longrightarrow> (\<forall>k<i. \<not> f k) \<Longrightarrow>
   (\<forall>k. j \<le> k \<longrightarrow> k < n \<longrightarrow> f k) \<Longrightarrow> splits n f (search_loop f i j)"
proof (induction f i j rule: search_loop.induct)
  case (1 f i j)
  show ?case
  proof (cases "i < j")
    case False
    then have "i = j" using 1(4) by simp
    then show ?thesis using 1(5-) by (subst search_loop.simps) (simp add: splits_def)
  next
    case True
    define h where "h = (i + j) div 2"
    have h: "i \<le> h" "h < j" using True by (auto simp: h_def)
    show ?thesis
    proof (cases "f h")
      case fh: True
      then have "\<forall>k. h \<le> k \<longrightarrow> k < n \<longrightarrow> f k" using 1(3) by blast
      then have "splits n f (search_loop f i h)"
        using 1(2) [OF True h_def] fh 1(3,5,6) h by auto
      then show ?thesis using True fh by (subst search_loop.simps) (simp add: h_def Let_def)
    next
      case fh: False
      have "\<not> f k" if "k < Suc h" for k using 1(3) fh that h 1(5) by (meson less_Suc_eq_le less_le_trans)
      then have "splits n f (search_loop f (Suc h) j)"
        using 1(1) [OF True h_def] fh 1(3,5,7) h by auto
      then show ?thesis using True fh by (subst search_loop.simps) (simp add: h_def Let_def)
    qed
  qed
qed

lemma sort_Search_splits: "(\<And>a b. a \<le> b \<Longrightarrow> b < n \<Longrightarrow> f a \<Longrightarrow> f b) \<Longrightarrow> splits n f (sort_Search n f)"
  unfolding sort_Search_def by (rule search_loop_spec) auto

subsection \<open>The claimed intervals\<close>

definition disjoint_spans :: "(nat \<times> nat) list \<Rightarrow> bool" where
  "disjoint_spans iv \<longleftrightarrow> sorted_wrt (\<lambda>a b. snd a \<le> fst b) iv \<and> (\<forall>p\<in>set iv. fst p < snd p)"

definition claims_are :: "claimSet \<Rightarrow> (nat \<times> nat) list \<Rightarrow> bool" where
  "claims_are c iv \<longleftrightarrow> cs_starts c = map fst iv \<and> cs_ends c = map snd iv \<and> disjoint_spans iv"

lemma disjoint_spans_nth:
  assumes "disjoint_spans iv" "i < j" "j < length iv"
  shows "fst (iv ! i) < snd (iv ! i)" "snd (iv ! i) \<le> fst (iv ! j)" "fst (iv ! j) < snd (iv ! j)"
  using assms by (auto simp: disjoint_spans_def sorted_wrt_iff_nth_less)

lemma overlaps_iff:
  assumes c: "claims_are c iv" and ne: "start < stop"
  shows "overlaps c start stop \<longleftrightarrow> (\<exists>p\<in>set iv. fst p < stop \<and> start < snd p)"
proof -
  have iv: "disjoint_spans iv" and ends: "cs_ends c = map snd iv" "cs_starts c = map fst iv"
    using c by (simp_all add: claims_are_def)
  define i where "i = sort_Search (length (cs_ends c)) (\<lambda>i. start < cs_ends c ! i)"
  have "splits (length (cs_ends c)) (\<lambda>i. start < cs_ends c ! i) i"
    unfolding i_def
  proof (rule sort_Search_splits)
    fix a b assume "a \<le> b" "b < length (cs_ends c)" "start < cs_ends c ! a"
    then show "start < cs_ends c ! b"
      using disjoint_spans_nth [OF iv, of a b] by (cases "a = b") (auto simp: ends)
  qed
  then have i: "\<forall>k<i. k < length iv \<longrightarrow> snd (iv ! k) \<le> start"
      "\<forall>k. i \<le> k \<longrightarrow> k < length iv \<longrightarrow> start < snd (iv ! k)" "i \<le> length iv"
    by (auto simp: splits_def not_less ends)
  have ov: "overlaps c start stop \<longleftrightarrow> i < length iv \<and> fst (iv ! i) < stop"
    unfolding overlaps_def Let_def i_def [symmetric] by (auto simp: ends)
  show ?thesis
  proof
    assume "overlaps c start stop"
    then have "i < length iv" "fst (iv ! i) < stop" by (simp_all add: ov)
    then show "\<exists>p\<in>set iv. fst p < stop \<and> start < snd p" using i(2) nth_mem by blast
  next
    assume "\<exists>p\<in>set iv. fst p < stop \<and> start < snd p"
    then obtain k where k: "k < length iv" "fst (iv ! k) < stop" "start < snd (iv ! k)"
      by (auto simp: in_set_conv_nth)
    then have "i \<le> k" using i(1) by (meson not_le)
    then have "fst (iv ! i) \<le> fst (iv ! k)"
      using disjoint_spans_nth [OF iv, of i k] k(1) by (cases "i = k") auto
    then show "overlaps c start stop" unfolding ov using \<open>i \<le> k\<close> k by linarith
  qed
qed

lemma claim_interval_are:
  assumes c: "claims_are c iv" and ne: "start < stop" and free: "\<not> overlaps c start stop"
  shows "\<exists>us vs. iv = us @ vs \<and> claims_are (claim_interval c start stop) (us @ (start, stop) # vs)"
proof -
  have iv: "disjoint_spans iv" and ends: "cs_ends c = map snd iv" "cs_starts c = map fst iv"
    using c by (simp_all add: claims_are_def)
  have apart: "stop \<le> fst p \<or> snd p \<le> start" if "p \<in> set iv" for p
    using free that unfolding overlaps_iff [OF c ne] by force
  define i where "i = sort_Search (length (cs_starts c)) (\<lambda>i. start < cs_starts c ! i)"
  have "splits (length (cs_starts c)) (\<lambda>i. start < cs_starts c ! i) i"
    unfolding i_def
  proof (rule sort_Search_splits)
    fix a b assume "a \<le> b" "b < length (cs_starts c)" "start < cs_starts c ! a"
    then show "start < cs_starts c ! b"
      using disjoint_spans_nth [OF iv, of a b] by (cases "a = b") (auto simp: ends)
  qed
  then have i: "\<forall>k<i. fst (iv ! k) \<le> start" "\<forall>k. i \<le> k \<longrightarrow> k < length iv \<longrightarrow> start < fst (iv ! k)" "i \<le> length iv"
    by (auto simp: splits_def not_less ends)
  define us vs where "us = take i iv" and "vs = drop i iv"
  have split: "iv = us @ vs" by (simp add: us_def vs_def)
  have before: "snd p \<le> start" if pin: "p \<in> set us" for p
  proof -
    obtain k where "k < length us" "p = us ! k" using pin by (metis in_set_conv_nth)
    then have "k < i" "p = iv ! k" using i(3) by (simp_all add: us_def)
    then have "fst p \<le> start" "p \<in> set iv" using i(1,3) by auto
    then show ?thesis using apart [of p] ne by linarith
  qed
  have after: "stop \<le> fst p" if pin: "p \<in> set vs" for p
  proof -
    obtain k where "k < length vs" "p = vs ! k" using pin by (metis in_set_conv_nth)
    then have k: "i + k < length iv" "p = iv ! (i + k)" using i(3) by (simp_all add: vs_def)
    then have "start < fst p" "p \<in> set iv" using i(2) by auto
    moreover have "fst p < snd p" using iv \<open>p \<in> set iv\<close> by (simp add: disjoint_spans_def)
    ultimately show ?thesis using apart [of p] by linarith
  qed
  have "disjoint_spans (us @ (start, stop) # vs)"
    using iv before after ne unfolding split disjoint_spans_def by (auto simp: sorted_wrt_append)
  moreover have "claim_interval c start stop = \<lparr> cs_starts = map fst (us @ (start, stop) # vs), cs_ends = map snd (us @ (start, stop) # vs) \<rparr>"
    unfolding claim_interval_def Let_def i_def [symmetric] insert_at_def
    by (simp add: ends us_def vs_def take_map drop_map)
  ultimately show ?thesis using split by (auto simp: claims_are_def)
qed

abbreviation gm_span :: "gmatch \<Rightarrow> nat \<times> nat" where
  "gm_span m \<equiv> (gm_start m, gm_end m)"

text \<open>The invariant of the claimed table: the intervals are the spans of the matches found.\<close>

definition table_inv :: "string \<Rightarrow> scanState \<Rightarrow> bool" where
  "table_inv body st \<longleftrightarrow>
     (\<exists>iv. claims_are (ss_claimed st) iv \<and> mset iv = mset (map gm_span (ss_found st))) \<and>
     (\<forall>m\<in>set (ss_found st). gm_end m \<le> length body)"

definition span_ok :: "string \<Rightarrow> nat \<times> nat \<Rightarrow> bool" where
  "span_ok body p \<longleftrightarrow> fst p < snd p \<and> snd p \<le> length body"

definition met :: "gmatch list \<Rightarrow> nat \<times> nat \<Rightarrow> bool" where
  "met found p \<longleftrightarrow> (\<exists>m\<in>set found. gm_start m < snd p \<and> fst p < gm_end m)"

lemma met_mono: "prefix xs ys \<Longrightarrow> met xs p \<Longrightarrow> met ys p"
  by (auto simp: met_def prefix_def)

lemma overlaps_met:
  assumes "table_inv body st" "start < stop"
  shows "overlaps (ss_claimed st) start stop \<longleftrightarrow> met (ss_found st) (start, stop)"
proof -
  obtain iv where iv: "claims_are (ss_claimed st) iv" "mset iv = mset (map gm_span (ss_found st))"
    using assms(1) by (auto simp: table_inv_def)
  have "set iv = gm_span ` set (ss_found st)" using arg_cong [OF iv(2), of set_mset] by simp
  then show ?thesis unfolding overlaps_iff [OF iv(1) assms(2)] met_def by auto
qed

lemma claim_prefix: "prefix (ss_found st) (ss_found (claim name p st))"
  by (auto simp: claim_def split: prod.splits)

lemma claim_inv:
  assumes inv: "table_inv body st" and ok: "span_ok body p"
  shows "table_inv body (claim name p st)"
proof -
  obtain start stop where p: "p = (start, stop)" by fastforce
  show ?thesis
  proof (cases "capped st \<or> overlaps (ss_claimed st) start stop")
    case True
    then show ?thesis using inv by (simp add: claim_def p)
  next
    case False
    obtain iv where iv: "claims_are (ss_claimed st) iv" "mset iv = mset (map gm_span (ss_found st))"
      using inv by (auto simp: table_inv_def)
    have "start < stop" "\<not> overlaps (ss_claimed st) start stop" using ok False by (simp_all add: p span_ok_def)
    then obtain us vs where "iv = us @ vs" "claims_are (claim_interval (ss_claimed st) start stop) (us @ (start, stop) # vs)"
      using claim_interval_are [OF iv(1)] by blast
    then show ?thesis using False inv ok iv(2)
      by (auto simp: claim_def p table_inv_def span_ok_def intro!: exI [of _ "us @ (start, stop) # vs"])
  qed
qed

lemma claim_met:
  assumes "table_inv body st" "span_ok body p" "\<not> capped st"
  shows "met (ss_found (claim name p st)) p"
proof -
  obtain start stop where p: "p = (start, stop)" by fastforce
  then have "start < stop" using assms(2) by (simp add: span_ok_def)
  then show ?thesis using overlaps_met [OF assms(1)] assms(3) by (auto simp: claim_def p met_def)
qed

lemma capped_mono: "prefix (ss_found st) (ss_found st') \<Longrightarrow> capped st \<Longrightarrow> capped st'"
  by (auto simp: capped_def dest: prefix_length_le)

subsection \<open>The sources\<close>

text \<open>What a source does to the table: it extends it and keeps the invariant.\<close>

definition extends :: "string \<Rightarrow> scanState \<Rightarrow> scanState \<Rightarrow> bool" where
  "extends body st st' \<longleftrightarrow> prefix (ss_found st) (ss_found st') \<and> (table_inv body st \<longrightarrow> table_inv body st')"

lemma extends_refl [intro]: "extends body st st"
  by (simp add: extends_def)

lemma table_extends_trans [trans]: "extends body a b \<Longrightarrow> extends body b c \<Longrightarrow> extends body a c"
  by (auto simp: extends_def intro: prefix_order.trans)

lemma extends_met: "extends body a b \<Longrightarrow> met (ss_found a) p \<Longrightarrow> met (ss_found b) p"
  unfolding extends_def using met_mono by blast

lemma uncapped_extends: "extends body a b \<Longrightarrow> \<not> capped b \<Longrightarrow> \<not> capped a"
  unfolding extends_def using capped_mono by blast

lemma claim_extends: "span_ok body p \<Longrightarrow> extends body st (claim name p st)"
  by (simp add: extends_def claim_prefix claim_inv)

lemma fold_extends: "(\<And>x st. x \<in> set xs \<Longrightarrow> extends body st (f x st)) \<Longrightarrow> extends body st (fold f xs st)"
  by (induction xs arbitrary: st) (auto intro: table_extends_trans)

lemma claim_stream_extends: "(\<And>p. p \<in> set ps \<Longrightarrow> span_ok body p) \<Longrightarrow> extends body st (claim_stream name ps st)"
proof (induction ps arbitrary: st)
  case (Cons p ps)
  have 1: "extends body st (claim name p st)" using Cons.prems by (intro claim_extends) simp
  show ?case
  proof (cases "capped (claim name p st)")
    case False
    have "extends body (claim name p st) (claim_stream name ps (claim name p st))"
      using Cons.prems by (intro Cons.IH) simp
    then show ?thesis using False table_extends_trans [OF 1] by (simp add: Let_def)
  qed (use 1 in \<open>simp add: Let_def\<close>)
qed auto

text \<open>The hypothesis on a pattern: its matches are in the text, not empty, and its group is in the match.\<close>

definition nonempty_matches :: "regexp \<Rightarrow> bool" where
  "nonempty_matches re \<longleftrightarrow>
     (\<forall>t ms me g. re_FindSubmatchIndex re t = Some ((ms, me), g) \<longrightarrow>
        ms < me \<and> me \<le> length t \<and> (\<forall>gs ge. g = Some (gs, ge) \<longrightarrow> ms \<le> gs \<and> gs < ge \<and> ge \<le> me))"

lemma nonempty_matchesD:
  "nonempty_matches re \<Longrightarrow> re_FindSubmatchIndex re t = Some ((ms, me), g) \<Longrightarrow>
   ms < me \<and> me \<le> length t \<and> (\<forall>gs ge. g = Some (gs, ge) \<longrightarrow> ms \<le> gs \<and> gs < ge \<and> ge \<le> me)"
  unfolding nonempty_matches_def by blast

lemma findEach_ok:
  assumes re: "nonempty_matches (ru_re r)"
  shows "p \<in> set (findEach r body pos) \<Longrightarrow> span_ok body p"
proof (induction "Suc (length body) - pos" arbitrary: p pos rule: less_induct)
  case less
  have pos: "pos \<le> length body" using less.prems by (subst (asm) findEach.simps) (auto split: if_splits)
  have "re_FindSubmatchIndex (ru_re r) (drop pos body) \<noteq> None"
  proof
    assume "re_FindSubmatchIndex (ru_re r) (drop pos body) = None"
    then have "findEach r body pos = []" by (subst findEach.simps) simp
    then show False using less.prems by simp
  qed
  then obtain ms me g where loc: "re_FindSubmatchIndex (ru_re r) (drop pos body) = Some ((ms, me), g)"
    by (metis option.exhaust prod.collapse)
  obtain gs ge where cs: "claim_span r ((ms, me), g) = (gs, ge)" by fastforce
  have m: "ms < me" "me \<le> length body - pos" "\<And>gs ge. g = Some (gs, ge) \<Longrightarrow> ms \<le> gs \<and> gs < ge \<and> ge \<le> me"
    using nonempty_matchesD [OF re loc] by simp_all
  then have g: "gs < ge" "ge \<le> me" using cs by (auto simp: claim_span_def split: bool.splits option.splits)
  have "set (findEach r body pos) \<subseteq> insert (pos + gs, pos + ge) (set (findEach r body (pos + me)))"
    using pos loc cs m(1) by (subst findEach.simps) (auto simp: Let_def)
  moreover have "span_ok body (pos + gs, pos + ge)" using g m(2) pos by (simp add: span_ok_def)
  moreover have "span_ok body q" if "q \<in> set (findEach r body (pos + me))" for q
    using less.hyps [of "pos + me"] that m(1) pos by simp
  ultimately show ?case using less.prems by blast
qed

lemma custom_spans_ok:
  assumes re: "nonempty_matches (cr_re c)"
  shows "p \<in> set (custom_spans c body pos) \<Longrightarrow> span_ok body p"
proof (induction "Suc (length body) - pos" arbitrary: p pos rule: less_induct)
  case less
  have pos: "pos \<le> length body" using less.prems by (subst (asm) custom_spans.simps) (auto split: if_splits)
  have "re_FindSubmatchIndex (cr_re c) (drop pos body) \<noteq> None"
  proof
    assume "re_FindSubmatchIndex (cr_re c) (drop pos body) = None"
    then have "custom_spans c body pos = []" by (subst custom_spans.simps) simp
    then show False using less.prems by simp
  qed
  then obtain ms me g where loc: "re_FindSubmatchIndex (cr_re c) (drop pos body) = Some ((ms, me), g)"
    by (metis option.exhaust prod.collapse)
  have m: "ms < me" "me \<le> length body - pos"
    using nonempty_matchesD [OF re loc] by simp_all
  have "set (custom_spans c body pos) = insert (pos + ms, pos + me) (set (custom_spans c body (pos + me)))"
    using pos loc m(1) by (subst custom_spans.simps) (simp add: Let_def)
  moreover have "span_ok body (pos + ms, pos + me)" using m pos by (simp add: span_ok_def)
  moreover have "span_ok body q" if "q \<in> set (custom_spans c body (pos + me))" for q
    using less.hyps [of "pos + me"] that m(1) pos by simp
  ultimately show ?case using less.prems by (metis insertE)
qed

lemma claim_raw_extends:
  "(\<And>sec e. sec \<in> set secs \<Longrightarrow> e \<in> set (fmget [] (p1_secretHits p) (ks_rawID sec)) \<Longrightarrow> span_ok body (e - length (ks_raw sec), e)) \<Longrightarrow>
   extends body st (claim_raw p secs st)"
proof (induction secs arbitrary: st)
  case (Cons sec secs)
  show ?case
  proof (cases "capped st")
    case False
    let ?st = "fold (\<lambda>stop. claim knownSecret (stop - length (ks_raw sec), stop)) (fmget [] (p1_secretHits p) (ks_rawID sec)) st"
    have "extends body st ?st" using Cons.prems by (intro fold_extends claim_extends) auto
    also have "extends body ?st (claim_raw p secs ?st)" using Cons.prems by (intro Cons.IH) auto
    finally show ?thesis using False by simp
  qed auto
qed auto

lemma claim_encoded_extends:
  "(\<And>sec i v e. sec \<in> set secs \<Longrightarrow> (i, v) \<in> set (zip (ks_encodedIDs sec) (ks_encoded sec)) \<Longrightarrow>
      e \<in> set (fmget [] (p1_secretHits p) i) \<Longrightarrow> span_ok body (e - length v, e)) \<Longrightarrow>
   extends body st (claim_encoded p secs st)"
proof (induction secs arbitrary: st)
  case (Cons sec secs)
  show ?case
  proof (cases "capped st")
    case False
    let ?st = "fold (\<lambda>(i, v). fold (\<lambda>stop. claim knownSecretEncoded (stop - length v, stop)) (fmget [] (p1_secretHits p) i))
      (zip (ks_encodedIDs sec) (ks_encoded sec)) st"
    have "extends body st ?st"
    proof (rule fold_extends, clarify)
      fix i v st assume "(i, v) \<in> set (zip (ks_encodedIDs sec) (ks_encoded sec))"
      then show "extends body st (fold (\<lambda>stop. claim knownSecretEncoded (stop - length v, stop)) (fmget [] (p1_secretHits p) i) st)"
        using Cons.prems by (intro fold_extends claim_extends) auto
    qed
    also have "extends body ?st (claim_encoded p secs ?st)" by (intro Cons.IH Cons.prems) auto
    finally show ?thesis using False by simp
  qed auto
qed auto

lemma claim_rules_extends:
  "(\<And>i r. (i, r) \<in> set rs \<Longrightarrow> nonempty_matches (ru_re r)) \<Longrightarrow> extends body st (claim_rules body p rs st)"
proof (induction rs arbitrary: st)
  case (Cons ir rs)
  obtain i r where ir: "ir = (i, r)" by fastforce
  have "extends body st (claim_stream (ru_name r) (findEach r body 0) st)"
    using findEach_ok Cons.prems [of i r] by (intro claim_stream_extends) (auto simp: ir)
  moreover have ih: "extends body st (claim_rules body p rs st)" for st using Cons.prems by (intro Cons.IH) auto
  ultimately show ?case using table_extends_trans by (auto simp: ir)
qed auto

lemma claim_custom_extends:
  "(\<And>c. c \<in> set cs \<Longrightarrow> nonempty_matches (cr_re c)) \<Longrightarrow> extends body st (claim_custom body cs st)"
proof (induction cs arbitrary: st)
  case (Cons c cs)
  have "extends body st (claim_stream (cr_name c) (custom_spans c body 0) st)"
    using custom_spans_ok Cons.prems [of c] by (intro claim_stream_extends) auto
  moreover have ih: "extends body st (claim_custom body cs st)" for st using Cons.prems by (intro Cons.IH) auto
  ultimately show ?case using table_extends_trans by auto
qed auto

lemma probe_ends_extends:
  "(\<And>e. e \<in> set ends \<Longrightarrow> span_ok body (e - length (pr_variant p), e)) \<Longrightarrow>
   extends body (snd ds) (snd (probe_ends s body p ends sp ds))"
proof (induction ends arbitrary: sp ds)
  case (Cons e ends)
  obtain a b where ex: "expandSpan body (e - length (pr_variant p)) e (if pr_hexForm p then isHexTokenByte else isB64TokenByte) = (a, b)"
    by fastforce
  have sp: "span_ok body (e - length (pr_variant p), e)" using Cons.prems by simp
  then have ok: "span_ok body (a, b)"
    using expandSpan_bounds [OF ex] by (auto simp: span_ok_def)
  have ih: "extends body (snd ds') (snd (probe_ends s body p ends sp' ds'))" for ds' sp'
    using Cons.prems by (intro Cons.IH) simp
  show ?case
  proof (cases "maxDecodesPerScan \<le> fst ds \<or> (fst sp \<le> a \<and> b \<le> snd sp) \<or> overlaps (ss_claimed (snd ds)) a b")
    case True
    then show ?thesis using ih ex by (auto simp: Let_def)
  next
    case False
    define st where "st = (case (if pr_hexForm p then decodeHexSpan (substr body a b) else decodeB64Span (substr body a b)) of
        None \<Rightarrow> snd ds
      | Some out \<Rightarrow> (case find (\<lambda>ri. findIn (sn_rules s ! ri) out \<noteq> []) (pr_ruleIdxs p) of
            None \<Rightarrow> snd ds | Some ri \<Rightarrow> claim (ru_name (sn_rules s ! ri)) (a, b) (snd ds)))"
    have "extends body (snd ds) st" using claim_extends [OF ok] by (auto simp: st_def split: option.splits)
    moreover have "probe_ends s body p (e # ends) sp ds = probe_ends s body p ends (a, b) (Suc (fst ds), st)"
    proof -
      have "(maxDecodesPerScan \<le> fst ds) = False" "(fst sp \<le> a \<and> b \<le> snd sp) = False"
        "overlaps (ss_claimed (snd ds)) a b = False" using False by blast+
      then show ?thesis unfolding probe_ends.simps ex Let_def prod.case st_def by (simp only: if_False)
    qed
    ultimately show ?thesis using ih [of "(Suc (fst ds), st)" "(a, b)"] table_extends_trans by simp
  qed
qed auto

lemma claim_probes_extends:
  "(\<And>i q e. (i, q) \<in> set ps \<Longrightarrow> e \<in> set (fmget [] (p1_probeHits p1) i) \<Longrightarrow> span_ok body (e - length (pr_variant q), e)) \<Longrightarrow>
   extends body (snd ds) (snd (claim_probes s body p1 ps ds))"
proof (induction ps arbitrary: ds)
  case (Cons iq ps)
  obtain i q where iq: "iq = (i, q)" by fastforce
  have "extends body (snd ds) (snd (probe_ends s body q (fmget [] (p1_probeHits p1) i) (0, 0) ds))"
    using Cons.prems by (intro probe_ends_extends) (auto simp: iq)
  moreover have ih: "extends body (snd ds) (snd (claim_probes s body p1 ps ds))" for ds
    using Cons.prems by (intro Cons.IH) auto
  ultimately show ?case using table_extends_trans by (auto simp: iq)
qed auto

subsection \<open>The hits that phase 1 keeps\<close>

text \<open>The offsets under an id are offsets of hits, and below the cap they are all of them.\<close>

lemma secret_hits_sound:
  "e \<in> set (fmget [] (p1_secretHits (fold (phase1_hit s body) hits p)) i) \<Longrightarrow>
   e \<in> set (fmget [] (p1_secretHits p) i) \<or>
   ((i, e) \<in> set hits \<and> nr_kind (sn_refs s ! i) \<in> {needleSecretRaw, needleSecretEncoded})"
proof (induction hits arbitrary: p)
  case (Cons h hits)
  obtain j d where h: "h = (j, d)" by fastforce
  have "e \<in> set (fmget [] (p1_secretHits (phase1_hit s body h p)) i) \<Longrightarrow>
      e \<in> set (fmget [] (p1_secretHits p) i) \<or>
      ((i, e) = h \<and> nr_kind (sn_refs s ! i) \<in> {needleSecretRaw, needleSecretEncoded})"
    by (auto simp: h phase1_hit_def Let_def split: needleKind.splits if_splits)
  then show ?case using Cons.IH [of "phase1_hit s body h p"] Cons.prems by auto
qed simp

lemma probe_hits_sound:
  "e \<in> set (fmget [] (p1_probeHits (fold (phase1_hit s body) hits p)) i) \<Longrightarrow>
   e \<in> set (fmget [] (p1_probeHits p) i) \<or>
   (\<exists>j. (j, e) \<in> set hits \<and> nr_kind (sn_refs s ! j) = needleProbe \<and> nr_idx (sn_refs s ! j) = i)"
proof (induction hits arbitrary: p)
  case (Cons h hits)
  obtain j d where h: "h = (j, d)" by fastforce
  have "e \<in> set (fmget [] (p1_probeHits (phase1_hit s body h p)) i) \<Longrightarrow>
      e \<in> set (fmget [] (p1_probeHits p) i) \<or>
      (e = d \<and> nr_kind (sn_refs s ! j) = needleProbe \<and> nr_idx (sn_refs s ! j) = i)"
    by (auto simp: h phase1_hit_def Let_def split: needleKind.splits if_splits)
  then show ?case using Cons.IH [of "phase1_hit s body h p"] Cons.prems h by auto
qed simp

definition uncapped1 :: "phase1 \<Rightarrow> bool" where
  "uncapped1 p \<longleftrightarrow> p1_rawPositions p < maxMatchesPerScan \<and> p1_encodedPositions p < maxMatchesPerScan"

lemma phase1_hit_mono:
  "p1_rawPositions p \<le> p1_rawPositions (phase1_hit s body h p) \<and>
   p1_encodedPositions p \<le> p1_encodedPositions (phase1_hit s body h p) \<and>
   set (fmget [] (p1_secretHits p) i) \<subseteq> set (fmget [] (p1_secretHits (phase1_hit s body h p)) i)"
  by (cases h) (auto simp: phase1_hit_def Let_def split: needleKind.splits)

lemma phase1_mono:
  "p1_rawPositions p \<le> p1_rawPositions (fold (phase1_hit s body) hits p) \<and>
   p1_encodedPositions p \<le> p1_encodedPositions (fold (phase1_hit s body) hits p) \<and>
   set (fmget [] (p1_secretHits p) i) \<subseteq> set (fmget [] (p1_secretHits (fold (phase1_hit s body) hits p)) i)"
proof (induction hits arbitrary: p)
  case (Cons h hits)
  show ?case using Cons [of "phase1_hit s body h p"] phase1_hit_mono [of p s body h i] by force
qed simp

lemma secret_hits_complete:
  "uncapped1 (fold (phase1_hit s body) hits p) \<Longrightarrow> (i, e) \<in> set hits \<Longrightarrow>
   nr_kind (sn_refs s ! i) \<in> {needleSecretRaw, needleSecretEncoded} \<Longrightarrow>
   e \<in> set (fmget [] (p1_secretHits (fold (phase1_hit s body) hits p)) i)"
proof (induction hits arbitrary: p)
  case (Cons h hits)
  let ?p = "phase1_hit s body h p"
  show ?case
  proof (cases "h = (i, e)")
    case True
    have "uncapped1 p"
      using Cons.prems(1) phase1_mono [of ?p s body hits i] phase1_hit_mono [of p s body h i] by (auto simp: uncapped1_def)
    then have "e \<in> set (fmget [] (p1_secretHits ?p) i)"
      using True Cons.prems(3) by (auto simp: phase1_hit_def Let_def uncapped1_def)
    then show ?thesis using phase1_mono [of ?p s body hits i] by auto
  next
    case False
    then show ?thesis using Cons by auto
  qed
qed simp

subsection \<open>Every known secret meets a claim\<close>

lemma fold_claim_met:
  "table_inv body st \<Longrightarrow> (\<And>p. p \<in> set ps \<Longrightarrow> span_ok body p) \<Longrightarrow> \<not> capped (fold (claim name) ps st) \<Longrightarrow>
   p \<in> set ps \<Longrightarrow> met (ss_found (fold (claim name) ps st)) p"
proof (induction ps arbitrary: st)
  case (Cons q ps)
  let ?st = "claim name q st"
  have ext: "extends body ?st (fold (claim name) ps ?st)" "extends body st ?st"
  proof -
    show "extends body ?st (fold (claim name) ps ?st)" using Cons.prems(2) by (intro fold_extends claim_extends) simp
    show "extends body st ?st" using Cons.prems(2) by (intro claim_extends) simp
  qed
  have inv: "table_inv body ?st" using ext(2) Cons.prems(1) by (simp add: extends_def)
  show ?case
  proof (cases "p = q")
    case True
    have "\<not> capped st" using Cons.prems(3) ext capped_mono unfolding extends_def by (metis fold_simps(2))
    then have "met (ss_found ?st) p" using claim_met Cons.prems(1,2) True by simp
    then show ?thesis using extends_met [OF ext(1)] by simp
  next
    case False
    then show ?thesis using Cons.IH [OF inv] Cons.prems by auto
  qed
qed simp

lemma claim_raw_fold:
  "fold (\<lambda>stop. claim knownSecret (stop - n, stop)) es = fold (claim knownSecret) (map (\<lambda>stop. (stop - n, stop)) es)"
  by (simp add: fold_map o_def)

lemma claim_encoded_fold:
  "fold (\<lambda>(i, v). fold (\<lambda>stop. claim knownSecretEncoded (stop - length v, stop)) (f i)) zs st =
   fold (claim knownSecretEncoded) (concat (map (\<lambda>(i, v). map (\<lambda>stop. (stop - length v, stop)) (f i)) zs)) st"
  by (induction zs arbitrary: st) (auto simp: fold_map o_def)

lemma in_concat_spans:
  "(i, v) \<in> set zs \<Longrightarrow> e \<in> set (f i) \<Longrightarrow>
   (e - length v, e) \<in> set (concat (map (\<lambda>(i, v). map (\<lambda>stop. (stop - length v, stop)) (f i)) zs))"
  by (induction zs) auto

lemma claim_raw_met:
  assumes "table_inv body st"
    "\<And>sec e. sec \<in> set secs \<Longrightarrow> e \<in> set (fmget [] (p1_secretHits p) (ks_rawID sec)) \<Longrightarrow> span_ok body (e - length (ks_raw sec), e)"
    "\<not> capped (claim_raw p secs st)" "sec \<in> set secs" "e \<in> set (fmget [] (p1_secretHits p) (ks_rawID sec))"
  shows "met (ss_found (claim_raw p secs st)) (e - length (ks_raw sec), e)"
  using assms
proof (induction secs arbitrary: st)
  case (Cons sec1 secs)
  let ?ps = "map (\<lambda>stop. (stop - length (ks_raw sec1), stop)) (fmget [] (p1_secretHits p) (ks_rawID sec1))"
  let ?st = "fold (claim knownSecret) ?ps st"
  have open_st: "\<not> capped st" using Cons.prems(3) by auto
  then have eq: "claim_raw p (sec1 # secs) st = claim_raw p secs ?st" by (simp add: claim_raw_fold)
  have ok: "q \<in> set ?ps \<Longrightarrow> span_ok body q" for q using Cons.prems(2) by auto
  have ext: "extends body st ?st" "extends body ?st (claim_raw p secs ?st)"
    using ok Cons.prems(2) by (auto intro!: fold_extends claim_extends claim_raw_extends)
  have inv: "table_inv body ?st" using ext(1) Cons.prems(1) by (simp add: extends_def)
  show ?case
  proof (cases "sec = sec1")
    case True
    then have "(e - length (ks_raw sec), e) \<in> set ?ps" using Cons.prems(5) by auto
    moreover have "\<not> capped ?st" using uncapped_extends [OF ext(2)] Cons.prems(3) unfolding eq .
    ultimately have "met (ss_found ?st) (e - length (ks_raw sec), e)"
      using fold_claim_met [OF Cons.prems(1) ok] by blast
    then show ?thesis unfolding eq by (rule extends_met [OF ext(2)])
  next
    case False
    then show ?thesis using Cons.IH [OF inv] Cons.prems unfolding eq by auto
  qed
qed simp

lemma claim_encoded_met:
  assumes "table_inv body st"
    "\<And>sec i v e. sec \<in> set secs \<Longrightarrow> (i, v) \<in> set (zip (ks_encodedIDs sec) (ks_encoded sec)) \<Longrightarrow>
      e \<in> set (fmget [] (p1_secretHits p) i) \<Longrightarrow> span_ok body (e - length v, e)"
    "\<not> capped (claim_encoded p secs st)" "sec \<in> set secs" "(i, v) \<in> set (zip (ks_encodedIDs sec) (ks_encoded sec))"
    "e \<in> set (fmget [] (p1_secretHits p) i)"
  shows "met (ss_found (claim_encoded p secs st)) (e - length v, e)"
  using assms
proof (induction secs arbitrary: st)
  case (Cons sec1 secs)
  let ?ps = "concat (map (\<lambda>(i, v). map (\<lambda>stop. (stop - length v, stop)) (fmget [] (p1_secretHits p) i))
    (zip (ks_encodedIDs sec1) (ks_encoded sec1)))"
  let ?st = "fold (claim knownSecretEncoded) ?ps st"
  have open_st: "\<not> capped st" using Cons.prems(3) by auto
  then have eq: "claim_encoded p (sec1 # secs) st = claim_encoded p secs ?st" by (simp add: claim_encoded_fold)
  have ok: "q \<in> set ?ps \<Longrightarrow> span_ok body q" for q using Cons.prems(2) [of sec1] by auto
  have ext1: "extends body st ?st" using ok by (intro fold_extends claim_extends)
  have ext2: "extends body ?st (claim_encoded p secs ?st)"
    using Cons.prems(2) by (intro claim_encoded_extends) auto
  have inv: "table_inv body ?st" using ext1 Cons.prems(1) by (simp add: extends_def)
  show ?case
  proof (cases "sec = sec1")
    case True
    have "(i, v) \<in> set (zip (ks_encodedIDs sec1) (ks_encoded sec1))" using Cons.prems(5) True by simp
    then have "(e - length v, e) \<in> set ?ps" by (rule in_concat_spans) (rule Cons.prems(6))
    moreover have "\<not> capped ?st" using uncapped_extends [OF ext2] Cons.prems(3) unfolding eq .
    ultimately have "met (ss_found ?st) (e - length v, e)"
      using fold_claim_met [OF Cons.prems(1) ok] by blast
    then show ?thesis unfolding eq by (rule extends_met [OF ext2])
  next
    case False
    have "met (ss_found (claim_encoded p secs ?st)) (e - length v, e)"
    proof (rule Cons.IH [OF inv])
      show "\<not> capped (claim_encoded p secs ?st)" using Cons.prems(3) eq by simp
    qed (use Cons.prems False in auto)
    then show ?thesis unfolding eq .
  qed
qed simp

end
