(* ===== verification/Guard_Redact_Props.thy ===== *)
theory Guard_Redact_Props
  imports Guard_Claims_Props
begin

text \<open>
  The end-to-end properties of a scan: the table of claims is disjoint, redaction is defined and keeps
  no configured credential, and the names of a scan contain a known-secret name exactly if the
  known-secret channel would report one.
\<close>

subsection \<open>The table of a whole scan\<close>

lemma occurs_span_ok: "occurs_at w body e \<Longrightarrow> w \<noteq> [] \<Longrightarrow> span_ok body (e - length w, e)"
  by (cases w) (auto simp: span_ok_def occurs_at_def dest!: suffix_length_le)

lemma probe_entry:
  assumes "entry_ok s j (needleProbe, i, v, w)"
  shows "i < length (sn_probes s) \<and> w = pr_variant (sn_probes s ! i)"
  using assms unfolding entry_ok_def rule_needles_mem probe_needles_mem path_needles_mem extra_needles_mem
  by (auto simp: secret_entry_def Let_def)

text \<open>The hypotheses on a scanner: built, and none of its patterns matches the empty string.\<close>

definition sound_scanner :: "Scanner \<Rightarrow> entry list \<Rightarrow> bool" where
  "sound_scanner s ns \<longleftrightarrow>
     prefilter_of s ns \<and> needles_ok s \<and> (\<forall>r\<in>set (sn_rules s). nonempty_matches (ru_re r)) \<and>
     (\<forall>c\<in>set (sn_custom s). nonempty_matches (cr_re c))"

definition phase1_of :: "Scanner \<Rightarrow> entry list \<Rightarrow> string \<Rightarrow> phase1 \<Rightarrow> bool" where
  "phase1_of s ns body p \<longleftrightarrow>
     sound_scanner s ns \<and>
     (\<exists>hits. ac_search (sn_ac s) body = Some hits \<and> p = fold (phase1_hit s body) hits (phase1_init s))"

lemma phase1_ofD:
  assumes "phase1_of s ns body p"
  shows "prefilter_of s ns" "needles_ok s"
  using assms by (simp_all add: phase1_of_def sound_scanner_def)

lemma phase1_of_hits:
  assumes "phase1_of s ns body p"
  shows "\<exists>hits. p = fold (phase1_hit s body) hits (phase1_init s) \<and>
    (\<forall>i e. (i, e) \<in> set hits \<longleftrightarrow> i < length ns \<and> occurs_at (needle (ns ! i)) body e)"
proof -
  obtain hits where "ac_search (sn_ac s) body = Some hits" "p = fold (phase1_hit s body) hits (phase1_init s)"
    using assms by (auto simp: phase1_of_def)
  then show ?thesis using scan_hits [OF phase1_ofD(1) [OF assms], of body] by auto
qed

lemma raw_offsets:
  assumes P: "phase1_of s ns body p" and i: "i < length (sn_secrets s)"
  shows "e \<in> set (fmget [] (p1_secretHits p) (ks_rawID (sn_secrets s ! i))) \<Longrightarrow> occurs_at (ks_raw (sn_secrets s ! i)) body e"
    "uncapped1 p \<Longrightarrow> occurs_at (ks_raw (sn_secrets s ! i)) body e \<Longrightarrow>
     e \<in> set (fmget [] (p1_secretHits p) (ks_rawID (sn_secrets s ! i)))"
proof -
  note ok = phase1_ofD(1) [OF P]
  obtain hits where p: "p = fold (phase1_hit s body) hits (phase1_init s)"
      "\<forall>i e. (i, e) \<in> set hits \<longleftrightarrow> i < length ns \<and> occurs_at (needle (ns ! i)) body e" using phase1_of_hits [OF P] by blast
  let ?j = "ks_rawID (sn_secrets s ! i)"
  have c: "?j < length ns" "ns ! ?j = (needleSecretRaw, i, -1, ks_raw (sn_secrets s ! i))"
    using carried [OF ok i] by (simp_all add: secret_carried_def)
  have k: "nr_kind (sn_refs s ! ?j) = needleSecretRaw" using ref_at [OF ok c(1)] c(2) by simp
  show "e \<in> set (fmget [] (p1_secretHits p) ?j) \<Longrightarrow> occurs_at (ks_raw (sn_secrets s ! i)) body e"
    using secret_hits_sound [of e s body hits "phase1_init s" ?j] p c by (auto simp: phase1_init_def)
  show "uncapped1 p \<Longrightarrow> occurs_at (ks_raw (sn_secrets s ! i)) body e \<Longrightarrow> e \<in> set (fmget [] (p1_secretHits p) ?j)"
    using secret_hits_complete [of s body hits "phase1_init s" ?j e] p c k by auto
qed

lemma encoded_offsets:
  assumes P: "phase1_of s ns body p" and i: "i < length (sn_secrets s)" and vi: "vi < length (ks_encoded (sn_secrets s ! i))"
  shows "e \<in> set (fmget [] (p1_secretHits p) (ks_encodedIDs (sn_secrets s ! i) ! vi)) \<Longrightarrow>
      occurs_at (ks_encoded (sn_secrets s ! i) ! vi) body e"
    "uncapped1 p \<Longrightarrow> occurs_at (ks_encoded (sn_secrets s ! i) ! vi) body e \<Longrightarrow>
     e \<in> set (fmget [] (p1_secretHits p) (ks_encodedIDs (sn_secrets s ! i) ! vi))"
proof -
  note ok = phase1_ofD(1) [OF P]
  obtain hits where p: "p = fold (phase1_hit s body) hits (phase1_init s)"
      "\<forall>i e. (i, e) \<in> set hits \<longleftrightarrow> i < length ns \<and> occurs_at (needle (ns ! i)) body e" using phase1_of_hits [OF P] by blast
  let ?j = "ks_encodedIDs (sn_secrets s ! i) ! vi"
  have c: "?j < length ns" "ns ! ?j = (needleSecretEncoded, i, int vi, ks_encoded (sn_secrets s ! i) ! vi)"
    using carried [OF ok i] vi by (simp_all add: secret_carried_def)
  have k: "nr_kind (sn_refs s ! ?j) = needleSecretEncoded" using ref_at [OF ok c(1)] c(2) by simp
  show "e \<in> set (fmget [] (p1_secretHits p) ?j) \<Longrightarrow> occurs_at (ks_encoded (sn_secrets s ! i) ! vi) body e"
    using secret_hits_sound [of e s body hits "phase1_init s" ?j] p c by (auto simp: phase1_init_def)
  show "uncapped1 p \<Longrightarrow> occurs_at (ks_encoded (sn_secrets s ! i) ! vi) body e \<Longrightarrow> e \<in> set (fmget [] (p1_secretHits p) ?j)"
    using secret_hits_complete [of s body hits "phase1_init s" ?j e] p c k by auto
qed

lemma raw_spans:
  assumes P: "phase1_of s ns body p" and "sec \<in> set (sn_secrets s)" "e \<in> set (fmget [] (p1_secretHits p) (ks_rawID sec))"
  shows "span_ok body (e - length (ks_raw sec), e)"
proof -
  obtain i where i: "i < length (sn_secrets s)" "sec = sn_secrets s ! i" using assms(2) by (metis in_set_conv_nth)
  have "ks_raw sec \<noteq> []" using phase1_ofD(2) [OF P] assms(2) by (simp add: needles_ok_def)
  then show ?thesis using raw_offsets(1) [OF P i(1)] assms(3) i(2) occurs_span_ok by blast
qed

lemma encoded_spans:
  assumes P: "phase1_of s ns body p" and "sec \<in> set (sn_secrets s)"
    "(j, v) \<in> set (zip (ks_encodedIDs sec) (ks_encoded sec))" "e \<in> set (fmget [] (p1_secretHits p) j)"
  shows "span_ok body (e - length v, e)"
proof -
  obtain i where i: "i < length (sn_secrets s)" "sec = sn_secrets s ! i" using assms(2) by (metis in_set_conv_nth)
  obtain vi where vi: "vi < length (ks_encoded sec)" "j = ks_encodedIDs sec ! vi" "v = ks_encoded sec ! vi"
    using assms(3) by (auto simp: in_set_zip)
  have "v \<noteq> []" using phase1_ofD(2) [OF P] assms(2) vi by (auto simp: needles_ok_def)
  moreover have "occurs_at v body e" using encoded_offsets(1) [OF P i(1)] vi assms(4) i(2) by blast
  ultimately show ?thesis using occurs_span_ok by blast
qed

lemma probe_spans:
  assumes P: "phase1_of s ns body p" and "(i, q) \<in> set (enumerate 0 (sn_probes s))" "e \<in> set (fmget [] (p1_probeHits p) i)"
  shows "span_ok body (e - length (pr_variant q), e)"
proof -
  note ok = phase1_ofD(1) [OF P]
  obtain hits where p: "p = fold (phase1_hit s body) hits (phase1_init s)"
      "\<forall>i e. (i, e) \<in> set hits \<longleftrightarrow> i < length ns \<and> occurs_at (needle (ns ! i)) body e" using phase1_of_hits [OF P] by blast
  have q: "i < length (sn_probes s)" "q = sn_probes s ! i" using assms(2) by (auto simp: set_enumerate_nth)
  obtain j where j: "(j, e) \<in> set hits" "nr_kind (sn_refs s ! j) = needleProbe" "nr_idx (sn_refs s ! j) = i"
    using probe_hits_sound [of e s body hits "phase1_init s" i] assms(3) p(1) by (auto simp: phase1_init_def)
  then have jl: "j < length ns" "occurs_at (needle (ns ! j)) body e" using p(2) by auto
  obtain k i' v w where n: "ns ! j = (k, i', v, w)" by (cases "ns ! j")
  then have "k = needleProbe" "i' = i" using j(2,3) ref_at [OF ok jl(1)] by simp_all
  then have "w = pr_variant q" using probe_entry prefilter_entry [OF ok jl(1)] n q(2) by auto
  moreover have "pr_variant q \<noteq> []" using phase1_ofD(2) [OF P] q by (simp add: needles_ok_def)
  ultimately show ?thesis using jl(2) n occurs_span_ok by simp
qed

text \<open>The table after each of the first two sources and at the end.\<close>

definition table0 :: scanState where
  "table0 = \<lparr> ss_found = [], ss_claimed = \<lparr> cs_starts = [], cs_ends = [] \<rparr> \<rparr>"

definition table1 :: "Scanner \<Rightarrow> phase1 \<Rightarrow> scanState" where
  "table1 s p = claim_raw p (sn_secrets s) table0"

definition table2 :: "Scanner \<Rightarrow> phase1 \<Rightarrow> scanState" where
  "table2 s p = claim_encoded p (sn_secrets s) (table1 s p)"

definition final :: "Scanner \<Rightarrow> string \<Rightarrow> phase1 \<Rightarrow> scanState" where
  "final s body p = snd (phase2 s body p)"

lemma table0_inv: "table_inv body table0"
  by (auto simp: table_inv_def table0_def claims_are_def disjoint_spans_def)

lemma table1_extends: "phase1_of s ns body p \<Longrightarrow> extends body table0 (table1 s p)"
  unfolding table1_def by (rule claim_raw_extends) (rule raw_spans)

lemma table2_extends: "phase1_of s ns body p \<Longrightarrow> extends body (table1 s p) (table2 s p)"
  unfolding table2_def by (rule claim_encoded_extends) (rule encoded_spans)

lemma final_extends:
  assumes P: "phase1_of s ns body p"
  shows "extends body (table2 s p) (final s body p)"
proof -
  let ?st3 = "claim_rules body p (enumerate 0 (sn_rules s)) (table2 s p)"
  let ?ds = "claim_probes s body p (enumerate 0 (sn_probes s)) (0, ?st3)"
  have "extends body (table2 s p) ?st3"
    using P by (intro claim_rules_extends) (auto simp: phase1_of_def sound_scanner_def set_enumerate_nth)
  also have "extends body ?st3 (snd ?ds)"
    using claim_probes_extends [of "enumerate 0 (sn_probes s)" p body "(0, ?st3)" s] probe_spans [OF P] by simp
  also have "extends body (snd ?ds) (claim_custom body (sn_custom s) (snd ?ds))"
    using P by (intro claim_custom_extends) (auto simp: phase1_of_def sound_scanner_def)
  finally show ?thesis
    by (simp add: final_def phase2_def Let_def table2_def table1_def table0_def case_prod_beta)
qed

lemma final_inv: "phase1_of s ns body p \<Longrightarrow> table_inv body (final s body p)"
  using table0_inv table1_extends table2_extends final_extends by (meson extends_def)

lemma raw_met:
  assumes P: "phase1_of s ns body p" and open_table: "uncapped1 p" "\<not> capped (final s body p)"
    and sec: "sec \<in> set (sn_secrets s)" and occ: "occurs_at (ks_raw sec) body e"
  shows "met (ss_found (final s body p)) (e - length (ks_raw sec), e)"
proof -
  obtain i where i: "i < length (sn_secrets s)" "sec = sn_secrets s ! i" using sec by (metis in_set_conv_nth)
  note ext = table_extends_trans [OF table2_extends [OF P] final_extends [OF P]]
  have "\<not> capped (table1 s p)" using uncapped_extends [OF ext open_table(2)] .
  moreover have "e \<in> set (fmget [] (p1_secretHits p) (ks_rawID sec))"
    using raw_offsets(2) [OF P i(1) open_table(1)] occ i(2) by simp
  ultimately have "met (ss_found (table1 s p)) (e - length (ks_raw sec), e)"
    unfolding table1_def using sec table0_inv raw_spans [OF P] by (intro claim_raw_met)
  then show ?thesis by (rule extends_met [OF ext])
qed

lemma encoded_met:
  assumes P: "phase1_of s ns body p" and open_table: "uncapped1 p" "\<not> capped (final s body p)"
    and sec: "sec \<in> set (sn_secrets s)" and v: "v \<in> set (ks_encoded sec)" and occ: "occurs_at v body e"
  shows "met (ss_found (final s body p)) (e - length v, e)"
proof -
  obtain i where i: "i < length (sn_secrets s)" "sec = sn_secrets s ! i" using sec by (metis in_set_conv_nth)
  obtain vi where vi: "vi < length (ks_encoded sec)" "v = ks_encoded sec ! vi" using v by (metis in_set_conv_nth)
  have len: "length (ks_encodedIDs sec) = length (ks_encoded sec)"
    using carried [OF phase1_ofD(1) [OF P] i(1)] i(2) by (simp add: secret_carried_def)
  have 1: "\<not> capped (table2 s p)" using uncapped_extends [OF final_extends [OF P] open_table(2)] .
  have 2: "(ks_encodedIDs sec ! vi, v) \<in> set (zip (ks_encodedIDs sec) (ks_encoded sec))"
    using vi len by (auto simp: in_set_zip)
  have 3: "e \<in> set (fmget [] (p1_secretHits p) (ks_encodedIDs sec ! vi))"
    using encoded_offsets(2) [OF P i(1) _ open_table(1)] vi i(2) occ by blast
  have 4: "table_inv body (table1 s p)" using table0_inv table1_extends [OF P] by (simp add: extends_def)
  have "met (ss_found (table2 s p)) (e - length v, e)"
    unfolding table2_def by (rule claim_encoded_met [OF 4 encoded_spans [OF P] 1 [unfolded table2_def] sec 2 3])
  then show ?thesis by (rule extends_met [OF final_extends [OF P]])
qed

text \<open>Every scan returns, and its table is one of these.\<close>

lemma scanned:
  assumes "sound_scanner s ns"
  shows "\<exists>p. phase1_of s ns body p \<and> findAllGated s body =
    Some \<lparr> sr_found = ss_found (final s body p), sr_decodes = fst (phase2 s body p), sr_phase1 = p, sr_pathGate = p1_pathGate p \<rparr>"
proof -
  have "prefilter_of s ns" using assms by (simp add: sound_scanner_def)
  then obtain hits where "ac_search (sn_ac s) body = Some hits" using scan_hits by blast
  then show ?thesis using assms
    by (intro exI [of _ "fold (phase1_hit s body) hits (phase1_init s)"])
      (simp add: phase1_of_def findAllGated_def Let_def final_def case_prod_beta)
qed

subsection \<open>Redaction\<close>

fun join_with :: "string \<Rightarrow> string list \<Rightarrow> string" where
  "join_with sep [] = []"
| "join_with sep [x] = x"
| "join_with sep (x # y # xs) = x @ sep @ join_with sep (y # xs)"

text \<open>The intervals of the body that redaction keeps.\<close>

fun gaps :: "nat \<Rightarrow> nat \<Rightarrow> gmatch list \<Rightarrow> (nat \<times> nat) list" where
  "gaps n pos [] = [(pos, n)]"
| "gaps n pos (m # ms) = (pos, gm_start m) # gaps n (gm_end m) ms"

lemma gaps_nonempty: "gaps n pos ms \<noteq> []"
  by (cases ms) auto

lemma redact_from_gaps:
  "disjoint_spans (map gm_span ms) \<Longrightarrow> (\<forall>m\<in>set ms. pos \<le> gm_start m \<and> gm_end m \<le> length body) \<Longrightarrow> pos \<le> length body \<Longrightarrow>
   redact_from body pos ms = Some (join_with RedactPlaceholder (map (\<lambda>(a, b). substr body a b) (gaps (length body) pos ms)))"
proof (induction ms arbitrary: pos)
  case Nil
  then show ?case by (simp add: substr_def)
next
  case (Cons m ms)
  have d: "gm_start m < gm_end m" "\<forall>m'\<in>set ms. gm_end m \<le> gm_start m'" "disjoint_spans (map gm_span ms)"
    using Cons.prems(1) by (auto simp: disjoint_spans_def)
  have "redact_from body (gm_end m) ms =
      Some (join_with RedactPlaceholder (map (\<lambda>(a, b). substr body a b) (gaps (length body) (gm_end m) ms)))"
    using Cons.IH [OF d(3), of "gm_end m"] d(2) Cons.prems(2) by auto
  moreover obtain g gs where "gaps (length body) (gm_end m) ms = g # gs" using gaps_nonempty by (meson neq_Nil_conv)
  ultimately show ?case using Cons.prems(2) d(1) by auto
qed

lemma gaps_ge:
  "disjoint_spans (map gm_span ms) \<Longrightarrow> (\<forall>m\<in>set ms. pos \<le> gm_start m) \<Longrightarrow> (a, b) \<in> set (gaps n pos ms) \<Longrightarrow> pos \<le> a"
proof (induction ms arbitrary: pos)
  case (Cons m ms)
  have d: "gm_start m < gm_end m" "\<forall>m'\<in>set ms. gm_end m \<le> gm_start m'" "disjoint_spans (map gm_span ms)"
    using Cons.prems(1) by (auto simp: disjoint_spans_def)
  show ?case
  proof (cases "(a, b) = (pos, gm_start m)")
    case False
    then have "(a, b) \<in> set (gaps n (gm_end m) ms)" using Cons.prems(3) by auto
    then have "gm_end m \<le> a" using Cons.IH [OF d(3)] d(2) by blast
    then show ?thesis using Cons.prems(2) d(1) by force
  qed simp
qed simp

lemma gaps_free:
  "disjoint_spans (map gm_span ms) \<Longrightarrow> (\<forall>m\<in>set ms. pos \<le> gm_start m) \<Longrightarrow>
   (a, b) \<in> set (gaps n pos ms) \<Longrightarrow> m \<in> set ms \<Longrightarrow> gm_end m \<le> a \<or> b \<le> gm_start m"
proof (induction ms arbitrary: pos)
  case (Cons m1 ms)
  have d: "gm_start m1 < gm_end m1" "\<forall>m'\<in>set ms. gm_end m1 \<le> gm_start m'" "disjoint_spans (map gm_span ms)"
    using Cons.prems(1) by (auto simp: disjoint_spans_def)
  show ?case
  proof (cases "(a, b) = (pos, gm_start m1)")
    case True
    then have "b \<le> gm_start m" using d(1,2) Cons.prems(4) by fastforce
    then show ?thesis ..
  next
    case False
    then have ab: "(a, b) \<in> set (gaps n (gm_end m1) ms)" using Cons.prems(3) by auto
    show ?thesis
    proof (cases "m = m1")
      case True
      then show ?thesis using gaps_ge [OF d(3,2) ab] by simp
    next
      case False
      then show ?thesis using Cons.IH [OF d(3,2) ab] Cons.prems(4) by simp
    qed
  qed
qed simp

lemma sorted_table:
  assumes "table_inv body st"
  shows "disjoint_spans (map gm_span (sort_key gm_start (ss_found st)))"
proof -
  obtain iv where iv: "claims_are (ss_claimed st) iv" "mset iv = mset (map gm_span (ss_found st))"
    using assms by (auto simp: table_inv_def)
  let ?ms = "map gm_span (sort_key gm_start (ss_found st))"
  have m: "mset ?ms = mset iv" using iv(2) by simp
  have d: "disjoint_spans iv" using iv(1) by (simp add: claims_are_def)
  have strict: "fst (iv ! i) < fst (iv ! j)" if "i < j" "j < length iv" for i j
    using disjoint_spans_nth [OF d that] by linarith
  then have siv: "sorted (map fst iv)" "distinct (map fst iv)"
    by (auto simp: sorted_iff_nth_mono_less distinct_conv_nth less_imp_le intro: nat_neq_iff [THEN iffD1, THEN disjE])
      (metis linorder_neqE_nat nat_less_le)
  have "mset (map fst ?ms) = mset (map fst iv)" by (simp only: mset_map [of fst] m)
  then have "distinct (map fst ?ms)" using siv(2) mset_eq_imp_distinct_iff by blast
  moreover have "sorted (map fst ?ms)" by (simp add: o_def)
  moreover have "set ?ms = set iv" using m by (metis set_mset_mset)
  moreover have "inj_on fst (set ?ms \<union> set iv)" using siv(2) \<open>set ?ms = set iv\<close> by (simp add: distinct_map)
  ultimately have "?ms = iv" using siv map_sorted_distinct_set_unique by blast
  then show ?thesis using d by simp
qed

lemma Redact_gaps:
  assumes P: "phase1_of s ns body p" and found: "findAllGated s body = Some r" "sr_found r = ss_found (final s body p)"
  shows "\<exists>gs. Redact s body = Some (join_with RedactPlaceholder (map (\<lambda>(a, b). substr body a b) gs)) \<and>
    (\<forall>(a, b)\<in>set gs. \<forall>m\<in>set (sr_found r). gm_end m \<le> a \<or> b \<le> gm_start m)"
proof -
  let ?ms = "sort_key gm_start (sr_found r)"
  have d: "disjoint_spans (map gm_span ?ms)" unfolding found(2) by (rule sorted_table [OF final_inv [OF P]])
  have inb: "\<forall>m\<in>set (sr_found r). gm_end m \<le> length body"
    unfolding found(2) using final_inv [OF P] by (simp add: table_inv_def)
  have all: "findAll s body = Some (sr_found r)" using found(1) by (simp add: findAll_def)
  have "redactSpans (sr_found r) body =
      Some (join_with RedactPlaceholder (map (\<lambda>(a, b). substr body a b) (gaps (length body) 0 ?ms)))"
  proof (cases "sr_found r = []")
    case True
    then show ?thesis by (simp add: redactSpans_def substr_def)
  next
    case False
    then show ?thesis using redact_from_gaps [OF d, of 0 body] inb by (simp add: redactSpans_def)
  qed
  moreover have "\<forall>(a, b)\<in>set (gaps (length body) 0 ?ms). \<forall>m\<in>set (sr_found r). gm_end m \<le> a \<or> b \<le> gm_start m"
    using gaps_free [OF d, of 0] by auto
  ultimately show ?thesis using all by (auto simp: Redact_def)
qed

lemma occurs_in_substr:
  assumes "sublist w (substr body a b)" "w \<noteq> []"
  shows "\<exists>e. occurs_at w body e \<and> a \<le> e - length w \<and> e \<le> b \<and> length w \<le> e"
proof -
  obtain e where e: "occurs_at w (substr body a b) e" using assms occurs_iff_sublist by blast
  then have le: "e \<le> length (substr body a b)" "suffix w (take e (substr body a b))" by (simp_all add: occurs_at_def)
  then have len: "e \<le> b - a" "e \<le> length body - a" by (simp_all add: substr_def)
  have "take e (substr body a b) = drop a (take (a + e) body)"
    using len by (simp add: substr_def min_def drop_take)
  then have suf: "suffix w (take (a + e) body)" using le(2) by (metis suffix_drop suffix_order.trans)
  have lw: "length w \<le> e" using suffix_length_le [OF le(2)] by simp
  show ?thesis
  proof (cases "e = 0")
    case True
    then show ?thesis using lw assms(2) by simp
  next
    case False
    then have "a + e \<le> length body" "a + e \<le> b" using len by linarith+
    then show ?thesis using suf lw by (intro exI [of _ "a + e"]) (simp add: occurs_at_def)
  qed
qed

lemma kept_clean:
  assumes P: "phase1_of s ns body p" and open_table: "uncapped1 p" "\<not> capped (final s body p)"
    and free: "\<forall>m\<in>set (ss_found (final s body p)). gm_end m \<le> a \<or> b \<le> gm_start m"
  shows "\<not> known_raw s (substr body a b) \<and> \<not> known_encoded s (substr body a b)"
proof -
  have apart: "\<not> sublist w (substr body a b)"
    if w: "w \<noteq> []" "\<And>e. occurs_at w body e \<Longrightarrow> met (ss_found (final s body p)) (e - length w, e)" for w
  proof
    assume "sublist w (substr body a b)"
    then obtain e where e: "occurs_at w body e" "a \<le> e - length w" "e \<le> b" "length w \<le> e"
      using occurs_in_substr w(1) by blast
    then obtain m where "m \<in> set (ss_found (final s body p))" "gm_start m < e" "e - length w < gm_end m"
      using w(2) by (auto simp: met_def)
    then show False using free e(2,3) by fastforce
  qed
  have ne: "ks_raw sec \<noteq> [] \<and> (\<forall>v\<in>set (ks_encoded sec). v \<noteq> [])" if "sec \<in> set (sn_secrets s)" for sec
    using phase1_ofD(2) [OF P] that by (simp add: needles_ok_def)
  have "\<not> sublist (ks_raw sec) (substr body a b)" if "sec \<in> set (sn_secrets s)" for sec
    using apart ne [OF that] raw_met [OF P open_table that] by blast
  moreover have "\<not> sublist v (substr body a b)" if "sec \<in> set (sn_secrets s)" "v \<in> set (ks_encoded sec)" for sec v
  proof (rule apart)
    show "v \<noteq> []" using ne [OF that(1)] that(2) by blast
    show "\<And>e. occurs_at v body e \<Longrightarrow> met (ss_found (final s body p)) (e - length v, e)"
      by (rule encoded_met [OF P open_table that])
  qed
  ultimately show ?thesis unfolding known_raw_def known_encoded_def by metis
qed

text \<open>The hypotheses on the patterns of a configuration.\<close>

definition patterns_ok :: "rule list \<Rightarrow> CustomPattern list \<Rightarrow> bool" where
  "patterns_ok rules custom \<longleftrightarrow>
     table_ok rules \<and> (\<forall>r\<in>set rules. nonempty_matches (ru_re r)) \<and>
     (\<forall>c\<in>set custom. \<forall>re. cp_RE c = Some re \<longrightarrow> nonempty_matches re)"

lemma add_custom_patterns:
  "add_custom custom seen acc = Inr cs \<Longrightarrow> c \<in> set cs \<Longrightarrow>
   c \<in> set acc \<or> (\<exists>cp\<in>set custom. cp_Name cp = cr_name c \<and> cp_RE cp = Some (cr_re c))"
  by (induction custom seen acc rule: add_custom.induct) (force split: if_splits option.splits)+

lemma NewScanner_sound:
  assumes pats: "patterns_ok rules custom" and custom: "add_custom custom {} [] = Inr cs"
  shows "\<exists>s ns. NewScannerWithOptions rules custom secrets extraPaths dec = Some (Inr s) \<and>
    scanner_for dec secrets s ns \<and> sound_scanner s ns \<and> sn_rules s = rules \<and> sn_custom s = cs \<and>
    sn_extraPaths s = add_paths extraPaths {} [] \<and> sn_probes s = (if dec then buildProbes (map ru_literals rules) else [])"
proof -
  have "table_ok rules" using pats by (simp add: patterns_ok_def)
  from NewScanner_for [OF this custom] obtain s ns where
    s: "NewScannerWithOptions rules custom secrets extraPaths dec = Some (Inr s)" "scanner_for dec secrets s ns"
      "sn_rules s = rules" "sn_custom s = cs" "sn_extraPaths s = add_paths extraPaths {} []"
      "sn_probes s = (if dec then buildProbes (map ru_literals rules) else [])" by blast
  have "nonempty_matches (cr_re c)" if "c \<in> set cs" for c
    using add_custom_patterns [OF custom that] pats by (auto simp: patterns_ok_def)
  then have "sound_scanner s ns"
    using s(2-4) pats by (simp add: sound_scanner_def scanner_for_def patterns_ok_def)
  then show ?thesis using s by blast
qed

text \<open>
  C11. Redaction removes every configured credential. With patterns none of which matches the empty
  string, redaction of any body is defined; its result is the pieces of the body outside the claimed
  spans, in order, joined by the placeholder, and as long as no cap of the scan was reached, no piece
  contains a configured value of at least twelve bytes nor, with decoding on, an encoded form of one.
\<close>

theorem Redact_removes_known:
  assumes "patterns_ok rules custom" "add_custom custom {} [] = Inr cs"
  shows "\<exists>s r gs. NewScannerWithOptions rules custom secrets extraPaths dec = Some (Inr s) \<and>
    findAllGated s body = Some r \<and>
    Redact s body = Some (join_with RedactPlaceholder (map (\<lambda>(a, b). substr body a b) gs)) \<and>
    (\<forall>(a, b)\<in>set gs. \<forall>m\<in>set (sr_found r). gm_end m \<le> a \<or> b \<le> gm_start m) \<and>
    (uncapped1 (sr_phase1 r) \<and> length (sr_found r) < maxMatchesPerScan \<longrightarrow>
      (\<forall>(a, b)\<in>set gs. \<forall>k\<in>set secrets. minSecretLen \<le> length (kn_Value k) \<longrightarrow>
        \<not> sublist (kn_Value k) (substr body a b) \<and>
        (dec \<longrightarrow> (\<forall>v\<in>encoded_forms (kn_Value k). \<not> sublist v (substr body a b)))))"
proof -
  obtain s ns where s: "NewScannerWithOptions rules custom secrets extraPaths dec = Some (Inr s)"
      "scanner_for dec secrets s ns" "sound_scanner s ns"
    using NewScanner_sound [OF assms] by blast
  obtain p where p: "phase1_of s ns body p" "findAllGated s body = Some \<lparr> sr_found = ss_found (final s body p),
      sr_decodes = fst (phase2 s body p), sr_phase1 = p, sr_pathGate = p1_pathGate p \<rparr>"
    using scanned [OF s(3)] by blast
  obtain gs where gs: "Redact s body = Some (join_with RedactPlaceholder (map (\<lambda>(a, b). substr body a b) gs))"
      "\<forall>(a, b)\<in>set gs. \<forall>m\<in>set (ss_found (final s body p)). gm_end m \<le> a \<or> b \<le> gm_start m"
    using Redact_gaps [OF p(1,2)] by auto
  have "\<not> sublist (kn_Value k) (substr body a b) \<and> (dec \<longrightarrow> (\<forall>v\<in>encoded_forms (kn_Value k). \<not> sublist v (substr body a b)))"
    if cap: "uncapped1 p" "length (ss_found (final s body p)) < maxMatchesPerScan"
      and g: "(a, b) \<in> set gs" and k: "k \<in> set secrets" "minSecretLen \<le> length (kn_Value k)" for a b k
  proof -
    have "\<not> capped (final s body p)" using cap(2) by (simp add: capped_def)
    then have "\<not> known_raw s (substr body a b) \<and> \<not> known_encoded s (substr body a b)"
      using kept_clean [OF p(1) cap(1)] gs(2) g by blast
    then show ?thesis
      using k unfolding known_raw_configured [OF s(2)] known_encoded_configured [OF s(2)] by blast
  qed
  note clean = this
  define r where "r = \<lparr> sr_found = ss_found (final s body p), sr_decodes = fst (phase2 s body p), sr_phase1 = p,
    sr_pathGate = p1_pathGate p \<rparr>"
  have r: "findAllGated s body = Some r" "sr_found r = ss_found (final s body p)" "sr_phase1 r = p"
    using p(2) by (simp_all add: r_def)
  show ?thesis
    by (intro exI [of _ s] exI [of _ r] exI [of _ gs] conjI s(1) r(1) gs(1))
      (use gs(2) clean in \<open>auto simp: r(2,3)\<close>)
qed

lemma Redact_removes_known_witness:
  "\<exists>s r gs. NewScannerWithOptions [] [] [\<lparr> kn_Value = ''sk-0123456789'', kn_Label = ''pool'' \<rparr>] [] True = Some (Inr s) \<and>
    findAllGated s ''x=sk-0123456789;'' = Some r \<and>
    Redact s ''x=sk-0123456789;'' = Some (join_with RedactPlaceholder (map (\<lambda>(a, b). substr ''x=sk-0123456789;'' a b) gs))"
proof -
  have "patterns_ok [] []" "add_custom [] {} [] = Inr []" by (simp_all add: patterns_ok_def table_ok_def)
  from Redact_removes_known [OF this, where secrets = "[\<lparr> kn_Value = ''sk-0123456789'', kn_Label = ''pool'' \<rparr>]"
      and extraPaths = "[]" and dec = True and body = "''x=sk-0123456789;''"]
  show ?thesis by blast
qed

subsection \<open>An empty match\<close>

text \<open>
  Without the hypothesis on the patterns redaction fails: a pattern that matches the empty string at
  the start of a claimed span claims an empty span there, which does not overlap, and the
  reconstruction then slices backwards.
\<close>

theorem empty_match_panics:
  "ss_found (claim custom (2, 2) (claim rule (2, 6) \<lparr> ss_found = [], ss_claimed = \<lparr> cs_starts = [], cs_ends = [] \<rparr> \<rparr>)) =
     [\<lparr> gm_name = rule, gm_start = 2, gm_end = 6 \<rparr>, \<lparr> gm_name = custom, gm_start = 2, gm_end = 2 \<rparr>] \<and>
   redactSpans [\<lparr> gm_name = rule, gm_start = 2, gm_end = 6 \<rparr>, \<lparr> gm_name = custom, gm_start = 2, gm_end = 2 \<rparr>] body = None"
  by (simp add: claim_def capped_def maxMatchesPerScan_def overlaps_def claim_interval_def insert_at_def sort_Search_def
      search_loop.simps redactSpans_def Let_def)

subsection \<open>Known secrets in the names of a scan\<close>

definition recorded :: "Scanner \<Rightarrow> needleKind \<Rightarrow> phase1 \<Rightarrow> bool" where
  "recorded s K p \<longleftrightarrow> (\<exists>i e. nr_kind (sn_refs s ! i) = K \<and> e \<in> set (fmget [] (p1_secretHits p) i))"

definition counted :: "Scanner \<Rightarrow> phase1 \<Rightarrow> bool" where
  "counted s p \<longleftrightarrow>
     (0 < p1_rawPositions p \<longrightarrow> recorded s needleSecretRaw p) \<and> (0 < p1_encodedPositions p \<longrightarrow> recorded s needleSecretEncoded p)"

lemma recorded_mono: "recorded s K p \<Longrightarrow> recorded s K (phase1_hit s body h p)"
  unfolding recorded_def using phase1_hit_mono by blast

lemma phase1_positions:
  "nr_kind (sn_refs s ! i) \<noteq> needleSecretRaw \<Longrightarrow> p1_rawPositions (phase1_hit s body (i, e) p) = p1_rawPositions p"
  "nr_kind (sn_refs s ! i) \<noteq> needleSecretEncoded \<Longrightarrow> p1_encodedPositions (phase1_hit s body (i, e) p) = p1_encodedPositions p"
  by (cases "nr_kind (sn_refs s ! i)"; simp add: phase1_hit_def Let_def)+

lemma recorded_here:
  assumes "nr_kind (sn_refs s ! i) = K" "K = needleSecretRaw \<and> p1_rawPositions p < maxMatchesPerScan \<or>
    K = needleSecretEncoded \<and> p1_encodedPositions p < maxMatchesPerScan"
  shows "recorded s K (phase1_hit s body (i, e) p)"
proof -
  have "e \<in> set (fmget [] (p1_secretHits (phase1_hit s body (i, e) p)) i)"
    using assms by (elim disjE conjE) (simp_all add: phase1_hit_def Let_def)
  then show ?thesis using assms(1) by (auto simp: recorded_def)
qed

lemma counted_step:
  assumes c: "counted s p"
  shows "counted s (phase1_hit s body (i, e) p) \<and>
    (nr_kind (sn_refs s ! i) \<in> {needleSecretRaw, needleSecretEncoded} \<longrightarrow>
      recorded s (nr_kind (sn_refs s ! i)) (phase1_hit s body (i, e) p))"
proof -
  let ?p = "phase1_hit s body (i, e) p"
  have max: "0 < maxMatchesPerScan" by (simp add: maxMatchesPerScan_def)
  have old: "recorded s K p \<Longrightarrow> recorded s K ?p" for K by (rule recorded_mono)
  have raw: "recorded s needleSecretRaw ?p" if "nr_kind (sn_refs s ! i) = needleSecretRaw"
  proof (cases "p1_rawPositions p < maxMatchesPerScan")
    case True
    then show ?thesis using recorded_here that by blast
  next
    case False
    then show ?thesis using c max old by (simp add: counted_def)
  qed
  have enc: "recorded s needleSecretEncoded ?p" if "nr_kind (sn_refs s ! i) = needleSecretEncoded"
  proof (cases "p1_encodedPositions p < maxMatchesPerScan")
    case True
    then show ?thesis using recorded_here that by blast
  next
    case False
    then show ?thesis using c max old by (simp add: counted_def)
  qed
  have "0 < p1_rawPositions ?p \<longrightarrow> recorded s needleSecretRaw ?p"
    using raw old c phase1_positions(1) unfolding counted_def by metis
  moreover have "0 < p1_encodedPositions ?p \<longrightarrow> recorded s needleSecretEncoded ?p"
    using enc old c phase1_positions(2) unfolding counted_def by metis
  ultimately show ?thesis using raw enc by (auto simp: counted_def)
qed

lemma counted_fold:
  "counted s p \<Longrightarrow> (i, e) \<in> set hits \<Longrightarrow> nr_kind (sn_refs s ! i) \<in> {needleSecretRaw, needleSecretEncoded} \<Longrightarrow>
   recorded s (nr_kind (sn_refs s ! i)) (fold (phase1_hit s body) hits p)"
proof (induction hits arbitrary: p)
  case (Cons h hits)
  obtain j d where h: "h = (j, d)" by fastforce
  have keep: "recorded s K q \<Longrightarrow> recorded s K (fold (phase1_hit s body) hits q)" for K q
    by (induction hits arbitrary: q) (auto intro: recorded_mono)
  show ?case
  proof (cases "h = (i, e)")
    case True
    then show ?thesis using counted_step [OF Cons.prems(1), of body i e] Cons.prems(3) keep by auto
  next
    case False
    then show ?thesis using Cons.IH counted_step [OF Cons.prems(1), of body j d] Cons.prems h by auto
  qed
qed simp

text \<open>Every claim of a known-secret source carries its name, and a source without offsets claims nothing.\<close>

abbreviation names_of :: "scanState \<Rightarrow> string set" where
  "names_of st \<equiv> gm_name ` set (ss_found st)"

lemma claim_names: "names_of (claim name p st) \<subseteq> insert name (names_of st)"
  by (auto simp: claim_def split: prod.splits)

lemma fold_claim_names: "names_of (fold (claim name) ps st) \<subseteq> insert name (names_of st)"
proof (induction ps arbitrary: st)
  case (Cons p ps)
  show ?case using Cons [of "claim name p st"] claim_names [of name p st] by auto
qed auto

lemma claim_stream_names: "names_of (claim_stream name ps st) \<subseteq> insert name (names_of st)"
proof (induction ps arbitrary: st)
  case (Cons p ps)
  show ?case using Cons [of "claim name p st"] claim_names [of name p st] by (auto simp: Let_def split: if_splits)
qed auto

lemma claim_raw_names: "names_of (claim_raw p secs st) \<subseteq> insert knownSecret (names_of st)"
proof (induction secs arbitrary: st)
  case (Cons sec secs)
  let ?st = "fold (claim knownSecret) (map (\<lambda>stop. (stop - length (ks_raw sec), stop)) (fmget [] (p1_secretHits p) (ks_rawID sec))) st"
  show ?case using Cons [of ?st] fold_claim_names [of knownSecret _ st] by (simp add: claim_raw_fold) blast
qed auto

lemma claim_encoded_names: "names_of (claim_encoded p secs st) \<subseteq> insert knownSecretEncoded (names_of st)"
proof (induction secs arbitrary: st)
  case (Cons sec secs)
  show ?case
    using Cons [of "fold (claim knownSecretEncoded) (concat (map (\<lambda>(i, v). map (\<lambda>stop. (stop - length v, stop))
        (fmget [] (p1_secretHits p) i)) (zip (ks_encodedIDs sec) (ks_encoded sec)))) st"]
      fold_claim_names [of knownSecretEncoded _ st] by (simp add: claim_encoded_fold) blast
qed auto

lemma claim_rules_names: "names_of (claim_rules body p rs st) \<subseteq> names_of st \<union> (\<lambda>ir. ru_name (snd ir)) ` set rs"
proof (induction rs arbitrary: st)
  case (Cons ir rs)
  obtain i r where ir: "ir = (i, r)" by fastforce
  show ?case using Cons [of st] Cons [of "claim_stream (ru_name r) (findEach r body 0) st"]
      claim_stream_names [of "ru_name r" "findEach r body 0" st] by (simp add: ir) blast
qed auto

lemma claim_custom_names: "names_of (claim_custom body cs st) \<subseteq> names_of st \<union> cr_name ` set cs"
proof (induction cs arbitrary: st)
  case (Cons c cs)
  show ?case using Cons [of st] Cons [of "claim_stream (cr_name c) (custom_spans c body 0) st"]
      claim_stream_names [of "cr_name c" "custom_spans c body 0" st] by simp blast
qed auto

definition owners_ok :: "Scanner \<Rightarrow> bool" where
  "owners_ok s \<longleftrightarrow> (\<forall>q\<in>set (sn_probes s). \<forall>ri\<in>set (pr_ruleIdxs q). ri < length (sn_rules s))"

lemma one_name: "C \<subseteq> insert x A \<Longrightarrow> x \<in> N \<Longrightarrow> C \<subseteq> A \<union> N"
  by blast

lemma two_steps: "B \<subseteq> A \<union> N \<Longrightarrow> C \<subseteq> B \<union> N \<Longrightarrow> C \<subseteq> A \<union> N"
  by blast

lemma three_steps: "B \<subseteq> A \<union> N \<Longrightarrow> C \<subseteq> B \<union> N \<Longrightarrow> D \<subseteq> C \<union> M \<Longrightarrow> D \<subseteq> A \<union> N \<union> M"
  by blast

lemma probe_ends_names:
  assumes "\<forall>ri\<in>set (pr_ruleIdxs q). ri < length (sn_rules s)"
  shows "names_of (snd (probe_ends s body q ends sp ds)) \<subseteq> names_of (snd ds) \<union> ru_name ` set (sn_rules s)"
proof (induction ends arbitrary: sp ds)
  case (Cons e ends)
  obtain a b where ex: "expandSpan body (e - length (pr_variant q)) e (if pr_hexForm q then isHexTokenByte else isB64TokenByte) = (a, b)"
    by fastforce
  define st where "st = (case (if pr_hexForm q then decodeHexSpan (substr body a b) else decodeB64Span (substr body a b)) of
      None \<Rightarrow> snd ds
    | Some out \<Rightarrow> (case find (\<lambda>ri. findIn (sn_rules s ! ri) out \<noteq> []) (pr_ruleIdxs q) of
          None \<Rightarrow> snd ds | Some ri \<Rightarrow> claim (ru_name (sn_rules s ! ri)) (a, b) (snd ds)))"
  have st: "names_of st \<subseteq> names_of (snd ds) \<union> ru_name ` set (sn_rules s)"
  proof -
    have hit: "names_of (claim (ru_name (sn_rules s ! ri)) (a, b) (snd ds)) \<subseteq> names_of (snd ds) \<union> ru_name ` set (sn_rules s)"
      if f: "find P (pr_ruleIdxs q) = Some ri" for P ri
    proof (rule one_name [OF claim_names])
      have "ri < length (sn_rules s)" using find_SomeD [OF f] assms by blast
      then show "ru_name (sn_rules s ! ri) \<in> ru_name ` set (sn_rules s)" by simp
    qed
    show ?thesis
    proof (cases "if pr_hexForm q then decodeHexSpan (substr body a b) else decodeB64Span (substr body a b)")
      case None
      then show ?thesis unfolding st_def by simp
    next
      case (Some out)
      then show ?thesis unfolding st_def using hit
        by (cases "find (\<lambda>ri. findIn (sn_rules s ! ri) out \<noteq> []) (pr_ruleIdxs q)") simp_all
    qed
  qed
  have eq: "probe_ends s body q (e # ends) sp ds =
      (if maxDecodesPerScan \<le> fst ds then ds
       else if fst sp \<le> a \<and> b \<le> snd sp then probe_ends s body q ends sp ds
       else if overlaps (ss_claimed (snd ds)) a b then probe_ends s body q ends (a, b) ds
       else probe_ends s body q ends (a, b) (Suc (fst ds), st))"
    unfolding probe_ends.simps ex Let_def prod.case st_def ..
  have c0: "names_of (snd ds) \<subseteq> names_of (snd ds) \<union> ru_name ` set (sn_rules s)" by blast
  have "names_of (snd (probe_ends s body q ends (a, b) (Suc (fst ds), st))) \<subseteq> names_of st \<union> ru_name ` set (sn_rules s)"
    using Cons [of "(a, b)" "(Suc (fst ds), st)"] unfolding snd_conv .
  note c3 = two_steps [OF st this]
  show ?case
    unfolding eq by (simp only: c0 c3 Cons [of sp ds] Cons [of "(a, b)" ds] split: if_split) simp
qed auto

lemma claim_probes_names:
  "(\<And>i q. (i, q) \<in> set ps \<Longrightarrow> \<forall>ri\<in>set (pr_ruleIdxs q). ri < length (sn_rules s)) \<Longrightarrow>
   names_of (snd (claim_probes s body p ps ds)) \<subseteq> names_of (snd ds) \<union> ru_name ` set (sn_rules s)"
proof (induction ps arbitrary: ds)
  case (Cons iq ps)
  obtain i q where iq: "iq = (i, q)" by fastforce
  let ?ds = "probe_ends s body q (fmget [] (p1_probeHits p) i) (0, 0) ds"
  have "names_of (snd ?ds) \<subseteq> names_of (snd ds) \<union> ru_name ` set (sn_rules s)"
    using Cons.prems [of i q] by (intro probe_ends_names) (simp add: iq)
  moreover have "names_of (snd (claim_probes s body p ps ?ds)) \<subseteq> names_of (snd ?ds) \<union> ru_name ` set (sn_rules s)"
    using Cons.prems by (intro Cons.IH) auto
  ultimately have both: "names_of (snd (claim_probes s body p ps ?ds)) \<subseteq> names_of (snd ds) \<union> ru_name ` set (sn_rules s)"
    by (rule two_steps)
  show ?case
  proof (cases "capped (snd ds) \<or> maxDecodesPerScan \<le> fst ds")
    case True
    then show ?thesis by (auto simp: iq)
  next
    case False
    then have "claim_probes s body p (iq # ps) ds = claim_probes s body p ps ?ds" by (simp add: iq)
    then show ?thesis using both by (simp only:)
  qed
qed auto

lemma final_names:
  assumes "owners_ok s"
  shows "names_of (final s body p) \<subseteq> names_of (table2 s p) \<union> ru_name ` set (sn_rules s) \<union> cr_name ` set (sn_custom s)"
proof -
  let ?st3 = "claim_rules body p (enumerate 0 (sn_rules s)) (table2 s p)"
  let ?ds = "claim_probes s body p (enumerate 0 (sn_probes s)) (0, ?st3)"
  have "names_of ?st3 \<subseteq> names_of (table2 s p) \<union> ru_name ` set (sn_rules s)"
    using claim_rules_names [of body p "enumerate 0 (sn_rules s)" "table2 s p"] by (auto simp: set_enumerate_nth)
  moreover have "names_of (snd ?ds) \<subseteq> names_of ?st3 \<union> ru_name ` set (sn_rules s)"
  proof -
    have "names_of (snd ?ds) \<subseteq> names_of (snd (0 :: nat, ?st3)) \<union> ru_name ` set (sn_rules s)"
      by (rule claim_probes_names) (use assms in \<open>auto simp: owners_ok_def set_enumerate_nth\<close>)
    then show ?thesis by (simp only: snd_conv)
  qed
  moreover have eq: "final s body p = claim_custom body (sn_custom s) (snd ?ds)"
    by (simp add: final_def phase2_def Let_def table2_def table1_def table0_def case_prod_beta)
  have "names_of (final s body p) \<subseteq> names_of (snd ?ds) \<union> cr_name ` set (sn_custom s)"
    unfolding eq by (rule claim_custom_names)
  ultimately show ?thesis by (rule three_steps)
qed

lemma two_names: "A \<subseteq> insert k B \<Longrightarrow> C \<subseteq> insert e A \<Longrightarrow> B = {} \<Longrightarrow> C \<subseteq> {k, e}"
  by blast

lemma known_part: "F \<subseteq> T \<union> R \<union> C \<Longrightarrow> (R \<union> C) \<inter> K = {} \<Longrightarrow> T \<subseteq> K \<Longrightarrow> T \<subseteq> F \<Longrightarrow> F \<inter> K = T"
  by blast

lemma two_mem: "a \<in> N \<or> b \<in> N \<longleftrightarrow> N \<inter> {a, b} \<noteq> {}"
  by blast

lemma matchNames_known:
  "knownSecret \<in> set (matchNames s found) \<longleftrightarrow> knownSecret \<in> gm_name ` set found"
  "knownSecretEncoded \<in> set (matchNames s found) \<longleftrightarrow> knownSecretEncoded \<in> gm_name ` set found"
proof -
  have ne: "knownSecret \<noteq> knownSecretEncoded" by (simp add: knownSecret_def knownSecretEncoded_def)
  show "knownSecret \<in> set (matchNames s found) \<longleftrightarrow> knownSecret \<in> gm_name ` set found"
    "knownSecretEncoded \<in> set (matchNames s found) \<longleftrightarrow> knownSecretEncoded \<in> gm_name ` set found"
    unfolding matchNames_def Let_def set_append Un_iff using ne by (simp, blast)+
qed

lemma table2_names:
  assumes P: "phase1_of s ns body p"
  shows "names_of (table2 s p) \<subseteq> {knownSecret, knownSecretEncoded}"
    "names_of (table2 s p) \<noteq> {} \<longleftrightarrow> known_raw s body \<or> known_encoded s body"
proof -
  note ok = phase1_ofD(1) [OF P]
  show "names_of (table2 s p) \<subseteq> {knownSecret, knownSecretEncoded}"
  proof -
    have "names_of (table1 s p) \<subseteq> insert knownSecret (names_of table0)"
      unfolding table1_def by (rule claim_raw_names)
    moreover have "names_of (table2 s p) \<subseteq> insert knownSecretEncoded (names_of (table1 s p))"
      unfolding table2_def by (rule claim_encoded_names)
    moreover have "names_of table0 = {}" by (simp add: table0_def)
    ultimately show ?thesis by (rule two_names)
  qed
  obtain hits where h: "p = fold (phase1_hit s body) hits (phase1_init s)"
      "\<forall>i e. (i, e) \<in> set hits \<longleftrightarrow> i < length ns \<and> occurs_at (needle (ns ! i)) body e"
    using phase1_of_hits [OF P] by blast
  have "counted s (phase1_init s)" by (simp add: counted_def phase1_init_def)
  note rec = counted_fold [OF this, of _ _ hits body, folded h(1)]
  have offset: "\<exists>j e. nr_kind (sn_refs s ! j) = K \<and> e \<in> set (fmget [] (p1_secretHits p) j) \<and> j < length ns"
    if K: "\<exists>h\<in>set hits. nr_kind (sn_refs s ! fst h) = K" "K \<in> {needleSecretRaw, needleSecretEncoded}" for K
  proof -
    obtain j e where "(j, e) \<in> set hits" "nr_kind (sn_refs s ! j) = K" using K(1) by force
    then have "recorded s K p" using rec K(2) by blast
    then obtain j e where j: "nr_kind (sn_refs s ! j) = K" "e \<in> set (fmget [] (p1_secretHits p) j)"
      by (auto simp: recorded_def)
    then have "(j, e) \<in> set hits"
      using secret_hits_sound [of e s body hits "phase1_init s" j] h(1) by (auto simp: phase1_init_def)
    then show ?thesis using j h(2) by blast
  qed
  have t1: "ss_found (table1 s p) \<noteq> []" if raw: "known_raw s body"
  proof
    assume none: "ss_found (table1 s p) = []"
    have "\<exists>h\<in>set hits. nr_kind (sn_refs s ! fst h) = needleSecretRaw"
      using raw_hits [OF ok h(2)] raw by (simp add: known_raw_def)
    then obtain j e where j: "nr_kind (sn_refs s ! j) = needleSecretRaw" "e \<in> set (fmget [] (p1_secretHits p) j)" "j < length ns"
      using offset by blast
    obtain k i v w where n: "ns ! j = (k, i, v, w)" by (cases "ns ! j")
    have "k = needleSecretRaw" using j(1) ref_at [OF ok j(3)] n by simp
    then have i: "i < length (sn_secrets s)" "ks_rawID (sn_secrets s ! i) = j"
      using raw_entry prefilter_entry [OF ok j(3)] n by auto
    have "\<not> capped (table1 s p)" using none by (simp add: capped_def maxMatchesPerScan_def)
    then have "met (ss_found (table1 s p)) (e - length (ks_raw (sn_secrets s ! i)), e)"
      unfolding table1_def using i j(2) table0_inv raw_spans [OF P] by (intro claim_raw_met) auto
    then show False using none by (simp add: met_def)
  qed
  have t2: "ss_found (table2 s p) \<noteq> []" if enc: "known_encoded s body"
  proof
    assume none: "ss_found (table2 s p) = []"
    have "\<exists>h\<in>set hits. nr_kind (sn_refs s ! fst h) = needleSecretEncoded"
      using encoded_hits [OF ok h(2)] enc by (simp add: known_encoded_def)
    then obtain j e where j: "nr_kind (sn_refs s ! j) = needleSecretEncoded" "e \<in> set (fmget [] (p1_secretHits p) j)" "j < length ns"
      using offset by blast
    obtain k i v w where n: "ns ! j = (k, i, v, w)" by (cases "ns ! j")
    have "k = needleSecretEncoded" using j(1) ref_at [OF ok j(3)] n by simp
    then have i: "i < length (sn_secrets s)" "nat v < length (ks_encoded (sn_secrets s ! i))"
        "ks_encodedIDs (sn_secrets s ! i) ! nat v = j"
      using encoded_entry prefilter_entry [OF ok j(3)] n by auto
    have len: "length (ks_encodedIDs (sn_secrets s ! i)) = length (ks_encoded (sn_secrets s ! i))"
      using carried [OF ok i(1)] by (simp add: secret_carried_def)
    have z: "(j, ks_encoded (sn_secrets s ! i) ! nat v) \<in> set (zip (ks_encodedIDs (sn_secrets s ! i)) (ks_encoded (sn_secrets s ! i)))"
      using i len by (auto simp: in_set_zip)
    have open_table: "\<not> capped (table2 s p)" using none by (simp add: capped_def maxMatchesPerScan_def)
    have inv: "table_inv body (table1 s p)" using table0_inv table1_extends [OF P] by (simp add: extends_def)
    have "met (ss_found (table2 s p)) (e - length (ks_encoded (sn_secrets s ! i) ! nat v), e)"
      unfolding table2_def
      by (rule claim_encoded_met [OF inv encoded_spans [OF P] open_table [unfolded table2_def] _ z j(2)])
        (use i(1) in simp_all)
    then show False using none by (simp add: met_def)
  qed
  show "names_of (table2 s p) \<noteq> {} \<longleftrightarrow> known_raw s body \<or> known_encoded s body"
  proof
    assume "known_raw s body \<or> known_encoded s body"
    moreover have "ss_found (table1 s p) \<noteq> [] \<Longrightarrow> ss_found (table2 s p) \<noteq> []"
      using table2_extends [OF P] by (auto simp: extends_def)
    ultimately show "names_of (table2 s p) \<noteq> {}" using t1 t2 by auto
  next
    assume some: "names_of (table2 s p) \<noteq> {}"
    show "known_raw s body \<or> known_encoded s body"
    proof (rule ccontr)
      assume clean: "\<not> (known_raw s body \<or> known_encoded s body)"
      have raw: "fmget [] (p1_secretHits p) (ks_rawID sec) = []" if "sec \<in> set (sn_secrets s)" for sec
      proof (rule ccontr)
        assume "fmget [] (p1_secretHits p) (ks_rawID sec) \<noteq> []"
        then obtain e where "e \<in> set (fmget [] (p1_secretHits p) (ks_rawID sec))" by fastforce
        moreover obtain i where "i < length (sn_secrets s)" "sec = sn_secrets s ! i"
          using \<open>sec \<in> set (sn_secrets s)\<close> by (metis in_set_conv_nth)
        ultimately have "occurs_at (ks_raw sec) body e" using raw_offsets(1) [OF P] by blast
        then show False using clean that occurs_iff_sublist by (auto simp: known_raw_def)
      qed
      have enc: "fmget [] (p1_secretHits p) j = []"
        if sec: "sec \<in> set (sn_secrets s)" and z: "(j, v) \<in> set (zip (ks_encodedIDs sec) (ks_encoded sec))" for sec j v
      proof (rule ccontr)
        assume "fmget [] (p1_secretHits p) j \<noteq> []"
        then obtain e where e: "e \<in> set (fmget [] (p1_secretHits p) j)" by fastforce
        obtain i where i: "i < length (sn_secrets s)" "sec = sn_secrets s ! i" using sec by (metis in_set_conv_nth)
        obtain vi where vi: "vi < length (ks_encoded sec)" "j = ks_encodedIDs sec ! vi" "v = ks_encoded sec ! vi"
          using z by (auto simp: in_set_zip)
        then have "occurs_at v body e" using encoded_offsets(1) [OF P i(1)] e i(2) by blast
        then have "known_encoded s body" using sec vi occurs_iff_sublist unfolding known_encoded_def by (metis nth_mem)
        then show False using clean by simp
      qed
      have "claim_raw p secs st = st" if "set secs \<subseteq> set (sn_secrets s)" for secs st
        using that by (induction secs arbitrary: st) (auto simp: raw)
      then have e1: "table1 s p = table0" by (simp add: table1_def)
      have "claim_encoded p secs st = st" if "set secs \<subseteq> set (sn_secrets s)" for secs st
        using that
      proof (induction secs arbitrary: st)
        case (Cons sec secs)
        have "fold (\<lambda>(i, v). fold (\<lambda>stop. claim knownSecretEncoded (stop - length v, stop)) (fmget [] (p1_secretHits p) i)) zs st = st"
          if "set zs \<subseteq> set (zip (ks_encodedIDs sec) (ks_encoded sec))" for zs st
          using that Cons.prems by (induction zs arbitrary: st) (auto simp: enc [of sec])
        then show ?case using Cons by simp
      qed simp
      then have "table2 s p = table0" using e1 by (simp add: table2_def)
      then show False using some by (simp add: table0_def)
    qed
  qed
qed

lemma scan_known:
  assumes "patterns_ok rules custom" "add_custom custom {} [] = Inr cs"
    "\<forall>r\<in>set rules. ru_name r \<notin> {knownSecret, knownSecretEncoded}"
    "\<forall>c\<in>set custom. cp_Name c \<notin> {knownSecret, knownSecretEncoded}"
  shows "\<exists>s ns. NewScannerWithOptions rules custom secrets extraPaths dec = Some (Inr s) \<and> scanner_for dec secrets s ns \<and>
    sound_scanner s ns \<and> (\<forall>body. \<exists>names. Scan s body = Some names \<and>
      (knownSecret \<in> set names \<or> knownSecretEncoded \<in> set names \<longleftrightarrow> ScanKnown s body \<noteq> Some []))"
proof -
  obtain s ns where s: "NewScannerWithOptions rules custom secrets extraPaths dec = Some (Inr s)"
      "scanner_for dec secrets s ns" "sound_scanner s ns" "sn_rules s = rules" "sn_custom s = cs"
      "sn_probes s = (if dec then buildProbes (map ru_literals rules) else [])"
    using NewScanner_sound [OF assms(1,2)] by blast
  have ok: "prefilter_of s ns" using s(3) by (simp add: sound_scanner_def)
  have owners: "owners_ok s"
    using buildProbes_owners [of _ "map ru_literals rules"] s(4,6) by (auto simp: owners_ok_def split: if_splits)
  have customs: "cr_name c \<notin> {knownSecret, knownSecretEncoded}" if "c \<in> set cs" for c
    using add_custom_patterns [OF assms(2) that] assms(4) by force
  have "n \<notin> {knownSecret, knownSecretEncoded}" if "n \<in> ru_name ` set (sn_rules s) \<union> cr_name ` set (sn_custom s)" for n
    using that
  proof
    assume "n \<in> ru_name ` set (sn_rules s)"
    then have "n \<in> ru_name ` set rules" by (simp only: s(4))
    then show ?thesis using assms(3) by (metis imageE)
  next
    assume "n \<in> cr_name ` set (sn_custom s)"
    then have "n \<in> cr_name ` set cs" by (simp only: s(5))
    then show ?thesis using customs by (metis imageE)
  qed
  then have others: "(ru_name ` set (sn_rules s) \<union> cr_name ` set (sn_custom s)) \<inter> {knownSecret, knownSecretEncoded} = {}"
    by (metis disjoint_iff)
  have "\<exists>names. Scan s body = Some names \<and>
      (knownSecret \<in> set names \<or> knownSecretEncoded \<in> set names \<longleftrightarrow> ScanKnown s body \<noteq> Some [])" for body
  proof -
  obtain p where p: "phase1_of s ns body p" "findAllGated s body = Some \<lparr> sr_found = ss_found (final s body p),
      sr_decodes = fst (phase2 s body p), sr_phase1 = p, sr_pathGate = p1_pathGate p \<rparr>"
    using scanned [OF s(3)] by blast
  have mono: "names_of (table2 s p) \<subseteq> names_of (final s body p)"
    using final_extends [OF p(1)] by (auto simp: extends_def prefix_def)
  have "names_of (final s body p) \<inter> {knownSecret, knownSecretEncoded} = names_of (table2 s p)"
    by (rule known_part [OF final_names [OF owners, of body p] others table2_names(1) [OF p(1)] mono])
  then have part: "knownSecret \<in> names_of (final s body p) \<or> knownSecretEncoded \<in> names_of (final s body p) \<longleftrightarrow>
      names_of (table2 s p) \<noteq> {}"
    by (simp only: two_mem)
  have scan: "Scan s body = Some (matchNames s (ss_found (final s body p)))"
    using p(2) by (simp add: Scan_def findAll_def)
  have "knownSecret \<in> set (matchNames s (ss_found (final s body p))) \<or>
      knownSecretEncoded \<in> set (matchNames s (ss_found (final s body p))) \<longleftrightarrow> ScanKnown s body \<noteq> Some []"
    unfolding matchNames_known part table2_names(2) [OF p(1)] ScanKnown_hit_iff [OF ok] ..
  then show ?thesis using scan by blast
  qed
  then show ?thesis using s(1-3) by blast
qed

text \<open>A scanner that the constructor made from a configuration with no rule or pattern of a known-secret name.\<close>

definition configured :: "Scanner \<Rightarrow> bool" where
  "configured s \<longleftrightarrow>
     (\<exists>rules custom cs secrets extraPaths dec.
        patterns_ok rules custom \<and> add_custom custom {} [] = Inr cs \<and>
        (\<forall>r\<in>set rules. ru_name r \<notin> {knownSecret, knownSecretEncoded}) \<and>
        (\<forall>c\<in>set custom. cp_Name c \<notin> {knownSecret, knownSecretEncoded}) \<and>
        NewScannerWithOptions rules custom secrets extraPaths dec = Some (Inr s))"

lemma configured_scanner:
  assumes "configured s"
  shows "\<exists>dec secrets ns. scanner_for dec secrets s ns \<and> sound_scanner s ns"
    "\<exists>names. Scan s body = Some names \<and>
      (knownSecret \<in> set names \<or> knownSecretEncoded \<in> set names \<longleftrightarrow> ScanKnown s body \<noteq> Some [])"
proof -
  obtain rules custom cs secrets extraPaths dec where c:
      "patterns_ok rules custom" "add_custom custom {} [] = Inr cs"
      "\<forall>r\<in>set rules. ru_name r \<notin> {knownSecret, knownSecretEncoded}"
      "\<forall>c\<in>set custom. cp_Name c \<notin> {knownSecret, knownSecretEncoded}"
      "NewScannerWithOptions rules custom secrets extraPaths dec = Some (Inr s)"
    using assms unfolding configured_def by blast
  from scan_known [OF c(1-4), of secrets extraPaths dec] c(5)
  show "\<exists>dec secrets ns. scanner_for dec secrets s ns \<and> sound_scanner s ns"
    "\<exists>names. Scan s body = Some names \<and>
      (knownSecret \<in> set names \<or> knownSecretEncoded \<in> set names \<longleftrightarrow> ScanKnown s body \<noteq> Some [])"
    by auto
qed

text \<open>
  C35. The names of a whole scan and the known-secret channel agree: for a scanner none of whose rules or
  custom patterns bears a known-secret name, a scan reports a known secret, raw or encoded, exactly if
  the known-secret channel reports something, however large the body.
\<close>

theorem Scan_known_iff:
  assumes "patterns_ok rules custom" "add_custom custom {} [] = Inr cs"
    "\<forall>r\<in>set rules. ru_name r \<notin> {knownSecret, knownSecretEncoded}"
    "\<forall>c\<in>set custom. cp_Name c \<notin> {knownSecret, knownSecretEncoded}"
  shows "\<exists>s names. NewScannerWithOptions rules custom secrets extraPaths dec = Some (Inr s) \<and> Scan s body = Some names \<and>
    (knownSecret \<in> set names \<or> knownSecretEncoded \<in> set names \<longleftrightarrow> ScanKnown s body \<noteq> Some [])"
  using scan_known [OF assms, of secrets extraPaths dec] by blast

lemma Scan_known_iff_witness:
  "\<exists>s names. NewScannerWithOptions [] [] [\<lparr> kn_Value = ''sk-0123456789'', kn_Label = ''pool'' \<rparr>] [] True = Some (Inr s) \<and>
    Scan s ''hello'' = Some names \<and>
    (knownSecret \<in> set names \<or> knownSecretEncoded \<in> set names \<longleftrightarrow> ScanKnown s ''hello'' \<noteq> Some [])"
  by (rule Scan_known_iff [where cs = "[]"]) (simp_all add: patterns_ok_def table_ok_def)

text \<open>
  The gate that rides the secret scan is exact: whatever the scanner and the body, the verdict of the
  shared pass is whether the stand-alone scan for sensitive paths would report anything.
\<close>

theorem path_gate_exact:
  assumes "table_ok rules" "add_custom custom {} [] = Inr cs"
  shows "\<exists>s r. NewScannerWithOptions rules custom secrets extraPaths dec = Some (Inr s) \<and>
    findAllGated s body = Some r \<and> (sr_pathGate r \<longleftrightarrow> ScanPaths (sn_extraPaths s) body \<noteq> [])"
proof -
  obtain s ns where s: "NewScannerWithOptions rules custom secrets extraPaths dec = Some (Inr s)"
      "scanner_for dec secrets s ns"
    using NewScanner_for [OF assms] by blast
  then have ok: "prefilter_of s ns" by (simp add: scanner_for_def)
  obtain hits where "ac_search (sn_ac s) body = Some hits" using scan_hits [OF ok] by blast
  then obtain r where "findAllGated s body = Some r" by (simp add: findAllGated_def Let_def case_prod_beta)
  then show ?thesis using s(1) gate_iff [OF ok] ScanPaths_gate by blast
qed

lemma path_gate_exact_witness:
  "\<exists>s r. NewScannerWithOptions [] [] [] [''/etc/shadow''] False = Some (Inr s) \<and>
    findAllGated s ''cat /etc/shadow'' = Some r \<and> (sr_pathGate r \<longleftrightarrow> ScanPaths (sn_extraPaths s) ''cat /etc/shadow'' \<noteq> [])"
  by (rule path_gate_exact [where cs = "[]"]) (simp_all add: table_ok_def)

end
