(* ===== verification/Guard_Session.thy ===== *)
theory Guard_Session
  imports Guard_Fragment Guard_Redact_Props "HOL-Library.Word"
begin

text \<open>
  The session windows of the split-exfiltration check (\<open>internal/guard/session/session_scan.go\<close>) and the
  check itself (the session block of \<open>internal/forward/forward.go\<close>). Scanners and list elements are
  identified by their address, as the code compares pointers: a scanner is a number, resolved by a heap
  of scanners, and an element is a number that the store allocates. \<open>Add\<close> is its locked part, the
  refresh of the verdict outside the lock, and the locked publication, so that calls can interleave.
\<close>

subsection \<open>The store\<close>

definition sessionScanWindowBytes :: nat where
  "sessionScanWindowBytes = 32 * 2 ^ 10"

definition sessionScanMaxSessions :: nat where
  "sessionScanMaxSessions = 256"

record sessionScanEntry =
  se_id :: string
  se_window :: string
  se_scanner :: "nat option"
  se_progress :: "nat list"
  se_known :: bool
  se_knownValid :: bool
  se_seq :: "64 word"

record SessionStore =
  st_ll :: "nat list"
  st_items :: "string \<rightharpoonup> nat"
  st_elems :: "nat \<Rightarrow> sessionScanEntry"
  st_fresh :: nat

definition NewSessionStore :: SessionStore where
  "NewSessionStore =
     \<lparr> st_ll = [], st_items = Map.empty,
       st_elems = (\<lambda>_. \<lparr> se_id = [], se_window = [], se_scanner = None, se_progress = [], se_known = False,
                         se_knownValid = False, se_seq = 0 \<rparr>),
       st_fresh = 0 \<rparr>"

definition MoveToFront :: "nat \<Rightarrow> nat list \<Rightarrow> nat list" where
  "MoveToFront el ll = el # remove1 el ll"

text \<open>Window, progress, cached verdict and whether it is valid.\<close>

type_synonym snapshot = "string \<times> nat list \<times> bool \<times> bool"

definition session_Snapshot :: "string \<Rightarrow> nat \<Rightarrow> SessionStore \<Rightarrow> snapshot \<times> SessionStore" where
  "session_Snapshot sid sc s =
     (case st_items s sid of
        None \<Rightarrow> (([], [], False, False), s)
      | Some el \<Rightarrow>
          (let s = s\<lparr> st_ll := MoveToFront el (st_ll s) \<rparr>; ent = st_elems s el
           in if se_scanner ent \<noteq> Some sc then ((se_window ent, [], False, False), s)
              else ((se_window ent, se_progress ent, se_known ent, se_knownValid ent), s)))"

definition mergeProgress :: "nat list \<Rightarrow> nat list \<Rightarrow> bool list \<Rightarrow> nat list" where
  "mergeProgress a b reset =
     (let (a, b) = (if length a < length b then (b, a) else (a, b));
          out = map (\<lambda>(i, v). if i < length b \<and> v < b ! i then b ! i else v) (enumerate 0 a)
      in map (\<lambda>(i, v). if i < length reset \<and> reset ! i then 0 else v) (enumerate 0 out))"

text \<open>What the refresh outside the lock has to scan.\<close>

datatype refresh = Rescan string | StillKnown | ScanJunction string

record pending =
  pd_id :: string
  pd_el :: nat
  pd_seq :: "64 word"
  pd_scanner :: nat
  pd_refresh :: refresh
  pd_bodyKnown :: bool

function evict :: "SessionStore \<Rightarrow> SessionStore" where
  "evict s =
     (if sessionScanMaxSessions < length (st_ll s)
      then evict (s\<lparr> st_ll := butlast (st_ll s), st_items := (st_items s)(se_id (st_elems s (last (st_ll s))) := None) \<rparr>)
      else s)"
  by pat_completeness auto
termination by (relation "measure (\<lambda>s. length (st_ll s))") (auto simp: sessionScanMaxSessions_def)

declare evict.simps [simp del]

text \<open>The element of the session, a new one if it has none, at the front of the list.\<close>

definition touch :: "string \<Rightarrow> SessionStore \<Rightarrow> nat \<times> SessionStore" where
  "touch sid s =
     (case st_items s sid of
        None \<Rightarrow>
          (st_fresh s,
           s\<lparr> st_ll := st_fresh s # st_ll s, st_items := (st_items s)(sid \<mapsto> st_fresh s),
              st_elems := (st_elems s)(st_fresh s :=
                \<lparr> se_id = sid, se_window = [], se_scanner = None, se_progress = [], se_known = False,
                  se_knownValid = True, se_seq = 0 \<rparr>),
              st_fresh := Suc (st_fresh s) \<rparr>)
      | Some el \<Rightarrow> (el, s\<lparr> st_ll := MoveToFront el (st_ll s) \<rparr>))"

definition last_bytes :: "nat \<Rightarrow> string \<Rightarrow> string" where
  "last_bytes n w = drop (length w - n) w"

definition truncates :: "string \<Rightarrow> string \<Rightarrow> bool" where
  "truncates window body \<longleftrightarrow> sessionScanWindowBytes < length (window @ body)"

definition extend_entry :: "string \<Rightarrow> nat \<Rightarrow> nat list \<Rightarrow> bool list \<Rightarrow> sessionScanEntry \<Rightarrow> sessionScanEntry" where
  "extend_entry body sc progress reset ent =
     ent\<lparr> se_window := (if truncates (se_window ent) body then last_bytes sessionScanWindowBytes (se_window ent @ body)
                        else se_window ent @ body),
          se_progress := (if truncates (se_window ent) body then []
                          else if se_scanner ent = Some sc then mergeProgress (se_progress ent) progress reset
                          else progress),
          se_scanner := Some sc, se_known := False, se_knownValid := False, se_seq := se_seq ent + 1 \<rparr>"

definition refresh_of :: "string \<Rightarrow> nat \<Rightarrow> nat \<Rightarrow> sessionScanEntry \<Rightarrow> string \<Rightarrow> refresh" where
  "refresh_of body reach sc ent window =
     (let oldValid = (se_knownValid ent \<and> se_scanner ent = Some sc);
          oldTail = (if 0 < reach \<and> se_window ent \<noteq> [] then last_bytes (min reach (length (se_window ent))) (se_window ent) else [])
      in if truncates (se_window ent) body \<or> \<not> oldValid then Rescan window
         else if \<not> se_known ent then ScanJunction (oldTail @ take (min (length body) reach) body)
         else StillKnown)"

definition Add_locked ::
  "string \<Rightarrow> string \<Rightarrow> nat \<Rightarrow> nat \<Rightarrow> nat list \<Rightarrow> bool list \<Rightarrow> bool \<Rightarrow> SessionStore \<Rightarrow> pending option \<times> SessionStore" where
  "Add_locked sid body sc longest progress reset bodyKnown s =
     (if body = [] then (None, s)
      else
        (let body = (if sessionScanWindowBytes < length body then last_bytes sessionScanWindowBytes body else body);
             reach = longest - 1;
             (el, s) = touch sid s;
             ent = st_elems s el;
             ent' = extend_entry body sc progress reset ent
         in (Some \<lparr> pd_id = sid, pd_el = el, pd_seq = se_seq ent', pd_scanner = sc,
                    pd_refresh = refresh_of body reach sc ent (se_window ent'), pd_bodyKnown = bodyKnown \<rparr>,
             evict (s\<lparr> st_elems := (st_elems s)(el := ent') \<rparr>))))"

text \<open>The verdict computed outside the lock.\<close>

definition known_in :: "Scanner \<Rightarrow> string \<Rightarrow> bool option" where
  "known_in scanner w = map_option (\<lambda>names. names \<noteq> []) (ScanKnown scanner w)"

definition refreshed :: "Scanner \<Rightarrow> pending \<Rightarrow> bool option" where
  "refreshed scanner p =
     (case pd_refresh p of
        Rescan w \<Rightarrow> known_in scanner w
      | StillKnown \<Rightarrow> Some True
      | ScanJunction w \<Rightarrow> if pd_bodyKnown p then Some True else known_in scanner w)"

definition publish :: "pending \<Rightarrow> bool \<Rightarrow> SessionStore \<Rightarrow> SessionStore" where
  "publish p known s =
     (if st_items s (pd_id p) = Some (pd_el p) \<and> se_seq (st_elems s (pd_el p)) = pd_seq p
      then s\<lparr> st_elems := (st_elems s)(pd_el p := (st_elems s (pd_el p))\<lparr> se_known := known, se_knownValid := True \<rparr>) \<rparr>
      else s)"

text \<open>\<open>Add\<close> when no other call comes between.\<close>

definition session_Add ::
  "(nat \<Rightarrow> Scanner) \<Rightarrow> string \<Rightarrow> string \<Rightarrow> nat \<Rightarrow> nat list \<Rightarrow> bool list \<Rightarrow> bool \<Rightarrow> SessionStore \<Rightarrow> SessionStore option" where
  "session_Add mem sid body sc progress reset bodyKnown s =
     (case Add_locked sid body sc (MaxKnownNeedleLen (mem sc)) progress reset bodyKnown s of
        (None, s) \<Rightarrow> Some s
      | (Some p, s) \<Rightarrow> map_option (\<lambda>known. publish p known s) (refreshed (mem sc) p))"

definition store_Len :: "SessionStore \<Rightarrow> nat" where
  "store_Len s = length (st_ll s)"

subsection \<open>The check of one request\<close>

text \<open>The names of the whole scan that stand for a known secret in this body.\<close>

definition knownInCurrent :: "string list \<Rightarrow> bool" where
  "knownInCurrent names \<longleftrightarrow> list_ex (\<lambda>n. n = knownSecret \<or> n = knownSecretEncoded) names"

definition junction_of :: "nat \<Rightarrow> string \<Rightarrow> string \<Rightarrow> string" where
  "junction_of reach tail body = drop (length tail - reach) tail @ take (min reach (length body)) body"

text \<open>Whether an occurrence spans the junction of window and body.\<close>

definition junction_fires :: "Scanner \<Rightarrow> snapshot \<Rightarrow> bool \<Rightarrow> string \<Rightarrow> bool option" where
  "junction_fires scanner snap current body =
     (let (tail, progress, tailKnown, tailKnownOK) = snap
      in if tail \<noteq> [] \<and> \<not> current
         then (case (if tailKnownOK then Some tailKnown else known_in scanner tail) of
                 None \<Rightarrow> None
               | Some True \<Rightarrow> Some False
               | Some False \<Rightarrow> known_in scanner (junction_of (MaxKnownNeedleLen scanner - 1) tail body))
         else Some False)"

text \<open>Fragmented, the progress and the resets to hand to \<open>Add\<close>.\<close>

definition splitScan :: "Scanner \<Rightarrow> snapshot \<Rightarrow> bool \<Rightarrow> string \<Rightarrow> (bool \<times> nat list \<times> bool list) option" where
  "splitScan scanner snap current body =
     (case junction_fires scanner snap current body of
        None \<Rightarrow> None
      | Some fragmented \<Rightarrow>
          if \<not> fragmented \<and> \<not> current then ScanKnownFragment scanner body (fst (snd snap))
          else Some (fragmented, [], []))"

text \<open>When the block runs at all.\<close>

definition split_engaged :: "string \<Rightarrow> bool \<Rightarrow> Scanner \<Rightarrow> string \<Rightarrow> bool" where
  "split_engaged action sessionScanEnabled scanner sid \<longleftrightarrow>
     action \<noteq> ''off'' \<and> sessionScanEnabled \<and> HasKnownSecrets scanner \<and> sid \<noteq> []"

text \<open>The block of one request that no other request interleaves: the verdict and the store after it.\<close>

definition session_block ::
  "(nat \<Rightarrow> Scanner) \<Rightarrow> string \<Rightarrow> bool \<Rightarrow> nat \<Rightarrow> string \<Rightarrow> string list \<Rightarrow> string \<Rightarrow> SessionStore \<Rightarrow> (bool \<times> SessionStore) option" where
  "session_block mem action sessionScanEnabled sc sid secretNames body s =
     (if split_engaged action sessionScanEnabled (mem sc) sid
      then
        (let (snap, s) = session_Snapshot sid sc s; current = knownInCurrent secretNames
         in case splitScan (mem sc) snap current body of
              None \<Rightarrow> None
            | Some (fragmented, progress, reset) \<Rightarrow>
                map_option (Pair fragmented) (session_Add mem sid body sc progress reset current s))
      else Some (False, s))"

end
