(* ===== verification/Guard_Session_Props.thy ===== *)
theory Guard_Session_Props
  imports Guard_Session
begin

text \<open>
  The split-exfiltration check under every interleaving of requests: the store stays bounded and
  consistent, a cached verdict is always that of the window, a scan of the junction decides for the
  whole text, and a reported split is one.
\<close>

subsection \<open>Known secrets in a text\<close>

definition needle_in :: "Scanner \<Rightarrow> string \<Rightarrow> bool" where
  "needle_in s v \<longleftrightarrow> (\<exists>sec\<in>set (sn_secrets s). v = ks_raw sec \<or> v \<in> set (ks_encoded sec))"

definition holds :: "Scanner \<Rightarrow> string \<Rightarrow> bool" where
  "holds s w \<longleftrightarrow> (\<exists>v. needle_in s v \<and> sublist v w)"

lemma holds_known: "holds s w \<longleftrightarrow> known_raw s w \<or> known_encoded s w"
  by (auto simp: holds_def needle_in_def known_raw_def known_encoded_def)

lemma holds_mono: "holds s w \<Longrightarrow> sublist w w' \<Longrightarrow> holds s w'"
  unfolding holds_def using sublist_order.order_trans by blast

lemma configured_known_in:
  assumes "configured s"
  shows "known_in s w = Some (holds s w)"
proof -
  obtain ns where "prefilter_of s ns" using configured_scanner(1) [OF assms] by (auto simp: sound_scanner_def)
  from ScanKnown_eq [OF this, of w] show ?thesis by (simp add: known_in_def holds_known)
qed

lemma configured_needle_length:
  assumes "configured s" "needle_in s v"
  shows "length v \<le> MaxKnownNeedleLen s"
proof -
  obtain dec secrets ns where "scanner_for dec secrets s ns" using configured_scanner(1) [OF assms(1)] by blast
  then show ?thesis using assms(2) unfolding scanner_for_def needle_in_def by blast
qed

text \<open>The verdict on the body alone that the whole scan gives.\<close>

lemma configured_current:
  assumes "configured s" "Scan s body = Some names"
  shows "knownInCurrent names \<longleftrightarrow> holds s body"
proof -
  have "knownSecret \<in> set names \<or> knownSecretEncoded \<in> set names \<longleftrightarrow> ScanKnown s body \<noteq> Some []"
    using configured_scanner(2) [OF assms(1), of body] assms(2) by auto
  then show ?thesis
    using configured_known_in [OF assms(1), of body] by (auto simp: knownInCurrent_def list_ex_iff known_in_def)
qed

text \<open>An occurrence in a concatenation lies in one part or in the junction.\<close>

lemma sublist_junction:
  assumes "sublist v (tail @ body)" "\<not> sublist v tail" "\<not> sublist v body" "length v \<le> Suc reach"
  shows "sublist v (junction_of reach tail body)"
proof -
  obtain ps ss where split: "tail @ body = ps @ v @ ss" using assms(1) by (auto simp: sublist_def)
  consider us where "tail = ps @ us" "us @ body = v @ ss" | us where "body = us @ v @ ss"
    using split unfolding append_eq_append_conv2 by metis
  then obtain us where us: "tail = ps @ us" "us @ body = v @ ss"
    using assms(3) by cases (auto simp: sublist_def)
  consider vs where "us = v @ vs" | vs where "v = us @ vs" "body = vs @ ss"
    using us(2) unfolding append_eq_append_conv2 by metis
  then obtain vs where vs: "v = us @ vs" "body = vs @ ss"
    using assms(2) us(1) by cases (auto simp: sublist_def)
  have "us \<noteq> []" using assms(3) vs unfolding sublist_def by (metis append_Nil)
  moreover have "vs \<noteq> []" using assms(2) us(1) vs(1) unfolding sublist_def by (metis append_Nil2)
  ultimately have ne: "us \<noteq> []" "vs \<noteq> []" by simp_all
  then have len: "length us \<le> reach" "length vs \<le> reach" using assms(4) vs(1) by (cases us; cases vs; simp)+
  have "drop (length tail - reach) tail = drop (length tail - reach) ps @ us"
    using us(1) len(1) by simp
  moreover have "take (min reach (length body)) body = vs @ take (min reach (length body) - length vs) ss"
    using vs(2) len(2) by simp
  ultimately have "junction_of reach tail body =
      drop (length tail - reach) ps @ v @ take (min reach (length body) - length vs) ss"
    using vs(1) by (simp add: junction_of_def)
  then show ?thesis by (auto simp: sublist_def)
qed

lemma junction_sublist: "sublist (junction_of reach tail body) (tail @ body)"
proof -
  have "tail @ body = take (length tail - reach) tail @ junction_of reach tail body @ drop (min reach (length body)) body"
    unfolding junction_of_def by (metis append.assoc append_take_drop_id)
  then show ?thesis unfolding sublist_def by blast
qed

lemma holds_append:
  assumes "configured s"
  shows "holds s (tail @ body) \<longleftrightarrow>
    holds s tail \<or> holds s body \<or> holds s (junction_of (MaxKnownNeedleLen s - 1) tail body)"
proof
  assume "holds s (tail @ body)"
  then obtain v where v: "needle_in s v" "sublist v (tail @ body)" by (auto simp: holds_def)
  have "length v \<le> Suc (MaxKnownNeedleLen s - 1)" using configured_needle_length [OF assms v(1)] by simp
  then show "holds s tail \<or> holds s body \<or> holds s (junction_of (MaxKnownNeedleLen s - 1) tail body)"
    using sublist_junction [OF v(2)] v(1) unfolding holds_def by blast
next
  have "sublist tail (tail @ body)" "sublist body (tail @ body)" by simp_all
  then show "holds s tail \<or> holds s body \<or> holds s (junction_of (MaxKnownNeedleLen s - 1) tail body) \<Longrightarrow> holds s (tail @ body)"
    using holds_mono junction_sublist by blast
qed

lemma junction_fires_eq:
  assumes "configured scanner" "\<not> holds scanner body" "tail \<noteq> []" "tailKnownOK \<longrightarrow> tailKnown = holds scanner tail"
  shows "junction_fires scanner (tail, progress, tailKnown, tailKnownOK) False body =
    Some (holds scanner (tail @ body) \<and> \<not> holds scanner tail)"
  using assms(2-4) holds_append [OF assms(1), of tail body]
  by (cases "holds scanner tail") (auto simp: junction_fires_def configured_known_in [OF assms(1)])

subsection \<open>Interleaved requests\<close>

text \<open>
  A request between its snapshot and its \<open>Add\<close>. The bodies added to its session when it took the
  snapshot are kept for the statements, as is, in the state, the list of bodies added to each session.
\<close>

record split_request =
  rq_id :: string
  rq_scanner :: nat
  rq_body :: string
  rq_current :: bool
  rq_fragmented :: bool
  rq_progress :: "nat list"
  rq_reset :: "bool list"
  rq_seen :: "string list"

record sessions =
  sy_store :: SessionStore
  sy_flight :: "split_request list"
  sy_pending :: "pending list"
  sy_bodies :: "string \<Rightarrow> string list"

definition no_sessions :: sessions where
  "no_sessions = \<lparr> sy_store = NewSessionStore, sy_flight = [], sy_pending = [], sy_bodies = (\<lambda>_. []) \<rparr>"

definition checked :: "string \<Rightarrow> nat \<Rightarrow> string \<Rightarrow> bool \<Rightarrow> bool \<times> nat list \<times> bool list \<Rightarrow> string list \<Rightarrow> split_request" where
  "checked sid sc body current verdict seen =
     \<lparr> rq_id = sid, rq_scanner = sc, rq_body = body, rq_current = current, rq_fragmented = fst verdict,
       rq_progress = fst (snd verdict), rq_reset = snd (snd verdict), rq_seen = seen \<rparr>"

inductive sstep :: "(nat \<Rightarrow> Scanner) \<Rightarrow> sessions \<Rightarrow> sessions \<Rightarrow> bool" for mem where
  step_check:
    "split_engaged action True (mem sc) sid \<Longrightarrow> Scan (mem sc) body = Some names \<Longrightarrow>
     session_Snapshot sid sc (sy_store y) = (snap, s) \<Longrightarrow>
     splitScan (mem sc) snap (knownInCurrent names) body = Some verdict \<Longrightarrow>
     sstep mem y (y\<lparr> sy_store := s,
       sy_flight := checked sid sc body (knownInCurrent names) verdict (sy_bodies y sid) # sy_flight y \<rparr>)"
| step_add:
    "rq \<in> set (sy_flight y) \<Longrightarrow>
     Add_locked (rq_id rq) (rq_body rq) (rq_scanner rq) (MaxKnownNeedleLen (mem (rq_scanner rq))) (rq_progress rq)
       (rq_reset rq) (rq_current rq) (sy_store y) = (po, s) \<Longrightarrow>
     sstep mem y (y\<lparr> sy_store := s, sy_flight := remove1 rq (sy_flight y),
       sy_pending := (case po of None \<Rightarrow> sy_pending y | Some p \<Rightarrow> p # sy_pending y),
       sy_bodies := (sy_bodies y)(rq_id rq := sy_bodies y (rq_id rq) @ [rq_body rq]) \<rparr>)"
| step_refresh:
    "p \<in> set (sy_pending y) \<Longrightarrow> refreshed (mem (pd_scanner p)) p = Some known \<Longrightarrow>
     sstep mem y (y\<lparr> sy_store := publish p known (sy_store y), sy_pending := remove1 p (sy_pending y) \<rparr>)"

text \<open>Reachable in a number of steps.\<close>

inductive sreach :: "(nat \<Rightarrow> Scanner) \<Rightarrow> nat \<Rightarrow> sessions \<Rightarrow> bool" for mem where
  reach_start: "sreach mem 0 no_sessions"
| reach_step: "sreach mem n y \<Longrightarrow> sstep mem y y' \<Longrightarrow> sreach mem (Suc n) y'"

subsection \<open>The store is consistent and bounded\<close>

definition store_ok :: "SessionStore \<Rightarrow> bool" where
  "store_ok s \<longleftrightarrow>
     distinct (st_ll s) \<and>
     (\<forall>sid el. st_items s sid = Some el \<longleftrightarrow> el \<in> set (st_ll s) \<and> se_id (st_elems s el) = sid) \<and>
     (\<forall>el\<in>set (st_ll s). el < st_fresh s)"

definition windows_ok :: "SessionStore \<Rightarrow> bool" where
  "windows_ok s \<longleftrightarrow>
     (\<forall>el\<in>set (st_ll s). se_window (st_elems s el) \<noteq> [] \<and> length (se_window (st_elems s el)) \<le> sessionScanWindowBytes)"

lemma store_okD:
  assumes "store_ok s"
  shows "distinct (st_ll s)" "st_items s sid = Some el \<longleftrightarrow> el \<in> set (st_ll s) \<and> se_id (st_elems s el) = sid"
    "el \<in> set (st_ll s) \<Longrightarrow> el < st_fresh s"
  using assms unfolding store_ok_def by blast+

lemma store_ok_inj:
  assumes "store_ok s" "el \<in> set (st_ll s)" "el' \<in> set (st_ll s)" "se_id (st_elems s el) = se_id (st_elems s el')"
  shows "el = el'"
  using assms store_okD(2) [OF assms(1)] by (metis option.inject)

lemma set_MoveToFront: "el \<in> set ll \<Longrightarrow> distinct ll \<Longrightarrow> set (MoveToFront el ll) = set ll \<and> distinct (MoveToFront el ll)"
  by (auto simp: MoveToFront_def)

text \<open>What touching a session does: its element is listed; the other elements are as before.\<close>

lemma touch_ok:
  assumes ok: "store_ok s" and t: "touch sid s = (el, s')"
  shows "store_ok s' \<and> st_items s' sid = Some el \<and> st_elems s' = (st_elems s)(el := st_elems s' el) \<and>
    set (st_ll s') = insert el (set (st_ll s)) \<and> st_fresh s \<le> st_fresh s' \<and>
    (el \<in> set (st_ll s) \<longrightarrow> st_elems s' = st_elems s) \<and>
    (el \<notin> set (st_ll s) \<longrightarrow> el = st_fresh s \<and> st_elems s' el = \<lparr> se_id = sid, se_window = [], se_scanner = None, se_progress = [],
       se_known = False, se_knownValid = True, se_seq = 0 \<rparr>)"
proof (cases "st_items s sid")
  case None
  then have t': "el = st_fresh s" "s' = s\<lparr> st_ll := st_fresh s # st_ll s, st_items := (st_items s)(sid \<mapsto> st_fresh s),
      st_elems := (st_elems s)(st_fresh s := \<lparr> se_id = sid, se_window = [], se_scanner = None, se_progress = [],
        se_known = False, se_knownValid = True, se_seq = 0 \<rparr>), st_fresh := Suc (st_fresh s) \<rparr>"
    using t by (auto simp: touch_def)
  have new: "st_fresh s \<notin> set (st_ll s)" using store_okD(3) [OF ok] by blast
  have "\<nexists>el. el \<in> set (st_ll s) \<and> se_id (st_elems s el) = sid" using None store_okD(2) [OF ok] by (metis option.distinct(1))
  then have "store_ok s'"
    using new store_okD [OF ok] unfolding store_ok_def t'(2) by (auto simp: less_Suc_eq)
  then show ?thesis using new by (simp add: t')
next
  case (Some e)
  then have t': "el = e" "s' = s\<lparr> st_ll := MoveToFront e (st_ll s) \<rparr>" using t by (auto simp: touch_def)
  have e: "e \<in> set (st_ll s)" using Some store_okD(2) [OF ok] by simp
  note m = set_MoveToFront [OF e store_okD(1) [OF ok]]
  have "store_ok s'" using m ok unfolding store_ok_def t'(2) by simp
  then show ?thesis using m e Some by (auto simp: t')
qed

text \<open>Updating an element of a session keeps the structure, eviction only removes.\<close>

lemma update_ok:
  assumes "store_ok s" "se_id ent = se_id (st_elems s el)"
  shows "store_ok (s\<lparr> st_elems := (st_elems s)(el := ent) \<rparr>)"
  using assms unfolding store_ok_def by auto

lemma evict_ok:
  "store_ok s \<Longrightarrow>
   store_ok (evict s) \<and> set (st_ll (evict s)) \<subseteq> set (st_ll s) \<and> st_elems (evict s) = st_elems s \<and>
   st_fresh (evict s) = st_fresh s \<and> length (st_ll (evict s)) \<le> sessionScanMaxSessions \<and>
   (length (st_ll s) \<le> sessionScanMaxSessions \<longrightarrow> evict s = s)"
proof (induction s rule: evict.induct)
  case (1 s)
  show ?case
  proof (cases "sessionScanMaxSessions < length (st_ll s)")
    case True
    let ?s = "s\<lparr> st_ll := butlast (st_ll s), st_items := (st_items s)(se_id (st_elems s (last (st_ll s))) := None) \<rparr>"
    have ne: "st_ll s \<noteq> []" using True by auto
    then have ll: "st_ll s = butlast (st_ll s) @ [last (st_ll s)]" by simp
    have "distinct (butlast (st_ll s) @ [last (st_ll s)])" using store_okD(1) [OF 1(2)] ll by simp
    then have d: "distinct (butlast (st_ll s))" "last (st_ll s) \<notin> set (butlast (st_ll s))" by simp_all
    have mem: "el \<in> set (st_ll s) \<longleftrightarrow> el \<in> set (butlast (st_ll s)) \<or> el = last (st_ll s)" for el
      by (subst ll) auto
    have other: "se_id (st_elems s el) \<noteq> se_id (st_elems s (last (st_ll s)))" if "el \<in> set (butlast (st_ll s))" for el
      using store_ok_inj [OF 1(2), of el "last (st_ll s)"] that mem d(2) by metis
    have ok: "store_ok ?s"
      unfolding store_ok_def using d mem store_okD(2,3) [OF 1(2)] other by auto
    have sub: "set (st_ll ?s) \<subseteq> set (st_ll s)" using mem by auto
    have "evict s = evict ?s" using True by (subst evict.simps) simp
    then show ?thesis using 1(1) [OF True ok] sub True by auto
  next
    case False
    then have "evict s = s" by (subst evict.simps) simp
    then show ?thesis using 1(2) False by simp
  qed
qed

text \<open>Snapshots and publications touch neither the set of sessions nor the windows.\<close>

definition same_sessions :: "SessionStore \<Rightarrow> SessionStore \<Rightarrow> bool" where
  "same_sessions s s' \<longleftrightarrow>
     set (st_ll s') = set (st_ll s) \<and> length (st_ll s') = length (st_ll s) \<and> st_items s' = st_items s \<and> st_fresh s' = st_fresh s"

lemma session_Snapshot_ok:
  assumes ok: "store_ok s" and snap: "session_Snapshot sid sc s = (snap, s')"
  shows "store_ok s' \<and> same_sessions s s' \<and> st_elems s' = st_elems s"
proof (cases "st_items s sid")
  case None
  then show ?thesis using assms by (simp add: session_Snapshot_def same_sessions_def)
next
  case (Some el)
  have el: "el \<in> set (st_ll s)" using Some store_okD(2) [OF ok] by simp
  then have s': "s' = s\<lparr> st_ll := MoveToFront el (st_ll s) \<rparr>" using Some snap by (auto simp: session_Snapshot_def Let_def split: if_splits)
  note m = set_MoveToFront [OF el store_okD(1) [OF ok]]
  have "length (MoveToFront el (st_ll s)) = length (st_ll s)"
    using el by (simp add: MoveToFront_def length_remove1) (metis Suc_pred length_pos_if_in_set)
  then show ?thesis using m ok unfolding store_ok_def s' same_sessions_def by simp
qed

lemma publish_ok:
  assumes "store_ok s"
  shows "store_ok (publish p known s) \<and> same_sessions s (publish p known s) \<and>
    (\<forall>el. se_window (st_elems (publish p known s) el) = se_window (st_elems s el) \<and>
      se_scanner (st_elems (publish p known s) el) = se_scanner (st_elems s el) \<and>
      se_progress (st_elems (publish p known s) el) = se_progress (st_elems s el) \<and>
      se_id (st_elems (publish p known s) el) = se_id (st_elems s el) \<and>
      se_seq (st_elems (publish p known s) el) = se_seq (st_elems s el))"
  using assms update_ok [OF assms, of "(st_elems s (pd_el p))\<lparr> se_known := known, se_knownValid := True \<rparr>" "pd_el p"]
  by (simp add: publish_def same_sessions_def)

text \<open>The locked part of \<open>Add\<close>, for a body that is not empty.\<close>

definition cut_body :: "string \<Rightarrow> string" where
  "cut_body body = (if sessionScanWindowBytes < length body then last_bytes sessionScanWindowBytes body else body)"

lemma length_last_bytes: "length (last_bytes n w) = min n (length w)"
  by (simp add: last_bytes_def)

lemma cut_body: "body \<noteq> [] \<Longrightarrow> cut_body body \<noteq> [] \<and> length (cut_body body) \<le> sessionScanWindowBytes \<and> suffix (cut_body body) body"
  by (auto simp: cut_body_def last_bytes_def sessionScanWindowBytes_def suffix_drop)

lemma extend_entry_window:
  assumes "body \<noteq> []"
  shows "se_window (extend_entry body sc progress reset ent) \<noteq> [] \<and>
    length (se_window (extend_entry body sc progress reset ent)) \<le> sessionScanWindowBytes"
  using assms by (auto simp: extend_entry_def truncates_def last_bytes_def sessionScanWindowBytes_def)

lemma Add_locked_eq:
  assumes "body \<noteq> []" "touch sid s = (el, s1)"
    "ent = st_elems s1 el" "ent' = extend_entry (cut_body body) sc progress reset ent"
  shows "Add_locked sid body sc longest progress reset bodyKnown s =
    (Some \<lparr> pd_id = sid, pd_el = el, pd_seq = se_seq ent', pd_scanner = sc,
        pd_refresh = refresh_of (cut_body body) (longest - 1) sc ent (se_window ent'), pd_bodyKnown = bodyKnown \<rparr>,
     evict (s1\<lparr> st_elems := (st_elems s1)(el := ent') \<rparr>))"
  using assms by (simp add: Add_locked_def cut_body_def Let_def)

lemma touch_id:
  assumes "store_ok s" "touch sid s = (el, s')"
  shows "se_id (st_elems s' el) = sid"
  using touch_ok [OF assms] store_okD(2) [of s' sid el] by blast

lemma Add_locked_ok:
  assumes ok: "store_ok s" "windows_ok s"
    and a: "Add_locked sid body sc longest progress reset bodyKnown s = (po, s')"
  shows "store_ok s' \<and> windows_ok s' \<and> (length (st_ll s) \<le> sessionScanMaxSessions \<longrightarrow> length (st_ll s') \<le> sessionScanMaxSessions)"
proof (cases "body = []")
  case True
  then show ?thesis using assms by (simp add: Add_locked_def)
next
  case False
  obtain el s1 where t: "touch sid s = (el, s1)" by fastforce
  define ent' where "ent' = extend_entry (cut_body body) sc progress reset (st_elems s1 el)"
  define s2 where "s2 = s1\<lparr> st_elems := (st_elems s1)(el := ent') \<rparr>"
  have s': "s' = evict s2" using a Add_locked_eq [OF False t refl ent'_def] by (simp add: s2_def)
  note T = touch_ok [OF ok(1) t]
  have "se_id ent' = se_id (st_elems s1 el)" by (simp add: ent'_def extend_entry_def)
  then have s2: "store_ok s2" unfolding s2_def by (intro update_ok) (use T in simp_all)
  have w: "windows_ok s2"
    using T ok(2) extend_entry_window [of "cut_body body"] cut_body [OF False]
    by (auto simp: windows_ok_def s2_def ent'_def)
  note E = evict_ok [OF s2]
  have "windows_ok s'" using w E by (auto simp: windows_ok_def s')
  then show ?thesis using E s' by simp
qed

definition store_bounded :: "SessionStore \<Rightarrow> bool" where
  "store_bounded s \<longleftrightarrow> store_ok s \<and> windows_ok s \<and> length (st_ll s) \<le> sessionScanMaxSessions"

lemma same_sessions_bounded:
  assumes "store_bounded s" "store_ok s'" "same_sessions s s'"
    "\<forall>el. se_window (st_elems s' el) = se_window (st_elems s el)"
  shows "store_bounded s'"
  using assms by (simp add: store_bounded_def windows_ok_def same_sessions_def)

lemma sstep_bounded:
  assumes "sstep mem y y'" "store_bounded (sy_store y)"
  shows "store_bounded (sy_store y')"
proof -
  have ok: "store_ok (sy_store y)" "windows_ok (sy_store y)" "length (st_ll (sy_store y)) \<le> sessionScanMaxSessions"
    using assms(2) by (simp_all add: store_bounded_def)
  show ?thesis using assms(1)
  proof cases
    case (step_check action sc sid body names snap s verdict)
    have "store_ok s" "same_sessions (sy_store y) s" "st_elems s = st_elems (sy_store y)"
      using session_Snapshot_ok [OF ok(1) step_check(4)] by blast+
    then show ?thesis unfolding step_check(1) using same_sessions_bounded [OF assms(2)] by simp
  next
    case (step_add rq po s)
    have "store_bounded s" using Add_locked_ok [OF ok(1,2) step_add(3)] ok(3) unfolding store_bounded_def by blast
    then show ?thesis unfolding step_add(1) by simp
  next
    case (step_refresh p known)
    have "store_bounded (publish p known (sy_store y))"
      using publish_ok [OF ok(1), of p known] by (intro same_sessions_bounded [OF assms(2)]) blast+
    then show ?thesis unfolding step_refresh(1) by simp
  qed
qed

lemma sreach_bounded: "sreach mem n y \<Longrightarrow> store_bounded (sy_store y)"
proof (induction rule: sreach.induct)
  case reach_start
  then show ?case by (simp add: no_sessions_def NewSessionStore_def store_bounded_def store_ok_def windows_ok_def)
qed (rule sstep_bounded)

subsection \<open>A reported split is one\<close>

lemma pieces_in_mono: "pieces_in ws bodies \<Longrightarrow> subseq bodies bodies' \<Longrightarrow> pieces_in ws bodies'"
  unfolding pieces_in_def using subseq_order.order_trans by blast

lemma progress_sound_mono: "progress_sound s bodies progress \<Longrightarrow> subseq bodies bodies' \<Longrightarrow> progress_sound s bodies' progress"
  unfolding progress_sound_def using pieces_in_mono by metis

lemma progress_sound_Nil [simp]: "progress_sound s bodies []"
  by (simp add: progress_sound_def)

lemma mergeProgress_nth:
  assumes "i < length (mergeProgress a b reset)"
  shows "mergeProgress a b reset ! i = 0 \<or> (i < length a \<and> mergeProgress a b reset ! i = a ! i) \<or>
    (i < length b \<and> mergeProgress a b reset ! i = b ! i)"
  using assms by (auto simp: mergeProgress_def Let_def nth_enumerate_eq split: if_splits)

lemma mergeProgress_sound:
  assumes "progress_sound s bodies a" "progress_sound s bodies b"
  shows "progress_sound s bodies (mergeProgress a b reset)"
  unfolding progress_sound_def
proof (intro allI impI)
  fix i assume i: "i < length (mergeProgress a b reset)" "0 < mergeProgress a b reset ! i"
  then consider "i < length a" "mergeProgress a b reset ! i = a ! i" | "i < length b" "mergeProgress a b reset ! i = b ! i"
    using mergeProgress_nth by fastforce
  then show "i < length (sn_secrets s) \<and> mergeProgress a b reset ! i < length (ks_raw (sn_secrets s ! i)) \<and>
      (\<exists>ws. pieces_in ws bodies \<and> concat ws = take (mergeProgress a b reset ! i) (ks_raw (sn_secrets s ! i)))"
    using i(2) assms unfolding progress_sound_def by cases metis+
qed

text \<open>
  A credential, whole or in an encoded form, that the bodies seen and the new body carry together but the
  new body alone does not; or one that arrived in pieces.
\<close>

definition really_split :: "Scanner \<Rightarrow> string list \<Rightarrow> string \<Rightarrow> bool" where
  "really_split s seen body \<longleftrightarrow>
     (\<exists>v. needle_in s v \<and> sublist v (concat seen @ body) \<and> \<not> sublist v body) \<or>
     (\<exists>sec\<in>set (sn_secrets s). split_across (ks_raw sec) seen body)"

lemma splitScan_sound:
  assumes conf: "configured s" and cur: "current \<longleftrightarrow> holds s body"
    and progress: "progress_sound s seen progress" and tail: "suffix tail (concat seen)"
    and r: "splitScan s (tail, progress, tk, tkok) current body = Some (fragmented, p, reset)"
  shows "progress_sound s (seen @ [body]) p \<and> (fragmented \<longrightarrow> really_split s seen body)"
proof -
  obtain f where f: "junction_fires s (tail, progress, tk, tkok) current body = Some f"
    using r by (auto simp: splitScan_def split: option.splits)
  have junction: "really_split s seen body" if f
  proof -
    have n: "\<not> holds s body" "holds s (junction_of (MaxKnownNeedleLen s - 1) tail body)"
      using f that cur by (auto simp: junction_fires_def configured_known_in [OF conf] split: if_splits bool.splits)
    then have "holds s (tail @ body)" using holds_append [OF conf] by blast
    moreover have "sublist (tail @ body) (concat seen @ body)"
      using tail by (metis append.assoc sublist_append_leftI suffix_def)
    ultimately have "holds s (concat seen @ body)" using holds_mono by blast
    then show ?thesis using n(1) unfolding really_split_def holds_def by blast
  qed
  show ?thesis
  proof (cases "\<not> f \<and> \<not> current")
    case True
    obtain ns where ns: "prefilter_of s ns" using configured_scanner(1) [OF conf] by (auto simp: sound_scanner_def)
    have "ScanKnownFragment s body progress = Some (fragmented, p, reset)" using r f True by (simp add: splitScan_def)
    then show ?thesis using fragment_sound [OF ns progress, of body] by (auto simp: really_split_def)
  next
    case False
    then have "fragmented = f" "p = []" using r f by (auto simp: splitScan_def split: if_splits)
    then show ?thesis using junction by simp
  qed
qed

definition entry_sound :: "(nat \<Rightarrow> Scanner) \<Rightarrow> string list \<Rightarrow> sessionScanEntry \<Rightarrow> bool" where
  "entry_sound mem bodies ent \<longleftrightarrow>
     suffix (se_window ent) (concat bodies) \<and> (\<forall>g. se_scanner ent = Some g \<longrightarrow> progress_sound (mem g) bodies (se_progress ent))"

definition request_sound :: "(nat \<Rightarrow> Scanner) \<Rightarrow> (string \<Rightarrow> string list) \<Rightarrow> split_request \<Rightarrow> bool" where
  "request_sound mem bodies rq \<longleftrightarrow>
     prefix (rq_seen rq) (bodies (rq_id rq)) \<and>
     (rq_current rq \<longleftrightarrow> holds (mem (rq_scanner rq)) (rq_body rq)) \<and>
     progress_sound (mem (rq_scanner rq)) (rq_seen rq @ [rq_body rq]) (rq_progress rq) \<and>
     (rq_fragmented rq \<longrightarrow> really_split (mem (rq_scanner rq)) (rq_seen rq) (rq_body rq))"

definition history_ok :: "(nat \<Rightarrow> Scanner) \<Rightarrow> sessions \<Rightarrow> bool" where
  "history_ok mem y \<longleftrightarrow>
     (\<forall>el\<in>set (st_ll (sy_store y)). entry_sound mem (sy_bodies y (se_id (st_elems (sy_store y) el))) (st_elems (sy_store y) el)) \<and>
     (\<forall>rq\<in>set (sy_flight y). request_sound mem (sy_bodies y) rq)"

lemma extend_entry_suffix:
  assumes "suffix (se_window ent) h" "body \<noteq> []"
  shows "suffix (se_window (extend_entry (cut_body body) sc progress reset ent)) (h @ body)"
proof (cases "sessionScanWindowBytes < length body")
  case False
  then have "cut_body body = body" by (simp add: cut_body_def)
  moreover have whole: "suffix (se_window ent @ body) (h @ body)" using assms(1) by simp
  moreover have "suffix (last_bytes sessionScanWindowBytes (se_window ent @ body)) (h @ body)"
    unfolding last_bytes_def by (rule suffix_order.order_trans [OF suffix_drop whole])
  ultimately show ?thesis unfolding extend_entry_def by simp
next
  case True
  let ?c = "cut_body body"
  have c: "length ?c = sessionScanWindowBytes" "suffix ?c body"
    using True by (simp_all add: cut_body_def last_bytes_def suffix_drop)
  then have "se_window (extend_entry ?c sc progress reset ent) = ?c"
    by (auto simp: extend_entry_def truncates_def last_bytes_def)
  then show ?thesis using c(2) by (simp add: suffix_appendI)
qed

lemma extend_entry_sound:
  assumes old: "entry_sound mem bodies ent" and ne: "body \<noteq> []" and seen: "prefix seen bodies"
    and new: "progress_sound (mem sc) (seen @ [body]) progress"
  shows "entry_sound mem (bodies @ [body]) (extend_entry (cut_body body) sc progress reset ent)"
proof -
  have "subseq (seen @ [body]) (bodies @ [body])"
    using seen by (metis prefixE append.assoc list_emb_append_mono subseq_append_iff subseq_order.order_refl list_emb_append2 prefix_imp_subseq)
  then have p: "progress_sound (mem sc) (bodies @ [body]) progress" using new progress_sound_mono by blast
  have "subseq bodies (bodies @ [body])" by (simp add: prefix_imp_subseq)
  then have q: "se_scanner ent = Some sc \<Longrightarrow> progress_sound (mem sc) (bodies @ [body]) (se_progress ent)"
    using old progress_sound_mono unfolding entry_sound_def by blast
  have "progress_sound (mem sc) (bodies @ [body]) (se_progress (extend_entry (cut_body body) sc progress reset ent))"
    using p q mergeProgress_sound by (simp add: extend_entry_def)
  moreover have "se_scanner (extend_entry (cut_body body) sc progress reset ent) = Some sc" by (simp add: extend_entry_def)
  moreover have "suffix (se_window (extend_entry (cut_body body) sc progress reset ent)) (concat (bodies @ [body]))"
    using extend_entry_suffix [OF _ ne] old by (simp add: entry_sound_def)
  ultimately show ?thesis unfolding entry_sound_def by simp
qed

text \<open>What \<open>Add\<close> does to the elements: the one of the session is extended, the others are kept.\<close>

lemma Add_locked_elems:
  assumes ok: "store_ok s" and ne: "body \<noteq> []" and a: "Add_locked sid body sc longest progress reset bodyKnown s = (po, s')"
  obtains el ent where
    "st_elems s' = (st_elems s)(el := extend_entry (cut_body body) sc progress reset ent)"
    "se_id ent = sid" "\<forall>e\<in>set (st_ll s'). e \<noteq> el \<longrightarrow> e \<in> set (st_ll s) \<and> se_id (st_elems s e) \<noteq> sid"
    "(el \<in> set (st_ll s) \<and> ent = st_elems s el) \<or>
     (el = st_fresh s \<and> ent = \<lparr> se_id = sid, se_window = [], se_scanner = None, se_progress = [], se_known = False,
        se_knownValid = True, se_seq = 0 \<rparr>)"
    "po = Some \<lparr> pd_id = sid, pd_el = el, pd_seq = se_seq ent + 1, pd_scanner = sc,
       pd_refresh = refresh_of (cut_body body) (longest - 1) sc ent (se_window (extend_entry (cut_body body) sc progress reset ent)),
       pd_bodyKnown = bodyKnown \<rparr>"
    "st_fresh s \<le> st_fresh s'" "el < st_fresh s'"
proof -
  obtain el s1 where t: "touch sid s = (el, s1)" by fastforce
  define ent where "ent = st_elems s1 el"
  define ent' where "ent' = extend_entry (cut_body body) sc progress reset ent"
  define s2 where "s2 = s1\<lparr> st_elems := (st_elems s1)(el := ent') \<rparr>"
  have s': "s' = evict s2" and po: "po = Some \<lparr> pd_id = sid, pd_el = el, pd_seq = se_seq ent', pd_scanner = sc,
       pd_refresh = refresh_of (cut_body body) (longest - 1) sc ent (se_window ent'), pd_bodyKnown = bodyKnown \<rparr>"
    using a Add_locked_eq [OF ne t ent_def ent'_def] by (simp_all add: s2_def)
  note T = touch_ok [OF ok t]
  have id: "se_id ent = sid" using touch_id [OF ok t] by (simp add: ent_def)
  have seq: "se_seq ent' = se_seq ent + 1" "se_id ent' = sid" using id by (simp_all add: ent'_def extend_entry_def)
  have s2: "store_ok s2" unfolding s2_def by (intro update_ok) (use T seq id ent_def in simp_all)
  note E = evict_ok [OF s2]
  have elems: "st_elems s' = (st_elems s)(el := ent')" using E T unfolding s' s2_def by (simp, metis fun_upd_upd)
  have el: "el \<in> set (st_ll s1)" using T by blast
  have others: "\<forall>e\<in>set (st_ll s'). e \<noteq> el \<longrightarrow> e \<in> set (st_ll s) \<and> se_id (st_elems s e) \<noteq> sid"
  proof (intro ballI impI)
    fix e assume e: "e \<in> set (st_ll s')" "e \<noteq> el"
    then have m: "e \<in> set (st_ll s1)" using E unfolding s' s2_def by auto
    then have "e \<in> set (st_ll s)" using e(2) T by auto
    moreover have "se_id (st_elems s1 e) \<noteq> sid"
      using store_ok_inj [of s1 e el] T m el e(2) touch_id [OF ok t] by metis
    moreover have "st_elems s1 e = st_elems s e" using T e(2) by (metis fun_upd_other)
    ultimately show "e \<in> set (st_ll s) \<and> se_id (st_elems s e) \<noteq> sid" by simp
  qed
  have new: "(el \<in> set (st_ll s) \<and> ent = st_elems s el) \<or>
     (el = st_fresh s \<and> ent = \<lparr> se_id = sid, se_window = [], se_scanner = None, se_progress = [], se_known = False,
        se_knownValid = True, se_seq = 0 \<rparr>)"
    using T unfolding ent_def by metis
  have fresh: "st_fresh s \<le> st_fresh s'" "el < st_fresh s'"
    using E T store_okD(3) [OF _ el] unfolding s' s2_def by auto
  show thesis
    by (rule that [OF elems [unfolded ent'_def] id others new _ fresh]) (use po seq in \<open>simp add: ent'_def\<close>)
qed

lemma sstep_history:
  assumes conf: "\<forall>g. configured (mem g)" and step: "sstep mem y y'" and ok: "store_bounded (sy_store y)" and h: "history_ok mem y"
  shows "history_ok mem y'"
proof -
  let ?s = "sy_store y"
  have so: "store_ok ?s" using ok by (simp add: store_bounded_def)
  have entries: "entry_sound mem (sy_bodies y (se_id (st_elems ?s el))) (st_elems ?s el)" if "el \<in> set (st_ll ?s)" for el
    using h that by (simp add: history_ok_def)
  have flights: "request_sound mem (sy_bodies y) rq" if "rq \<in> set (sy_flight y)" for rq
    using h that by (simp add: history_ok_def)
  show ?thesis using step
  proof cases
    case (step_check action sc sid body names snap s verdict)
    note S = session_Snapshot_ok [OF so step_check(4)]
    let ?cur = "knownInCurrent names"
    obtain tail progress tk tkok where snap: "snap = (tail, progress, tk, tkok)" by (metis prod_cases4)
    obtain f p r where v: "verdict = (f, p, r)" by (metis prod_cases3)
    have cur: "?cur \<longleftrightarrow> holds (mem sc) body" using configured_current conf step_check(3) by blast
    have base: "suffix tail (concat (sy_bodies y sid)) \<and> progress_sound (mem sc) (sy_bodies y sid) progress"
    proof (cases "st_items ?s sid")
      case None
      then show ?thesis using step_check(4) by (simp add: session_Snapshot_def snap)
    next
      case (Some el)
      then have el: "el \<in> set (st_ll ?s)" "se_id (st_elems ?s el) = sid" using store_okD(2) [OF so] by simp_all
      have "tail = se_window (st_elems ?s el) \<and> (progress = [] \<or> (se_scanner (st_elems ?s el) = Some sc \<and> progress = se_progress (st_elems ?s el)))"
        using step_check(4) Some by (auto simp: session_Snapshot_def Let_def snap split: if_splits)
      then show ?thesis using entries [OF el(1)] el(2) by (auto simp: entry_sound_def)
    qed
    have "progress_sound (mem sc) (sy_bodies y sid @ [body]) p \<and> (f \<longrightarrow> really_split (mem sc) (sy_bodies y sid) body)"
      using splitScan_sound [OF _ cur _ _ step_check(5) [unfolded snap v]] base conf by blast
    then have "request_sound mem (sy_bodies y) (checked sid sc body ?cur verdict (sy_bodies y sid))"
      using cur by (simp add: request_sound_def checked_def v)
    then show ?thesis
      using S entries flights unfolding step_check(1) by (simp add: history_ok_def same_sessions_def)
  next
    case (step_add rq po s)
    have rq: "request_sound mem (sy_bodies y) rq" using flights step_add(2) by blast
    let ?bodies = "(sy_bodies y)(rq_id rq := sy_bodies y (rq_id rq) @ [rq_body rq])"
    have fl: "request_sound mem ?bodies rq'" if "rq' \<in> set (remove1 rq (sy_flight y))" for rq'
    proof -
      have "request_sound mem (sy_bodies y) rq'" using flights that notin_set_remove1 by fast
      then show ?thesis by (auto simp: request_sound_def prefix_def)
    qed
    have "entry_sound mem (?bodies (se_id (st_elems s el))) (st_elems s el)" if el: "el \<in> set (st_ll s)" for el
    proof (cases "rq_body rq = []")
      case True
      then have s: "s = ?s" using step_add(3) by (simp add: Add_locked_def)
      have still: "entry_sound mem (b @ [[]]) e" if "entry_sound mem b e" for b e
        using that progress_sound_mono [of _ b _ "b @ [[]]"] by (auto simp: entry_sound_def prefix_imp_subseq)
      have "entry_sound mem (sy_bodies y (se_id (st_elems ?s el))) (st_elems ?s el)" using entries el s by blast
      then show ?thesis using still True unfolding s by (cases "se_id (st_elems ?s el) = rq_id rq") simp_all
    next
      case False
      obtain e ent where A: "st_elems s = (st_elems ?s)(e := extend_entry (cut_body (rq_body rq)) (rq_scanner rq) (rq_progress rq) (rq_reset rq) ent)"
          "se_id ent = rq_id rq" "\<forall>e'\<in>set (st_ll s). e' \<noteq> e \<longrightarrow> e' \<in> set (st_ll ?s) \<and> se_id (st_elems ?s e') \<noteq> rq_id rq"
          "(e \<in> set (st_ll ?s) \<and> ent = st_elems ?s e) \<or>
           (e = st_fresh ?s \<and> ent = \<lparr> se_id = rq_id rq, se_window = [], se_scanner = None, se_progress = [], se_known = False,
              se_knownValid = True, se_seq = 0 \<rparr>)"
        by (rule Add_locked_elems [OF so False step_add(3)]) (rule that; assumption)
      show ?thesis
      proof (cases "el = e")
        case True
        have "entry_sound mem (sy_bodies y (rq_id rq)) ent"
          using A(4) entries [of e] A(2) by (auto simp: entry_sound_def)
        from extend_entry_sound [where mem = mem, OF this False] rq
        have "entry_sound mem (sy_bodies y (rq_id rq) @ [rq_body rq])
            (extend_entry (cut_body (rq_body rq)) (rq_scanner rq) (rq_progress rq) (rq_reset rq) ent)"
          unfolding request_sound_def by blast
        moreover have "se_id (st_elems s el) = rq_id rq" using A(1,2) True by (simp add: extend_entry_def)
        ultimately show ?thesis using A(1) True by simp
      next
        case False
        then show ?thesis using A(1,3) el entries [of el] by simp
      qed
    qed
    then show ?thesis using fl unfolding step_add(1) by (simp add: history_ok_def)
  next
    case (step_refresh p known)
    have "entry_sound mem b (st_elems (publish p known ?s) el) = entry_sound mem b (st_elems ?s el)" for b el
      using publish_ok [OF so, of p known] by (simp add: entry_sound_def)
    then show ?thesis
      using publish_ok [OF so, of p known] entries flights unfolding step_refresh(1)
      by (simp add: history_ok_def same_sessions_def)
  qed
qed

lemma sreach_history: "\<forall>g. configured (mem g) \<Longrightarrow> sreach mem n y \<Longrightarrow> history_ok mem y"
proof (rotate_tac, induction rule: sreach.induct)
  case reach_start
  then show ?case by (simp add: history_ok_def no_sessions_def NewSessionStore_def)
next
  case (reach_step n y y')
  then show ?case using sstep_history sreach_bounded by blast
qed

subsection \<open>A cached verdict is that of the window\<close>

definition cached_ok :: "(nat \<Rightarrow> Scanner) \<Rightarrow> sessionScanEntry \<Rightarrow> bool" where
  "cached_ok mem ent \<longleftrightarrow>
     (se_knownValid ent \<longrightarrow> se_window ent = [] \<and> se_scanner ent = None \<or>
        (\<exists>g. se_scanner ent = Some g \<and> se_window ent \<noteq> [] \<and> se_known ent = holds (mem g) (se_window ent)))"

text \<open>
  A refresh in progress brings the verdict of the window, if the entry was not changed meanwhile. The
  versions have 64 bits; they tell changes apart for as long as the store has seen fewer than that many.
\<close>

definition pending_ok :: "(nat \<Rightarrow> Scanner) \<Rightarrow> SessionStore \<Rightarrow> pending \<Rightarrow> bool" where
  "pending_ok mem s p \<longleftrightarrow>
     pd_el p < st_fresh s \<and> unat (pd_seq p) \<le> unat (se_seq (st_elems s (pd_el p))) \<and>
     (se_seq (st_elems s (pd_el p)) = pd_seq p \<longrightarrow>
        se_scanner (st_elems s (pd_el p)) = Some (pd_scanner p) \<and> se_window (st_elems s (pd_el p)) \<noteq> [] \<and>
        refreshed (mem (pd_scanner p)) p = Some (holds (mem (pd_scanner p)) (se_window (st_elems s (pd_el p)))))"

definition verdicts_ok :: "(nat \<Rightarrow> Scanner) \<Rightarrow> nat \<Rightarrow> sessions \<Rightarrow> bool" where
  "verdicts_ok mem n y \<longleftrightarrow>
     (\<forall>el\<in>set (st_ll (sy_store y)). cached_ok mem (st_elems (sy_store y) el)) \<and>
     (\<forall>p\<in>set (sy_pending y). pending_ok mem (sy_store y) p) \<and>
     (\<forall>el. unat (se_seq (st_elems (sy_store y) el)) \<le> n)"

lemma refresh_correct:
  assumes conf: "configured (mem sc)" and ne: "body \<noteq> []" and cur: "current \<longleftrightarrow> holds (mem sc) body"
    and cached: "cached_ok mem ent"
    and p: "pd_refresh p = refresh_of (cut_body body) (MaxKnownNeedleLen (mem sc) - 1) sc ent
        (se_window (extend_entry (cut_body body) sc progress reset ent))"
      "pd_bodyKnown p = current"
  shows "refreshed (mem sc) p = Some (holds (mem sc) (se_window (extend_entry (cut_body body) sc progress reset ent)))"
proof (cases "truncates (se_window ent) (cut_body body) \<or> \<not> (se_knownValid ent \<and> se_scanner ent = Some sc)")
  case True
  then have "refresh_of (cut_body body) (MaxKnownNeedleLen (mem sc) - 1) sc ent w = Rescan w" for w
    by (simp add: refresh_of_def Let_def)
  then show ?thesis using p(1) configured_known_in [OF conf] by (simp add: refreshed_def)
next
  case False
  then have w: "se_window ent \<noteq> []" "se_known ent = holds (mem sc) (se_window ent)" using cached by (auto simp: cached_ok_def)
  have "\<not> sessionScanWindowBytes < length body"
  proof
    assume l: "sessionScanWindowBytes < length body"
    then have "length (cut_body body) = sessionScanWindowBytes" by (simp add: cut_body_def length_last_bytes)
    moreover have "0 < length (se_window ent)" using w(1) by simp
    ultimately show False using False by (simp add: truncates_def)
  qed
  then have cut: "cut_body body = body" by (simp add: cut_body_def)
  have win: "se_window (extend_entry (cut_body body) sc progress reset ent) = se_window ent @ body"
    using False cut by (simp add: extend_entry_def)
  let ?reach = "MaxKnownNeedleLen (mem sc) - 1"
  show ?thesis
  proof (cases "se_known ent")
    case True
    then have "refresh_of (cut_body body) ?reach sc ent w = StillKnown" for w
      using False by (auto simp: refresh_of_def Let_def)
    moreover have "holds (mem sc) (se_window ent @ body)" using True w(2) holds_append [OF conf] by simp
    ultimately show ?thesis using p(1) win by (simp add: refreshed_def)
  next
    case k: False
    have "(if 0 < ?reach \<and> se_window ent \<noteq> [] then last_bytes (min ?reach (length (se_window ent))) (se_window ent) else []) @
        take (min (length body) ?reach) body = junction_of ?reach (se_window ent) body"
      using w(1) by (auto simp: junction_of_def last_bytes_def min.commute min_def)
    then have "refresh_of (cut_body body) ?reach sc ent w' = ScanJunction (junction_of ?reach (se_window ent) body)" for w'
      using False k by (auto simp: refresh_of_def Let_def cut)
    then show ?thesis
      using p win k w(2) cur holds_append [OF conf, of "se_window ent" body] configured_known_in [OF conf]
      by (auto simp: refreshed_def)
  qed
qed

lemma sstep_verdicts:
  assumes conf: "\<forall>g. configured (mem g)" and step: "sstep mem y y'" and b: "store_bounded (sy_store y)"
    and h: "history_ok mem y" and v: "verdicts_ok mem n y" and n: "Suc n < 2 ^ 64"
  shows "verdicts_ok mem (Suc n) y'"
proof -
  let ?s = "sy_store y"
  have so: "store_ok ?s" using b by (simp add: store_bounded_def)
  have seqs: "unat (se_seq (st_elems ?s el)) \<le> n" for el using v by (simp add: verdicts_ok_def)
  have cached: "cached_ok mem (st_elems ?s el)" if "el \<in> set (st_ll ?s)" for el using v that by (simp add: verdicts_ok_def)
  have pend: "pending_ok mem ?s p" if "p \<in> set (sy_pending y)" for p using v that by (simp add: verdicts_ok_def)
  show ?thesis using step
  proof cases
    case (step_check action sc sid body names snap s verdict)
    note S = session_Snapshot_ok [OF so step_check(4)]
    then show ?thesis
      using seqs cached pend unfolding step_check(1)
      by (simp add: verdicts_ok_def same_sessions_def pending_ok_def le_SucI)
  next
    case (step_add rq po s)
    show ?thesis
    proof (cases "rq_body rq = []")
      case True
      then have "s = ?s" "po = None" using step_add(3) by (simp_all add: Add_locked_def)
      then show ?thesis using seqs cached pend unfolding step_add(1) by (simp add: verdicts_ok_def le_SucI)
    next
      case False
      let ?sc = "rq_scanner rq"
      obtain e ent where A0: "st_elems s = (st_elems ?s)(e := extend_entry (cut_body (rq_body rq)) ?sc (rq_progress rq) (rq_reset rq) ent)"
          "se_id ent = rq_id rq" "\<forall>e'\<in>set (st_ll s). e' \<noteq> e \<longrightarrow> e' \<in> set (st_ll ?s) \<and> se_id (st_elems ?s e') \<noteq> rq_id rq"
          "(e \<in> set (st_ll ?s) \<and> ent = st_elems ?s e) \<or>
           (e = st_fresh ?s \<and> ent = \<lparr> se_id = rq_id rq, se_window = [], se_scanner = None, se_progress = [], se_known = False,
              se_knownValid = True, se_seq = 0 \<rparr>)"
          "po = Some \<lparr> pd_id = rq_id rq, pd_el = e, pd_seq = se_seq ent + 1, pd_scanner = ?sc,
             pd_refresh = refresh_of (cut_body (rq_body rq)) (MaxKnownNeedleLen (mem ?sc) - 1) ?sc ent (se_window (extend_entry (cut_body (rq_body rq)) ?sc (rq_progress rq) (rq_reset rq) ent)),
             pd_bodyKnown = rq_current rq \<rparr>"
          "st_fresh ?s \<le> st_fresh s" "e < st_fresh s"
        by (rule Add_locked_elems [OF so False step_add(3)]) (rule that; assumption)
      define ext where "ext ent = extend_entry (cut_body (rq_body rq)) ?sc (rq_progress rq) (rq_reset rq) ent" for ent
      note A = A0 [folded ext_def]
      have cent: "cached_ok mem ent" using A(4) cached by (auto simp: cached_ok_def)
      have sent: "unat (se_seq ent) \<le> n" using A(4) seqs by auto
      then have "unat (se_seq ent) + 1 < 2 ^ 64" using n by linarith
      then have next_seq: "unat (se_seq ent + 1) = Suc (unat (se_seq ent))" by (simp add: unat_word_ariths)
      have ext: "se_seq (ext ent) = se_seq ent + 1" "se_scanner (ext ent) = Some ?sc" "\<not> se_knownValid (ext ent)"
        by (simp_all add: ext_def extend_entry_def)
      have win: "se_window (ext ent) \<noteq> []"
        using extend_entry_window cut_body [OF False] unfolding ext_def by blast
      have rq: "rq_current rq \<longleftrightarrow> holds (mem ?sc) (rq_body rq)"
        using h step_add(2) by (simp add: history_ok_def request_sound_def)
      have new: "pending_ok mem s (the po)"
        unfolding pending_ok_def A(5) option.sel pending.simps
        using A(1,7) ext win refresh_correct [OF _ False rq cent] conf by (simp add: ext_def)
      have old: "pending_ok mem s p" if p: "p \<in> set (sy_pending y)" for p
      proof (cases "pd_el p = e")
        case True
        have "pd_el p < st_fresh ?s" "unat (pd_seq p) \<le> unat (se_seq (st_elems ?s (pd_el p)))"
          using pend [OF p] by (simp_all add: pending_ok_def)
        then have "ent = st_elems ?s e" "unat (pd_seq p) \<le> unat (se_seq ent)" using A(4) True by auto
        then show ?thesis using True A(1,7) ext(1) next_seq unfolding pending_ok_def by auto
      next
        case False
        then show ?thesis using pend [OF p] A(1,6) by (auto simp: pending_ok_def)
      qed
      have "cached_ok mem (st_elems s el)" if "el \<in> set (st_ll s)" for el
        using A(1,3) that cached ext(3) by (cases "el = e") (auto simp: cached_ok_def)
      moreover have "unat (se_seq (st_elems s el)) \<le> Suc n" for el
        using A(1) seqs [of el] sent ext(1) next_seq by (cases "el = e") simp_all
      ultimately show ?thesis
        using new old A(5) unfolding step_add(1) by (auto simp: verdicts_ok_def)
    qed
  next
    case (step_refresh p known)
    let ?s' = "publish p known ?s"
    note P = publish_ok [OF so, of p known]
    have "cached_ok mem (st_elems ?s' el)" if el: "el \<in> set (st_ll ?s)" for el
      using cached [OF el] pend [OF step_refresh(2)] step_refresh(3)
      by (auto simp: publish_def cached_ok_def pending_ok_def)
    moreover have "pending_ok mem ?s' q" if "q \<in> set (remove1 p (sy_pending y))" for q
    proof -
      have "pending_ok mem ?s q" using pend that notin_set_remove1 by fast
      then show ?thesis using P by (simp add: pending_ok_def same_sessions_def)
    qed
    ultimately show ?thesis
      using P seqs unfolding step_refresh(1) by (simp add: verdicts_ok_def same_sessions_def le_SucI)
  qed
qed

lemma sreach_verdicts: "\<forall>g. configured (mem g) \<Longrightarrow> sreach mem n y \<Longrightarrow> n < 2 ^ 64 \<Longrightarrow> verdicts_ok mem n y"
proof (rotate_tac, induction rule: sreach.induct)
  case reach_start
  then show ?case by (simp add: verdicts_ok_def no_sessions_def NewSessionStore_def)
next
  case (reach_step n y y')
  then show ?case using sstep_verdicts sreach_bounded sreach_history by (metis Suc_lessD)
qed

subsection \<open>A session\<close>

definition ex_secret :: string where
  "ex_secret = ''sk-0123456789''"

lemma ex_scanner: "\<exists>s. configured s \<and> HasKnownSecrets s \<and> (\<forall>w. holds s w \<longleftrightarrow> sublist ex_secret w)"
proof -
  let ?k = "\<lparr> kn_Value = ex_secret, kn_Label = ''pool'' \<rparr>"
  have "patterns_ok [] []" "add_custom [] {} [] = Inr []" by (simp_all add: patterns_ok_def table_ok_def)
  then obtain s ns where s: "NewScannerWithOptions [] [] [?k] [] False = Some (Inr s)" "scanner_for False [?k] s ns"
    using NewScanner_sound [of "[]" "[]" "[]" "[?k]" "[]" False] by blast
  have "configured s" using s(1) \<open>patterns_ok [] []\<close> \<open>add_custom [] {} [] = Inr []\<close> unfolding configured_def by fastforce
  moreover have "holds s w \<longleftrightarrow> sublist ex_secret w" for w
    unfolding holds_known known_raw_configured [OF s(2)] known_encoded_configured [OF s(2)]
    by (simp add: ex_secret_def minSecretLen_def)
  moreover have "sn_secrets s \<noteq> []"
  proof
    assume "sn_secrets s = []"
    then have "\<not> known_raw s ex_secret" by (simp add: known_raw_def)
    then show False using known_raw_configured [OF s(2), of ex_secret] by (simp add: ex_secret_def minSecretLen_def)
  qed
  ultimately show ?thesis unfolding HasKnownSecrets_def by blast
qed

text \<open>One request of a session, checked, added and refreshed: its body is the window, the verdict is cached.\<close>

lemma ex_first:
  assumes conf: "configured s" "HasKnownSecrets s" and body: "body \<noteq> []" "length body \<le> sessionScanWindowBytes"
    and clean: "\<not> holds s body"
  shows "\<exists>y p st. sreach (\<lambda>_. s) 3 y \<and> sy_flight y = [] \<and> sy_bodies y ''s'' = [body] \<and>
    session_Snapshot ''s'' 0 (sy_store y) = ((body, p, False, True), st)"
proof -
  obtain names where names: "Scan s body = Some names" using configured_scanner(2) [OF conf(1)] by blast
  have cur: "\<not> knownInCurrent names" using configured_current [OF conf(1) names] clean by simp
  obtain ns where ns: "prefilter_of s ns" using configured_scanner(1) [OF conf(1)] by (auto simp: sound_scanner_def)
  obtain f p r where v: "ScanKnownFragment s body [] = Some (f, p, r)"
    using fragment_sound [OF ns, of "[]" "[]" body] by auto
  have eng: "split_engaged ''log'' True s ''s''" using conf(2) by (simp add: split_engaged_def)
  have split: "splitScan s ([], [], False, False) (knownInCurrent names) body = Some (f, p, r)"
    using cur v by (simp add: splitScan_def junction_fires_def)
  let ?mem = "\<lambda>_ :: nat. s"
  let ?rq = "checked ''s'' 0 body (knownInCurrent names) (f, p, r) []"
  let ?y1 = "no_sessions\<lparr> sy_flight := [?rq] \<rparr>"
  have "session_Snapshot ''s'' 0 (sy_store no_sessions) = (([], [], False, False), sy_store no_sessions)"
    by (simp add: session_Snapshot_def no_sessions_def NewSessionStore_def)
  from step_check [of _ ?mem, OF eng names this split]
  have "sstep ?mem no_sessions ?y1" by (simp add: no_sessions_def)
  then have r1: "sreach ?mem 1 ?y1" using reach_step [OF reach_start, of ?mem ?y1] by simp
  define ent where "ent = \<lparr> se_id = ''s'', se_window = body, se_scanner = Some 0, se_progress = p, se_known = False,
    se_knownValid = False, se_seq = 1 \<rparr>"
  define st where "st = \<lparr> st_ll = [0], st_items = [''s'' \<mapsto> 0], st_elems = (st_elems NewSessionStore)(0 := ent), st_fresh = 1 \<rparr>"
  define pd where "pd = \<lparr> pd_id = ''s'', pd_el = 0, pd_seq = 1, pd_scanner = 0, pd_refresh = Rescan body, pd_bodyKnown = False \<rparr>"
  have cut: "cut_body body = body" using body(2) by (simp add: cut_body_def)
  have t: "touch ''s'' NewSessionStore = (0, \<lparr> st_ll = [0], st_items = [''s'' \<mapsto> 0],
      st_elems = (st_elems NewSessionStore)(0 := \<lparr> se_id = ''s'', se_window = [], se_scanner = None, se_progress = [],
        se_known = False, se_knownValid = True, se_seq = 0 \<rparr>), st_fresh = 1 \<rparr>)"
    by (simp add: touch_def NewSessionStore_def)
  have "Add_locked ''s'' body 0 (MaxKnownNeedleLen s) p r False NewSessionStore = (Some pd, st)"
    unfolding Add_locked_eq [OF body(1) t refl refl] cut
    using body(2) by (simp add: extend_entry_def truncates_def refresh_of_def pd_def st_def ent_def evict.simps
      sessionScanMaxSessions_def)
  then have add: "Add_locked (rq_id ?rq) (rq_body ?rq) (rq_scanner ?rq) (MaxKnownNeedleLen (?mem (rq_scanner ?rq))) (rq_progress ?rq)
       (rq_reset ?rq) (rq_current ?rq) (sy_store ?y1) = (Some pd, st)"
    using cur by (simp add: checked_def no_sessions_def)
  let ?y2 = "\<lparr> sy_store = st, sy_flight = [], sy_pending = [pd], sy_bodies = (\<lambda>_. [])(''s'' := [body]) \<rparr>"
  have "sstep ?mem ?y1 ?y2"
    using step_add [OF _ add] by (simp add: no_sessions_def checked_def)
  then have r2: "sreach ?mem 2 ?y2" using reach_step [OF r1] by (simp add: numeral_2_eq_2)
  have "refreshed (?mem (pd_scanner pd)) pd = Some False"
    using configured_known_in [OF conf(1), of body] clean by (simp add: refreshed_def pd_def)
  then have "sstep ?mem ?y2 (?y2\<lparr> sy_store := publish pd False st, sy_pending := [] \<rparr>)"
    using step_refresh [of pd ?y2 ?mem False] by simp
  then have r3: "sreach ?mem 3 (?y2\<lparr> sy_store := publish pd False st, sy_pending := [] \<rparr>)"
    using reach_step [OF r2] by (simp add: numeral_3_eq_3 numeral_2_eq_2)
  have "session_Snapshot ''s'' 0 (publish pd False st) = ((body, p, False, True), publish pd False st)"
    by (simp add: session_Snapshot_def publish_def pd_def st_def ent_def MoveToFront_def)
  then show ?thesis
    using r3 by (intro exI [of _ "?y2\<lparr> sy_store := publish pd False st, sy_pending := [] \<rparr>"] exI [of _ p]
      exI [of _ "publish pd False st"] conjI) simp_all
qed

subsection \<open>Properties\<close>

text \<open>
  C38. Scanning the junction is as good as scanning everything: for a body that holds no known secret
  itself, with the verdict on the window at hand or not, the first channel of the check fires exactly if
  the window followed by the body holds a known secret that the window alone does not.
\<close>

theorem junction_exact:
  assumes "configured scanner" "\<not> holds scanner body" "tail \<noteq> []" "tailKnownOK \<longrightarrow> tailKnown = holds scanner tail"
  shows "junction_fires scanner (tail, progress, tailKnown, tailKnownOK) False body =
    Some (holds scanner (tail @ body) \<and> \<not> holds scanner tail)"
  by (rule junction_fires_eq [OF assms])

lemma not_in_ex:
  assumes "length w < 13"
  shows "\<not> sublist ex_secret w"
proof
  assume "sublist ex_secret w"
  then have "length ex_secret \<le> length w" by (rule sublist_length_le)
  then show False using assms by (simp add: ex_secret_def)
qed

lemma junction_exact_witness:
  "\<exists>s. junction_fires s (''x=sk-01234'', [], False, False) False ''56789;'' = Some True"
proof -
  obtain s where s: "configured s" "\<And>w. holds s w \<longleftrightarrow> sublist ex_secret w" using ex_scanner by blast
  have "''x=sk-01234'' @ ''56789;'' = ''x='' @ ex_secret @ '';''" by (simp add: ex_secret_def)
  then have "sublist ex_secret (''x=sk-01234'' @ ''56789;'')" unfolding sublist_def by blast
  then show ?thesis
    using junction_exact [OF s(1), of "''56789;''" "''x=sk-01234''" False False "[]"] s(2) not_in_ex by auto
qed

text \<open>
  C37. The store is bounded and consistent: however the requests of any number of sessions interleave,
  there are at most 256 sessions, the list and the index name the same elements, and no window is empty
  or longer than 32 KiB, so that the windows together hold at most 8 MiB.
\<close>

theorem session_store_bounded:
  assumes "sreach mem n y"
  shows "store_Len (sy_store y) \<le> sessionScanMaxSessions \<and> distinct (st_ll (sy_store y)) \<and>
    set (st_ll (sy_store y)) = ran (st_items (sy_store y)) \<and>
    (\<forall>el\<in>set (st_ll (sy_store y)). se_window (st_elems (sy_store y) el) \<noteq> [] \<and>
      length (se_window (st_elems (sy_store y) el)) \<le> sessionScanWindowBytes) \<and>
    (\<Sum>el\<leftarrow>st_ll (sy_store y). length (se_window (st_elems (sy_store y) el))) \<le> 2 ^ 23"
proof -
  let ?s = "sy_store y"
  have b: "store_ok ?s" "windows_ok ?s" "length (st_ll ?s) \<le> 256"
    using sreach_bounded [OF assms] by (simp_all add: store_bounded_def sessionScanMaxSessions_def)
  have w: "length (se_window (st_elems ?s el)) \<le> 2 ^ 15" if "el \<in> set (st_ll ?s)" for el
    using b(2) that by (simp add: windows_ok_def sessionScanWindowBytes_def)
  have "(\<Sum>el\<leftarrow>st_ll ?s. length (se_window (st_elems ?s el))) \<le> (\<Sum>el\<leftarrow>st_ll ?s. 2 ^ 15)"
    by (intro sum_list_mono) (use w in simp)
  also have "\<dots> \<le> 2 ^ 23" using b(3) by (simp add: sum_list_triv)
  finally have sum: "(\<Sum>el\<leftarrow>st_ll ?s. length (se_window (st_elems ?s el))) \<le> 2 ^ 23" .
  have "set (st_ll ?s) = ran (st_items ?s)" using store_okD(2) [OF b(1)] by (auto simp: ran_def)
  then show ?thesis
    using sum b store_okD(1) [OF b(1)] by (simp add: store_Len_def windows_ok_def sessionScanMaxSessions_def)
qed

lemma session_store_bounded_witness:
  "\<exists>mem y. sreach mem 3 y \<and> sy_bodies y ''s'' = [''x=sk-01234''] \<and> store_Len (sy_store y) \<le> 256"
proof -
  obtain s where s: "configured s" "HasKnownSecrets s" "\<And>w. holds s w \<longleftrightarrow> sublist ex_secret w" using ex_scanner by blast
  have "length ''x=sk-01234'' \<le> sessionScanWindowBytes" by (simp add: sessionScanWindowBytes_def)
  then obtain y where y: "sreach (\<lambda>_. s) 3 y" "sy_bodies y ''s'' = [''x=sk-01234'']"
    using ex_first [OF s(1,2), of "''x=sk-01234''"] s(3) not_in_ex by auto
  then show ?thesis using session_store_bounded [OF y(1)] by (auto simp: sessionScanMaxSessions_def)
qed

text \<open>
  C36. A cached verdict is always right: in every interleaving of checks, additions and verdict refreshes
  of any number of requests and scanner generations, with fewer than two to the sixty-four steps, a
  snapshot that comes with a valid verdict carries the one a scan of the whole window would give.
\<close>

theorem session_verdict_current:
  assumes "\<forall>g. configured (mem g)" "sreach mem n y" "n < 2 ^ 64"
    "session_Snapshot sid sc (sy_store y) = ((tail, progress, known, True), s')"
  shows "known \<longleftrightarrow> ScanKnown (mem sc) tail \<noteq> Some []"
proof -
  let ?s = "sy_store y"
  have so: "store_ok ?s" using sreach_bounded [OF assms(2)] by (simp add: store_bounded_def)
  obtain el where el: "st_items ?s sid = Some el" using assms(4) by (cases "st_items ?s sid") (auto simp: session_Snapshot_def)
  then have e: "se_scanner (st_elems ?s el) = Some sc" "tail = se_window (st_elems ?s el)" "se_known (st_elems ?s el) = known"
      "se_knownValid (st_elems ?s el)"
    using assms(4) by (auto simp: session_Snapshot_def Let_def split: if_splits)
  have "el \<in> set (st_ll ?s)" using el store_okD(2) [OF so] by simp
  then have "cached_ok mem (st_elems ?s el)" using sreach_verdicts [OF assms(1-3)] by (simp add: verdicts_ok_def)
  then have "known = holds (mem sc) tail" using e by (auto simp: cached_ok_def)
  then show ?thesis using configured_known_in [of "mem sc" tail] assms(1) by (auto simp: known_in_def)
qed

lemma session_verdict_current_witness:
  "\<exists>mem y p s'. sreach mem 3 y \<and> session_Snapshot ''s'' 0 (sy_store y) = ((''x=sk-01234'', p, False, True), s') \<and>
    (False \<longleftrightarrow> ScanKnown (mem 0) ''x=sk-01234'' \<noteq> Some [])"
proof -
  obtain s where s: "configured s" "HasKnownSecrets s" "\<And>w. holds s w \<longleftrightarrow> sublist ex_secret w" using ex_scanner by blast
  have "length ''x=sk-01234'' \<le> sessionScanWindowBytes" by (simp add: sessionScanWindowBytes_def)
  then obtain y p s' where y: "sreach (\<lambda>_. s) 3 y" "session_Snapshot ''s'' 0 (sy_store y) = ((''x=sk-01234'', p, False, True), s')"
    using ex_first [OF s(1,2), of "''x=sk-01234''"] s(3) not_in_ex by auto
  then show ?thesis using session_verdict_current [of "\<lambda>_. s", OF _ y(1) _ y(2)] s(1) by fastforce
qed

text \<open>
  C13. A reported split is one: in every interleaving, a request that is reported as completing a split
  credential follows bodies of its session which, together with its own, carry a configured credential,
  whole or encoded, that its own body does not carry, or it completes in order the pieces of one, each of
  at least eight bytes, that earlier bodies of the session carried.
\<close>

theorem split_detection_sound:
  assumes "\<forall>g. configured (mem g)" "sreach mem n y" "rq \<in> set (sy_flight y)" "rq_fragmented rq"
  shows "prefix (rq_seen rq) (sy_bodies y (rq_id rq)) \<and> really_split (mem (rq_scanner rq)) (rq_seen rq) (rq_body rq)"
  using sreach_history [OF assms(1,2)] assms(3,4) by (simp add: history_ok_def request_sound_def)

lemma split_detection_sound_witness:
  "\<exists>mem y rq. sreach mem 4 y \<and> rq \<in> set (sy_flight y) \<and> rq_fragmented rq \<and> rq_body rq = ''56789;'' \<and>
    really_split (mem (rq_scanner rq)) (rq_seen rq) ''56789;''"
proof -
  obtain s where s: "configured s" "HasKnownSecrets s" "\<And>w. holds s w \<longleftrightarrow> sublist ex_secret w" using ex_scanner by blast
  let ?mem = "\<lambda>_ :: nat. s"
  have "length ''x=sk-01234'' \<le> sessionScanWindowBytes" by (simp add: sessionScanWindowBytes_def)
  then obtain y p s' where y: "sreach ?mem 3 y" "session_Snapshot ''s'' 0 (sy_store y) = ((''x=sk-01234'', p, False, True), s')"
    using ex_first [OF s(1,2), of "''x=sk-01234''"] s(3) not_in_ex by auto
  obtain names where names: "Scan s ''56789;'' = Some names" using configured_scanner(2) [OF s(1)] by blast
  have clean: "\<not> holds s ''56789;''" using s(3) not_in_ex by simp
  have cur: "\<not> knownInCurrent names" using configured_current [OF s(1) names] clean by simp
  have eng: "split_engaged ''log'' True s ''s''" using s(2) by (simp add: split_engaged_def)
  have "''x=sk-01234'' @ ''56789;'' = ''x='' @ ex_secret @ '';''" by (simp add: ex_secret_def)
  then have "sublist ex_secret (''x=sk-01234'' @ ''56789;'')" unfolding sublist_def by blast
  then have "junction_fires s (''x=sk-01234'', p, False, True) False ''56789;'' = Some True"
    using junction_fires_eq [OF s(1) clean, of "''x=sk-01234''" True False p] s(3) not_in_ex by auto
  then have split: "splitScan s (''x=sk-01234'', p, False, True) (knownInCurrent names) ''56789;'' = Some (True, [], [])"
    using cur by (simp add: splitScan_def)
  let ?rq = "checked ''s'' 0 ''56789;'' (knownInCurrent names) (True, [], []) (sy_bodies y ''s'')"
  let ?y = "y\<lparr> sy_store := s', sy_flight := ?rq # sy_flight y \<rparr>"
  have "sstep ?mem y ?y" by (rule step_check [of _ ?mem, OF eng names y(2) split])
  then have r: "sreach ?mem 4 ?y" using reach_step [OF y(1)] by (simp add: eval_nat_numeral)
  have "?rq \<in> set (sy_flight ?y)" "rq_fragmented ?rq" by (simp_all add: checked_def)
  then show ?thesis
    using split_detection_sound [of ?mem, OF _ r, of ?rq] s(1) r by (intro exI [of _ ?mem] exI [of _ ?y] exI [of _ ?rq]) (simp add: checked_def)
qed

text \<open>
  A body that carries a whole credential leaves the progress of the session as it was: the fragment scan,
  which would reset it, does not run on it.
\<close>

lemma whole_value_keeps_progress:
  "splitScan s snap True body = Some (False, [], []) \<and> mergeProgress progress [] [] = progress"
proof -
  have "mergeProgress progress [] [] = progress"
    by (intro nth_equalityI) (auto simp: mergeProgress_def Let_def nth_enumerate_eq)
  then show ?thesis by (cases snap) (simp add: splitScan_def junction_fires_def)
qed

text \<open>The first body of a session keeps its progress even if the bytes it rests on are cut off.\<close>

lemma oversized_first_body_keeps_progress:
  assumes "se_window ent = []" "se_scanner ent = None" "sessionScanWindowBytes < length body"
  shows "se_progress (extend_entry (cut_body body) sc progress reset ent) = progress"
  using assms by (simp add: extend_entry_def truncates_def cut_body_def length_last_bytes)

end
