(* ===== verification/Guard_Context.thy ===== *)
theory Guard_Context
  imports Guard_Redact_Props
begin

text \<open>
  Sensitive paths by their position in the JSON structure of a body (\<open>internal/guard/pathctx.go\<close>): a
  one-pass walk that collects the spans of tool-invocation values. A body is read at positions, as in the
  code. The recursion of the walk is on the depth that is left of \<open>maxCtxDepth\<close>, its loops may in
  principle run on (\<open>None\<close>), and an error is \<open>Bad\<close>.
\<close>

subsection \<open>Tokens\<close>

datatype 'a walked = Bad | Good 'a

definition json_ws :: "char \<Rightarrow> bool" where
  "json_ws c \<longleftrightarrow> c = CHR '' '' \<or> c = CHR 0x09 \<or> c = CHR 0x0A \<or> c = CHR 0x0D"

definition skipWS :: "string \<Rightarrow> nat \<Rightarrow> nat" where
  "skipWS body pos = pos + length (takeWhile json_ws (drop pos body))"

definition digit :: "char \<Rightarrow> bool" where
  "digit c \<longleftrightarrow> CHR ''0'' \<le> c \<and> c \<le> CHR ''9''"

definition skipDigits :: "string \<Rightarrow> nat \<Rightarrow> nat" where
  "skipDigits body pos = pos + length (takeWhile digit (drop pos body))"

definition peek :: "string \<Rightarrow> nat \<Rightarrow> char option" where
  "peek body pos = (if pos < length body then Some (body ! pos) else None)"

definition digit_at :: "string \<Rightarrow> nat \<Rightarrow> bool" where
  "digit_at body pos \<longleftrightarrow> (case peek body pos of None \<Rightarrow> False | Some c \<Rightarrow> digit c)"

definition scanLiteral :: "string \<Rightarrow> nat \<Rightarrow> string \<Rightarrow> nat walked" where
  "scanLiteral body pos lit = (if prefix lit (drop pos body) then Good (pos + length lit) else Bad)"

text \<open>
  The parts of a number as the grammar delimits them. \<open>strconv.ParseFloat\<close> only adds that the value is
  in the range of a \<open>float64\<close>, that is, that it rounds to a finite one. It stops reading an exponent
  that is already past 10000.
\<close>

definition decimal_value :: "string \<Rightarrow> nat" where
  "decimal_value ds = foldl (\<lambda>v c. 10 * v + (of_char c - 48)) 0 ds"

definition exponent_value :: "string \<Rightarrow> nat" where
  "exponent_value ds = foldl (\<lambda>e c. if e < 10000 then 10 * e + (of_char c - 48) else e) 0 ds"

definition in_float_range :: "string \<Rightarrow> string \<Rightarrow> bool \<Rightarrow> string \<Rightarrow> bool" where
  "in_float_range ip fp eneg ep \<longleftrightarrow>
     (let m = decimal_value (ip @ fp); bound = 2 ^ 1024 - 2 ^ 970; e = exponent_value ep; k = length fp
      in if eneg then m < bound * 10 ^ (e + k) else m * 10 ^ e < bound * 10 ^ k)"

definition slice_of :: "string \<Rightarrow> nat \<Rightarrow> nat \<Rightarrow> string" where
  "slice_of body i j = take (j - i) (drop i body)"

definition int_part :: "string \<Rightarrow> nat \<Rightarrow> nat option" where
  "int_part body i =
     (if \<not> digit_at body i then None else Some (if peek body i = Some (CHR ''0'') then i + 1 else skipDigits body i))"

definition digits_from :: "string \<Rightarrow> nat \<Rightarrow> nat option" where
  "digits_from body i = (if digit_at body i then Some (skipDigits body i) else None)"

definition frac_part :: "string \<Rightarrow> nat \<Rightarrow> nat option" where
  "frac_part body i = (if peek body i = Some (CHR ''.'') then digits_from body (i + 1) else Some i)"

definition exp_digits :: "string \<Rightarrow> nat \<Rightarrow> nat" where
  "exp_digits body i =
     (if peek body (i + 1) = Some (CHR ''+'') \<or> peek body (i + 1) = Some (CHR ''-'') then i + 2 else i + 1)"

definition exp_part :: "string \<Rightarrow> nat \<Rightarrow> nat option" where
  "exp_part body i =
     (if peek body i = Some (CHR ''e'') \<or> peek body i = Some (CHR ''E'') then digits_from body (exp_digits body i) else Some i)"

definition scanNumber :: "string \<Rightarrow> nat \<Rightarrow> nat walked" where
  "scanNumber body pos =
     (let i0 = (if peek body pos = Some (CHR ''-'') then pos + 1 else pos)
      in case int_part body i0 of
           None \<Rightarrow> Bad
         | Some i1 \<Rightarrow>
             (case frac_part body i1 of
                None \<Rightarrow> Bad
              | Some i2 \<Rightarrow>
                  (case exp_part body i2 of
                     None \<Rightarrow> Bad
                   | Some i3 \<Rightarrow>
                       if in_float_range (slice_of body i0 i1) (slice_of body (i1 + 1) i2)
                            (peek body (i2 + 1) = Some (CHR ''-'')) (slice_of body (exp_digits body i2) i3)
                       then Good i3 else Bad)))"

subsection \<open>Strings\<close>

definition hexval :: "char \<Rightarrow> nat option" where
  "hexval c =
     (let n = (of_char c :: nat)
      in if 48 \<le> n \<and> n \<le> 57 then Some (n - 48)
         else if 97 \<le> n \<and> n \<le> 102 then Some (n - 97 + 10)
         else if 65 \<le> n \<and> n \<le> 70 then Some (n - 65 + 10)
         else None)"

definition scanHex4 :: "string \<Rightarrow> nat \<Rightarrow> nat option" where
  "scanHex4 body i =
     (if length body < i + 4 then None
      else foldl (\<lambda>r c. case (r, hexval c) of (Some r, Some v) \<Rightarrow> Some (16 * r + v) | _ \<Rightarrow> None) (Some 0) (slice_of body i (i + 4)))"

text \<open>The rune and the length of an escape sequence; 0xFFFD is \<open>utf8.RuneError\<close>.\<close>

definition scanEscape :: "string \<Rightarrow> nat \<Rightarrow> (nat \<times> nat) walked" where
  "scanEscape body i =
     (case peek body (i + 1) of
        None \<Rightarrow> Bad
      | Some c \<Rightarrow>
          if c = CHR 0x22 \<or> c = CHR 0x5C \<or> c = CHR ''/'' then Good (of_char c, 2)
          else if c = CHR ''b'' then Good (8, 2)
          else if c = CHR ''f'' then Good (12, 2)
          else if c = CHR ''n'' then Good (10, 2)
          else if c = CHR ''r'' then Good (13, 2)
          else if c = CHR ''t'' then Good (9, 2)
          else if c \<noteq> CHR ''u'' then Bad
          else
            (case scanHex4 body (i + 2) of
               None \<Rightarrow> Bad
             | Some r1 \<Rightarrow>
                 if \<not> (0xD800 \<le> r1 \<and> r1 \<le> 0xDFFF) then Good (r1, 6)
                 else if 0xDC00 \<le> r1 \<or> length body < i + 8 \<or> body ! (i + 6) \<noteq> CHR 0x5C \<or> body ! (i + 7) \<noteq> CHR ''u''
                 then Good (0xFFFD, 6)
                 else
                   (case scanHex4 body (i + 8) of
                      None \<Rightarrow> Bad
                    | Some r2 \<Rightarrow>
                        if r2 < 0xDC00 \<or> 0xDFFF < r2 then Good (0xFFFD, 6)
                        else Good ((r1 - 0xD800) * 1024 + (r2 - 0xDC00) + 0x10000, 12))))"

definition AppendRune :: "string \<Rightarrow> nat \<Rightarrow> string" where
  "AppendRune out r =
     out @ (if r < 0x80 then [char_of r]
            else if r < 0x800 then [char_of (0xC0 + r div 64), char_of (0x80 + r mod 64)]
            else if r < 0x10000 then [char_of (0xE0 + r div 4096), char_of (0x80 + r div 64 mod 64), char_of (0x80 + r mod 64)]
            else [char_of (0xF0 + r div 262144), char_of (0x80 + r div 4096 mod 64), char_of (0x80 + r div 64 mod 64),
                  char_of (0x80 + r mod 64)])"

definition IndexByte :: "string \<Rightarrow> char \<Rightarrow> nat option" where
  "IndexByte s c = (let i = length (takeWhile (\<lambda>x. x \<noteq> c) s) in if i < length s then Some i else None)"

text \<open>
  The loop of \<open>scanString\<close> at position \<open>i\<close>, with the bytes decoded so far once an escape was seen.
  The decoded text is only kept for a caller that collects it.
\<close>

partial_function (option) string_loop :: "string \<Rightarrow> nat \<Rightarrow> bool \<Rightarrow> nat \<Rightarrow> string option \<Rightarrow> (nat \<times> string option) walked option" where
  "string_loop body content collect i out =
     (case IndexByte (drop i body) (CHR 0x22) of
        None \<Rightarrow> Some Bad
      | Some q \<Rightarrow>
          (let stop = i + q;
               esc = IndexByte (slice_of body i stop) (CHR 0x5C);
               run = (case esc of None \<Rightarrow> stop | Some e \<Rightarrow> i + e);
               out = map_option (\<lambda>o'. o' @ slice_of body i run) out
           in if list_ex (\<lambda>c. (of_char c :: nat) < 0x20) (slice_of body i run) then Some Bad
              else if esc = None
              then Some (Good (stop + 1,
                if \<not> collect then None else Some (case out of None \<Rightarrow> slice_of body content stop | Some o' \<Rightarrow> o')))
              else
                (case scanEscape body run of
                   Bad \<Rightarrow> Some Bad
                 | Good (r, sz) \<Rightarrow>
                     string_loop body content collect (run + sz)
                       (if collect
                        then Some (AppendRune (case out of None \<Rightarrow> slice_of body content run | Some o' \<Rightarrow> o') r)
                        else out))))"

definition scanString :: "string \<Rightarrow> nat \<Rightarrow> bool \<Rightarrow> (nat \<times> string option) walked option" where
  "scanString body pos collect = string_loop body (pos + 1) collect (pos + 1) None"

subsection \<open>Objects\<close>

datatype ctxClass = ctxNone | ctxArguments | ctxInput | ctxContent | ctxOutput

definition ctxKeyClass :: "string \<Rightarrow> ctxClass" where
  "ctxKeyClass key =
     (if key = ''arguments'' then ctxArguments
      else if key = ''input'' then ctxInput
      else if key = ''content'' then ctxContent
      else if key = ''output'' then ctxOutput
      else ctxNone)"

record ctxCandidate =
  cc_cls :: ctxClass
  cc_start :: nat
  cc_end :: nat

text \<open>The markers of an object: \<open>Some\<close> once seen; a marker that is not a string is the nil slice.\<close>

record ctxObjFrame =
  cf_typ :: "string option"
  cf_role :: "string option"
  cf_pending :: "ctxCandidate list"

text \<open>Decided, and if so whether strong.\<close>

definition decide :: "ctxObjFrame \<Rightarrow> ctxClass \<Rightarrow> bool option" where
  "decide f cls =
     (case cls of
        ctxArguments \<Rightarrow> Some True
      | ctxInput \<Rightarrow> map_option (\<lambda>t. t = ''tool_use'') (cf_typ f)
      | ctxContent \<Rightarrow> if cf_typ f \<noteq> None \<or> cf_role f \<noteq> None then Some False else None
      | ctxOutput \<Rightarrow> if cf_typ f \<noteq> None then Some False else None
      | ctxNone \<Rightarrow> None)"

type_synonym cspans = "(nat \<times> nat) list"

definition resolvePending :: "ctxObjFrame \<Rightarrow> cspans \<Rightarrow> ctxObjFrame \<times> cspans" where
  "resolvePending f spans =
     (f\<lparr> cf_pending := filter (\<lambda>c. decide f (cc_cls c) = None) (cf_pending f) \<rparr>,
      spans @ map (\<lambda>c. (cc_start c, cc_end c)) (filter (\<lambda>c. decide f (cc_cls c) = Some True) (cf_pending f)))"

text \<open>One pair of an object, after its value was read.\<close>

definition note_pair :: "string \<Rightarrow> string option \<Rightarrow> nat \<Rightarrow> nat \<Rightarrow> ctxObjFrame \<Rightarrow> cspans \<Rightarrow> ctxObjFrame \<times> cspans" where
  "note_pair key strVal start stop f spans =
     (let marker = (case strVal of None \<Rightarrow> [] | Some v \<Rightarrow> v);
          (f, spans) =
            (if key = ''type'' then resolvePending (f\<lparr> cf_typ := Some marker \<rparr>) spans
             else if key = ''role'' then resolvePending (f\<lparr> cf_role := Some marker \<rparr>) spans
             else (f, spans));
          cls = ctxKeyClass key
      in if cls = ctxNone then (f, spans)
         else (case decide f cls of
                 Some strong \<Rightarrow> (f, if strong then spans @ [(start, stop)] else spans)
               | None \<Rightarrow> (f\<lparr> cf_pending := cf_pending f @ [\<lparr> cc_cls = cls, cc_start = start, cc_end = stop \<rparr>] \<rparr>, spans)))"

text \<open>A walk of a value: the position after it, the text of a collected string, the spans.\<close>

type_synonym walk = "bool \<Rightarrow> nat \<Rightarrow> cspans \<Rightarrow> (nat \<times> string option \<times> cspans) walked option"

partial_function (option) object_loop :: "walk \<Rightarrow> string \<Rightarrow> nat \<Rightarrow> ctxObjFrame \<Rightarrow> cspans \<Rightarrow> (nat \<times> cspans) walked option" where
  "object_loop val body pos f spans =
     (let pos = skipWS body pos
      in if peek body pos \<noteq> Some (CHR 0x22) then Some Bad
         else
           Option.bind (scanString body pos True) (\<lambda>s.
             case s of
               Bad \<Rightarrow> Some Bad
             | Good (start, k) \<Rightarrow>
                 (let key = (case k of None \<Rightarrow> [] | Some k \<Rightarrow> k); pos = skipWS body start
                  in if peek body pos \<noteq> Some (CHR '':'') then Some Bad
                     else
                       Option.bind (val (key = ''type'' \<or> key = ''role'') (pos + 1) spans) (\<lambda>v.
                         case v of
                           Bad \<Rightarrow> Some Bad
                         | Good (stop, strVal, spans) \<Rightarrow>
                             (let (f, spans) = note_pair key strVal start stop f spans; pos = skipWS body stop
                              in if peek body pos = Some (CHR '','') then object_loop val body (pos + 1) f spans
                                 else if peek body pos = Some (CHR ''}'') then Some (Good (pos + 1, spans))
                                 else Some Bad)))))"

definition walk_object :: "walk \<Rightarrow> string \<Rightarrow> nat \<Rightarrow> cspans \<Rightarrow> (nat \<times> cspans) walked option" where
  "walk_object val body pos spans =
     (let pos = skipWS body (pos + 1)
      in if peek body pos = Some (CHR ''}'') then Some (Good (pos + 1, spans))
         else object_loop val body pos \<lparr> cf_typ = None, cf_role = None, cf_pending = [] \<rparr> spans)"

partial_function (option) array_loop :: "walk \<Rightarrow> string \<Rightarrow> nat \<Rightarrow> cspans \<Rightarrow> (nat \<times> cspans) walked option" where
  "array_loop val body pos spans =
     Option.bind (val False pos spans) (\<lambda>v.
       case v of
         Bad \<Rightarrow> Some Bad
       | Good (pos, _, spans) \<Rightarrow>
           (let pos = skipWS body pos
            in if peek body pos = Some (CHR '','') then array_loop val body (pos + 1) spans
               else if peek body pos = Some (CHR '']'') then Some (Good (pos + 1, spans))
               else Some Bad))"

definition walk_array :: "walk \<Rightarrow> string \<Rightarrow> nat \<Rightarrow> cspans \<Rightarrow> (nat \<times> cspans) walked option" where
  "walk_array val body pos spans =
     (let pos = skipWS body (pos + 1)
      in if peek body pos = Some (CHR '']'') then Some (Good (pos + 1, spans))
         else array_loop val body pos spans)"

subsection \<open>Values\<close>

definition maxCtxDepth :: nat where
  "maxCtxDepth = 10000"

definition with_spans :: "nat walked \<Rightarrow> cspans \<Rightarrow> (nat \<times> string option \<times> cspans) walked" where
  "with_spans r spans = (case r of Bad \<Rightarrow> Bad | Good pos \<Rightarrow> Good (pos, None, spans))"

definition no_string :: "(nat \<times> cspans) walked option \<Rightarrow> (nat \<times> string option \<times> cspans) walked option" where
  "no_string r = map_option (\<lambda>w. case w of Bad \<Rightarrow> Bad | Good (pos, spans) \<Rightarrow> Good (pos, None, spans)) r"

text \<open>What the first byte of a value selects; \<open>nested\<close> walks the values inside, if the depth allows any.\<close>

definition walk_value :: "walk option \<Rightarrow> string \<Rightarrow> walk" where
  "walk_value nested body collect pos spans =
     (let pos = skipWS body pos
      in case peek body pos of
           None \<Rightarrow> Some Bad
         | Some c \<Rightarrow>
             if c = CHR ''{'' then (case nested of None \<Rightarrow> Some Bad | Some val \<Rightarrow> no_string (walk_object val body pos spans))
             else if c = CHR ''['' then (case nested of None \<Rightarrow> Some Bad | Some val \<Rightarrow> no_string (walk_array val body pos spans))
             else if c = CHR 0x22 then map_option (\<lambda>w. case w of Bad \<Rightarrow> Bad | Good (pos, s) \<Rightarrow> Good (pos, s, spans)) (scanString body pos collect)
             else if c = CHR ''t'' then Some (with_spans (scanLiteral body pos ''true'') spans)
             else if c = CHR ''f'' then Some (with_spans (scanLiteral body pos ''false'') spans)
             else if c = CHR ''n'' then Some (with_spans (scanLiteral body pos ''null'') spans)
             else if c = CHR ''-'' \<or> digit c then Some (with_spans (scanNumber body pos) spans)
             else Some Bad)"

primrec ctx_value :: "nat \<Rightarrow> string \<Rightarrow> walk" where
  "ctx_value 0 body = walk_value None body"
| "ctx_value (Suc left) body = walk_value (Some (ctx_value left body)) body"

subsection \<open>Strong spans and the classes of a category\<close>

fun merge_spans :: "nat \<times> nat \<Rightarrow> cspans \<Rightarrow> cspans" where
  "merge_spans cur [] = [cur]"
| "merge_spans cur (sp # spans) =
     (if fst sp \<le> snd cur then merge_spans (fst cur, if snd cur < snd sp then snd sp else snd cur) spans
      else cur # merge_spans sp spans)"

definition strongValueSpans :: "string \<Rightarrow> cspans option" where
  "strongValueSpans body =
     map_option
       (\<lambda>w. case w of
              Bad \<Rightarrow> []
            | Good (_, _, spans) \<Rightarrow>
                (case sort_key fst spans of [] \<Rightarrow> [] | sp # rest \<Rightarrow> merge_spans sp rest))
       (ctx_value maxCtxDepth body False 0 [])"

definition intersectsSpan :: "cspans \<Rightarrow> nat \<Rightarrow> nat \<Rightarrow> bool" where
  "intersectsSpan spans start stop \<longleftrightarrow>
     (let i = sort_Search (length spans) (\<lambda>i. start < snd (spans ! i)) in i < length spans \<and> fst (spans ! i) < stop)"

definition add_cat :: "string \<Rightarrow> string list \<Rightarrow> string list" where
  "add_cat cat out = (if out = [] \<or> last out \<noteq> cat then out @ [cat] else out)"

definition classify :: "cspans \<Rightarrow> string \<Rightarrow> (nat \<times> nat) list \<Rightarrow> string list \<times> string list \<Rightarrow> string list \<times> string list" where
  "classify spans cat occurrences sw =
     (let (strong, weak) = sw
      in if list_ex (\<lambda>(start, stop). intersectsSpan spans start stop) occurrences then (add_cat cat strong, weak)
         else if occurrences = [] then (strong, weak)
         else (strong, add_cat cat weak))"

definition extra_occurrences :: "string list \<Rightarrow> string \<Rightarrow> (nat \<times> nat) list" where
  "extra_occurrences extraPaths body = concat (map (\<lambda>lit. forEachOccurrence body lit 0) extraPaths)"

definition classifyPathHits :: "string list \<Rightarrow> string \<Rightarrow> (string list \<times> string list) option" where
  "classifyPathHits extraPaths body =
     map_option
       (\<lambda>spans. classify spans ''custom_path'' (extra_occurrences extraPaths body)
          (fold (\<lambda>p. classify spans (pa_category p) (eachOccurrence p body)) builtinPaths ([], [])))
       (strongValueSpans body)"

definition ScanPathsContext :: "Scanner \<Rightarrow> string \<Rightarrow> (string list \<times> string list) option" where
  "ScanPathsContext s body =
     (if \<not> path_gate (sn_extraPaths s) body then Some ([], []) else classifyPathHits (sn_extraPaths s) body)"

definition ScanSecretsAndPaths :: "Scanner \<Rightarrow> string \<Rightarrow> (string list \<times> string list \<times> string list) option" where
  "ScanSecretsAndPaths s body =
     (case findAllGated s body of
        None \<Rightarrow> None
      | Some r \<Rightarrow>
          (let secrets = matchNames s (sr_found r)
           in if \<not> sr_pathGate r then Some (secrets, [], [])
              else map_option (\<lambda>(strong, weak). (secrets, strong, weak)) (classifyPathHits (sn_extraPaths s) body)))"

end
