(* ===== verification/Guard_Context_Props.thy ===== *)
theory Guard_Context_Props
  imports Guard_Context
begin

text \<open>
  The position walk: it ends on every body, its spans lie in the body, the merged spans are disjoint and
  the binary search over them is exact, and the classes are a partition of what \<open>ScanPaths\<close> reports.
\<close>

subsection \<open>Tokens\<close>

lemma skipWS_ge: "pos \<le> skipWS body pos"
  by (simp add: skipWS_def)

lemma peek_Some: "peek body pos = Some c \<longleftrightarrow> pos < length body \<and> body ! pos = c"
  by (auto simp: peek_def)

lemma digit_at_lt: "digit_at body pos \<Longrightarrow> pos < length body"
  by (auto simp: digit_at_def peek_def split: if_splits)

lemma skipDigits_ge: "pos \<le> skipDigits body pos"
  by (simp add: skipDigits_def)

lemma skipDigits_le: "pos \<le> length body \<Longrightarrow> skipDigits body pos \<le> length body"
  using length_takeWhile_le [of digit "drop pos body"] by (simp add: skipDigits_def)

lemma skipDigits_gt: "digit_at body pos \<Longrightarrow> pos < skipDigits body pos"
  by (auto simp: digit_at_def peek_def skipDigits_def takeWhile_eq_Nil_iff Cons_nth_drop_Suc [symmetric] split: if_splits)

lemma scanLiteral_range: "lit \<noteq> [] \<Longrightarrow> scanLiteral body pos lit = Good p \<Longrightarrow> pos < p \<and> p \<le> length body"
  using prefix_length_le [of lit "drop pos body"] by (cases "pos \<le> length body") (auto simp: scanLiteral_def split: if_splits)

lemma digits_from_range: "digits_from body i = Some p \<Longrightarrow> i < p \<and> p \<le> length body"
  using skipDigits_gt [of body i] skipDigits_le [of i body] digit_at_lt [of body i]
  by (auto simp: digits_from_def split: if_splits)

lemma int_part_range: "int_part body i = Some p \<Longrightarrow> i < p \<and> p \<le> length body"
  using skipDigits_gt [of body i] skipDigits_le [of i body] digit_at_lt [of body i]
  by (auto simp: int_part_def split: if_splits)

lemma frac_part_range: "frac_part body i = Some p \<Longrightarrow> i \<le> length body \<Longrightarrow> i \<le> p \<and> p \<le> length body"
  using digits_from_range [of body "i + 1" p] by (auto simp: frac_part_def split: if_splits)

lemma exp_part_range: "exp_part body i = Some p \<Longrightarrow> i \<le> length body \<Longrightarrow> i \<le> p \<and> p \<le> length body"
  using digits_from_range [of body "exp_digits body i" p] by (auto simp: exp_part_def exp_digits_def split: if_splits)

lemma scanNumber_range: "scanNumber body pos = Good p \<Longrightarrow> pos < p \<and> p \<le> length body"
  unfolding scanNumber_def Let_def
  by (auto split: option.splits if_splits dest!: int_part_range frac_part_range exp_part_range)

lemma length_takeWhile_less: "length (takeWhile P s) < length s \<longleftrightarrow> (\<exists>x\<in>set s. \<not> P x)"
  by (induction s) auto

lemma IndexByte_None: "IndexByte s c = None \<longleftrightarrow> c \<notin> set s"
  by (simp add: IndexByte_def length_takeWhile_less)

lemma IndexByte_Some: "IndexByte s c = Some i \<longleftrightarrow> i < length s \<and> s ! i = c \<and> c \<notin> set (take i s)"
proof
  assume "IndexByte s c = Some i"
  then have i: "i = length (takeWhile (\<lambda>x. x \<noteq> c) s)" "i < length s" by (auto simp: IndexByte_def Let_def split: if_splits)
  then show "i < length s \<and> s ! i = c \<and> c \<notin> set (take i s)"
    using nth_length_takeWhile [of "\<lambda>x. x \<noteq> c" s] takeWhile_eq_take [of "\<lambda>x. x \<noteq> c" s] set_takeWhileD by fastforce
next
  assume i: "i < length s \<and> s ! i = c \<and> c \<notin> set (take i s)"
  then have "takeWhile (\<lambda>x. x \<noteq> c) (take i s @ c # drop (Suc i) s) = take i s" by (subst takeWhile_append2) auto
  moreover have "s = take i s @ c # drop (Suc i) s" using i id_take_nth_drop by blast
  ultimately show "IndexByte s c = Some i" using i by (simp add: IndexByte_def Let_def)
qed

lemma scanHex4_range: "scanHex4 body i = Some r \<Longrightarrow> i + 4 \<le> length body"
  by (auto simp: scanHex4_def split: if_splits)

lemma scanEscape_range: "scanEscape body i = Good (r, sz) \<Longrightarrow> 2 \<le> sz \<and> i + sz \<le> length body"
  using scanHex4_range [of body "i + 2"] scanHex4_range [of body "i + 8"]
  by (auto simp: scanEscape_def peek_Some split: option.splits if_splits)

lemma string_loop_total:
  "i \<le> length body \<Longrightarrow>
   \<exists>r. string_loop body content collect i out = Some r \<and> (\<forall>p s. r = Good (p, s) \<longrightarrow> i < p \<and> p \<le> length body)"
proof (induction "length body - i" arbitrary: i out rule: less_induct)
  case less
  show ?case
  proof (cases "IndexByte (drop i body) (CHR 0x22)")
    case None
    then show ?thesis by (subst string_loop.simps) simp
  next
    case (Some q)
    then have q: "i + q < length body" by (auto simp: IndexByte_Some)
    show ?thesis
    proof (cases "IndexByte (slice_of body i (i + q)) (CHR 0x5C)")
      case None
      then show ?thesis using Some q by (subst string_loop.simps) (auto simp: Let_def)
    next
      case (Some e)
      then have e: "e < q" by (auto simp: IndexByte_Some slice_of_def)
      note s = \<open>IndexByte (drop i body) (CHR 0x22) = Some q\<close> Some
      show ?thesis
      proof (cases "scanEscape body (i + e)")
        case Bad
        then show ?thesis using s by (subst string_loop.simps) (auto simp: Let_def)
      next
        case (Good a)
        obtain r sz where a: "a = (r, sz)" by (cases a)
        then have sz: "2 \<le> sz" "i + e + sz \<le> length body" using scanEscape_range Good by auto
        show ?thesis
          using s Good a sz less(1) [of "i + e + sz"]
          by (subst string_loop.simps) (auto simp: Let_def, fastforce+)
      qed
    qed
  qed
qed

lemma scanString_total:
  assumes "pos < length body"
  shows "\<exists>r. scanString body pos collect = Some r \<and> (\<forall>p s. r = Good (p, s) \<longrightarrow> pos < p \<and> p \<le> length body)"
  using string_loop_total [of "pos + 1" body "pos + 1" collect None] assms unfolding scanString_def by fastforce

subsection \<open>The walk ends and its spans lie in the body\<close>

definition inside :: "nat \<Rightarrow> nat \<Rightarrow> (nat \<times> nat) set \<Rightarrow> bool" where
  "inside lo hi S \<longleftrightarrow> (\<forall>s\<in>S. lo \<le> fst s \<and> fst s < snd s \<and> snd s \<le> hi)"

lemma inside_empty [simp]: "inside lo hi {}"
  by (simp add: inside_def)

lemma inside_Un [simp]: "inside lo hi (S \<union> T) \<longleftrightarrow> inside lo hi S \<and> inside lo hi T"
  by (auto simp: inside_def)

lemma inside_mono: "inside lo hi S \<Longrightarrow> T \<subseteq> S \<Longrightarrow> lo' \<le> lo \<Longrightarrow> hi \<le> hi' \<Longrightarrow> inside lo' hi' T"
  by (fastforce simp: inside_def)

text \<open>A walk that goes past \<open>pos\<close> and adds intervals between \<open>lo\<close> and its end.\<close>

definition walked_to :: "string \<Rightarrow> nat \<Rightarrow> nat \<Rightarrow> cspans \<Rightarrow> (nat \<times> cspans) walked option \<Rightarrow> bool" where
  "walked_to body lo pos spans r \<longleftrightarrow>
     r \<noteq> None \<and>
     (\<forall>p sp. r = Some (Good (p, sp)) \<longrightarrow>
       pos < p \<and> p \<le> length body \<and> (\<exists>new. sp = spans @ new \<and> inside lo p (set new)))"

definition walk_ok :: "string \<Rightarrow> walk \<Rightarrow> bool" where
  "walk_ok body val \<longleftrightarrow>
     (\<forall>collect pos spans. val collect pos spans \<noteq> None \<and>
       (\<forall>p s sp. val collect pos spans = Some (Good (p, s, sp)) \<longrightarrow>
         pos < p \<and> p \<le> length body \<and> (\<exists>new. sp = spans @ new \<and> inside pos p (set new))))"

lemma walked_to_Bad [simp]: "walked_to body lo pos spans (Some Bad)"
  by (simp add: walked_to_def)

lemma walked_to_trans:
  assumes "walked_to body lo pos' (spans @ new) r" "pos \<le> pos'" "inside lo pos' (set new)"
  shows "walked_to body lo pos spans r"
proof -
  have "\<exists>new'. sp = spans @ new' \<and> inside lo p (set new')"
    if "r = Some (Good (p, sp))" for p sp
  proof -
    obtain new' where n: "sp = (spans @ new) @ new'" "inside lo p (set new')" "pos' < p"
      using assms(1) \<open>r = _\<close> by (auto simp: walked_to_def)
    have "inside lo p (set new)" using inside_mono [OF assms(3), of "set new" lo p] n(3) by simp
    then show ?thesis using n(1,2) by (intro exI [of _ "new @ new'"]) simp
  qed
  then show ?thesis using assms(1,2) by (auto simp: walked_to_def)
qed

definition pending_spans :: "ctxObjFrame \<Rightarrow> (nat \<times> nat) set" where
  "pending_spans f = (\<lambda>c. (cc_start c, cc_end c)) ` set (cf_pending f)"

lemma resolvePending_spans:
  assumes "resolvePending f spans = (f', spans')"
  shows "\<exists>new. spans' = spans @ new \<and> set new \<subseteq> pending_spans f \<and> pending_spans f' \<subseteq> pending_spans f"
  using assms by (auto simp: resolvePending_def pending_spans_def)

lemma note_pair_spans:
  assumes "note_pair key strVal start stop f spans = (f', spans')"
  shows "\<exists>new. spans' = spans @ new \<and> set new \<subseteq> insert (start, stop) (pending_spans f) \<and>
    pending_spans f' \<subseteq> insert (start, stop) (pending_spans f)"
proof -
  define m where "m = (case strVal of None \<Rightarrow> [] | Some v \<Rightarrow> v)"
  obtain g sp where g: "(if key = ''type'' then resolvePending (f\<lparr> cf_typ := Some m \<rparr>) spans
      else if key = ''role'' then resolvePending (f\<lparr> cf_role := Some m \<rparr>) spans else (f, spans)) = (g, sp)"
    by fastforce
  have p: "pending_spans (f\<lparr> cf_typ := t \<rparr>) = pending_spans f" "pending_spans (f\<lparr> cf_role := t \<rparr>) = pending_spans f" for t
    by (simp_all add: pending_spans_def)
  obtain new where new: "sp = spans @ new" "set new \<subseteq> pending_spans f" "pending_spans g \<subseteq> pending_spans f"
    using g resolvePending_spans [of "f\<lparr> cf_typ := Some m \<rparr>" spans g sp] resolvePending_spans [of "f\<lparr> cf_role := Some m \<rparr>" spans g sp]
    by (auto simp: p split: if_splits)
  have add: "pending_spans (g\<lparr> cf_pending := cf_pending g @ [\<lparr> cc_cls = c, cc_start = start, cc_end = stop \<rparr>] \<rparr>) =
      insert (start, stop) (pending_spans g)" for c
    by (auto simp: pending_spans_def)
  show ?thesis
    using assms new unfolding note_pair_def Let_def m_def [symmetric] g
    by (auto simp: add split: if_splits option.splits)
qed

lemma object_loop_walked:
  assumes "walk_ok body val"
  shows "inside pos0 pos (pending_spans f) \<Longrightarrow> pos0 \<le> pos \<Longrightarrow>
    walked_to body pos0 pos spans (object_loop val body pos f spans)"
proof (induction "length body - pos" arbitrary: pos f spans rule: less_induct)
  case less
  let ?p = "skipWS body pos"
  show ?case
  proof (cases "peek body ?p = Some (CHR 0x22)")
    case False
    then show ?thesis by (subst object_loop.simps) (simp add: Let_def)
  next
    case True
    then have "?p < length body" by (simp add: peek_Some)
    from scanString_total [OF this, of True] obtain s where s: "scanString body ?p True = Some s"
        "\<And>p k. s = Good (p, k) \<Longrightarrow> ?p < p \<and> p \<le> length body" by blast
    show ?thesis
    proof (cases s)
      case Bad
      then show ?thesis using True s(1) by (subst object_loop.simps) (simp add: Let_def)
    next
      case (Good sk)
      obtain start k where sk: "sk = (start, k)" by (cases sk)
      note start = s(2) [OF Good [unfolded sk]]
      let ?key = "case k of None \<Rightarrow> [] | Some k \<Rightarrow> k" and ?c = "skipWS body start"
      show ?thesis
      proof (cases "peek body ?c = Some (CHR '':'')")
        case False
        then show ?thesis using True s(1) Good sk by (subst object_loop.simps) (simp add: Let_def)
      next
        case colon: True
        let ?v = "val (?key = ''type'' \<or> ?key = ''role'') (?c + 1) spans"
        obtain v where v: "?v = Some v" using assms unfolding walk_ok_def by blast
        show ?thesis
        proof (cases v)
          case Bad
          then show ?thesis using True s(1) Good sk colon v by (subst object_loop.simps) (simp add: Let_def)
        next
          case vG: (Good w)
          obtain stop strVal sp where w: "w = (stop, strVal, sp)" by (cases w)
          obtain new where new: "?c + 1 < stop" "stop \<le> length body" "sp = spans @ new" "inside (?c + 1) stop (set new)"
            using assms v vG w unfolding walk_ok_def by blast
          obtain f' sp' where np: "note_pair ?key strVal start stop f sp = (f', sp')" by fastforce
          obtain new' where n': "sp' = sp @ new'" "set new' \<subseteq> insert (start, stop) (pending_spans f)"
              "pending_spans f' \<subseteq> insert (start, stop) (pending_spans f)"
            using note_pair_spans [OF np] by blast
          have order: "pos0 \<le> start" "start < stop" "pos < stop"
            using start new(1) less(3) skipWS_ge [of start body] skipWS_ge [of pos body] by linarith+
          have all: "inside pos0 stop (insert (start, stop) (pending_spans f))"
            using less(2) order unfolding inside_def by fastforce
          have w1: "inside pos0 stop (set (new @ new'))"
            using inside_mono [OF all n'(2)] inside_mono [OF new(4), of "set new" pos0 stop] order skipWS_ge [of start body]
            by simp 
          let ?q = "skipWS body stop"
          note simps = True s(1) Good sk colon v vG w np
          have news: "sp' = spans @ (new @ new')" using new(3) n'(1) by simp
          consider "peek body ?q = Some (CHR '','')" | "peek body ?q = Some (CHR ''}'')"
            | "peek body ?q \<noteq> Some (CHR '','')" "peek body ?q \<noteq> Some (CHR ''}'')" by blast
          then show ?thesis
          proof cases
            case 1
            have q: "?q < length body" "stop \<le> ?q" using 1 by (auto simp: peek_Some skipWS_ge)
            have "inside pos0 (?q + 1) (pending_spans f')" using inside_mono [OF all n'(3), of pos0 "?q + 1"] q by simp
            then have "walked_to body pos0 (?q + 1) sp' (object_loop val body (?q + 1) f' sp')"
              using less(1) [of "?q + 1" f' sp'] q order new(2) by auto
            then have "walked_to body pos0 pos spans (object_loop val body (?q + 1) f' sp')"
              unfolding news using inside_mono [OF w1, of "set (new @ new')" pos0 "?q + 1"] q order
              by (intro walked_to_trans [of body pos0 "?q + 1" spans "new @ new'"]) auto
            then show ?thesis using simps 1 by (subst object_loop.simps) (simp add: Let_def)
          next
            case 2
            have q: "?q < length body" "stop \<le> ?q" using 2 by (auto simp: peek_Some skipWS_ge)
            have "inside pos0 (?q + 1) (set (new @ new'))" using inside_mono [OF w1, of _ pos0 "?q + 1"] q by simp
            then have "walked_to body pos0 pos spans (Some (Good (?q + 1, sp')))"
              using q order unfolding walked_to_def news by auto
            then show ?thesis using simps 2 by (subst object_loop.simps) (simp add: Let_def)
          next
            case 3
            then show ?thesis using simps by (subst object_loop.simps) (simp add: Let_def)
          qed
        qed
      qed
    qed
  qed
qed

lemma walked_to_lo: "walked_to body lo pos spans r \<Longrightarrow> lo' \<le> lo \<Longrightarrow> walked_to body lo' pos spans r"
  unfolding walked_to_def using inside_mono [of lo _ _ _ lo'] by (metis order_refl subset_refl)

lemma array_loop_walked:
  assumes "walk_ok body val"
  shows "walked_to body pos pos spans (array_loop val body pos spans)"
proof (induction "length body - pos" arbitrary: pos spans rule: less_induct)
  case less
  obtain v where v: "val False pos spans = Some v" using assms unfolding walk_ok_def by blast
  show ?case
  proof (cases v)
    case Bad
    then show ?thesis using v by (subst array_loop.simps) simp
  next
    case (Good w)
    obtain stop strVal sp where w: "w = (stop, strVal, sp)" by (cases w)
    obtain new where new: "pos < stop" "stop \<le> length body" "sp = spans @ new" "inside pos stop (set new)"
      using assms v Good w unfolding walk_ok_def by blast
    let ?q = "skipWS body stop"
    consider "peek body ?q = Some (CHR '','')" | "peek body ?q = Some (CHR '']'')"
      | "peek body ?q \<noteq> Some (CHR '','')" "peek body ?q \<noteq> Some (CHR '']'')" by blast
    then show ?thesis
    proof cases
      case 1
      have q: "?q < length body" "stop \<le> ?q" using 1 by (auto simp: peek_Some skipWS_ge)
      have r: "walked_to body (?q + 1) (?q + 1) sp (array_loop val body (?q + 1) sp)"
        using less [of "?q + 1" sp] q new(1,2) by simp
      have "walked_to body pos (?q + 1) (spans @ new) (array_loop val body (?q + 1) sp)"
        using walked_to_lo [OF r, of pos] new(1,3) q by simp
      then have "walked_to body pos pos spans (array_loop val body (?q + 1) sp)"
        by (rule walked_to_trans) (use inside_mono [OF new(4), of "set new" pos "?q + 1"] new(1) q in auto)
      then show ?thesis using v Good w 1 by (subst array_loop.simps) (simp add: Let_def)
    next
      case 2
      have q: "?q < length body" "stop \<le> ?q" using 2 by (auto simp: peek_Some skipWS_ge)
      have "inside pos (?q + 1) (set new)" using inside_mono [OF new(4), of _ pos "?q + 1"] q by simp
      then have "walked_to body pos pos spans (Some (Good (?q + 1, sp)))"
        using q new unfolding walked_to_def by auto
      then show ?thesis using v Good w 2 by (subst array_loop.simps) (simp add: Let_def)
    next
      case 3
      then show ?thesis using v Good w by (subst array_loop.simps) (simp add: Let_def)
    qed
  qed
qed

lemma walked_to_start:
  assumes "walked_to body lo pos' spans r" "pos \<le> lo" "pos \<le> pos'"
  shows "walked_to body pos pos spans r"
proof -
  have "inside lo p S \<Longrightarrow> inside pos p S" for p S using inside_mono [of lo p S S pos p] assms(2) by simp
  then show ?thesis using assms(1,3) unfolding walked_to_def by fastforce
qed

lemma walk_object_walked:
  assumes "walk_ok body val"
  shows "walked_to body pos pos spans (walk_object val body pos spans)"
proof (cases "peek body (skipWS body (pos + 1)) = Some (CHR ''}'')")
  case True
  then have "skipWS body (pos + 1) < length body" "pos < skipWS body (pos + 1)"
    using skipWS_ge [of "pos + 1" body] by (auto simp: peek_Some)
  then show ?thesis using True by (auto simp: walk_object_def Let_def walked_to_def)
next
  case False
  let ?p = "skipWS body (pos + 1)"
  have le: "pos \<le> ?p" using skipWS_ge [of "pos + 1" body] by linarith
  have "walked_to body ?p ?p spans
      (object_loop val body ?p \<lparr> cf_typ = None, cf_role = None, cf_pending = [] \<rparr> spans)"
    by (rule object_loop_walked [OF assms]) (simp_all add: pending_spans_def)
  then show ?thesis using walked_to_start [OF _ le le] False by (simp add: walk_object_def Let_def)
qed

lemma walk_array_walked:
  assumes "walk_ok body val"
  shows "walked_to body pos pos spans (walk_array val body pos spans)"
proof (cases "peek body (skipWS body (pos + 1)) = Some (CHR '']'')")
  case True
  then have "skipWS body (pos + 1) < length body" "pos < skipWS body (pos + 1)"
    using skipWS_ge [of "pos + 1" body] by (auto simp: peek_Some)
  then show ?thesis using True by (auto simp: walk_array_def Let_def walked_to_def)
next
  case False
  let ?p = "skipWS body (pos + 1)"
  have le: "pos \<le> ?p" using skipWS_ge [of "pos + 1" body] by linarith
  show ?thesis using walked_to_start [OF array_loop_walked [OF assms, of ?p spans] le le] False
    by (simp add: walk_array_def Let_def)
qed

text \<open>What the walk of a value returns, without the collected text.\<close>

definition value_walked :: "string \<Rightarrow> nat \<Rightarrow> cspans \<Rightarrow> (nat \<times> string option \<times> cspans) walked option \<Rightarrow> bool" where
  "value_walked body pos spans r \<longleftrightarrow>
     r \<noteq> None \<and>
     (\<forall>p s sp. r = Some (Good (p, s, sp)) \<longrightarrow>
       pos < p \<and> p \<le> length body \<and> (\<exists>new. sp = spans @ new \<and> inside pos p (set new)))"

lemma walk_ok_iff: "walk_ok body val \<longleftrightarrow> (\<forall>collect pos spans. value_walked body pos spans (val collect pos spans))"
  by (simp add: walk_ok_def value_walked_def)

lemma no_string_walked: "walked_to body pos pos spans r \<Longrightarrow> value_walked body pos spans (no_string r)"
  by (cases r; cases "the r") (auto simp: walked_to_def value_walked_def no_string_def)

lemma with_spans_walked:
  "(\<And>p. r = Good p \<Longrightarrow> pos < p \<and> p \<le> length body) \<Longrightarrow> value_walked body pos spans (Some (with_spans r spans))"
  by (cases r) (auto simp: value_walked_def with_spans_def)

lemma value_walked_start: "value_walked body pos' spans r \<Longrightarrow> pos \<le> pos' \<Longrightarrow> value_walked body pos spans r"
  unfolding value_walked_def by (fastforce elim: inside_mono)

lemma string_walked:
  assumes "pos < length body"
  shows "value_walked body pos spans
    (map_option (\<lambda>w. case w of Bad \<Rightarrow> Bad | Good (pos, s) \<Rightarrow> Good (pos, s, spans)) (scanString body pos collect))"
proof -
  obtain r where r: "scanString body pos collect = Some r" "\<And>p s. r = Good (p, s) \<Longrightarrow> pos < p \<and> p \<le> length body"
    using scanString_total [OF assms, of collect] by blast
  then show ?thesis by (cases r) (auto simp: value_walked_def)
qed

lemma walk_value_walked:
  assumes "\<And>val. nested = Some val \<Longrightarrow> walk_ok body val"
  shows "value_walked body pos spans (walk_value nested body collect pos spans)"
proof -
  let ?p = "skipWS body pos"
  have bad: "value_walked body ?p spans (Some Bad)" by (simp add: value_walked_def)
  have "value_walked body ?p spans (walk_value nested body collect pos spans)"
    unfolding walk_value_def Let_def
    by (auto intro!: bad no_string_walked walk_object_walked walk_array_walked assms string_walked with_spans_walked
      simp: peek_Some split: option.splits dest: scanLiteral_range [rotated] scanNumber_range)
  then show ?thesis by (rule value_walked_start) (rule skipWS_ge)
qed

lemma ctx_value_ok: "walk_ok body (ctx_value n body)"
  by (induction n) (auto simp: walk_ok_iff intro!: walk_value_walked)

subsection \<open>The merged spans and the search over them\<close>

text \<open>Some interval of the set meets \<open>[start, stop)\<close>.\<close>

definition touches :: "(nat \<times> nat) set \<Rightarrow> nat \<Rightarrow> nat \<Rightarrow> bool" where
  "touches S start stop \<longleftrightarrow> (\<exists>s\<in>S. fst s < stop \<and> start < snd s)"

definition apart :: "cspans \<Rightarrow> bool" where
  "apart spans \<longleftrightarrow> sorted_wrt (\<lambda>a b. snd a < fst b) spans \<and> (\<forall>s\<in>set spans. fst s < snd s)"

definition covered :: "(nat \<times> nat) set \<Rightarrow> nat set" where
  "covered S = (\<Union>s\<in>S. {fst s..<snd s})"

lemma touches_covered:
  assumes "start < stop" "\<forall>s\<in>S. fst s < snd s"
  shows "touches S start stop \<longleftrightarrow> covered S \<inter> {start..<stop} \<noteq> {}"
proof
  assume "touches S start stop"
  then obtain s where "s \<in> S" "fst s < stop" "start < snd s" by (auto simp: touches_def)
  then have "max start (fst s) \<in> covered S \<inter> {start..<stop}" using assms by (auto simp: covered_def intro!: bexI [of _ s])
  then show "covered S \<inter> {start..<stop} \<noteq> {}" by blast
next
  assume "covered S \<inter> {start..<stop} \<noteq> {}"
  then obtain s x where "s \<in> S" "start \<le> x" "x < stop" "fst s \<le> x" "x < snd s" by (auto simp: covered_def)
  then show "touches S start stop" unfolding touches_def by (intro bexI [of _ s]) auto
qed

lemma merge_spans_props:
  "sorted (map fst (cur # spans)) \<Longrightarrow> \<forall>s\<in>set (cur # spans). fst s < snd s \<Longrightarrow>
   apart (merge_spans cur spans) \<and> (\<forall>s\<in>set (merge_spans cur spans). fst cur \<le> fst s) \<and>
   covered (set (merge_spans cur spans)) = covered (set (cur # spans))"
proof (induction cur spans rule: merge_spans.induct)
  case (1 cur)
  then show ?case by (simp add: apart_def)
next
  case (2 cur sp spans)
  show ?case
  proof (cases "fst sp \<le> snd cur")
    case True
    let ?c = "(fst cur, if snd cur < snd sp then snd sp else snd cur)"
    have "apart (merge_spans ?c spans) \<and> (\<forall>s\<in>set (merge_spans ?c spans). fst ?c \<le> fst s) \<and>
        covered (set (merge_spans ?c spans)) = covered (set (?c # spans))"
      by (rule 2(1) [OF True]) (use 2(3,4) in auto)
    moreover have "{fst ?c..<snd ?c} = {fst cur..<snd cur} \<union> {fst sp..<snd sp}"
      using True 2(3,4) by auto
    then have "covered (set (?c # spans)) = covered (set (cur # sp # spans))"
      by (auto simp: covered_def)
    ultimately show ?thesis using True by simp
  next
    case False
    have "apart (merge_spans sp spans) \<and> (\<forall>s\<in>set (merge_spans sp spans). fst sp \<le> fst s) \<and>
        covered (set (merge_spans sp spans)) = covered (set (sp # spans))"
      by (rule 2(2) [OF False]) (use 2(3,4) in auto)
    then show ?thesis using False 2(3,4) by (fastforce simp: apart_def covered_def)
  qed
qed

lemma apart_nth: "apart spans \<Longrightarrow> i < j \<Longrightarrow> j < length spans \<Longrightarrow> snd (spans ! i) < fst (spans ! j) \<and> fst (spans ! j) < snd (spans ! j)"
  by (simp add: apart_def sorted_wrt_iff_nth_less)

lemma intersectsSpan_exact:
  assumes "apart spans"
  shows "intersectsSpan spans start stop \<longleftrightarrow> touches (set spans) start stop"
proof -
  define i where "i = sort_Search (length spans) (\<lambda>i. start < snd (spans ! i))"
  have mono: "snd (spans ! a) \<le> snd (spans ! b) \<and> (a < b \<longrightarrow> fst (spans ! a) < fst (spans ! b))"
    if "a \<le> b" "b < length spans" for a b
  proof (cases "a = b")
    case False
    then have "a < b" "fst (spans ! a) < snd (spans ! a)" using that assms by (simp_all add: apart_def)
    then show ?thesis using apart_nth [OF assms, of a b] that by auto
  qed simp
  have i: "splits (length spans) (\<lambda>i. start < snd (spans ! i)) i"
    unfolding i_def by (rule sort_Search_splits) (use mono less_le_trans in blast)
  show ?thesis
  proof
    assume "intersectsSpan spans start stop"
    then have "i < length spans" "fst (spans ! i) < stop" by (auto simp: intersectsSpan_def Let_def i_def)
    moreover have "start < snd (spans ! i)" using i calculation(1) by (auto simp: splits_def)
    ultimately show "touches (set spans) start stop" by (auto simp: touches_def)
  next
    assume "touches (set spans) start stop"
    then obtain k where k: "k < length spans" "fst (spans ! k) < stop" "start < snd (spans ! k)"
      by (auto simp: touches_def in_set_conv_nth)
    then have "i \<le> k" using i by (auto simp: splits_def not_le [symmetric])
    then have "i < length spans" "fst (spans ! i) < stop" using mono [of i k] k by (auto simp: le_less)
    then show "intersectsSpan spans start stop" by (simp add: intersectsSpan_def i_def Let_def)
  qed
qed

text \<open>The spans the walk collects, none of them when it fails.\<close>

definition walk_spans :: "string \<Rightarrow> cspans" where
  "walk_spans body = (case ctx_value maxCtxDepth body False 0 [] of Some (Good (_, _, spans)) \<Rightarrow> spans | _ \<Rightarrow> [])"

lemma walk_spans_inside: "inside 0 (length body) (set (walk_spans body))"
proof -
  obtain w where w: "ctx_value maxCtxDepth body False 0 [] = Some w" "value_walked body 0 [] (Some w)"
    using ctx_value_ok [of body maxCtxDepth] unfolding walk_ok_iff value_walked_def by blast
  then show ?thesis
    by (cases w) (auto simp: walk_spans_def value_walked_def elim: inside_mono)
qed

lemma strongValueSpans_exact:
  "\<exists>spans. strongValueSpans body = Some spans \<and> apart spans \<and>
     (\<forall>start stop. start < stop \<longrightarrow> intersectsSpan spans start stop = touches (set (walk_spans body)) start stop)"
proof -
  define merged where "merged = (case sort_key fst (walk_spans body) of [] \<Rightarrow> [] | sp # rest \<Rightarrow> merge_spans sp rest)"
  have "ctx_value maxCtxDepth body False 0 [] \<noteq> None"
    using ctx_value_ok [of body maxCtxDepth] by (simp add: walk_ok_def)
  then have s: "strongValueSpans body = Some merged"
    by (auto simp: strongValueSpans_def walk_spans_def merged_def split: walked.splits)
  have ne: "\<forall>s\<in>set (walk_spans body). fst s < snd s" using walk_spans_inside by (auto simp: inside_def)
  have m: "apart merged \<and> covered (set merged) = covered (set (walk_spans body))"
  proof (cases "sort_key fst (walk_spans body)")
    case Nil
    then have "walk_spans body = []" by (metis length_0_conv length_sort)
    then show ?thesis by (simp add: merged_def apart_def)
  next
    case (Cons sp rest)
    have "sorted (map fst (sp # rest))" "set (sp # rest) = set (walk_spans body)"
      unfolding Cons [symmetric] by simp_all
    then show ?thesis using merge_spans_props [of sp rest] ne Cons by (simp add: merged_def)
  qed
  then have "intersectsSpan merged start stop = touches (set (walk_spans body)) start stop" if "start < stop" for start stop
    using intersectsSpan_exact [of merged start stop] touches_covered [OF that, of "set merged"] touches_covered [OF that ne]
    by (auto simp: apart_def)
  then show ?thesis using s m by blast
qed

lemma strongValueSpans_inside:
  "\<exists>spans. strongValueSpans body = Some spans \<and> apart spans \<and> (\<forall>s\<in>set spans. snd s \<le> length body)"
proof -
  obtain spans where sp: "strongValueSpans body = Some spans" "apart spans"
      "\<And>start stop. start < stop \<Longrightarrow> intersectsSpan spans start stop = touches (set (walk_spans body)) start stop"
    using strongValueSpans_exact by blast
  have "snd s \<le> length body" if s: "s \<in> set spans" for s
  proof -
    have lt: "fst s < snd s" using sp(2) s by (simp add: apart_def)
    then have "touches (set spans) (snd s - 1) (snd s)" using s unfolding touches_def by (intro bexI [of _ s]) auto
    then have "touches (set (walk_spans body)) (snd s - 1) (snd s)"
      using sp(3) [of "snd s - 1" "snd s"] intersectsSpan_exact [OF sp(2)] lt by simp
    then show ?thesis using walk_spans_inside by (fastforce simp: touches_def inside_def)
  qed
  then show ?thesis using sp(1,2) by blast
qed

subsection \<open>The classes of the categories\<close>

lemma forEachOccurrence_Contains: "forEachOccurrence body lit 0 \<noteq> [] \<longleftrightarrow> Contains body lit"
proof -
  have "Index body lit = None \<longleftrightarrow> \<not> Contains body lit"
  proof (cases "Index body lit")
    case None
    have "\<not> sublist lit body"
    proof
      assume "sublist lit body"
      then obtain xs ys where "body = xs @ lit @ ys" by (auto simp: sublist_def)
      then show False using Index_None [OF None, of "length xs"] by simp
    qed
    then show ?thesis using None by (simp add: Contains_def)
  next
    case (Some k)
    then have "prefix lit (drop k body)" using Index_SomeD by blast
    then have "sublist lit body" by (meson prefix_imp_sublist sublist_drop sublist_order.order_trans)
    then show ?thesis using Some by (simp add: Contains_def)
  qed
  then show ?thesis by (subst forEachOccurrence.simps) (auto split: option.splits)
qed

lemma path_hit_occurrence: "path_hit p body \<longleftrightarrow> eachOccurrence p body \<noteq> []"
proof -
  have "list_ex (\<lambda>(start, stop). P start stop) xs \<longleftrightarrow> filter (\<lambda>(start, stop). P start stop) xs \<noteq> []" for P and xs :: cspans
    by (auto simp: list_ex_iff filter_empty_conv)
  then show ?thesis
    by (auto simp: path_hit_def eachOccurrence_def list_ex_iff forEachOccurrence_Contains [symmetric])
qed

lemma set_add_cat [simp]: "set (add_cat cat out) = insert cat (set out)"
  by (auto simp: add_cat_def)

definition some_strong :: "cspans \<Rightarrow> cspans \<Rightarrow> bool" where
  "some_strong spans occurrences \<longleftrightarrow> (\<exists>q\<in>set occurrences. intersectsSpan spans (fst q) (snd q))"

lemma classify_sets:
  "set (fst (classify spans cat occ sw)) = set (fst sw) \<union> {c. c = cat \<and> some_strong spans occ}"
  "set (snd (classify spans cat occ sw)) = set (snd sw) \<union> {c. c = cat \<and> \<not> some_strong spans occ \<and> occ \<noteq> []}"
  by (auto simp: classify_def some_strong_def list_ex_iff case_prod_beta Let_def)

lemma fold_classify_sets:
  "set (fst (fold (\<lambda>p. classify spans (pa_category p) (eachOccurrence p body)) ps sw)) =
     set (fst sw) \<union> {c. \<exists>p\<in>set ps. c = pa_category p \<and> some_strong spans (eachOccurrence p body)}"
  "set (snd (fold (\<lambda>p. classify spans (pa_category p) (eachOccurrence p body)) ps sw)) =
     set (snd sw) \<union> {c. \<exists>p\<in>set ps. c = pa_category p \<and> \<not> some_strong spans (eachOccurrence p body) \<and> path_hit p body}"
  by (induction ps arbitrary: sw) (auto simp: classify_sets path_hit_occurrence)

lemma set_ScanPaths:
  "set (ScanPaths extraPaths body) =
     {c. \<exists>p\<in>set builtinPaths. c = pa_category p \<and> path_hit p body} \<union>
     {c. c = ''custom_path'' \<and> list_ex (Contains body) extraPaths}"
proof -
  have "set (fold (scan_path body) ps names) = set names \<union> {c. \<exists>p\<in>set ps. c = pa_category p \<and> path_hit p body}" for ps names
  proof (induction ps arbitrary: names)
    case (Cons p ps)
    have "set (scan_path body p names) = set names \<union> {c. c = pa_category p \<and> path_hit p body}"
      using last_in_set [of names] by (cases "names \<noteq> [] \<and> last names = pa_category p") (auto simp: scan_path_def)
    then show ?case by (auto simp: Cons)
  qed simp
  then show ?thesis by (auto simp: ScanPaths_def Let_def)
qed

text \<open>The occurrences that stand for a category.\<close>

definition category_occurrences :: "string list \<Rightarrow> string \<Rightarrow> string \<Rightarrow> (nat \<times> nat) set" where
  "category_occurrences extraPaths cat body =
     (\<Union>p\<in>{p \<in> set builtinPaths. pa_category p = cat}. set (eachOccurrence p body)) \<union>
     (if cat = ''custom_path'' then set (extra_occurrences extraPaths body) else {})"

lemma category_occurrence_cases:
  "(\<exists>q\<in>category_occurrences extraPaths cat body. P q) \<longleftrightarrow>
     (\<exists>p\<in>set builtinPaths. cat = pa_category p \<and> (\<exists>q\<in>set (eachOccurrence p body). P q)) \<or>
     cat = ''custom_path'' \<and> (\<exists>q\<in>set (extra_occurrences extraPaths body). P q)"
proof -
  have "(\<exists>q\<in>(\<Union>p\<in>{p \<in> set builtinPaths. pa_category p = cat}. set (eachOccurrence p body)). P q) \<longleftrightarrow>
      (\<exists>p\<in>set builtinPaths. cat = pa_category p \<and> (\<exists>q\<in>set (eachOccurrence p body). P q))" by blast
  then show ?thesis unfolding category_occurrences_def by (simp add: bex_Un del: UN_iff)
qed

lemma category_occurrences_gate:
  assumes "q \<in> category_occurrences extraPaths cat body"
  shows "path_gate extraPaths body"
proof -
  have "\<exists>q'\<in>category_occurrences extraPaths cat body. q' = q" using assms by simp
  then consider p where "p \<in> set builtinPaths" "eachOccurrence p body \<noteq> []"
    | "extra_occurrences extraPaths body \<noteq> []"
    unfolding category_occurrence_cases by (metis empty_iff empty_set)
  then show ?thesis
    by cases (auto simp: path_gate_def list_ex_iff path_hit_occurrence extra_occurrences_def
      forEachOccurrence_Contains [symmetric])
qed

lemma occurrence_lt: "lit \<noteq> [] \<Longrightarrow> q \<in> set (forEachOccurrence body lit 0) \<Longrightarrow> fst q < snd q"
  by (auto simp: set_forEachOccurrence)

lemma eachOccurrence_lt:
  assumes "p \<in> set builtinPaths" "q \<in> set (eachOccurrence p body)"
  shows "fst q < snd q"
proof -
  obtain lit where "lit \<in> set (pa_literals p)" "q \<in> set (forEachOccurrence body lit 0)"
    using assms(2) by (auto simp: eachOccurrence_def split: if_splits)
  then show ?thesis using occurrence_lt builtin_literals_nonempty [OF assms(1)] by blast
qed

lemma occurrence_nonempty:
  assumes "[] \<notin> set extraPaths" "q \<in> category_occurrences extraPaths cat body"
  shows "fst q < snd q"
proof -
  have ex: "fst q < snd q" if q: "q \<in> set (extra_occurrences extraPaths body)"
  proof -
    obtain lit where "lit \<in> set extraPaths" "q \<in> set (forEachOccurrence body lit 0)"
      using q by (auto simp: extra_occurrences_def)
    then show ?thesis using occurrence_lt assms(1) by metis
  qed
  have "\<exists>q'\<in>category_occurrences extraPaths cat body. q' = q" using assms(2) by simp
  then show ?thesis unfolding category_occurrence_cases using eachOccurrence_lt ex by metis
qed

lemma classifyPathHits_sets:
  assumes "[] \<notin> set extraPaths"
  shows "\<exists>strong weak. classifyPathHits extraPaths body = Some (strong, weak) \<and>
    set strong \<union> set weak = set (ScanPaths extraPaths body) \<and>
    (\<forall>cat. cat \<in> set strong \<longleftrightarrow> (\<exists>q\<in>category_occurrences extraPaths cat body. touches (set (walk_spans body)) (fst q) (snd q))) \<and>
    (\<forall>p\<in>set builtinPaths. path_hit p body \<longrightarrow>
      (\<forall>q\<in>set (eachOccurrence p body). \<not> touches (set (walk_spans body)) (fst q) (snd q)) \<longrightarrow> pa_category p \<in> set weak)"
proof -
  obtain spans where sp: "strongValueSpans body = Some spans"
      "\<And>start stop. start < stop \<Longrightarrow> intersectsSpan spans start stop = touches (set (walk_spans body)) start stop"
    using strongValueSpans_exact by blast
  define sw where "sw = classify spans ''custom_path'' (extra_occurrences extraPaths body)
    (fold (\<lambda>p. classify spans (pa_category p) (eachOccurrence p body)) builtinPaths ([], []))"
  have ex: "extra_occurrences extraPaths body \<noteq> [] \<longleftrightarrow> list_ex (Contains body) extraPaths"
    by (auto simp: extra_occurrences_def list_ex_iff forEachOccurrence_Contains [symmetric])
  have none: "some_strong spans occ \<Longrightarrow> occ \<noteq> []" for occ by (auto simp: some_strong_def)
  have "set (fst sw) \<union> set (snd sw) = set (ScanPaths extraPaths body)"
    using none unfolding set_ScanPaths sw_def classify_sets fold_classify_sets ex [symmetric]
    by (auto simp: path_hit_occurrence)
  moreover have "cat \<in> set (fst sw) \<longleftrightarrow> (\<exists>q\<in>category_occurrences extraPaths cat body. intersectsSpan spans (fst q) (snd q))" for cat
    unfolding sw_def classify_sets fold_classify_sets some_strong_def category_occurrence_cases by auto
  then have "cat \<in> set (fst sw) \<longleftrightarrow>
      (\<exists>q\<in>category_occurrences extraPaths cat body. touches (set (walk_spans body)) (fst q) (snd q))" for cat
    using sp(2) occurrence_nonempty [OF assms] by blast
  moreover have "\<not> some_strong spans (eachOccurrence p body)"
    if "p \<in> set builtinPaths" "\<forall>q\<in>set (eachOccurrence p body). \<not> touches (set (walk_spans body)) (fst q) (snd q)" for p
    using that sp(2) eachOccurrence_lt [OF that(1)] by (auto simp: some_strong_def)
  then have "\<forall>p\<in>set builtinPaths. path_hit p body \<longrightarrow>
      (\<forall>q\<in>set (eachOccurrence p body). \<not> touches (set (walk_spans body)) (fst q) (snd q)) \<longrightarrow> pa_category p \<in> set (snd sw)"
    unfolding sw_def classify_sets fold_classify_sets by blast
  moreover have "classifyPathHits extraPaths body = Some (fst sw, snd sw)"
    using sp(1) by (simp add: classifyPathHits_def sw_def)
  ultimately show ?thesis by blast
qed

end
