(* ===== verification/Guard_Json.thy ===== *)
theory Guard_Json
  imports Guard_Context_Props
begin

text \<open>
  What the position walk means on well-formed JSON. Documents are an abstract syntax with a printer; the
  values in tool-invocation positions are defined on the syntax, with the offsets the printer gives them.
  The walk reads every printed document and collects exactly those positions.
\<close>

subsection \<open>Documents\<close>

datatype json =
    JNull
  | JBool bool
  | JNum bool string
  | JText string
  | JArr elements
  | JObj members
and elements = ENil | ECons json elements
and members = MNil | MCons string json members

text \<open>A printed string: quotes, backslashes and control characters are escaped.\<close>

definition plain :: "char \<Rightarrow> bool" where
  "plain c \<longleftrightarrow> c \<noteq> CHR 0x22 \<and> c \<noteq> CHR 0x5C \<and> \<not> (of_char c :: nat) < 0x20"

definition hexdigit :: "nat \<Rightarrow> char" where
  "hexdigit n = char_of (if n < 10 then 48 + n else 87 + n)"

definition escape :: "char \<Rightarrow> string" where
  "escape c =
     (if plain c then [c]
      else if (of_char c :: nat) < 0x20
      then [CHR 0x5C, CHR ''u'', CHR ''0'', CHR ''0'', hexdigit (of_char c div 16), hexdigit (of_char c mod 16)]
      else [CHR 0x5C, c])"

definition escapes :: "string \<Rightarrow> string" where
  "escapes s = concat (map escape s)"

definition quote :: "string \<Rightarrow> string" where
  "quote s = CHR 0x22 # escapes s @ [CHR 0x22]"

text \<open>Printing with the white space \<open>w\<close> before every token.\<close>

primrec render :: "string \<Rightarrow> json \<Rightarrow> string"
  and render_elements :: "string \<Rightarrow> elements \<Rightarrow> string"
  and render_members :: "string \<Rightarrow> members \<Rightarrow> string" where
  "render w JNull = w @ ''null''"
| "render w (JBool b) = w @ (if b then ''true'' else ''false'')"
| "render w (JNum neg ds) = w @ (if neg then ''-'' else []) @ ds"
| "render w (JText s) = w @ quote s"
| "render w (JArr es) = w @ ''['' @ render_elements w es @ w @ '']''"
| "render w (JObj ms) = w @ ''{'' @ render_members w ms @ w @ ''}''"
| "render_elements w ENil = []"
| "render_elements w (ECons j es) = render w j @ (if es = ENil then [] else w @ '','' @ render_elements w es)"
| "render_members w MNil = []"
| "render_members w (MCons k j ms) =
     w @ quote k @ w @ '':'' @ render w j @ (if ms = MNil then [] else w @ '','' @ render_members w ms)"

text \<open>Integers without a leading zero that a \<open>float64\<close> holds; nesting as the walk counts it.\<close>

definition integer_text :: "string \<Rightarrow> bool" where
  "integer_text ds \<longleftrightarrow> ds \<noteq> [] \<and> (\<forall>c\<in>set ds. digit c) \<and> (hd ds = CHR ''0'' \<longrightarrow> ds = ''0'') \<and> length ds \<le> 300"

primrec json_ok :: "json \<Rightarrow> bool" and elements_ok :: "elements \<Rightarrow> bool" and members_ok :: "members \<Rightarrow> bool" where
  "json_ok JNull = True"
| "json_ok (JBool b) = True"
| "json_ok (JNum neg ds) = integer_text ds"
| "json_ok (JText s) = True"
| "json_ok (JArr es) = elements_ok es"
| "json_ok (JObj ms) = members_ok ms"
| "elements_ok ENil = True"
| "elements_ok (ECons j es) = (json_ok j \<and> elements_ok es)"
| "members_ok MNil = True"
| "members_ok (MCons k j ms) = (json_ok j \<and> members_ok ms)"

primrec depth :: "json \<Rightarrow> nat" and elements_depth :: "elements \<Rightarrow> nat" and members_depth :: "members \<Rightarrow> nat" where
  "depth JNull = 0"
| "depth (JBool b) = 0"
| "depth (JNum neg ds) = 0"
| "depth (JText s) = 0"
| "depth (JArr es) = Suc (elements_depth es)"
| "depth (JObj ms) = Suc (members_depth ms)"
| "elements_depth ENil = 0"
| "elements_depth (ECons j es) = max (depth j) (elements_depth es)"
| "members_depth MNil = 0"
| "members_depth (MCons k j ms) = max (depth j) (members_depth ms)"

subsection \<open>Tool-invocation positions\<close>

text \<open>
  A value is in one when its key is \<open>arguments\<close>, or when its key is \<open>input\<close> and the object is of type
  \<open>tool_use\<close>: by the last \<open>type\<close> before the member if there is one, by the first one after it otherwise.
\<close>

definition text_of :: "json \<Rightarrow> string option" where
  "text_of j = (case j of JText s \<Rightarrow> Some s | _ \<Rightarrow> None)"

definition marker :: "json \<Rightarrow> string" where
  "marker j = (case text_of j of None \<Rightarrow> [] | Some s \<Rightarrow> s)"

fun first_type :: "members \<Rightarrow> string option" where
  "first_type MNil = None"
| "first_type (MCons k j ms) = (if k = ''type'' then Some (marker j) else first_type ms)"

definition type_at :: "string option \<Rightarrow> members \<Rightarrow> string option" where
  "type_at seen ms = (case seen of None \<Rightarrow> first_type ms | Some t \<Rightarrow> Some t)"

definition invoked :: "string option \<Rightarrow> string \<Rightarrow> members \<Rightarrow> bool" where
  "invoked seen k ms \<longleftrightarrow> k = ''arguments'' \<or> k = ''input'' \<and> type_at seen ms = Some ''tool_use''"

primrec invocations :: "string \<Rightarrow> nat \<Rightarrow> json \<Rightarrow> (nat \<times> nat) set"
  and invocations_elements :: "string \<Rightarrow> nat \<Rightarrow> elements \<Rightarrow> (nat \<times> nat) set"
  and invocations_members :: "string \<Rightarrow> string option \<Rightarrow> nat \<Rightarrow> members \<Rightarrow> (nat \<times> nat) set" where
  "invocations w off JNull = {}"
| "invocations w off (JBool b) = {}"
| "invocations w off (JNum neg ds) = {}"
| "invocations w off (JText s) = {}"
| "invocations w off (JArr es) = invocations_elements w (off + length w + 1) es"
| "invocations w off (JObj ms) = invocations_members w None (off + length w + 1) ms"
| "invocations_elements w off ENil = {}"
| "invocations_elements w off (ECons j es) =
     invocations w off j \<union> invocations_elements w (off + length (render w j) + length w + 1) es"
| "invocations_members w seen off MNil = {}"
| "invocations_members w seen off (MCons k j ms) =
     (let start = off + length w + length (quote k); value = start + length w + 1; stop = value + length (render w j)
      in (if invoked seen k ms then {(start, stop)} else {}) \<union> invocations w value j \<union>
         invocations_members w (if k = ''type'' then Some (marker j) else seen) (stop + length w + 1) ms)"

subsection \<open>Reading printed tokens\<close>

lemma drop_pre: "drop (length pre) (pre @ s) = s"
  by simp

lemma slice_of_append: "slice_of (pre @ s @ post) (length pre) (length pre + length s) = s"
  by (simp add: slice_of_def)

lemma skipWS_append:
  assumes "\<forall>c\<in>set w. json_ws c" "s = [] \<or> \<not> json_ws (hd s)"
  shows "skipWS (pre @ w @ s) (length pre) = length pre + length w"
proof -
  have "takeWhile json_ws (w @ s) = w"
    using assms takeWhile_append2 [of w json_ws s] by (cases s) auto
  then show ?thesis by (simp add: skipWS_def)
qed

lemma peek_append: "peek (pre @ c # s) (length pre) = Some c"
  by (simp add: peek_def)

lemma hexval_hexdigit:
  assumes "n < 16"
  shows "hexval (hexdigit n) = Some n"
proof -
  have "n < 10 \<Longrightarrow> (of_char (hexdigit n) :: nat) = 48 + n" "\<not> n < 10 \<Longrightarrow> (of_char (hexdigit n) :: nat) = 87 + n"
    using assms by (simp_all add: hexdigit_def)
  then show ?thesis using assms by (cases "n < 10") (simp_all add: hexval_def Let_def)
qed

lemma hexval_0: "hexval (CHR ''0'') = Some 0"
  by (simp add: hexval_def)

lemma scanHex4_four:
  assumes "hexval a = Some x" "hexval b = Some y" "hexval c = Some z" "hexval d = Some v"
  shows "scanHex4 (pre @ [a, b, c, d] @ post) (length pre) = Some (16 * (16 * (16 * x + y) + z) + v)"
proof -
  have "slice_of (pre @ [a, b, c, d] @ post) (length pre) (length pre + 4) = [a, b, c, d]"
    using slice_of_append [of pre "[a, b, c, d]" post] by (simp add: numeral_eq_Suc)
  then show ?thesis using assms by (simp add: scanHex4_def)
qed

lemma escape_special:
  assumes "\<not> plain c"
  obtains sz where "\<And>pre post. scanEscape (pre @ escape c @ post) (length pre) = Good (of_char c, sz)"
    "length (escape c) = sz" "hd (escape c) = CHR 0x5C" "escape c \<noteq> []" "(of_char c :: nat) < 0x80"
proof (cases "(of_char c :: nat) < 0x20")
  case True
  let ?n = "of_char c :: nat"
  have e: "escape c = [CHR 0x5C, CHR ''u'', CHR ''0'', CHR ''0'', hexdigit (?n div 16), hexdigit (?n mod 16)]"
    using True assms by (simp add: escape_def)
  have hex: "scanHex4 (pre @ escape c @ post) (length pre + 2) = Some ?n" for pre post
    using scanHex4_four [of _ 0 _ 0 _ "?n div 16" _ "?n mod 16" "pre @ [CHR 0x5C, CHR ''u'']" post] True
    by (simp add: e hexval_0 hexval_hexdigit)
  have "scanEscape (pre @ escape c @ post) (length pre) = Good (?n, 6)" for pre post
  proof -
    have "peek (pre @ escape c @ post) (length pre + 1) = Some (CHR ''u'')" by (simp add: peek_def e nth_append)
    then show ?thesis using hex [of pre post] True by (simp add: scanEscape_def)
  qed
  then show ?thesis using that [of 6] e True by simp
next
  case False
  then have c: "c = CHR 0x22 \<or> c = CHR 0x5C" using assms by (auto simp: plain_def)
  then have e: "escape c = [CHR 0x5C, c]" by (auto simp: escape_def plain_def)
  have "scanEscape (pre @ escape c @ post) (length pre) = Good (of_char c, 2)" for pre post
  proof -
    have "peek (pre @ escape c @ post) (length pre + 1) = Some c" by (simp add: peek_def e nth_append)
    then show ?thesis using c by (auto simp: scanEscape_def)
  qed
  then show ?thesis using that [of 2] e c by auto
qed

lemma IndexByte_append: "c \<notin> set xs \<Longrightarrow> IndexByte (xs @ c # ys) c = Some (length xs)"
  by (simp add: IndexByte_Some nth_append)

lemma escapes_plain: "\<forall>c\<in>set s. plain c \<Longrightarrow> escapes s = s"
  by (induction s) (simp_all add: escapes_def escape_def)

lemma escapes_append: "escapes (s @ t) = escapes s @ escapes t"
  by (simp add: escapes_def)

lemma plain_run:
  assumes "\<forall>c\<in>set p. plain c"
  shows "CHR 0x22 \<notin> set p" "CHR 0x5C \<notin> set p" "\<not> list_ex (\<lambda>c. (of_char c :: nat) < 0x20) p"
  using assms by (auto simp: plain_def list_ex_iff)

lemma AppendRune_ascii: "(of_char c :: nat) < 0x80 \<Longrightarrow> AppendRune d (of_char c) = d @ [c]"
  by (simp add: AppendRune_def)

lemma slice_of_extend:
  assumes "content \<le> length pre"
  shows "slice_of (pre @ s @ post) content (length pre + length s) = slice_of (pre @ s @ post) content (length pre) @ s"
proof -
  have "slice_of (pre @ s @ post) content (length pre) = drop content pre"
    using assms by (simp add: slice_of_def)
  moreover have "slice_of (pre @ s @ post) content (length pre + length s) = drop content pre @ s"
    using assms by (simp add: slice_of_def)
  ultimately show ?thesis by simp
qed

text \<open>The bytes decoded so far.\<close>

definition decoded :: "string \<Rightarrow> nat \<Rightarrow> nat \<Rightarrow> string option \<Rightarrow> string" where
  "decoded body content i out = (case out of None \<Rightarrow> slice_of body content i | Some o' \<Rightarrow> o')"

lemma string_loop_escapes:
  "content \<le> length pre \<Longrightarrow> body = pre @ escapes s @ CHR 0x22 # post \<Longrightarrow> (\<not> collect \<longrightarrow> out = None) \<Longrightarrow>
   string_loop body content collect (length pre) out =
     Some (Good (length pre + length (escapes s) + 1,
       if collect then Some (decoded body content (length pre) out @ s) else None))"
proof (induction "length s" arbitrary: pre s out rule: less_induct)
  case less
  define p where "p = takeWhile plain s"
  define t where "t = dropWhile plain s"
  have s: "s = p @ t" by (simp add: p_def t_def)
  have p: "\<forall>c\<in>set p. plain c" by (auto simp: p_def dest: set_takeWhileD)
  note run = plain_run [OF p]
  show ?case
  proof (cases t)
    case Nil
    then have body: "body = pre @ p @ CHR 0x22 # post" and e: "escapes s = p"
      using less(3) s escapes_plain [OF p] by simp_all
    have q: "IndexByte (drop (length pre) body) (CHR 0x22) = Some (length p)"
      unfolding body by (simp add: IndexByte_append run(1))
    have sl: "slice_of body (length pre) (length pre + length p) = p" unfolding body by (rule slice_of_append)
    have none: "IndexByte p (CHR 0x5C) = None" using run(2) by (simp add: IndexByte_None)
    have ext: "slice_of body content (length pre + length p) = slice_of body content (length pre) @ p"
      unfolding body by (rule slice_of_extend [OF less(2)])
    show ?thesis
      using run(3) s Nil less(4)
      by (subst string_loop.simps) (auto simp: q sl none escapes_plain [OF p] ext decoded_def split: option.splits)
  next
    case (Cons c t')
    then have c: "\<not> plain c" using t_def by (metis hd_dropWhile list.distinct(1) list.sel(1))
    obtain sz where sz: "\<And>pre post. scanEscape (pre @ escape c @ post) (length pre) = Good (of_char c, sz)"
        "length (escape c) = sz" "hd (escape c) = CHR 0x5C" "escape c \<noteq> []" "(of_char c :: nat) < 0x80"
      using escape_special [OF c] by blast
    obtain x where x: "escape c = CHR 0x5C # x" using sz(3,4) by (cases "escape c") auto
    have e: "escapes s = p @ escape c @ escapes t'"
      using s Cons escapes_plain [OF p] by (simp add: escapes_def)
    have body: "body = pre @ p @ escape c @ escapes t' @ CHR 0x22 # post" using less(3) e by simp
    have "CHR 0x22 \<in> set (drop (length pre) body)" by (simp add: body)
    then obtain q where q: "IndexByte (drop (length pre) body) (CHR 0x22) = Some q"
      using IndexByte_None by (metis not_Some_eq)
    have qp: "length p < q"
    proof (rule ccontr)
      assume "\<not> length p < q"
      then have "drop (length pre) body ! q \<in> set p \<or> drop (length pre) body ! q = CHR 0x5C"
        by (cases "q = length p") (auto simp: body x nth_append)
      then show False using q run(1) by (auto simp: IndexByte_Some)
    qed
    have sl: "slice_of body (length pre) (length pre + q) = p @ CHR 0x5C # take (q - length p - 1) (x @ escapes t' @ CHR 0x22 # post)"
      using qp by (cases "q - length p") (auto simp: slice_of_def body x)
    have bs: "IndexByte (p @ CHR 0x5C # y) (CHR 0x5C) = Some (length p)" for y
      by (rule IndexByte_append [OF run(2)])
    have sl2: "slice_of body (length pre) (length pre + length p) = p" unfolding body by (rule slice_of_append)
    have ext: "slice_of body content (length pre + length p) = slice_of body content (length pre) @ p"
      unfolding body by (rule slice_of_extend [OF less(2)])
    have esc: "scanEscape body (length pre + length p) = Good (of_char c, sz)"
      using sz(1) [of "pre @ p" "escapes t' @ CHR 0x22 # post"] by (simp add: body)
    let ?pre = "pre @ p @ escape c"
    let ?out = "if collect then Some (decoded body content (length pre) out @ p @ [c]) else None"
    have "string_loop body content collect (length ?pre) ?out =
        Some (Good (length ?pre + length (escapes t') + 1,
          if collect then Some (decoded body content (length ?pre) ?out @ t') else None))"
      by (rule less(1)) (use less(2) s Cons in \<open>simp_all add: body\<close>)
    moreover have "string_loop body content collect (length pre) out = string_loop body content collect (length ?pre) ?out"
      using run(3) less(4) esc sz(2)
      by (subst string_loop.simps)
        (auto simp: q sl bs sl2 ext decoded_def AppendRune_ascii [OF sz(5)] add.assoc split: option.splits)
    ultimately show ?thesis using s Cons e by (auto simp: decoded_def)
  qed
qed

lemma scanString_quote:
  assumes "body = pre @ quote s @ post"
  shows "scanString body (length pre) collect =
    Some (Good (length pre + length (quote s), if collect then Some s else None))"
proof -
  have body: "body = (pre @ [CHR 0x22]) @ escapes s @ CHR 0x22 # post" using assms by (simp add: quote_def)
  have "decoded body (length (pre @ [CHR 0x22])) (length (pre @ [CHR 0x22])) None = []"
    by (simp add: decoded_def slice_of_def)
  then show ?thesis
    using string_loop_escapes [OF le_refl body, of collect None] by (simp add: scanString_def quote_def)
qed

lemma scanLiteral_append: "body = pre @ lit @ post \<Longrightarrow> scanLiteral body (length pre) lit = Good (length pre + length lit)"
  by (simp add: scanLiteral_def)

text \<open>What may not follow a number.\<close>

definition numchar :: "char \<Rightarrow> bool" where
  "numchar c \<longleftrightarrow> digit c \<or> c = CHR ''.'' \<or> c = CHR ''e'' \<or> c = CHR ''E''"

definition ends_number :: "string \<Rightarrow> bool" where
  "ends_number post \<longleftrightarrow> post = [] \<or> \<not> numchar (hd post)"

lemma peek_after: "peek (pre @ post) (length pre) = (case post of [] \<Rightarrow> None | c # _ \<Rightarrow> Some c)"
  by (cases post) (simp_all add: peek_def)

lemma decimal_value_less: "\<forall>c\<in>set ds. digit c \<Longrightarrow> decimal_value ds < 10 ^ length ds"
proof (induction ds rule: rev_induct)
  case Nil
  then show ?case by (simp add: decimal_value_def)
next
  case (snoc c ds)
  have "(of_char c :: nat) - 48 < 10" using snoc(2) by (auto simp: digit_def less_eq_char_def)
  moreover have "decimal_value ds < 10 ^ length ds" using snoc by simp
  ultimately show ?case by (simp add: decimal_value_def)
qed

lemma integer_in_range:
  assumes "\<forall>c\<in>set ds. digit c" "length ds \<le> 300"
  shows "in_float_range ds [] b []"
proof -
  have "(10::nat) ^ length ds \<le> 10 ^ 300" using assms(2) by (intro power_increasing) auto
  also have "\<dots> < 2 ^ 1024 - 2 ^ 970" by simp
  finally have "decimal_value ds < 2 ^ 1024 - 2 ^ 970" using decimal_value_less [OF assms(1)] by (rule less_trans [rotated])
  then show ?thesis by (simp add: in_float_range_def exponent_value_def Let_def)
qed

lemma scanNumber_integer:
  assumes body: "body = pre @ minus_sign @ ds @ post" and minus_sign: "minus_sign = [] \<or> minus_sign = ''-''"
    and ds: "integer_text ds" and post: "ends_number post"
  shows "scanNumber body (length pre) = Good (length pre + length minus_sign + length ds)"
proof -
  obtain d ds' where d: "ds = d # ds'" "digit d" using ds by (cases ds) (auto simp: integer_text_def)
  define i0 where "i0 = length (pre @ minus_sign)"
  have i0: "(if peek body (length pre) = Some (CHR ''-'') then length pre + 1 else length pre) = i0"
    using minus_sign d by (auto simp: i0_def body peek_append digit_def less_eq_char_def)
  have p0: "peek body i0 = Some d" using peek_append [of "pre @ minus_sign" d "ds' @ post"] by (simp add: i0_def body d(1))
  have "takeWhile digit (ds @ post) = ds"
    using ds post takeWhile_append2 [of ds digit post] by (cases post) (auto simp: integer_text_def ends_number_def numchar_def)
  then have sk: "skipDigits body i0 = i0 + length ds" by (simp add: skipDigits_def i0_def body)
  have i1: "int_part body i0 = Some (i0 + length ds)"
    using p0 d ds sk by (auto simp: int_part_def digit_at_def integer_text_def)
  have p1: "peek body (i0 + length ds) = (case post of [] \<Rightarrow> None | c # _ \<Rightarrow> Some c)"
    using peek_after [of "pre @ minus_sign @ ds" post] by (simp add: body i0_def add.assoc)
  have i2: "frac_part body (i0 + length ds) = Some (i0 + length ds)"
    using p1 post by (auto simp: frac_part_def ends_number_def numchar_def split: list.splits)
  have i3: "exp_part body (i0 + length ds) = Some (i0 + length ds)"
    using p1 post by (auto simp: exp_part_def ends_number_def numchar_def split: list.splits)
  have sl: "slice_of body i0 (i0 + length ds) = ds" "slice_of body (i0 + length ds + 1) (i0 + length ds) = []"
      "slice_of body (exp_digits body (i0 + length ds)) (i0 + length ds) = []"
    using slice_of_append [of "pre @ minus_sign" ds post] by (auto simp: body i0_def exp_digits_def slice_of_def)
  have r: "in_float_range ds [] b []" for b using ds by (intro integer_in_range) (auto simp: integer_text_def)
  show ?thesis
    unfolding scanNumber_def Let_def i0 i1 option.case i2 i3 sl by (simp add: r i0_def)
qed

subsection \<open>One member of an object\<close>

text \<open>The undecided \<open>input\<close> values of a frame.\<close>

definition pending_inputs :: "ctxObjFrame \<Rightarrow> (nat \<times> nat) set" where
  "pending_inputs f = (\<lambda>c. (cc_start c, cc_end c)) ` {c \<in> set (cf_pending f). cc_cls c = ctxInput}"

definition undecided :: "ctxObjFrame \<Rightarrow> bool" where
  "undecided f \<longleftrightarrow> (\<forall>c\<in>set (cf_pending f). decide f (cc_cls c) = None)"

lemma undecided_typed: "undecided f \<Longrightarrow> cf_typ f \<noteq> None \<Longrightarrow> pending_inputs f = {}"
  by (auto simp: undecided_def pending_inputs_def decide_def)

lemma decide_pending [simp]: "decide (f\<lparr> cf_pending := x \<rparr>) c = decide f c"
  by (cases c) (simp_all add: decide_def)

lemma pending_inputs_add:
  "pending_inputs (f\<lparr> cf_pending := cf_pending f @ [c] \<rparr>) =
     pending_inputs f \<union> (if cc_cls c = ctxInput then {(cc_start c, cc_end c)} else {})"
  unfolding pending_inputs_def by (cases "cc_cls c = ctxInput") force+

lemma undecided_add:
  "undecided (f\<lparr> cf_pending := cf_pending f @ [c] \<rparr>) \<longleftrightarrow> undecided f \<and> decide f (cc_cls c) = None"
  by (auto simp: undecided_def)

lemma ctxKeyClass_simps:
  "ctxKeyClass k = ctxArguments \<longleftrightarrow> k = ''arguments''"
  "ctxKeyClass k = ctxInput \<longleftrightarrow> k = ''input''"
  "ctxKeyClass ''type'' = ctxNone" "ctxKeyClass ''role'' = ctxNone"
  by (auto simp: ctxKeyClass_def)

lemma note_type:
  assumes "undecided f" "note_pair ''type'' sv start stop f spans = (f', spans')" "mk = (case sv of None \<Rightarrow> [] | Some v \<Rightarrow> v)"
  shows "undecided f' \<and> cf_typ f' = Some mk \<and> pending_inputs f' = {} \<and>
    (\<exists>new. spans' = spans @ new \<and> set new = (if mk = ''tool_use'' then pending_inputs f else {}))"
proof -
  let ?g = "f\<lparr> cf_typ := Some mk \<rparr>"
  have strong: "decide ?g (cc_cls c) = Some True \<longleftrightarrow> cc_cls c = ctxInput \<and> mk = ''tool_use''" if "c \<in> set (cf_pending f)" for c
  proof -
    have "decide f (cc_cls c) = None" using assms(1) that by (simp add: undecided_def)
    then show ?thesis by (cases "cc_cls c") (auto simp: decide_def split: if_splits)
  qed
  have r: "resolvePending ?g spans = (f', spans')"
    using assms(2,3) by (simp add: note_pair_def ctxKeyClass_simps Let_def case_prod_beta prod_eq_iff)
  then have f': "f' = ?g\<lparr> cf_pending := filter (\<lambda>c. decide ?g (cc_cls c) = None) (cf_pending f) \<rparr>"
    and sp: "spans' = spans @ map (\<lambda>c. (cc_start c, cc_end c)) (filter (\<lambda>c. decide ?g (cc_cls c) = Some True) (cf_pending f))"
    by (auto simp: resolvePending_def)
  have "undecided f'" unfolding undecided_def f' decide_pending by auto
  moreover have "cf_typ f' = Some mk" by (simp add: f')
  moreover have "set (map (\<lambda>c. (cc_start c, cc_end c)) (filter (\<lambda>c. decide ?g (cc_cls c) = Some True) (cf_pending f))) =
      (if mk = ''tool_use'' then pending_inputs f else {})"
    using strong by (auto simp: pending_inputs_def)
  ultimately show ?thesis using undecided_typed sp by blast
qed

lemma note_role:
  assumes "undecided f" "note_pair ''role'' sv start stop f spans = (f', spans')"
  shows "undecided f' \<and> cf_typ f' = cf_typ f \<and> pending_inputs f' = pending_inputs f \<and> spans' = spans"
proof -
  obtain mk where "mk = (case sv of None \<Rightarrow> [] | Some v \<Rightarrow> v)" by blast
  let ?g = "f\<lparr> cf_role := Some mk \<rparr>"
  have dec: "decide ?g (cc_cls c) \<noteq> Some True" "cc_cls c = ctxInput \<longrightarrow> decide ?g (cc_cls c) = None"
    if "c \<in> set (cf_pending f)" for c
  proof -
    have "decide f (cc_cls c) = None" using assms(1) that by (simp add: undecided_def)
    then show "decide ?g (cc_cls c) \<noteq> Some True" "cc_cls c = ctxInput \<longrightarrow> decide ?g (cc_cls c) = None"
      by (cases "cc_cls c"; auto simp: decide_def split: if_splits)+
  qed
  have r: "resolvePending ?g spans = (f', spans')"
    using assms(2) \<open>mk = _\<close> by (simp add: note_pair_def ctxKeyClass_simps Let_def case_prod_beta prod_eq_iff)
  then have f': "f' = ?g\<lparr> cf_pending := filter (\<lambda>c. decide ?g (cc_cls c) = None) (cf_pending f) \<rparr>"
    and sp: "spans' = spans @ map (\<lambda>c. (cc_start c, cc_end c)) (filter (\<lambda>c. decide ?g (cc_cls c) = Some True) (cf_pending f))"
    by (auto simp: resolvePending_def)
  have "undecided f'" unfolding undecided_def f' decide_pending by auto
  moreover have "pending_inputs f' = pending_inputs f" using dec(2) by (auto simp: pending_inputs_def f')
  moreover have "spans' = spans" using dec(1) sp by (auto simp: filter_empty_conv)
  ultimately show ?thesis by (simp add: f')
qed

lemma note_other:
  assumes "undecided f" "k \<noteq> ''type''" "k \<noteq> ''role''" "note_pair k sv start stop f spans = (f', spans')"
  shows "undecided f' \<and> cf_typ f' = cf_typ f \<and>
    pending_inputs f' = pending_inputs f \<union> (if k = ''input'' \<and> cf_typ f = None then {(start, stop)} else {}) \<and>
    spans' = spans @ (if k = ''arguments'' \<or> k = ''input'' \<and> cf_typ f = Some ''tool_use'' then [(start, stop)] else [])"
proof -
  have np: "note_pair k sv start stop f spans =
      (if ctxKeyClass k = ctxNone then (f, spans)
       else (case decide f (ctxKeyClass k) of
               Some strong \<Rightarrow> (f, if strong then spans @ [(start, stop)] else spans)
             | None \<Rightarrow> (f\<lparr> cf_pending := cf_pending f @ [\<lparr> cc_cls = ctxKeyClass k, cc_start = start, cc_end = stop \<rparr>] \<rparr>, spans)))"
    using assms(2,3) by (simp add: note_pair_def Let_def)
  note r = np [unfolded assms(4)]
  show ?thesis
  proof (cases "ctxKeyClass k")
    case ctxNone
    moreover have "k \<noteq> ''arguments''" "k \<noteq> ''input''" using ctxNone by (auto simp: ctxKeyClass_def split: if_splits)
    ultimately show ?thesis using r assms(1) by simp
  next
    case ctxArguments
    have k: "k = ''arguments''" using ctxArguments by (simp add: ctxKeyClass_simps)
    have "(f', spans') = (f, spans @ [(start, stop)])" using r ctxArguments by (simp add: decide_def)
    then show ?thesis using assms(1) k by simp
  next
    case ctxInput
    have k: "k = ''input''" using ctxInput by (simp add: ctxKeyClass_simps)
    have r': "(f', spans') = (case decide f ctxInput of
               Some strong \<Rightarrow> (f, if strong then spans @ [(start, stop)] else spans)
             | None \<Rightarrow> (f\<lparr> cf_pending := cf_pending f @ [\<lparr> cc_cls = ctxInput, cc_start = start, cc_end = stop \<rparr>] \<rparr>, spans))"
      using r unfolding ctxInput by simp
    show ?thesis
    proof (cases "cf_typ f")
      case None
      then have "(f', spans') = (f\<lparr> cf_pending := cf_pending f @ [\<lparr> cc_cls = ctxInput, cc_start = start, cc_end = stop \<rparr>] \<rparr>, spans)"
        using r' by (simp add: decide_def)
      moreover have "decide f ctxInput = None" using None by (simp add: decide_def)
      ultimately show ?thesis using assms(1) k None by (simp add: undecided_add pending_inputs_add)
    next
      case (Some t)
      then have "(f', spans') = (f, if t = ''tool_use'' then spans @ [(start, stop)] else spans)"
        using r' by (simp add: decide_def)
      then show ?thesis using assms(1) k Some by auto
    qed
  next
    case ctxContent
    have k: "k = ''content''" using ctxContent by (auto simp: ctxKeyClass_def split: if_splits)
    have "decide f ctxContent \<noteq> Some True" by (simp add: decide_def)
    then show ?thesis using r ctxContent assms(1) k
      by (cases "decide f ctxContent") (auto simp: undecided_add pending_inputs_add)
  next
    case ctxOutput
    have k: "k = ''output''" using ctxOutput by (auto simp: ctxKeyClass_def split: if_splits)
    have "decide f ctxOutput \<noteq> Some True" by (simp add: decide_def)
    then show ?thesis using r ctxOutput assms(1) k
      by (cases "decide f ctxOutput") (auto simp: undecided_add pending_inputs_add)
  qed
qed

lemma note_member:
  assumes u: "undecided f" and np: "note_pair k sv start stop f spans = (f', spans')"
    and mk: "k = ''type'' \<Longrightarrow> (case sv of None \<Rightarrow> [] | Some v \<Rightarrow> v) = mk"
  shows "undecided f' \<and> cf_typ f' = (if k = ''type'' then Some mk else cf_typ f) \<and>
    pending_inputs f' = (if k = ''type'' then {} else pending_inputs f) \<union>
      (if k = ''input'' \<and> cf_typ f = None then {(start, stop)} else {}) \<and>
    (\<exists>new. spans' = spans @ new \<and>
      set new = (if k = ''type'' \<and> mk = ''tool_use'' then pending_inputs f else {}) \<union>
        (if k = ''arguments'' \<or> k = ''input'' \<and> cf_typ f = Some ''tool_use'' then {(start, stop)} else {}))"
proof -
  consider "k = ''type''" | "k = ''role''" | "k \<noteq> ''type''" "k \<noteq> ''role''" by blast
  then show ?thesis
  proof cases
    case 1
    then show ?thesis using note_type [OF u np [unfolded 1]] mk by simp
  next
    case 2
    then show ?thesis using note_role [OF u np [unfolded 2]] by simp
  next
    case 3
    show ?thesis using note_other [OF u 3 np] 3 by simp
  qed
qed

subsection \<open>Reading printed documents\<close>

lemma skipWS_idem: "skipWS body (skipWS body pos) = skipWS body pos"
proof -
  have "drop (skipWS body pos) body = dropWhile json_ws (drop pos body)"
    unfolding skipWS_def by (metis add.commute drop_drop dropWhile_eq_drop)
  moreover have "takeWhile json_ws (dropWhile json_ws xs) = []" for xs by (induction xs) auto
  ultimately have "takeWhile json_ws (drop (skipWS body pos) body) = []" by simp
  then show ?thesis by (simp add: skipWS_def [of body "skipWS body pos"])
qed

lemma object_loop_skip: "object_loop val body (skipWS body pos) f spans = object_loop val body pos f spans"
  by (subst (1 2) object_loop.simps) (simp add: skipWS_idem)

lemma ctx_value_skip: "ctx_value n body collect (skipWS body pos) spans = ctx_value n body collect pos spans"
  by (cases n) (simp_all add: walk_value_def skipWS_idem)

lemma array_loop_skip: "array_loop (ctx_value n body) body (skipWS body pos) spans = array_loop (ctx_value n body) body pos spans"
  by (subst (1 2) array_loop.simps) (simp add: ctx_value_skip)

definition blank :: "string \<Rightarrow> bool" where
  "blank w \<longleftrightarrow> (\<forall>c\<in>set w. json_ws c)"

lemma skip_blank: "blank w \<Longrightarrow> \<not> json_ws c \<Longrightarrow> skipWS (pre @ w @ c # s) (length pre) = length (pre @ w)"
  using skipWS_append [of w "c # s" pre] by (simp add: blank_def)

lemma peek_blank: "peek (pre @ w @ c # s) (length (pre @ w)) = Some c"
  using peek_append [of "pre @ w" c s] by simp

lemma ws_not_numchar: "json_ws c \<Longrightarrow> \<not> numchar c"
  unfolding json_ws_def by (elim disjE) (simp_all add: numchar_def digit_def less_eq_char_def)

lemma blank_ends: "blank w \<Longrightarrow> \<not> numchar c \<Longrightarrow> ends_number (w @ c # s)"
  using ws_not_numchar by (cases w) (simp_all add: ends_number_def blank_def)

text \<open>A printed value is read, and its invocations are added.\<close>

definition value_read :: "string \<Rightarrow> nat \<Rightarrow> json \<Rightarrow> bool" where
  "value_read w n j \<longleftrightarrow>
     (\<forall>pre post collect spans. ends_number post \<longrightarrow>
       (\<exists>new. ctx_value n (pre @ render w j @ post) collect (length pre) spans =
           Some (Good (length (pre @ render w j), if collect then text_of j else None, spans @ new)) \<and>
         set new = invocations w (length pre) j))"

lemma value_readD:
  assumes "value_read w n j" "ends_number post"
  obtains new where "ctx_value n (pre @ render w j @ post) collect (length pre) spans =
      Some (Good (length (pre @ render w j), if collect then text_of j else None, spans @ new))"
    "set new = invocations w (length pre) j"
  using assms unfolding value_read_def by meson

definition elements_read :: "string \<Rightarrow> nat \<Rightarrow> elements \<Rightarrow> bool" where
  "elements_read w n es \<longleftrightarrow>
     (\<forall>pre post spans body. body = pre @ render_elements w es @ w @ CHR '']'' # post \<longrightarrow>
       (\<exists>new. array_loop (ctx_value n body) body (length pre) spans =
           Some (Good (length (pre @ render_elements w es @ w) + 1, spans @ new)) \<and>
         set new = invocations_elements w (length pre) es))"

definition members_read :: "string \<Rightarrow> nat \<Rightarrow> members \<Rightarrow> bool" where
  "members_read w n ms \<longleftrightarrow>
     (\<forall>pre post f spans body. undecided f \<longrightarrow> body = pre @ render_members w ms @ w @ CHR ''}'' # post \<longrightarrow>
       (\<exists>new. object_loop (ctx_value n body) body (length pre) f spans =
           Some (Good (length (pre @ render_members w ms @ w) + 1, spans @ new)) \<and>
         set new = (if type_at (cf_typ f) ms = Some ''tool_use'' then pending_inputs f else {}) \<union>
           invocations_members w (cf_typ f) (length pre) ms))"

lemma elements_step:
  assumes w: "blank w" and j: "value_read w n j" and es: "es \<noteq> ENil \<Longrightarrow> elements_read w n es"
  shows "elements_read w n (ECons j es)"
  unfolding elements_read_def
proof (intro allI impI)
  fix pre post spans body
  assume body: "body = pre @ render_elements w (ECons j es) @ w @ CHR '']'' # post"
  let ?V = "pre @ render w j"
  show "\<exists>new. array_loop (ctx_value n body) body (length pre) spans =
      Some (Good (length (pre @ render_elements w (ECons j es) @ w) + 1, spans @ new)) \<and>
    set new = invocations_elements w (length pre) (ECons j es)"
  proof (cases "es = ENil")
    case True
    then have b: "body = pre @ render w j @ w @ CHR '']'' # post" using body by simp
    have ends: "ends_number (w @ CHR '']'' # post)" using w by (rule blank_ends) (simp add: numchar_def digit_def less_eq_char_def)
    then obtain new where new: "ctx_value n body False (length pre) spans = Some (Good (length ?V, None, spans @ new))"
        "set new = invocations w (length pre) j"
      using value_readD [OF j ends, of pre False spans] unfolding b by auto
    have sk: "skipWS body (length ?V) = length (?V @ w)" "peek body (length (?V @ w)) = Some (CHR '']'')"
      using skip_blank [OF w, of "CHR '']''" ?V post] peek_blank [of ?V w "CHR '']''" post]
      by (simp_all add: b json_ws_def)
    have "array_loop (ctx_value n body) body (length pre) spans = Some (Good (length (?V @ w) + 1, spans @ new))"
      using sk by (subst array_loop.simps) (simp add: new(1) Let_def)
    then show ?thesis using new(2) True by simp
  next
    case False
    let ?rest = "render_elements w es @ w @ CHR '']'' # post"
    have b: "body = pre @ render w j @ w @ CHR '','' # ?rest" using body False by simp
    have ends: "ends_number (w @ CHR '','' # ?rest)" using w by (rule blank_ends) (simp add: numchar_def digit_def less_eq_char_def)
    then obtain new where new: "ctx_value n body False (length pre) spans = Some (Good (length ?V, None, spans @ new))"
        "set new = invocations w (length pre) j"
      using value_readD [OF j ends, of pre False spans] unfolding b by auto
    have sk: "skipWS body (length ?V) = length (?V @ w)" "peek body (length (?V @ w)) = Some (CHR '','')"
      using skip_blank [OF w, of "CHR '',''" ?V ?rest] peek_blank [of ?V w "CHR '',''" ?rest]
      by (simp_all add: b json_ws_def)
    let ?C = "pre @ render w j @ w @ '',''"
    have "body = ?C @ ?rest" by (simp add: b)
    then obtain new' where new': "array_loop (ctx_value n body) body (length ?C) (spans @ new) =
        Some (Good (length (?C @ render_elements w es @ w) + 1, (spans @ new) @ new'))"
        "set new' = invocations_elements w (length ?C) es"
      using es [OF False] unfolding elements_read_def by blast
    have "array_loop (ctx_value n body) body (length pre) spans = array_loop (ctx_value n body) body (length ?C) (spans @ new)"
      using sk by (subst array_loop.simps) (simp add: new(1) Let_def)
    then show ?thesis using new(2) new' False by (intro exI [of _ "new @ new'"]) (simp add: add.assoc)
  qed
qed

lemma tokens_not_ws [simp]:
  "\<not> json_ws (CHR '','')" "\<not> json_ws (CHR '':'')" "\<not> json_ws (CHR 0x22)" "\<not> json_ws (CHR ''}'')" "\<not> json_ws (CHR '']'')"
  "\<not> json_ws (CHR ''{'')" "\<not> json_ws (CHR ''['')" "\<not> json_ws (CHR ''n'')" "\<not> json_ws (CHR ''t'')" "\<not> json_ws (CHR ''f'')"
  "\<not> json_ws (CHR ''-'')"
  by (simp_all add: json_ws_def)

text \<open>One round of the loop of an object.\<close>

lemma object_round:
  assumes w: "blank w" and j: "value_read w n j" and u: "undecided f"
    and body: "body = pre @ w @ quote k @ w @ CHR '':'' # render w j @ w @ c # post"
    and c: "\<not> numchar c" "\<not> json_ws c"
  obtains f' new where "undecided f'" "cf_typ f' = (if k = ''type'' then Some (marker j) else cf_typ f)"
    "pending_inputs f' = (if k = ''type'' then {} else pending_inputs f) \<union>
       (if k = ''input'' \<and> cf_typ f = None
        then {(length (pre @ w @ quote k), length (pre @ w @ quote k @ w @ '':'' @ render w j))} else {})"
    "set new = (if k = ''type'' \<and> marker j = ''tool_use'' then pending_inputs f else {}) \<union>
       (if k = ''arguments'' \<or> k = ''input'' \<and> cf_typ f = Some ''tool_use''
        then {(length (pre @ w @ quote k), length (pre @ w @ quote k @ w @ '':'' @ render w j))} else {}) \<union>
       invocations w (length (pre @ w @ quote k @ w @ '':'')) j"
    "object_loop (ctx_value n body) body (length pre) f spans =
       (let pos = length (pre @ w @ quote k @ w @ '':'' @ render w j @ w)
        in if c = CHR '','' then object_loop (ctx_value n body) body (pos + 1) f' (spans @ new)
           else if c = CHR ''}'' then Some (Good (pos + 1, spans @ new))
           else Some Bad)"
proof -
  let ?K = "pre @ w @ quote k" and ?V = "pre @ w @ quote k @ w @ '':''"
  let ?S = "?V @ render w j"
  obtain q where q: "quote k = CHR 0x22 # q" by (simp add: quote_def)
  have s1: "skipWS body (length pre) = length (pre @ w)" "peek body (length (pre @ w)) = Some (CHR 0x22)"
    using skip_blank [OF w, of "CHR 0x22" pre] peek_blank [of pre w "CHR 0x22"] by (simp_all add: body q)
  have b2: "body = (pre @ w) @ quote k @ w @ CHR '':'' # render w j @ w @ c # post" by (simp add: body)
  have s2: "scanString body (length (pre @ w)) True = Some (Good (length ?K, Some k))"
    using scanString_quote [OF b2, of True] by simp
  have s3: "skipWS body (length ?K) = length (?K @ w)" "peek body (length (?K @ w)) = Some (CHR '':'')"
    using skip_blank [OF w, of "CHR '':''" ?K] peek_blank [of ?K w "CHR '':''"] by (simp_all add: body)
  have b4: "body = ?V @ render w j @ w @ c # post" by (simp add: body)
  have ends: "ends_number (w @ c # post)" using blank_ends [OF w c(1)] .
  define collect where "collect = (k = ''type'' \<or> k = ''role'')"
  define sv where "sv = (if collect then text_of j else None)"
  obtain new1 where new1: "ctx_value n body collect (length ?V) spans = Some (Good (length ?S, sv, spans @ new1))"
      "set new1 = invocations w (length ?V) j"
    using value_readD [OF j ends, of ?V collect spans] unfolding b4 [symmetric] sv_def by auto
  obtain f' sp' where np: "note_pair k sv (length ?K) (length ?S) f (spans @ new1) = (f', sp')" by fastforce
  have mk: "(case sv of None \<Rightarrow> [] | Some v \<Rightarrow> v) = marker j" if "k = ''type''"
    using that by (simp add: sv_def collect_def marker_def)
  obtain new2 where nm: "undecided f'" "cf_typ f' = (if k = ''type'' then Some (marker j) else cf_typ f)"
    "pending_inputs f' = (if k = ''type'' then {} else pending_inputs f) \<union>
       (if k = ''input'' \<and> cf_typ f = None then {(length ?K, length ?S)} else {})"
    "sp' = (spans @ new1) @ new2"
    "set new2 = (if k = ''type'' \<and> marker j = ''tool_use'' then pending_inputs f else {}) \<union>
        (if k = ''arguments'' \<or> k = ''input'' \<and> cf_typ f = Some ''tool_use'' then {(length ?K, length ?S)} else {})"
    using note_member [OF u np mk] by blast
  have s5: "skipWS body (length ?S) = length (?S @ w)" "peek body (length (?S @ w)) = Some c"
    using skip_blank [OF w c(2), of ?S post] peek_blank [of ?S w c post] by (simp_all add: body)
  have kw: "length ?V = length (?K @ w) + 1" by simp
  have loop: "object_loop (ctx_value n body) body (length pre) f spans =
       (let pos = length (?S @ w)
        in if c = CHR '','' then object_loop (ctx_value n body) body (pos + 1) f' sp'
           else if c = CHR ''}'' then Some (Good (pos + 1, sp'))
           else Some Bad)"
    using new1(1) unfolding collect_def kw
    by (subst object_loop.simps) (simp only: s1 s2 s3 s5 np Let_def Option.bind.simps option.case walked.case prod.case
      simp_thms if_True if_False option.inject)
  show ?thesis
    by (rule that [of f' "new1 @ new2"]) (use nm new1(2) loop in \<open>auto simp: Let_def\<close>)
qed

lemma members_step:
  assumes w: "blank w" and j: "value_read w n j" and ms: "ms \<noteq> MNil \<Longrightarrow> members_read w n ms"
  shows "members_read w n (MCons k j ms)"
  unfolding members_read_def
proof (intro allI impI)
  fix pre post f spans body
  assume u: "undecided f" and body: "body = pre @ render_members w (MCons k j ms) @ w @ CHR ''}'' # post"
  let ?S = "pre @ w @ quote k @ w @ '':'' @ render w j"
  have typed: "cf_typ f = Some t \<Longrightarrow> pending_inputs f = {}" for t using undecided_typed [OF u] by simp
  show "\<exists>new. object_loop (ctx_value n body) body (length pre) f spans =
      Some (Good (length (pre @ render_members w (MCons k j ms) @ w) + 1, spans @ new)) \<and>
    set new = (if type_at (cf_typ f) (MCons k j ms) = Some ''tool_use'' then pending_inputs f else {}) \<union>
      invocations_members w (cf_typ f) (length pre) (MCons k j ms)"
  proof (cases "ms = MNil")
    case True
    then have b: "body = pre @ w @ quote k @ w @ CHR '':'' # render w j @ w @ CHR ''}'' # post" using body by simp
    have c: "\<not> numchar (CHR ''}'')" "\<not> json_ws (CHR ''}'')" by (simp_all add: numchar_def digit_def less_eq_char_def)
    obtain f' new where r: "undecided f'"
      "cf_typ f' = (if k = ''type'' then Some (marker j) else cf_typ f)"
      "pending_inputs f' = (if k = ''type'' then {} else pending_inputs f) \<union>
       (if k = ''input'' \<and> cf_typ f = None then {(length (pre @ w @ quote k), length ?S)} else {})"
      "set new = (if k = ''type'' \<and> marker j = ''tool_use'' then pending_inputs f else {}) \<union>
       (if k = ''arguments'' \<or> k = ''input'' \<and> cf_typ f = Some ''tool_use'' then {(length (pre @ w @ quote k), length ?S)} else {}) \<union>
       invocations w (length (pre @ w @ quote k @ w @ '':'')) j"
      "object_loop (ctx_value n body) body (length pre) f spans =
       (let pos = length (pre @ w @ quote k @ w @ '':'' @ render w j @ w)
        in if CHR ''}'' = CHR '','' then object_loop (ctx_value n body) body (pos + 1) f' (spans @ new)
           else if CHR ''}'' = CHR ''}'' then Some (Good (pos + 1, spans @ new))
           else Some Bad)"
      by (rule object_round [OF w j u b c, of spans])
    have "object_loop (ctx_value n body) body (length pre) f spans = Some (Good (length (?S @ w) + 1, spans @ new))"
      using r(5) by (simp add: Let_def)
    moreover have "set new = (if type_at (cf_typ f) (MCons k j ms) = Some ''tool_use'' then pending_inputs f else {}) \<union>
      invocations_members w (cf_typ f) (length pre) (MCons k j ms)"
      using typed True unfolding r(4) by (cases "cf_typ f") (auto simp: Let_def type_at_def invoked_def add.assoc)
    ultimately show ?thesis using True by simp
  next
    case False
    let ?rest = "render_members w ms @ w @ CHR ''}'' # post"
    have b: "body = pre @ w @ quote k @ w @ CHR '':'' # render w j @ w @ CHR '','' # ?rest" using body False by simp
    have c: "\<not> numchar (CHR '','')" "\<not> json_ws (CHR '','')" by (simp_all add: numchar_def digit_def less_eq_char_def)
    obtain f' new where r: "undecided f'"
      "cf_typ f' = (if k = ''type'' then Some (marker j) else cf_typ f)"
      "pending_inputs f' = (if k = ''type'' then {} else pending_inputs f) \<union>
       (if k = ''input'' \<and> cf_typ f = None then {(length (pre @ w @ quote k), length ?S)} else {})"
      "set new = (if k = ''type'' \<and> marker j = ''tool_use'' then pending_inputs f else {}) \<union>
       (if k = ''arguments'' \<or> k = ''input'' \<and> cf_typ f = Some ''tool_use'' then {(length (pre @ w @ quote k), length ?S)} else {}) \<union>
       invocations w (length (pre @ w @ quote k @ w @ '':'')) j"
      "object_loop (ctx_value n body) body (length pre) f spans =
       (let pos = length (pre @ w @ quote k @ w @ '':'' @ render w j @ w)
        in if CHR '','' = CHR '','' then object_loop (ctx_value n body) body (pos + 1) f' (spans @ new)
           else if CHR '','' = CHR ''}'' then Some (Good (pos + 1, spans @ new))
           else Some Bad)"
      by (rule object_round [OF w j u b c, of spans])
    have step: "object_loop (ctx_value n body) body (length pre) f spans =
        object_loop (ctx_value n body) body (length (?S @ w) + 1) f' (spans @ new)"
      using r(5) by (simp add: Let_def)
    let ?C = "?S @ w @ '',''"
    have "body = ?C @ ?rest" by (simp add: b)
    then obtain new' where new': "object_loop (ctx_value n body) body (length ?C) f' (spans @ new) =
        Some (Good (length (?C @ render_members w ms @ w) + 1, (spans @ new) @ new'))"
        "set new' = (if type_at (cf_typ f') ms = Some ''tool_use'' then pending_inputs f' else {}) \<union>
          invocations_members w (cf_typ f') (length ?C) ms"
      using ms [OF False] r(1) unfolding members_read_def by blast
    have "set (new @ new') = (if type_at (cf_typ f) (MCons k j ms) = Some ''tool_use'' then pending_inputs f else {}) \<union>
      invocations_members w (cf_typ f) (length pre) (MCons k j ms)"
    proof (cases "k = ''type''")
      case True
      then show ?thesis
        using typed unfolding set_append r(4) new'(2) r(2,3)
        by (cases "cf_typ f") (auto simp: Let_def type_at_def invoked_def add.assoc)
    next
      case k: False
      show ?thesis
        using typed k unfolding set_append r(4) new'(2) r(2,3)
        by (cases "cf_typ f") (auto simp: Let_def type_at_def invoked_def add.assoc)
    qed
    moreover have "length (?S @ w) + 1 = length ?C" by simp
    then have "object_loop (ctx_value n body) body (length pre) f spans =
        Some (Good (length (pre @ render_members w (MCons k j ms) @ w) + 1, spans @ new @ new'))"
      using new'(1) step False by (simp add: add.assoc)
    ultimately show ?thesis by blast
  qed
qed

text \<open>A value by its first byte.\<close>

lemma walk_value_char:
  assumes "blank w" "\<not> json_ws c"
  shows "walk_value nested (pre @ w @ c # s) collect (length pre) spans =
    (let body = pre @ w @ c # s; pos = length (pre @ w)
     in if c = CHR ''{'' then (case nested of None \<Rightarrow> Some Bad | Some val \<Rightarrow> no_string (walk_object val body pos spans))
        else if c = CHR ''['' then (case nested of None \<Rightarrow> Some Bad | Some val \<Rightarrow> no_string (walk_array val body pos spans))
        else if c = CHR 0x22 then map_option (\<lambda>w. case w of Bad \<Rightarrow> Bad | Good (pos, s) \<Rightarrow> Good (pos, s, spans)) (scanString body pos collect)
        else if c = CHR ''t'' then Some (with_spans (scanLiteral body pos ''true'') spans)
        else if c = CHR ''f'' then Some (with_spans (scanLiteral body pos ''false'') spans)
        else if c = CHR ''n'' then Some (with_spans (scanLiteral body pos ''null'') spans)
        else if c = CHR ''-'' \<or> digit c then Some (with_spans (scanNumber body pos) spans)
        else Some Bad)"
  unfolding walk_value_def Let_def skip_blank [OF assms] peek_blank by simp

lemma ctx_value_walk: "\<exists>nested. ctx_value n body = walk_value nested body"
  by (cases n) auto

lemma walk_array_read:
  assumes w: "blank w" and es: "es \<noteq> ENil \<Longrightarrow> elements_read w n es"
    and body: "body = pre @ CHR ''['' # render_elements w es @ w @ CHR '']'' # post"
  shows "\<exists>new. walk_array (ctx_value n body) body (length pre) spans =
      Some (Good (length pre + 1 + length (render_elements w es @ w) + 1, spans @ new)) \<and>
    set new = invocations_elements w (length pre + 1) es"
proof (cases es)
  case ENil
  have "skipWS body (length (pre @ ''['')) = length (pre @ ''['' @ w)" "peek body (length (pre @ ''['' @ w)) = Some (CHR '']'')"
    using skip_blank [OF w, of "CHR '']''" "pre @ ''[''" post] peek_blank [of "pre @ ''[''" w "CHR '']''" post]
    by (simp_all add: body ENil)
  then show ?thesis by (simp add: walk_array_def ENil)
next
  case (ECons j es')
  let ?P = "pre @ ''[''"
  have b: "body = ?P @ render_elements w es @ w @ CHR '']'' # post" by (simp add: body)
  obtain new where new: "array_loop (ctx_value n body) body (length ?P) spans =
      Some (Good (length (?P @ render_elements w es @ w) + 1, spans @ new))"
      "set new = invocations_elements w (length ?P) es"
    using es ECons b unfolding elements_read_def by blast
  have "peek body (skipWS body (length ?P)) \<noteq> Some (CHR '']'')"
  proof
    assume "peek body (skipWS body (length ?P)) = Some (CHR '']'')"
    moreover obtain nested where n: "ctx_value n body = walk_value nested body" using ctx_value_walk by blast
    ultimately have "ctx_value n body False (length ?P) spans = Some Bad"
      by (simp add: walk_value_def digit_def less_eq_char_def)
    then have "array_loop (ctx_value n body) body (length ?P) spans = Some Bad"
      by (subst array_loop.simps) simp
    then show False using new(1) by simp
  qed
  then show ?thesis using new by (auto simp: walk_array_def Let_def array_loop_skip)
qed

lemma walk_object_read:
  assumes w: "blank w" and ms: "ms \<noteq> MNil \<Longrightarrow> members_read w n ms"
    and body: "body = pre @ CHR ''{'' # render_members w ms @ w @ CHR ''}'' # post"
  shows "\<exists>new. walk_object (ctx_value n body) body (length pre) spans =
      Some (Good (length pre + 1 + length (render_members w ms @ w) + 1, spans @ new)) \<and>
    set new = invocations_members w None (length pre + 1) ms"
proof (cases ms)
  case MNil
  have "skipWS body (length (pre @ ''{'')) = length (pre @ ''{'' @ w)" "peek body (length (pre @ ''{'' @ w)) = Some (CHR ''}'')"
    using skip_blank [OF w, of "CHR ''}''" "pre @ ''{''" post] peek_blank [of "pre @ ''{''" w "CHR ''}''" post]
    by (simp_all add: body MNil)
  then show ?thesis by (simp add: walk_object_def MNil)
next
  case (MCons k j ms')
  let ?P = "pre @ ''{''" and ?f = "\<lparr> cf_typ = None, cf_role = None, cf_pending = [] \<rparr>"
  have b: "body = ?P @ render_members w ms @ w @ CHR ''}'' # post" by (simp add: body)
  have "undecided ?f" by (simp add: undecided_def)
  then obtain new where new: "object_loop (ctx_value n body) body (length ?P) ?f spans =
      Some (Good (length (?P @ render_members w ms @ w) + 1, spans @ new))"
      "set new = (if type_at (cf_typ ?f) ms = Some ''tool_use'' then pending_inputs ?f else {}) \<union>
         invocations_members w (cf_typ ?f) (length ?P) ms"
    using ms MCons b unfolding members_read_def by blast
  have "peek body (skipWS body (length ?P)) \<noteq> Some (CHR ''}'')"
  proof
    assume "peek body (skipWS body (length ?P)) = Some (CHR ''}'')"
    then have "object_loop (ctx_value n body) body (length ?P) ?f spans = Some Bad"
      by (subst object_loop.simps) simp
    then show False using new(1) by simp
  qed
  then show ?thesis using new by (auto simp: walk_object_def Let_def object_loop_skip pending_inputs_def)
qed

lemma with_spans_Good: "with_spans (Good p) spans = Good (p, None, spans)"
  by (simp add: with_spans_def)

lemma literal_read:
  assumes w: "blank w" and l: "lit = c # l" "\<not> json_ws c"
    and c: "\<And>nested body collect. walk_value nested (pre @ w @ c # (l @ post)) collect (length pre) spans =
      Some (with_spans (scanLiteral (pre @ w @ c # (l @ post)) (length (pre @ w)) lit) spans)"
  shows "ctx_value n (pre @ w @ lit @ post) collect (length pre) spans = Some (Good (length (pre @ w @ lit), None, spans))"
proof -
  obtain nested where "ctx_value n (pre @ w @ lit @ post) = walk_value nested (pre @ w @ lit @ post)"
    using ctx_value_walk by blast
  then show ?thesis
    using c [of nested] l(1) scanLiteral_append [of "pre @ w @ lit @ post" "pre @ w" lit post] by (simp add: with_spans_Good)
qed

lemma string_read:
  assumes w: "blank w"
  shows "ctx_value n (pre @ w @ quote s @ post) collect (length pre) spans =
    Some (Good (length (pre @ w @ quote s), if collect then Some s else None, spans))"
proof -
  obtain nested where n: "ctx_value n (pre @ w @ quote s @ post) = walk_value nested (pre @ w @ quote s @ post)"
    using ctx_value_walk by blast
  obtain q where q: "quote s = CHR 0x22 # q" by (simp add: quote_def)
  have "scanString (pre @ w @ quote s @ post) (length (pre @ w)) collect =
      Some (Good (length (pre @ w @ quote s), if collect then Some s else None))"
    using scanString_quote [of "pre @ w @ quote s @ post" "pre @ w" s post collect] by simp
  then show ?thesis
    unfolding n using walk_value_char [OF w, of "CHR 0x22" nested pre "q @ post" collect spans] q by (simp add: Let_def)
qed

lemma number_read:
  assumes w: "blank w" and ds: "integer_text ds" and post: "ends_number post"
  shows "ctx_value n (pre @ w @ (if neg then ''-'' else []) @ ds @ post) collect (length pre) spans =
    Some (Good (length (pre @ w @ (if neg then ''-'' else []) @ ds), None, spans))"
proof -
  let ?m = "if neg then ''-'' else []"
  let ?body = "pre @ w @ ?m @ ds @ post"
  obtain nested where n: "ctx_value n ?body = walk_value nested ?body" using ctx_value_walk by blast
  obtain d ds' where d: "ds = d # ds'" "digit d" using ds by (cases ds) (auto simp: integer_text_def)
  obtain c l where cl: "?m @ ds = c # l" "c = CHR ''-'' \<or> digit c" using d by (cases neg) auto
  have "\<not> json_ws c" using cl(2) ws_not_numchar [of c] by (auto simp: numchar_def)
  have scan: "scanNumber ?body (length (pre @ w)) = Good (length (pre @ w @ ?m @ ds))"
    using scanNumber_integer [of ?body "pre @ w" ?m ds post] ds post by simp
  have body: "?body = pre @ w @ c # (l @ post)" using cl(1) by (metis append.assoc append_Cons)
  have other: "c \<noteq> CHR ''{''" "c \<noteq> CHR ''[''" "c \<noteq> CHR 0x22" "c \<noteq> CHR ''t''" "c \<noteq> CHR ''f''" "c \<noteq> CHR ''n''"
    using cl(2) by (auto simp: digit_def less_eq_char_def)
  have "walk_value nested ?body collect (length pre) spans =
      Some (with_spans (scanNumber ?body (length (pre @ w))) spans)"
    unfolding body walk_value_char [OF w \<open>\<not> json_ws c\<close>] Let_def using other cl(2) by simp
  then show ?thesis unfolding n scan with_spans_Good .
qed

lemma array_read:
  assumes w: "blank w" and es: "es \<noteq> ENil \<Longrightarrow> elements_read w n es"
  shows "value_read w (Suc n) (JArr es)"
  unfolding value_read_def
proof (intro allI impI)
  fix pre post collect spans
  let ?body = "pre @ render w (JArr es) @ post"
  have body: "?body = (pre @ w) @ CHR ''['' # render_elements w es @ w @ CHR '']'' # post" by simp
  obtain new where new: "walk_array (ctx_value n ?body) ?body (length (pre @ w)) spans =
      Some (Good (length (pre @ w) + 1 + length (render_elements w es @ w) + 1, spans @ new))"
      "set new = invocations_elements w (length (pre @ w) + 1) es"
    using walk_array_read [OF w es body] by blast
  have "walk_value (Some (ctx_value n ?body)) ?body collect (length pre) spans =
      no_string (walk_array (ctx_value n ?body) ?body (length (pre @ w)) spans)"
    using walk_value_char [OF w, of "CHR ''[''" "Some (ctx_value n ?body)" pre "render_elements w es @ w @ CHR '']'' # post" collect spans]
    by (simp add: Let_def)
  then show "\<exists>new. ctx_value (Suc n) ?body collect (length pre) spans =
      Some (Good (length (pre @ render w (JArr es)), if collect then text_of (JArr es) else None, spans @ new)) \<and>
    set new = invocations w (length pre) (JArr es)"
    using new by (simp add: no_string_def text_of_def)
qed

lemma object_read:
  assumes w: "blank w" and ms: "ms \<noteq> MNil \<Longrightarrow> members_read w n ms"
  shows "value_read w (Suc n) (JObj ms)"
  unfolding value_read_def
proof (intro allI impI)
  fix pre post collect spans
  let ?body = "pre @ render w (JObj ms) @ post"
  have body: "?body = (pre @ w) @ CHR ''{'' # render_members w ms @ w @ CHR ''}'' # post" by simp
  obtain new where new: "walk_object (ctx_value n ?body) ?body (length (pre @ w)) spans =
      Some (Good (length (pre @ w) + 1 + length (render_members w ms @ w) + 1, spans @ new))"
      "set new = invocations_members w None (length (pre @ w) + 1) ms"
    using walk_object_read [OF w ms body] by blast
  have "walk_value (Some (ctx_value n ?body)) ?body collect (length pre) spans =
      no_string (walk_object (ctx_value n ?body) ?body (length (pre @ w)) spans)"
    using walk_value_char [OF w, of "CHR ''{''" "Some (ctx_value n ?body)" pre "render_members w ms @ w @ CHR ''}'' # post" collect spans]
    by (simp add: Let_def)
  then show "\<exists>new. ctx_value (Suc n) ?body collect (length pre) spans =
      Some (Good (length (pre @ render w (JObj ms)), if collect then text_of (JObj ms) else None, spans @ new)) \<and>
    set new = invocations w (length pre) (JObj ms)"
    using new by (simp add: no_string_def text_of_def)
qed

lemma documents_read:
  assumes w: "blank w"
  shows "json_ok j \<Longrightarrow> depth j \<le> n \<Longrightarrow> value_read w n j"
    and "es \<noteq> ENil \<Longrightarrow> elements_ok es \<Longrightarrow> elements_depth es \<le> n \<Longrightarrow> elements_read w n es"
    and "ms \<noteq> MNil \<Longrightarrow> members_ok ms \<Longrightarrow> members_depth ms \<le> n \<Longrightarrow> members_read w n ms"
proof (induction j and es and ms arbitrary: n and n and n)
  case JNull
  show ?case
    using literal_read [OF w, of "''null''" "CHR ''n''" "''ull''"] walk_value_char [OF w, of "CHR ''n''"]
    by (simp add: value_read_def text_of_def Let_def)
next
  case (JBool b)
  show ?case
    using literal_read [OF w, of "''true''" "CHR ''t''" "''rue''"] walk_value_char [OF w, of "CHR ''t''"]
      literal_read [OF w, of "''false''" "CHR ''f''" "''alse''"] walk_value_char [OF w, of "CHR ''f''"]
    by (cases b) (simp_all add: value_read_def text_of_def Let_def)
next
  case (JNum neg ds)
  then show ?case using number_read [OF w, of ds _ n _ neg] by (simp add: value_read_def text_of_def)
next
  case (JText s)
  show ?case using string_read [OF w, of n _ s] by (simp add: value_read_def text_of_def)
next
  case (JArr es)
  then obtain m where "n = Suc m" "elements_depth es \<le> m" by (cases n) auto
  then show ?case using JArr array_read [OF w, of es m] by auto
next
  case (JObj ms)
  then obtain m where "n = Suc m" "members_depth ms \<le> m" by (cases n) auto
  then show ?case using JObj object_read [OF w, of ms m] by auto
next
  case ENil
  then show ?case by simp
next
  case (ECons j es)
  then show ?case by (intro elements_step [OF w]) auto
next
  case MNil
  then show ?case by simp
next
  case (MCons k j ms)
  then show ?case by (intro members_step [OF w]) auto
qed

lemma walk_spans_render:
  assumes "blank w" "json_ok j" "depth j \<le> maxCtxDepth" "ends_number post"
  shows "set (walk_spans (render w j @ post)) = invocations w 0 j"
proof -
  have read: "value_read w maxCtxDepth j" using assms(1-3) by (intro documents_read)
  obtain new where "ctx_value maxCtxDepth (render w j @ post) False 0 [] = Some (Good (length (render w j), None, new))"
      "set new = invocations w 0 j"
    using value_readD [OF read assms(4), of "[]" False "[]"] by auto
  then show ?thesis by (simp add: walk_spans_def)
qed

subsection \<open>Properties\<close>

text \<open>
  C40. The position walk ends on every body, of any shape and depth, and the spans it yields are ordered,
  separate and inside the body.
\<close>

theorem context_walk_total:
  "\<exists>spans. strongValueSpans body = Some spans \<and>
     sorted_wrt (\<lambda>a b. snd a < fst b) spans \<and>
     list_all (\<lambda>s. fst s < snd s \<and> snd s \<le> length body) spans"
  using strongValueSpans_inside [of body] by (auto simp: apart_def list_all_iff)






text \<open>Two table entries share the category \<open>ssh\<close>, so it can be reported as strong and as weak.\<close>

definition split_block :: json where
  "split_block = JObj (MCons ''a'' (JText ''~/.ssh'') (MCons ''arguments'' (JText ''id_rsa'') MNil))"

lemma split_block_text: "render [] split_block = ''{\"a\":\"~/.ssh\",\"arguments\":\"id_rsa\"}''"
  by (simp add: split_block_def quote_def escapes_def escape_def plain_def)

lemma split_block_first: "eachOccurrence (path_rule ''ssh'' [''~/.ssh''] False) ''{\"a\":\"~/.ssh\",\"arguments\":\"id_rsa\"}'' = [(6, 12)]"
  by code_simp

lemma split_block_second:
  "eachOccurrence (path_rule ''ssh'' [''id_rsa'', ''id_ed25519''] True) ''{\"a\":\"~/.ssh\",\"arguments\":\"id_rsa\"}'' = [(27, 33)]"
  by code_simp

lemma strong_and_weak:
  assumes "[] \<notin> set (sn_extraPaths s)"
  shows "\<exists>strong weak. ScanPathsContext s ''{\"a\":\"~/.ssh\",\"arguments\":\"id_rsa\"}'' = Some (strong, weak) \<and>
    ''ssh'' \<in> set strong \<and> ''ssh'' \<in> set weak"
proof -
  let ?body = "''{\"a\":\"~/.ssh\",\"arguments\":\"id_rsa\"}''"
  let ?p1 = "path_rule ''ssh'' [''~/.ssh''] False" and ?p2 = "path_rule ''ssh'' [''id_rsa'', ''id_ed25519''] True"
  have inv: "set (walk_spans ?body) = {(25, 34)}"
    using walk_spans_render [of "[]" split_block "[]"]
    by (simp add: split_block_text) (simp add: split_block_def blank_def maxCtxDepth_def ends_number_def invoked_def
      type_at_def quote_def escapes_def escape_def plain_def Let_def)
  have p: "?p1 \<in> set builtinPaths" "?p2 \<in> set builtinPaths" "pa_category ?p1 = ''ssh''" "pa_category ?p2 = ''ssh''"
    by (simp_all add: builtinPaths_def path_rule_def)
  have hit: "path_hit ?p1 ?body" by (simp add: path_hit_occurrence split_block_first)
  have "(27, 33) \<in> category_occurrences (sn_extraPaths s) ''ssh'' ?body"
    using p(2,4) split_block_second by (auto simp: category_occurrences_def)
  then have strong: "\<exists>q\<in>category_occurrences (sn_extraPaths s) ''ssh'' ?body. touches (set (walk_spans ?body)) (fst q) (snd q)"
    by (rule bexI [rotated]) (simp add: inv touches_def)
  have weak: "\<forall>q\<in>set (eachOccurrence ?p1 ?body). \<not> touches (set (walk_spans ?body)) (fst q) (snd q)"
    by (simp add: inv touches_def split_block_first)
  have gate: "path_gate (sn_extraPaths s) ?body" using hit p(1) by (auto simp: path_gate_def list_ex_iff)
  obtain st wk where c: "classifyPathHits (sn_extraPaths s) ?body = Some (st, wk)" "''ssh'' \<in> set st" "''ssh'' \<in> set wk"
    using classifyPathHits_sets [OF assms, of ?body] strong weak hit p by metis
  then show ?thesis using gate by (simp add: ScanPathsContext_def)
qed

text \<open>
  C39. The shared pass of the request path reports what the two scans report on their own: the secret
  names of Scan and the two lists of ScanPathsContext, for every scanner that was built and every
  body.
\<close>

theorem combined_scan_exact:
  assumes "table_ok rules" "add_custom custom {} [] = Inr cs"
  shows "\<exists>s names strong weak. NewScannerWithOptions rules custom secrets extraPaths dec = Some (Inr s) \<and>
    Scan s body = Some names \<and> ScanPathsContext s body = Some (strong, weak) \<and>
    ScanSecretsAndPaths s body = Some (names, strong, weak)"
proof -
  obtain s ns where s: "NewScannerWithOptions rules custom secrets extraPaths dec = Some (Inr s)"
      "scanner_for dec secrets s ns"
    using NewScanner_for [OF assms] by blast
  then have ok: "prefilter_of s ns" by (simp add: scanner_for_def)
  obtain hits where "ac_search (sn_ac s) body = Some hits" using scan_hits [OF ok] by blast
  then obtain r where r: "findAllGated s body = Some r" by (simp add: findAllGated_def Let_def case_prod_beta)
  have "classifyPathHits (sn_extraPaths s) body \<noteq> None"
    using strongValueSpans_exact [of body] by (auto simp: classifyPathHits_def)
  then obtain st wk where c: "classifyPathHits (sn_extraPaths s) body = Some (st, wk)" by auto
  show ?thesis
    using s(1) r c gate_iff [OF ok r]
    by (cases "sr_pathGate r") (auto simp: Scan_def findAll_def ScanPathsContext_def ScanSecretsAndPaths_def Let_def)
qed

lemma combined_scan_exact_witness:
  "\<exists>s names strong weak. NewScannerWithOptions [] [] [] [''/etc/shadow''] False = Some (Inr s) \<and>
    Scan s ''cat /etc/shadow'' = Some names \<and> ScanPathsContext s ''cat /etc/shadow'' = Some (strong, weak) \<and>
    ScanSecretsAndPaths s ''cat /etc/shadow'' = Some (names, strong, weak)"
  by (rule combined_scan_exact [where cs = "[]"]) (simp_all add: table_ok_def)

end
