(* ===== verification/Spec2Isabelle.thy ===== *)
theory Spec2Isabelle
  imports Manager_Invariant Wirecap_Props Profile_Props Serve_Props Routes_Props Cache_Replay Pass_Props
    Config_Validate_Props Guard_Session_Props Guard_Json
begin

text \<open>
  A verification of the routing core of model-proxy, a local proxy in Go that exposes model names to
  coding agents and forwards each request to one of several upstream providers and accounts.

  \<^bold>\<open>The program.\<close> A request names a model. The route table (\<open>internal/routing/implicit_routes.go\<close>)
  turns the name into targets, pairs of a provider account and a model. The runtime Manager
  (\<open>internal/runtime\<close>) holds all mutable routing state under one lock: circuit breakers and rate limits
  per provider, locks and learned parameter blocks per model, quota snapshots, session bindings, pins,
  escalation latches, operator freezes and disables; it orders the targets of a request. The pipeline
  (\<open>internal/forward\<close>) adds what depends on the request (size, images, tools), the route policy (bands,
  grades, selector, latch), tries the targets in order, and waits and retries when all are cooling
  down. The target executor (\<open>internal/targetexec\<close>) runs one attempt: it takes the half-open slot,
  exchanges messages with the upstream, repairs a rejected request, classifies the answer and records
  it in the Manager. Responses can be served from an exact-match cache (\<open>internal/cache\<close>). Which protocol
  a target speaks is decided from probe verdicts (\<open>internal/runtime/wirecap\<close>). The configuration is
  validated before it is used (\<open>internal/config\<close>). Before a request leaves, the guard
  (\<open>internal/guard\<close>) looks for credentials and sensitive paths in its body.

  \<^bold>\<open>Theories and sources.\<close>
  \<^item> \<open>Prelude\<close>: time, maps, strings, stable sorting. \<open>Rotation\<close>: round-robin counters. \<open>Regex\<close>: matching
    of Go regular expressions over UTF-8, used by the classifiers.
  \<^item> \<open>Quota_Snapshot\<close>: \<open>provider/provider.go\<close>, \<open>provider/quota_eta.go\<close> and the exhaustion test of
    \<open>runtime/manager_schedule.go\<close>.
  \<^item> \<open>Manager_State\<close>, \<open>Manager_Quality\<close>, \<open>Manager_Health\<close>, \<open>Manager_Routing\<close>, \<open>Manager_Persist\<close>,
    \<open>Manager_Schedule\<close>: the files of \<open>internal/runtime\<close> of the same names. The record \<open>Manager\<close> has the fields
    of the Go struct; every method is one function from a Manager to its result and the new Manager.
  \<^item> \<open>Schedule_Order\<close>, \<open>Schedule_Props\<close>, \<open>Schedule_Sessions\<close>, \<open>Schedule_Preview\<close>, \<open>Health_Props\<close>,
    \<open>Persist_Props\<close>: their properties. \<open>Manager_Steps\<close> and \<open>Manager_Invariant\<close>: the Manager as a state
    machine whose labels are its methods, so that an interleaving of requests is a list of labels.
  \<^item> \<open>Wirecap\<close>, \<open>Wirecap_Props\<close>: \<open>runtime/wirecap\<close> (classification, resolution, both verdict stores).
  \<^item> \<open>Config_Model\<close>, \<open>Config_Validate\<close>, \<open>Config_Validate_Props\<close>: the values of \<open>config/config.go\<close> that routing reads,
    with their defaults, and \<open>validateRouting\<close> up to the shadow limits.
  \<^item> \<open>Resolver\<close>, \<open>Routes\<close>, \<open>Routes_Props\<close>: \<open>routing/resolver.go\<close>, \<open>routing/implicit_routes.go\<close>,
    \<open>routing/native_protocol.go\<close>.
  \<^item> \<open>Request_Profile\<close>, \<open>Request_Planner\<close>, \<open>Profile_Props\<close>, \<open>Planner_Props\<close>: \<open>routing/request.go\<close> and
    \<open>forward/plan.go\<close> (token estimate, capability and context fit, context-overflow retry).
  \<^item> \<open>Proxy_Schedule\<close>, \<open>Proxy_Props\<close>: \<open>app/proxy_schedule.go\<close>. \<open>Forward_Plan\<close>: its binding to the planner.
  \<^item> \<open>Route_Policy\<close>, \<open>Forward_Policy\<close>, \<open>Policy_Props\<close>: \<open>routing/policy.go\<close> and \<open>forward/policy.go\<close>.
  \<^item> \<open>Forward_Serve\<close>, \<open>Serve_Props\<close>: admission, the wait-and-retry loop and the escalation signal of
    \<open>forward/forward.go\<close>, and \<open>routing/retry.go\<close>. \<open>Serve_Pass\<close>, \<open>Pass_Props\<close>: one pass of \<open>serveOnce\<close>.
  \<^item> \<open>Rate_Limit\<close>, \<open>Rate_Limit_Props\<close>, \<open>Failure_Class\<close>: \<open>targetexec/rate_limit.go\<close> and \<open>targetexec/failure.go\<close>.
    \<open>Target_Exec\<close>, \<open>Exec_Props\<close>: \<open>targetexec/executor.go\<close> and \<open>targetexec/host.go\<close>.
  \<^item> \<open>Guard_Matcher\<close>, \<open>Guard_Matcher_Props\<close>: the Aho-Corasick automaton of \<open>guard/matcher.go\<close>.
    \<open>Guard_Codec\<close>: base64, hexadecimal and query escaping, the variants of a secret and the decoding of
    token spans. \<open>Guard_Paths\<close>: \<open>guard/paths.go\<close>. \<open>Guard_Scanner\<close>: the scanner of \<open>guard/scanner.go\<close> and
    \<open>guard/rules.go\<close>. \<open>Guard_Scanner_Props\<close>, \<open>Guard_Known_Props\<close>, \<open>Guard_Claims_Props\<close>, \<open>Guard_Redact_Props\<close>:
    its construction, the known-secret channels, the claimed spans, redaction and the names of a scan.
    \<open>Guard_Context\<close>, \<open>Guard_Context_Props\<close>: the one-pass walk over the JSON of a body in \<open>guard/pathctx.go\<close>
    and the classes of sensitive paths. \<open>Guard_Json\<close>: an abstract syntax of JSON with a printer, on which
    the walk is shown to find exactly the values of tool invocations.
    \<open>Guard_Fragment\<close>: a secret arriving in pieces. \<open>Guard_Session\<close>, \<open>Guard_Session_Props\<close>: the session
    windows of \<open>guard/session/session_scan.go\<close> and the split check of \<open>forward/forward.go\<close>, as a state
    machine whose steps are a check, the locked part of \<open>Add\<close> and the publication of a verdict.
  \<^item> \<open>Response_Cache\<close>, \<open>Cache_Codec\<close>, \<open>Cache_Props\<close>, \<open>Cache_Replay\<close>: the files of \<open>internal/cache\<close>.

  \<^bold>\<open>What is shown.\<close>
  \<^item> Scheduling: an order holds only enabled targets that are available (or pinned), every available
    provider is in it, the head is minimal, sessions stay, rotation is fair, and the preview of the status
    page is the live decision.
  \<^item> Health, over all interleavings: one half-open probe at a time, stale requests are inert, freezes
    and rate limits hold, circuits open exactly on persistent streaks, and recovery times are sound;
    snapshots survive a restart.
  \<^item> The request path: admission errors are exact, operator-disabled models are never used, whatever
    policy and fallbacks do; context retries only grow; a pass and the loop around it end, with at most
    three passes of a request and seven exchanges of an attempt; every attempt settles its probe;
    escalation takes effect; rate limits park a provider for a bounded time.
  \<^item> The cache refines the map of last stored responses, its key separates callers and requests up to
    hash collisions, and a replay is byte-exact or was never stored.
  \<^item> Configuration: an accepted policy resolves to servable grades independently of map order, and
    every accepted route is callable.
  \<^item> Protocol verdicts: no dead leg is chosen while a live one is known, stored verdicts belong to the
    current fingerprint, conclusions are kept, and offline and online resolution agree.
  \<^item> Guard: the automaton finds exactly the occurrences of its needles; the known-secret channel reports
    a credential exactly if the body holds it or an encoded form of it, and agrees with the whole scan;
    redaction leaves no configured credential between its placeholders; the walk over JSON ends on every
    body and a path is strong exactly in a tool invocation; the shared pass equals the separate scans; in
    every interleaving of sessions the windows stay bounded, cached verdicts are right, a scan of the
    junction decides for the whole text, and a credential reported as split was split.

  Interfaces are locales, each interpreted on the model's own definitions: round-robin counters, the
  fit test the planner relies on, the multi-needle search of the guard, the range over a Go map, the response writer, and the probe port of the
  executor, which the gate over the Manager provides.

  \<^bold>\<open>Choices.\<close> Methods of the Manager run atomically, as they do under its mutex; clock readings are
  arguments. \<open>float64\<close> is real and \<open>int\<close> unbounded, except where the width matters: generations,
  counters and the FNV hash are words, \<open>Time.Sub\<close> saturates, and the arithmetic of reset hints wraps at
  64 bits. \<open>ToLower\<close> and \<open>TrimSpace\<close> act on ASCII. Ranging over a Go map follows the key order, or an
  arbitrary order given as an argument where the result depends on it (eviction). Duration texts are held
  as the results of parsing them. \<open>sort.Slice\<close> is a stable sort. Copies of values are the values, and a
  nil pointer is \<open>None\<close>. What lies outside is an argument of the definitions that use it: the upstream
  exchange, credential refresh, delivery to the client, the selector's model call, the fusion engine,
  the planning of a target, SHA-256, time parsing, the rewriting of JSON bodies, and the embedded
  rule table of the guard, in which a compiled regular expression is the value of its search methods.
  In the guard \<open>None\<close> stands for a loop that would not end or an index out of range, and both are excluded. Loops whose end is not
  structural are total functions with a proved measure, so no fuel is needed: a pass spends its list or
  its one replacement, an attempt spends a credential refresh or one of five repairs.

  \<^bold>\<open>Not modelled.\<close> The conversion of bodies and streams between protocols, building and transporting
  HTTP messages, the provider adapters and their polling, the fusion engine, shadow and evaluation
  traffic, the MCP gateway, logs and statistics, accounts and login, takeover, the web
  console and the command line, YAML loading, and the sections of the configuration validated after the
  routing ones. They are I/O or text processing around the core, or observers of it; JSON rewriting is
  the next candidate for modelling.
\<close>

end
